(* ===== verification/Prelude.thy ===== *)
theory Prelude
  imports Main "HOL-Library.List_Lexorder" "HOL-Library.Char_ord" "HOL-Library.Multiset"
begin

text \<open>
  Material every component shares: Go strings as byte lists, the decimal printing of
  \<open>fmt\<close> and \<open>strconv\<close>, the white space of \<open>strings.TrimSpace\<close>, Go maps with string
  keys as association lists sorted by key (so that equal maps are equal lists), and the
  generic list lemmas the component proofs use. The collections \<open>gomap\<close> (facts about
  maps) and \<open>decimal\<close> (facts about printed numbers) are filled here and used by name.
\<close>

named_theorems gomap "facts about Go maps as sorted association lists"
named_theorems decimal "facts about decimal printing and reading"

section \<open>Decimal numbers\<close>

definition digit_char :: "nat \<Rightarrow> char" where
  "digit_char d = char_of (48 + d)"

definition is_dec_digit :: "char \<Rightarrow> bool" where
  "is_dec_digit ch = (48 \<le> (of_char ch :: nat) \<and> (of_char ch :: nat) \<le> 57)"

definition digit_val :: "char \<Rightarrow> nat" where
  "digit_val ch = of_char ch - 48"

fun show_nat :: "nat \<Rightarrow> string" where
  "show_nat n = (if n < 10 then [digit_char n] else show_nat (n div 10) @ [digit_char (n mod 10)])"

declare show_nat.simps [simp del]

text \<open>The text of \<open>%d\<close> (and of \<open>strconv.Itoa\<close>).\<close>

definition show_int :: "int \<Rightarrow> string" where
  "show_int i = (if i < 0 then CHR ''-'' # show_nat (nat (- i)) else show_nat (nat i))"

definition read_nat :: "string \<Rightarrow> nat" where
  "read_nat s = foldl (\<lambda>a ch. 10 * a + digit_val ch) 0 s"

lemma of_char_digit_char: "d < 10 \<Longrightarrow> (of_char (digit_char d) :: nat) = 48 + d"
  by (simp add: digit_char_def)

lemma is_dec_digit_digit_char [decimal]: "d < 10 \<Longrightarrow> is_dec_digit (digit_char d)"
  by (simp add: is_dec_digit_def of_char_digit_char)

lemma digit_val_digit_char [decimal]: "d < 10 \<Longrightarrow> digit_val (digit_char d) = d"
  by (simp add: digit_val_def of_char_digit_char)

lemma show_nat_nonempty [decimal, simp]: "show_nat n \<noteq> []"
  by (subst show_nat.simps) simp

lemma show_nat_digits [decimal]: "ch \<in> set (show_nat n) \<Longrightarrow> is_dec_digit ch"
proof (induction n rule: show_nat.induct)
  case (1 n)
  show ?case
  proof (cases "n < 10")
    case True
    with "1.prems" show ?thesis
      by (simp add: show_nat.simps [of n] is_dec_digit_digit_char)
  next
    case False
    with "1" show ?thesis
      by (auto simp: show_nat.simps [of n] is_dec_digit_digit_char)
  qed
qed

lemma read_nat_snoc: "read_nat (s @ [ch]) = 10 * read_nat s + digit_val ch"
  by (simp add: read_nat_def)

lemma read_show_nat [decimal]: "read_nat (show_nat n) = n"
proof (induction n rule: show_nat.induct)
  case (1 n)
  show ?case
  proof (cases "n < 10")
    case True
    then show ?thesis
      by (simp add: show_nat.simps [of n] read_nat_def digit_val_digit_char)
  next
    case False
    with "1.IH" show ?thesis
      by (simp add: show_nat.simps [of n] read_nat_snoc digit_val_digit_char)
  qed
qed

lemma show_nat_inject [simp]: "show_nat m = show_nat n \<longleftrightarrow> m = n"
  by (metis read_show_nat)

lemma show_int_of_nat [decimal]: "show_int (int n) = show_nat n"
  by (simp add: show_int_def)

text \<open>
  \<open>strconv.Atoi\<close>: an optional sign and at least one decimal digit, within the range of a
  64-bit \<open>int\<close>.
\<close>

definition go_atoi :: "string \<Rightarrow> int option" where
  "go_atoi s = (let (neg, ds) = (case s of [] \<Rightarrow> (False, [])
         | ch # r \<Rightarrow> if ch = CHR ''-'' then (True, r) else if ch = CHR ''+'' then (False, r)
             else (False, s))
     in if ds = [] \<or> \<not> list_all is_dec_digit ds then None
        else let i = (if neg then - int (read_nat ds) else int (read_nat ds)) in
          if - (2 ^ 63) \<le> i \<and> i < 2 ^ 63 then Some i else None)"

lemma hd_show_nat_digit: "is_dec_digit (hd (show_nat n))"
  using hd_in_set [OF show_nat_nonempty [of n]] by (rule show_nat_digits)

lemma go_atoi_show_nat [decimal]:
  assumes "int n < 2 ^ 63"
  shows "go_atoi (show_nat n) = Some (int n)"
proof -
  obtain ch r where s: "show_nat n = ch # r"
    by (meson list.exhaust show_nat_nonempty)
  with hd_show_nat_digit [of n] have "ch \<noteq> CHR ''-''" and "ch \<noteq> CHR ''+''"
    by (auto simp: is_dec_digit_def)
  moreover have "list_all is_dec_digit (show_nat n)"
    by (auto simp: list_all_iff dest: show_nat_digits)
  ultimately show ?thesis
    using assms read_show_nat [of n] by (simp add: go_atoi_def s)
qed

section \<open>White space and trimming\<close>

text \<open>
  The UTF-8 encodings of the characters \<open>unicode.IsSpace\<close> accepts: the ASCII ones, then
  U+0085, U+00A0, U+1680, U+2000 to U+200A, U+2028, U+2029, U+202F, U+205F and U+3000.
\<close>

definition ascii_spaces :: "nat list" where
  "ascii_spaces = [9, 10, 11, 12, 13, 32]"

definition wide_spaces :: "nat list list" where
  "wide_spaces = [[0xC2, 0x85], [0xC2, 0xA0], [0xE1, 0x9A, 0x80],
     [0xE2, 0x80, 0x80], [0xE2, 0x80, 0x81], [0xE2, 0x80, 0x82], [0xE2, 0x80, 0x83],
     [0xE2, 0x80, 0x84], [0xE2, 0x80, 0x85], [0xE2, 0x80, 0x86], [0xE2, 0x80, 0x87],
     [0xE2, 0x80, 0x88], [0xE2, 0x80, 0x89], [0xE2, 0x80, 0x8A], [0xE2, 0x80, 0xA8],
     [0xE2, 0x80, 0xA9], [0xE2, 0x80, 0xAF], [0xE2, 0x81, 0x9F], [0xE3, 0x80, 0x80]]"

definition space_seqs :: "string list" where
  "space_seqs = map (\<lambda>n. [char_of n]) ascii_spaces @ map (map char_of) wide_spaces"

fun strip_prefix :: "string \<Rightarrow> string \<Rightarrow> string option" where
  "strip_prefix [] s = Some s"
| "strip_prefix (x # xs) [] = None"
| "strip_prefix (x # xs) (y # ys) = (if x = y then strip_prefix xs ys else None)"

text \<open>The number of bytes of the space character a string starts with, 0 if it does not.\<close>

definition space_len :: "string list \<Rightarrow> string \<Rightarrow> nat" where
  "space_len seqs s = (case find (\<lambda>w. strip_prefix w s \<noteq> None) seqs of
     None \<Rightarrow> 0 | Some w \<Rightarrow> length w)"

function trim_left_by :: "string list \<Rightarrow> string \<Rightarrow> string" where
  "trim_left_by seqs s =
     (if s = [] \<or> space_len seqs s = 0 then s else trim_left_by seqs (drop (space_len seqs s) s))"
  by pat_completeness auto
termination
  by (relation "measure (\<lambda>(seqs, s). length s)") auto

declare trim_left_by.simps [simp del]

definition trim_left :: "string \<Rightarrow> string" where
  "trim_left s = trim_left_by space_seqs s"

definition trim_right :: "string \<Rightarrow> string" where
  "trim_right s = rev (trim_left_by (map rev space_seqs) (rev s))"

text \<open>\<open>strings.TrimSpace\<close>.\<close>

definition trim_space :: "string \<Rightarrow> string" where
  "trim_space s = trim_right (trim_left s)"

definition has_prefix :: "string \<Rightarrow> string \<Rightarrow> bool" where
  "has_prefix s w = (strip_prefix w s \<noteq> None)"

lemma strip_prefix_iff: "strip_prefix w s = Some r \<longleftrightarrow> s = w @ r"
  by (induction w s rule: strip_prefix.induct) auto

lemma has_prefix_iff: "has_prefix s w \<longleftrightarrow> (\<exists>r. s = w @ r)"
  by (auto simp: has_prefix_def strip_prefix_iff [symmetric])

text \<open>\<open>strings.Join\<close>.\<close>

fun str_join :: "string \<Rightarrow> string list \<Rightarrow> string" where
  "str_join sep [] = []"
| "str_join sep [s] = s"
| "str_join sep (s # t # ss) = s @ sep @ str_join sep (t # ss)"

text \<open>\<open>strings.Split\<close> with a one-byte separator.\<close>

fun str_split :: "char \<Rightarrow> string \<Rightarrow> string list" where
  "str_split sep [] = [[]]"
| "str_split sep (ch # s) =
     (if ch = sep then [] # str_split sep s
      else (case str_split sep s of [] \<Rightarrow> [[ch]] | w # ws \<Rightarrow> (ch # w) # ws))"

text \<open>
  The escape \<open>%q\<close> gives a byte: the ASCII rules of \<open>strconv.Quote\<close>; bytes from 0x80 on
  (parts of printable UTF-8 characters) stand for themselves.
\<close>

definition hex_char :: "nat \<Rightarrow> char" where
  "hex_char n = (if n < 10 then digit_char n else char_of (87 + n))"

definition quote_byte :: "char \<Rightarrow> string" where
  "quote_byte ch = (let n = (of_char ch :: nat) in
     if n = 0x22 then [CHR 0x5C, CHR 0x22]
     else if n = 0x5C then [CHR 0x5C, CHR 0x5C]
     else if n = 7 then [CHR 0x5C, CHR ''a'']
     else if n = 8 then [CHR 0x5C, CHR ''b'']
     else if n = 9 then [CHR 0x5C, CHR ''t'']
     else if n = 10 then [CHR 0x5C, CHR ''n'']
     else if n = 11 then [CHR 0x5C, CHR ''v'']
     else if n = 12 then [CHR 0x5C, CHR ''f'']
     else if n = 13 then [CHR 0x5C, CHR ''r'']
     else if n < 32 \<or> n = 127 then [CHR 0x5C, CHR ''x'', hex_char (n div 16), hex_char (n mod 16)]
     else [ch])"

definition go_quote :: "string \<Rightarrow> string" where
  "go_quote s = [CHR 0x22] @ concat (map quote_byte s) @ [CHR 0x22]"

section \<open>Go maps with string keys\<close>

text \<open>
  A \<open>map[string]T\<close> is an association list sorted by key, without duplicates. Reading is
  \<open>map_of\<close>, writing is the ordered insertion below. The order in which \<open>range\<close> visits
  the keys is not the order of this list: it is chosen by the environment.
\<close>

type_synonym 'v gmap = "(string \<times> 'v) list"

fun map_put :: "string \<Rightarrow> 'v \<Rightarrow> 'v gmap \<Rightarrow> 'v gmap" where
  "map_put k v [] = [(k, v)]"
| "map_put k v ((k', v') # m) =
     (if k < k' then (k, v) # (k', v') # m
      else if k = k' then (k, v) # m
      else (k', v') # map_put k v m)"

definition wf_map :: "'v gmap \<Rightarrow> bool" where
  "wf_map m = sorted_wrt (<) (map fst m)"

abbreviation map_keys :: "'v gmap \<Rightarrow> string list" where
  "map_keys m \<equiv> map fst m"

lemma map_of_map_put [gomap, simp]: "map_of (map_put k v m) = (map_of m)(k \<mapsto> v)"
  by (induction k v m rule: map_put.induct) auto

lemma set_keys_map_put [gomap, simp]: "set (map_keys (map_put k v m)) = insert k (set (map_keys m))"
  by (induction k v m rule: map_put.induct) auto

lemma wf_map_Nil [gomap, simp]: "wf_map []"
  by (simp add: wf_map_def)

lemma wf_map_Cons [gomap, simp]:
  "wf_map ((k, v) # m) \<longleftrightarrow> (\<forall>k' \<in> set (map_keys m). k < k') \<and> wf_map m"
  by (simp add: wf_map_def)

lemma wf_map_put [gomap, intro]: "wf_map m \<Longrightarrow> wf_map (map_put k v m)"
proof (induction k v m rule: map_put.induct)
  case (2 k v k' v' m)
  then have "\<And>j. j \<in> set (map_keys m) \<Longrightarrow> k' < j" and "wf_map m"
    by auto
  with "2.IH" show ?case
    by (auto dest: less_trans simp: set_keys_map_put simp del: set_map)
qed simp

lemma wf_map_distinct [gomap]: "wf_map m \<Longrightarrow> distinct (map_keys m)"
  unfolding wf_map_def using strict_sorted_iff by blast

text \<open>Sorted lists represent each map once.\<close>

lemma assoc_eqI:
  "map fst m = map fst m' \<Longrightarrow> distinct (map fst m) \<Longrightarrow> map_of m = map_of m' \<Longrightarrow> m = m'"
proof (induction m arbitrary: m')
  case (Cons x m)
  obtain k v where x: "x = (k, v)" by (cases x)
  with Cons.prems(1) obtain v' n where m': "m' = (k, v') # n" and keys: "map fst m = map fst n"
    by (cases m') auto
  have "map_of (x # m) k = map_of m' k"
    by (simp only: Cons.prems(3))
  then have v: "v = v'" by (simp add: x m')
  have "map_of m j = map_of n j" for j
  proof (cases "j = k")
    case True
    with Cons.prems(2) keys show ?thesis
      by (simp add: x) (metis list.set_map map_of_eq_None_iff)
  next
    case False
    with fun_cong [OF Cons.prems(3), of j] show ?thesis by (simp add: x m')
  qed
  with Cons.IH [OF keys] Cons.prems(2) v show ?case by (simp add: x m' ext)
qed simp

lemma wf_map_eqI [gomap]:
  assumes "wf_map m" and "wf_map m'" and "map_of m = map_of m'"
  shows "m = m'"
proof (rule assoc_eqI)
  have "set (map_keys m) = set (map_keys m')"
    using assms(3) by (metis dom_map_of_conv_image_fst list.set_map)
  then show "map_keys m = map_keys m'"
    using assms(1,2) unfolding wf_map_def strict_sorted_iff
    by (metis sorted_distinct_set_unique)
qed (use assms wf_map_distinct in auto)

text \<open>Reading and writing as an interface: the laws a Go map keeps.\<close>

locale key_map =
  fixes put :: "'k \<Rightarrow> 'v \<Rightarrow> 'm \<Rightarrow> 'm" and get :: "'m \<Rightarrow> 'k \<Rightarrow> 'v option"
    and inv :: "'m \<Rightarrow> bool"
  assumes get_put: "get (put k v m) = (get m)(k \<mapsto> v)"
    and inv_put: "inv m \<Longrightarrow> inv (put k v m)"
    and ext_get: "inv m \<Longrightarrow> inv m' \<Longrightarrow> get m = get m' \<Longrightarrow> m = m'"
begin

lemma get_put_same: "get (put k v m) k = Some v"
  by (simp add: get_put)

lemma get_put_other: "k \<noteq> j \<Longrightarrow> get (put k v m) j = get m j"
  by (simp add: get_put)

lemma put_swap: "inv m \<Longrightarrow> k \<noteq> j \<Longrightarrow> put k v (put j w m) = put j w (put k v m)"
  by (rule ext_get) (auto intro: inv_put simp: get_put)

lemma put_twice: "inv m \<Longrightarrow> put k v (put k w m) = put k v m"
  by (rule ext_get) (auto intro: inv_put simp: get_put)

lemma put_id: "inv m \<Longrightarrow> get m k = Some v \<Longrightarrow> put k v m = m"
  by (rule ext_get) (auto intro: inv_put simp: get_put)

end

interpretation gomap: key_map map_put map_of wf_map
  by unfold_locales (auto intro: wf_map_eqI)

text \<open>A map built from a list of pairs, later pairs overwriting earlier ones.\<close>

definition map_from :: "(string \<times> 'v) list \<Rightarrow> 'v gmap" where
  "map_from ps = fold (\<lambda>(k, v). map_put k v) ps []"

lemma fold_put_get: "map_of (fold (\<lambda>(k, v). map_put k v) ps m) = map_of m ++ map_of (rev ps)"
proof (induction ps arbitrary: m)
  case (Cons p ps)
  then show ?case by (cases p) (simp add: map_add_upd_left map_add_def fun_eq_iff split: option.splits)
qed simp

lemma wf_fold_put: "wf_map m \<Longrightarrow> wf_map (fold (\<lambda>(k, v). map_put k v) ps m)"
  by (induction ps arbitrary: m) (auto intro: wf_map_put)

lemma wf_map_from [gomap, simp]: "wf_map (map_from ps)"
  by (simp add: map_from_def wf_fold_put)

lemma map_of_map_from [gomap, simp]: "map_of (map_from ps) = map_of (rev ps)"
  by (simp add: map_from_def fold_put_get)

lemma map_of_map_snd: "map_of (map (\<lambda>(k, v). (k, f v)) m) k = map_option f (map_of m k)"
  by (induction m) auto

lemma sort_wf_keys: "wf_map m \<Longrightarrow> sort (map_keys m) = map_keys m"
  unfolding wf_map_def strict_sorted_iff by (simp add: sorted_sort_id)

section \<open>Lists\<close>

lemma fold_invariant_all:
  "P s \<Longrightarrow> (\<And>x t. x \<in> set xs \<Longrightarrow> P t \<Longrightarrow> P (f x t)) \<Longrightarrow> P (fold f xs s)"
  by (induction xs arbitrary: s) auto

lemma sum_mset_map_perm:
  fixes g :: "'a \<Rightarrow> 'b multiset"
  assumes "mset xs = mset ys"
  shows "sum_list (map g xs) = sum_list (map g ys)"
  by (metis assms mset_map sum_mset_sum_list)

lemma sum_list_mset_empty_iff [simp]:
  "sum_list (ms :: 'b multiset list) = {#} \<longleftrightarrow> (\<forall>m \<in> set ms. m = {#})"
  by (induction ms) auto

end
