(* ===== verification/GoFloat.thy ===== *)
theory GoFloat
  imports Prelude Complex_Main
begin

text \<open>
  Go's floating-point numbers. A value of type \<open>float64\<close> (or \<open>float32\<close>) is a NaN, an
  infinity, negative zero or a finite number, kept as the exact rational it denotes; the
  inexact operations compute the exact rational result and round it to the format, to
  nearest with ties to even. \<open>float_fmt\<close> gives the precision and exponent range of the two
  formats. Comparisons are IEEE comparisons: a NaN is unordered and unequal to itself,
  the two zeros are equal. The printing (\<open>%v\<close>, \<open>%g\<close>) and scanning (\<open>fmt.Sscanf\<close> with
  \<open>%f\<close>) that the code relies on are at the end.
\<close>

datatype f64 = FNaN | FInf bool | FNegZero | FFin rat

record float_fmt =
  ff_prec :: nat
  ff_emin :: int
  ff_emax :: int

definition double_fmt :: float_fmt where
  "double_fmt = \<lparr>ff_prec = 53, ff_emin = -1074, ff_emax = 1024\<rparr>"

definition single_fmt :: float_fmt where
  "single_fmt = \<lparr>ff_prec = 24, ff_emin = -149, ff_emax = 128\<rparr>"

section \<open>Rounding\<close>

fun nat_log2 :: "nat \<Rightarrow> nat" where
  "nat_log2 n = (if n < 2 then 0 else Suc (nat_log2 (n div 2)))"

declare nat_log2.simps [simp del]

definition rat_pow :: "rat \<Rightarrow> int \<Rightarrow> rat" where
  "rat_pow b e = (if 0 \<le> e then b ^ nat e else 1 / b ^ nat (- e))"

text \<open>The exponent of the leading bit of a positive rational.\<close>

definition rat_log2 :: "rat \<Rightarrow> int" where
  "rat_log2 q = (let (a, b) = quotient_of q;
       e = int (nat_log2 (nat a)) - int (nat_log2 (nat b))
     in if rat_pow 2 e \<le> q then e else e - 1)"

definition round_half_even :: "rat \<Rightarrow> int" where
  "round_half_even x = (let f = \<lfloor>x\<rfloor>; d = x - of_int f in
     if d < 1 / 2 then f else if 1 / 2 < d then f + 1 else if even f then f else f + 1)"

definition f_round :: "float_fmt \<Rightarrow> rat \<Rightarrow> f64" where
  "f_round fmt q = (if q = 0 then FFin 0 else
     let a = \<bar>q\<bar>;
         e = max (rat_log2 a - int (ff_prec fmt - 1)) (ff_emin fmt);
         m = round_half_even (a / rat_pow 2 e);
         r = of_int m * rat_pow 2 e
     in if rat_pow 2 (ff_emax fmt) \<le> r then FInf (q < 0)
        else if m = 0 then (if q < 0 then FNegZero else FFin 0)
        else FFin (if q < 0 then - r else r))"

text \<open>
  Conversion of an integer. Integers of at most 53 bits are exact, the others are rounded.
\<close>

definition f_of_int :: "int \<Rightarrow> f64" where
  "f_of_int i = (if \<bar>i\<bar> \<le> 2 ^ 53 then FFin (of_int i) else f_round double_fmt (of_int i))"

section \<open>Comparisons and exact operations\<close>

fun f_val :: "f64 \<Rightarrow> rat" where
  "f_val (FFin q) = q"
| "f_val _ = 0"

fun f_lt :: "f64 \<Rightarrow> f64 \<Rightarrow> bool" where
  "f_lt FNaN _ = False"
| "f_lt _ FNaN = False"
| "f_lt (FInf s) y = (s \<and> y \<noteq> FInf True)"
| "f_lt x (FInf s) = (\<not> s)"
| "f_lt x y = (f_val x < f_val y)"

fun f_eq :: "f64 \<Rightarrow> f64 \<Rightarrow> bool" where
  "f_eq FNaN _ = False"
| "f_eq _ FNaN = False"
| "f_eq (FInf s) y = (y = FInf s)"
| "f_eq x (FInf s) = False"
| "f_eq x y = (f_val x = f_val y)"

text \<open>The order of the class \<open>ord\<close> on floats is Go's \<open><\<close> and \<open><=\<close> (no linear order: NaN).\<close>

instantiation f64 :: ord
begin

definition less_f64_def: "x < y \<longleftrightarrow> f_lt x y"

definition less_eq_f64_def: "x \<le> y \<longleftrightarrow> f_lt x y \<or> f_eq x y"

instance ..

end

definition f_zero :: f64 where
  "f_zero = FFin 0"

definition f_neg :: "f64 \<Rightarrow> bool" where
  "f_neg x = (case x of FNaN \<Rightarrow> False | FInf s \<Rightarrow> s | FNegZero \<Rightarrow> True | FFin q \<Rightarrow> q < 0)"

text \<open>\<open>math.Floor\<close>: infinities, NaN and the zeros are returned as they are.\<close>

fun f_floor :: "f64 \<Rightarrow> f64" where
  "f_floor (FFin q) = FFin (of_int \<lfloor>q\<rfloor>)"
| "f_floor x = x"

definition rat_trunc :: "rat \<Rightarrow> int" where
  "rat_trunc q = (if 0 \<le> q then \<lfloor>q\<rfloor> else - \<lfloor>- q\<rfloor>)"

text \<open>
  \<open>math.Mod\<close>: the remainder of truncated division, exact in IEEE arithmetic, with the sign
  of the dividend; NaN when the dividend is infinite, the divisor zero or either a NaN.
\<close>

fun f_mod :: "f64 \<Rightarrow> f64 \<Rightarrow> f64" where
  "f_mod FNaN _ = FNaN"
| "f_mod _ FNaN = FNaN"
| "f_mod (FInf s) _ = FNaN"
| "f_mod x (FInf s) = x"
| "f_mod x y = (if f_val y = 0 then FNaN
     else let r = f_val x - f_val y * of_int (rat_trunc (f_val x / f_val y))
          in if r = 0 then (if f_neg x then FNegZero else FFin 0) else FFin r)"

text \<open>
  \<open>int64(f)\<close>: truncation. Where the value does not fit, Go leaves the result to the
  implementation; amd64 gives the smallest 64-bit integer.
\<close>

fun f_to_int64 :: "f64 \<Rightarrow> int" where
  "f_to_int64 (FFin q) = (let i = rat_trunc q in
     if - (2 ^ 63) \<le> i \<and> i < 2 ^ 63 then i else - (2 ^ 63))"
| "f_to_int64 FNegZero = 0"
| "f_to_int64 _ = - (2 ^ 63)"

text \<open>Division, rounded.\<close>

fun f_div :: "f64 \<Rightarrow> f64 \<Rightarrow> f64" where
  "f_div FNaN _ = FNaN"
| "f_div _ FNaN = FNaN"
| "f_div (FInf s) (FInf t) = FNaN"
| "f_div (FInf s) y = FInf (s \<noteq> f_neg y)"
| "f_div x (FInf t) = (if f_neg x \<noteq> t then FNegZero else FFin 0)"
| "f_div x y = (if f_val y = 0
     then (if f_val x = 0 then FNaN else FInf (f_neg x \<noteq> f_neg y))
     else if f_val x = 0 then (if f_neg x \<noteq> f_neg y then FNegZero else FFin 0)
     else f_round double_fmt (f_val x / f_val y))"

text \<open>Multiplication, rounded.\<close>

fun f_mul :: "f64 \<Rightarrow> f64 \<Rightarrow> f64" where
  "f_mul FNaN _ = FNaN"
| "f_mul _ FNaN = FNaN"
| "f_mul (FInf s) (FInf t) = FInf (s \<noteq> t)"
| "f_mul (FInf s) y = (if f_val y = 0 then FNaN else FInf (s \<noteq> f_neg y))"
| "f_mul x (FInf t) = (if f_val x = 0 then FNaN else FInf (f_neg x \<noteq> t))"
| "f_mul x y = (if f_val x = 0 \<or> f_val y = 0
     then (if f_neg x \<noteq> f_neg y then FNegZero else FFin 0)
     else f_round double_fmt (f_val x * f_val y))"

text \<open>\<open>math.Round\<close>: half away from zero, with the sign of the argument.\<close>

fun f_round_away :: "f64 \<Rightarrow> f64" where
  "f_round_away (FFin q) = (let i = \<lfloor>\<bar>q\<bar> + 1 / 2\<rfloor> in
     if q < 0 then (if i = 0 then FNegZero else FFin (- of_int i)) else FFin (of_int i))"
| "f_round_away x = x"

definition f_is_nan :: "f64 \<Rightarrow> bool" where
  "f_is_nan x = (x = FNaN)"

lemma f_lt_FFin [simp]: "f_lt (FFin a) (FFin b) \<longleftrightarrow> a < b"
  by simp

lemma f_eq_FFin [simp]: "f_eq (FFin a) (FFin b) \<longleftrightarrow> a = b"
  by simp

lemma f_lt_irrefl: "\<not> f_lt x x"
  by (cases x) auto

lemma f_lt_asym: "f_lt x y \<Longrightarrow> \<not> f_lt y x"
  by (induction x y rule: f_lt.induct) auto

lemma f_lt_trans: "f_lt x y \<Longrightarrow> f_lt y z \<Longrightarrow> f_lt x z"
  by (cases x; cases y; cases z) auto

text \<open>Any two floats are ordered one way or equal, unless one of them is a NaN.\<close>

lemma f_trichotomy: "x \<noteq> FNaN \<Longrightarrow> y \<noteq> FNaN \<Longrightarrow> f_lt x y \<or> f_eq x y \<or> f_lt y x"
  by (cases x; cases y) auto

lemma f_eq_sym: "f_eq x y = f_eq y x"
  by (cases x; cases y) auto

lemma f_floor_eq_iff: "f_eq (f_floor (FFin q)) (FFin q) \<longleftrightarrow> q \<in> \<int>"
  by (auto simp: Ints_def)

text \<open>A multiple has remainder zero, and only a multiple has.\<close>

lemma rat_trunc_of_int [simp]: "rat_trunc (of_int i) = i"
  by (auto simp: rat_trunc_def)

lemma f_mod_zero_iff:
  assumes "m \<noteq> 0"
  shows "f_eq (f_mod (FFin q) (FFin m)) f_zero \<longleftrightarrow> q / m \<in> \<int>"
proof -
  let ?t = "rat_trunc (q / m)"
  have "q - m * of_int ?t = 0 \<longleftrightarrow> q / m = of_int ?t"
    using assms by (auto simp: field_simps)
  also have "\<dots> \<longleftrightarrow> q / m \<in> \<int>"
    by (metis Ints_cases Ints_of_int rat_trunc_of_int)
  finally show ?thesis
    using assms by (auto simp: f_zero_def Let_def)
qed

end
