(* ===== verification/GoFloatText.thy ===== *)
theory GoFloatText
  imports GoFloat
begin

text \<open>
  Text of floating-point numbers. \<open>fmt_float\<close> is what \<open>%v\<close> and \<open>%g\<close> print: the shortest
  decimal that reads back as the number, in exponent form when the decimal exponent is
  below -4 or above 5 (see \<open>g_layout\<close>). \<open>sscanf_float\<close> is
  \<open>fmt.Sscanf(s, "%f", &f)\<close>: it skips leading space, takes the longest prefix that looks
  like a float and ignores what follows.
\<close>

section \<open>Shortest decimal printing\<close>

text \<open>The decimal point position: the least \<open>k\<close> with \<open>q < 10 ^ k\<close>, searched from a bound.\<close>

fun dec_up :: "nat \<Rightarrow> rat \<Rightarrow> int \<Rightarrow> int" where
  "dec_up 0 q k = k"
| "dec_up (Suc n) q k = (if rat_pow 10 k \<le> q then dec_up n q (k + 1) else k)"

fun dec_down :: "nat \<Rightarrow> rat \<Rightarrow> int \<Rightarrow> int" where
  "dec_down 0 q k = k"
| "dec_down (Suc n) q k = (if q < rat_pow 10 (k - 1) then dec_down n q (k - 1) else k)"

definition dec_point :: "rat \<Rightarrow> int" where
  "dec_point q = dec_down 400 q (dec_up 400 q 0)"

text \<open>
  The candidates with \<open>n\<close> digits are the two \<open>n\<close>-digit decimals around \<open>q\<close>; of those that
  read back as \<open>q\<close> the nearer one is taken. The search stops at 17 digits, which identify
  every \<open>float64\<close>.
\<close>

definition digit_candidate :: "float_fmt \<Rightarrow> rat \<Rightarrow> int \<Rightarrow> nat \<Rightarrow> nat option" where
  "digit_candidate fmt q k n = (let
       scale = rat_pow 10 (int n - k);
       lo = \<lfloor>q * scale\<rfloor>;
       ok = (\<lambda>d. f_round fmt (of_int d / scale) = FFin q);
       nearer_lo = (q * scale - of_int lo \<le> of_int (lo + 1) - q * scale)
     in if ok lo \<and> (nearer_lo \<or> \<not> ok (lo + 1)) then Some (nat lo)
        else if ok (lo + 1) then Some (nat (lo + 1)) else None)"

fun shortest_digits :: "float_fmt \<Rightarrow> nat \<Rightarrow> rat \<Rightarrow> int \<Rightarrow> nat \<Rightarrow> nat \<times> int" where
  "shortest_digits fmt 0 q k n =
     (nat (round_half_even (q * rat_pow 10 (int n - k))), k - int n)"
| "shortest_digits fmt (Suc fuel) q k n = (case digit_candidate fmt q k n of
       Some d \<Rightarrow> (d, k - int n)
     | None \<Rightarrow> shortest_digits fmt fuel q k (Suc n))"

definition drop_zeros :: "string \<Rightarrow> string" where
  "drop_zeros s = rev (dropWhile (\<lambda>ch. ch = CHR ''0'') (rev s))"

definition zeros :: "nat \<Rightarrow> string" where
  "zeros n = replicate n (CHR ''0'')"

text \<open>The exponent, at least two digits.\<close>

definition show_exp :: "int \<Rightarrow> string" where
  "show_exp e = (if e < 0 then ''-'' else ''+'')
     @ (let d = show_nat (nat \<bar>e\<bar>) in if length d < 2 then CHR ''0'' # d else d)"

text \<open>
  Layout of \<open>%g\<close> with the shortest precision, from the significant digits and the decimal
  point position \<open>dp\<close> (the value is \<open>0.digits * 10 ^ dp\<close>): exponent form when the exponent
  \<open>dp - 1\<close> is below -4 or above 5 (\<open>strconv\<close> decides with precision 6 when printing shortest).
\<close>

definition g_layout :: "string \<Rightarrow> int \<Rightarrow> string" where
  "g_layout digs dp = (let e = dp - 1 in
     if e < -4 \<or> 6 \<le> e then
       (case digs of [] \<Rightarrow> ''0'' | d # ds \<Rightarrow> [d] @ (if ds = [] then [] else ''.'' @ ds))
         @ ''e'' @ show_exp e
     else if dp \<le> 0 then ''0.'' @ zeros (nat (- dp)) @ digs
     else if length digs \<le> nat dp then digs @ zeros (nat dp - length digs)
     else take (nat dp) digs @ ''.'' @ drop (nat dp) digs)"

definition fmt_pos_rat :: "float_fmt \<Rightarrow> rat \<Rightarrow> string" where
  "fmt_pos_rat fmt q = (let
       k = dec_point q;
       (d, e) = shortest_digits fmt 16 q k 1;
       ds = show_nat d
     in g_layout (drop_zeros ds) (e + int (length ds)))"

definition fmt_float :: "float_fmt \<Rightarrow> f64 \<Rightarrow> string" where
  "fmt_float fmt x = (case x of
       FNaN \<Rightarrow> ''NaN''
     | FInf s \<Rightarrow> if s then ''-Inf'' else ''+Inf''
     | FNegZero \<Rightarrow> ''-0''
     | FFin q \<Rightarrow> if q = 0 then ''0'' else if q < 0 then CHR ''-'' # fmt_pos_rat fmt (- q)
                else fmt_pos_rat fmt q)"

section \<open>Scanning\<close>

text \<open>
  The scanner keeps the accepted text and the rest of the input; \<open>sc_accept\<close> moves one
  byte when it is in the given set, as \<open>ss.accept\<close> does.
\<close>

type_synonym scan_state = "string \<times> string"

definition sc_accept :: "string \<Rightarrow> scan_state \<Rightarrow> bool \<times> scan_state" where
  "sc_accept ok st = (case st of (buf, rest) \<Rightarrow>
     (case rest of [] \<Rightarrow> (False, st)
      | ch # r \<Rightarrow> if ch \<in> set ok then (True, (buf @ [ch], r)) else (False, st)))"

fun sc_accept_many :: "string \<Rightarrow> string \<Rightarrow> string \<Rightarrow> scan_state" where
  "sc_accept_many ok buf [] = (buf, [])"
| "sc_accept_many ok buf (ch # r) =
     (if ch \<in> set ok then sc_accept_many ok (buf @ [ch]) r else (buf, ch # r))"

text \<open>\<open>a && b && c\<close> over \<open>accept\<close>: stops at the first byte that does not match.\<close>

fun sc_accept_seq :: "string list \<Rightarrow> scan_state \<Rightarrow> bool \<times> scan_state" where
  "sc_accept_seq [] st = (True, st)"
| "sc_accept_seq (ok # oks) st = (case sc_accept ok st of
     (True, st') \<Rightarrow> sc_accept_seq oks st' | (False, st') \<Rightarrow> (False, st'))"

definition dec_digits :: string where
  "dec_digits = ''0123456789_''"

definition hex_digits :: string where
  "hex_digits = ''0123456789aAbBcCdDeEfF_''"

text \<open>\<open>floatToken\<close> of package \<open>fmt\<close>.\<close>

definition float_token :: "string \<Rightarrow> string" where
  "float_token s = (case sc_accept_seq [''nN'', ''aA'', ''nN''] ([], s) of
     (True, (buf, _)) \<Rightarrow> buf
   | (False, st) \<Rightarrow>
     (let st = snd (sc_accept ''+-'' st) in
      case sc_accept_seq [''iI'', ''nN'', ''fF''] st of
        (True, (buf, _)) \<Rightarrow> buf
      | (False, st) \<Rightarrow>
        (let (hex, st) = sc_accept_seq [''0'', ''xX''] st;
             digits = (if hex then hex_digits else dec_digits);
             exps = (if hex then ''pP'' else ''eEpP'');
             st = sc_accept_many digits (fst st) (snd st);
             (dot, st) = sc_accept ''.'' st;
             st = (if dot then sc_accept_many digits (fst st) (snd st) else st);
             (ex, st) = sc_accept exps st;
             st = (if ex then (let st = snd (sc_accept ''+-'' st)
                                in sc_accept_many dec_digits (fst st) (snd st))
                   else st)
         in fst st)))"

text \<open>
  \<open>strconv.ParseFloat\<close>: the names of the infinities and NaN in any case; else a decimal
  literal (sign, digits with at most one point and at least one digit, optional exponent) or
  a hexadecimal one (prefix, digits, mandatory binary exponent), with nothing after it and
  underscores only between digits. \<open>None\<close> is a syntax error, or the range error of a
  literal that rounds to an infinity. Exponents are read up to 10000, as \<open>readFloat\<close> does.
\<close>

definition split_while :: "(char \<Rightarrow> bool) \<Rightarrow> string \<Rightarrow> string \<times> string" where
  "split_while p s = (takeWhile p s, dropWhile p s)"

definition parse_sign :: "string \<Rightarrow> bool \<times> string" where
  "parse_sign s = (case s of
     CHR ''-'' # r \<Rightarrow> (True, r) | CHR ''+'' # r \<Rightarrow> (False, r) | _ \<Rightarrow> (False, s))"

definition parse_exp :: "string \<Rightarrow> int option" where
  "parse_exp r = (let (neg, ds) = parse_sign r in
     if ds \<noteq> [] \<and> list_all is_dec_digit ds then
       (let e = min 10000 (int (read_nat ds)) in Some (if neg then - e else e))
     else None)"

definition lower_ascii :: "char \<Rightarrow> char" where
  "lower_ascii ch = (let n = (of_char ch :: nat) in
     if 65 \<le> n \<and> n \<le> 90 then char_of (n + 32) else ch)"

definition is_hex_digit :: "char \<Rightarrow> bool" where
  "is_hex_digit ch = (is_dec_digit ch \<or> lower_ascii ch \<in> set ''abcdef'')"

definition hex_val :: "char \<Rightarrow> nat" where
  "hex_val ch = (if is_dec_digit ch then digit_val ch else of_char (lower_ascii ch) - 87)"

definition is_hex_literal :: "string \<Rightarrow> bool" where
  "is_hex_literal s = has_prefix (map lower_ascii (snd (parse_sign s))) ''0x''"

text \<open>The check \<open>underscoreOK\<close>: the last kind seen is a digit (or prefix), \<open>_\<close> or other.\<close>

datatype us_saw = Saw_start | Saw_digit | Saw_us | Saw_other

fun us_scan :: "bool \<Rightarrow> us_saw \<Rightarrow> string \<Rightarrow> bool" where
  "us_scan hex saw [] = (saw \<noteq> Saw_us)"
| "us_scan hex saw (ch # r) =
     (if is_dec_digit ch \<or> (hex \<and> is_hex_digit ch) then us_scan hex Saw_digit r
      else if ch = CHR ''_'' then saw = Saw_digit \<and> us_scan hex Saw_us r
      else saw \<noteq> Saw_us \<and> us_scan hex Saw_other r)"

definition underscore_ok :: "string \<Rightarrow> bool" where
  "underscore_ok s = (let body = snd (parse_sign s) in
     if is_hex_literal s then us_scan True Saw_digit (drop 2 body)
     else us_scan False Saw_start body)"

text \<open>Sign, mantissa and exponent to a float: \<open>m * b ^ e\<close> rounded.\<close>

definition make_float :: "bool \<Rightarrow> nat \<Rightarrow> rat \<Rightarrow> int \<Rightarrow> f64 option" where
  "make_float neg m b e =
     (let v = (if m = 0 then (if neg then FNegZero else FFin 0)
               else f_round double_fmt ((if neg then -1 else 1) * of_nat m * rat_pow b e))
      in case v of FInf _ \<Rightarrow> None | _ \<Rightarrow> Some v)"

definition split_point :: "(char \<Rightarrow> bool) \<Rightarrow> string \<Rightarrow> string \<times> string \<times> string" where
  "split_point p s = (let (ip, r1) = split_while p s;
       (fp, r2) = (case r1 of CHR ''.'' # r \<Rightarrow> split_while p r | _ \<Rightarrow> ([], r1))
     in (ip, fp, r2))"

definition parse_decimal :: "string \<Rightarrow> f64 option" where
  "parse_decimal s = (let (neg, body) = parse_sign s; (ip, fp, r) = split_point is_dec_digit body;
       frac = int (length fp); m = read_nat (ip @ fp)
     in if ip = [] \<and> fp = [] then None
        else case r of [] \<Rightarrow> make_float neg m 10 (- frac)
          | ch # ds \<Rightarrow> if lower_ascii ch = CHR ''e''
              then (case parse_exp ds of None \<Rightarrow> None | Some e \<Rightarrow> make_float neg m 10 (e - frac))
              else None)"

definition parse_hexadecimal :: "string \<Rightarrow> f64 option" where
  "parse_hexadecimal s = (let (neg, body) = parse_sign s;
       (ip, fp, r) = split_point is_hex_digit (drop 2 body);
       m = foldl (\<lambda>a ch. 16 * a + hex_val ch) 0 (ip @ fp)
     in if ip = [] \<and> fp = [] then None
        else case r of [] \<Rightarrow> None
          | ch # ds \<Rightarrow> if lower_ascii ch = CHR ''p''
              then (case parse_exp ds of None \<Rightarrow> None
                    | Some e \<Rightarrow> make_float neg m 2 (e - 4 * int (length fp)))
              else None)"

definition parse_float :: "string \<Rightarrow> f64 option" where
  "parse_float s = (let (neg, body) = parse_sign s; low = map lower_ascii body in
     if low = ''inf'' \<or> low = ''infinity'' then Some (FInf neg)
     else if map lower_ascii s = ''nan'' then Some FNaN
     else if CHR ''_'' \<in> set s \<and> \<not> underscore_ok s then None
     else let t = filter (\<lambda>ch. ch \<noteq> CHR ''_'') s in
       if is_hex_literal t then parse_hexadecimal t else parse_decimal t)"

text \<open>
  \<open>convertFloat\<close> of package \<open>fmt\<close>: a decimal mantissa with a binary exponent (\<open>1.5p3\<close>) is
  its own case, everything else is \<open>ParseFloat\<close>.
\<close>

definition f_ldexp :: "f64 \<Rightarrow> int \<Rightarrow> f64" where
  "f_ldexp x e = (case x of FFin q \<Rightarrow> if q = 0 then x
       else f_round double_fmt (q * rat_pow 2 (max (-5000) (min 5000 e)))
     | _ \<Rightarrow> x)"

definition convert_float :: "string \<Rightarrow> f64 option" where
  "convert_float tok =
     (if CHR ''p'' \<in> set tok \<and> CHR ''x'' \<notin> set tok \<and> CHR ''X'' \<notin> set tok then
        (let (man, r) = split_while (\<lambda>ch. ch \<noteq> CHR ''p'') tok in
         case parse_float man of None \<Rightarrow> None
         | Some f \<Rightarrow> (case parse_exp (drop 1 r) of None \<Rightarrow> None | Some e \<Rightarrow> Some (f_ldexp f e)))
      else parse_float tok)"

text \<open>
  \<open>SkipSpace\<close>: space characters are skipped, a newline is an error (\<open>None\<close>), the end of the
  input too, since a number must follow.
\<close>

function skip_space :: "string \<Rightarrow> string option" where
  "skip_space s = (case s of [] \<Rightarrow> None
     | ch # r \<Rightarrow>
       if ch = CHR 0x0A then None
       else if space_len space_seqs s = 0 then Some s
       else skip_space (drop (space_len space_seqs s) s))"
  by pat_completeness auto
termination
  by (relation "measure length") auto

declare skip_space.simps [simp del]

definition sscanf_float :: "string \<Rightarrow> f64 option" where
  "sscanf_float s = (case skip_space s of None \<Rightarrow> None | Some r \<Rightarrow> convert_float (float_token r))"

end
