(* ===== verification/GoValue.thy ===== *)
theory GoValue
  imports GoFloatText
begin

text \<open>
  Dynamic values: what a Go \<open>interface{}\<close> holds, as far as the library can tell values
  apart with type switches, type assertions and package \<open>reflect\<close>. Maps with string keys are
  sorted association lists (\<open>Prelude\<close>). Types the library does not know are kept with their
  type name, their \<open>reflect.Kind\<close> and their \<open>%v\<close> text.

  \<open>go_lib\<close> collects the standard library engines the code calls and that are arguments of the
  model: the regular expression compiler, parsing, formatting and printing of times, and the
  clock.
\<close>

section \<open>Values\<close>

datatype ikind = KInt | KInt8 | KInt16 | KInt32 | KInt64
  | KUint | KUint8 | KUint16 | KUint32 | KUint64

text \<open>A \<open>time.Time\<close>: the instant in nanoseconds since 1970 and the zone offset in seconds.\<close>

record gtime =
  t_instant :: int
  t_offset :: int

datatype gval =
    VNil
  | VBool bool
  | VInt ikind int
  | VFloat32 f64
  | VFloat64 f64
  | VStr string
  | VMap "(string \<times> gval) list"                   \<comment> \<open>\<open>map[string]interface{}\<close>\<close>
  | VTMap string string "(string \<times> gval) list"    \<comment> \<open>another map whose key kind is string: key type, element type\<close>
  | VOtherMap string string                          \<comment> \<open>a map with other keys: type, \<open>%v\<close> text\<close>
  | VSlice "gval list"                               \<comment> \<open>\<open>[]interface{}\<close>\<close>
  | VTSlice bool string "gval list"                  \<comment> \<open>another slice or (True) array: type name\<close>
  | VStruct string "(string \<times> gval) list"          \<comment> \<open>type name, fields in declaration order\<close>
  | VPtr string nat "gval option"                    \<comment> \<open>type name, address, target (None: nil pointer)\<close>
  | VTime gtime
  | VStringer string string string                   \<comment> \<open>another \<open>fmt.Stringer\<close>: type, kind, \<open>String()\<close>\<close>
  | VOther string string string                      \<comment> \<open>anything else: type, kind, \<open>%v\<close> text\<close>

record go_lib =
  lib_regexp_compile :: "string \<Rightarrow> string + (string \<Rightarrow> bool)"
  lib_time_parse :: "string \<Rightarrow> string \<Rightarrow> string + gtime"
  lib_time_format :: "gtime \<Rightarrow> string \<Rightarrow> string"
  lib_time_string :: "gtime \<Rightarrow> string"
  lib_now :: gtime

section \<open>Integer kinds\<close>

definition ikind_name :: "ikind \<Rightarrow> string" where
  "ikind_name k = (case k of KInt \<Rightarrow> ''int'' | KInt8 \<Rightarrow> ''int8'' | KInt16 \<Rightarrow> ''int16''
     | KInt32 \<Rightarrow> ''int32'' | KInt64 \<Rightarrow> ''int64'' | KUint \<Rightarrow> ''uint'' | KUint8 \<Rightarrow> ''uint8''
     | KUint16 \<Rightarrow> ''uint16'' | KUint32 \<Rightarrow> ''uint32'' | KUint64 \<Rightarrow> ''uint64'')"

text \<open>The range of a kind, on a 64-bit platform.\<close>

definition ikind_range :: "ikind \<Rightarrow> int \<times> int" where
  "ikind_range k = (case k of
       KInt8 \<Rightarrow> (- (2 ^ 7), 2 ^ 7) | KInt16 \<Rightarrow> (- (2 ^ 15), 2 ^ 15)
     | KInt32 \<Rightarrow> (- (2 ^ 31), 2 ^ 31) | KInt64 \<Rightarrow> (- (2 ^ 63), 2 ^ 63) | KInt \<Rightarrow> (- (2 ^ 63), 2 ^ 63)
     | KUint8 \<Rightarrow> (0, 2 ^ 8) | KUint16 \<Rightarrow> (0, 2 ^ 16) | KUint32 \<Rightarrow> (0, 2 ^ 32)
     | KUint64 \<Rightarrow> (0, 2 ^ 64) | KUint \<Rightarrow> (0, 2 ^ 64))"

section \<open>Type names and kinds\<close>

text \<open>\<open>%T\<close>.\<close>

definition type_name :: "gval \<Rightarrow> string" where
  "type_name v = (case v of
       VNil \<Rightarrow> ''<nil>'' | VBool _ \<Rightarrow> ''bool'' | VInt k _ \<Rightarrow> ikind_name k
     | VFloat32 _ \<Rightarrow> ''float32'' | VFloat64 _ \<Rightarrow> ''float64'' | VStr _ \<Rightarrow> ''string''
     | VMap _ \<Rightarrow> ''map[string]interface {}'' | VTMap k e _ \<Rightarrow> ''map['' @ k @ '']'' @ e
     | VOtherMap ty _ \<Rightarrow> ty | VSlice _ \<Rightarrow> ''[]interface {}'' | VTSlice _ ty _ \<Rightarrow> ty
     | VStruct ty _ \<Rightarrow> ty | VPtr ty _ _ \<Rightarrow> ty | VTime _ \<Rightarrow> ''time.Time''
     | VStringer ty _ _ \<Rightarrow> ty | VOther ty _ _ \<Rightarrow> ty)"

text \<open>\<open>reflect.ValueOf(v).Kind()\<close>, as \<open>%v\<close> prints it.\<close>

definition go_kind :: "gval \<Rightarrow> string" where
  "go_kind v = (case v of
       VNil \<Rightarrow> ''invalid'' | VBool _ \<Rightarrow> ''bool'' | VInt k _ \<Rightarrow> ikind_name k
     | VFloat32 _ \<Rightarrow> ''float32'' | VFloat64 _ \<Rightarrow> ''float64'' | VStr _ \<Rightarrow> ''string''
     | VMap _ \<Rightarrow> ''map'' | VTMap _ _ _ \<Rightarrow> ''map'' | VOtherMap _ _ \<Rightarrow> ''map''
     | VSlice _ \<Rightarrow> ''slice'' | VTSlice arr _ _ \<Rightarrow> (if arr then ''array'' else ''slice'')
     | VStruct _ _ \<Rightarrow> ''struct'' | VPtr _ _ _ \<Rightarrow> ''ptr'' | VTime _ \<Rightarrow> ''struct''
     | VStringer _ k _ \<Rightarrow> k | VOther _ k _ \<Rightarrow> k)"

section \<open>Formatting\<close>

fun show_hex :: "nat \<Rightarrow> string" where
  "show_hex n = (if n < 16 then [hex_char n] else show_hex (n div 16) @ [hex_char (n mod 16)])"

declare show_hex.simps [simp del]

text \<open>
  \<open>%v\<close>. The flag is True at the top level, where a pointer to a composite value prints as
  \<open>&\<close> and the value; deeper down pointers print as addresses. Maps print their entries in
  key order, values with a \<open>String\<close> method through it.
\<close>

function fmt_v :: "go_lib \<Rightarrow> bool \<Rightarrow> gval \<Rightarrow> string" where
  "fmt_v L outer VNil = ''<nil>''"
| "fmt_v L outer (VBool b) = (if b then ''true'' else ''false'')"
| "fmt_v L outer (VInt k i) = show_int i"
| "fmt_v L outer (VFloat32 x) = fmt_float single_fmt x"
| "fmt_v L outer (VFloat64 x) = fmt_float double_fmt x"
| "fmt_v L outer (VStr s) = s"
| "fmt_v L outer (VMap m) =
     ''map['' @ str_join '' '' (map (\<lambda>(k, v). k @ '':'' @ fmt_v L False v) m) @ '']''"
| "fmt_v L outer (VTMap kt et m) =
     ''map['' @ str_join '' '' (map (\<lambda>(k, v). k @ '':'' @ fmt_v L False v) m) @ '']''"
| "fmt_v L outer (VOtherMap ty s) = s"
| "fmt_v L outer (VSlice vs) = ''['' @ str_join '' '' (map (fmt_v L False) vs) @ '']''"
| "fmt_v L outer (VTSlice arr ty vs) = ''['' @ str_join '' '' (map (fmt_v L False) vs) @ '']''"
| "fmt_v L outer (VStruct ty fs) =
     CHR 0x7B # str_join '' '' (map (\<lambda>(k, v). fmt_v L False v) fs) @ [CHR 0x7D]"
| "fmt_v L outer (VPtr ty addr None) = ''<nil>''"
| "fmt_v L outer (VPtr ty addr (Some v)) =
     (if outer \<and> go_kind v \<in> {''array'', ''slice'', ''struct'', ''map''}
      then CHR ''&'' # fmt_v L False v else ''0x'' @ show_hex addr)"
| "fmt_v L outer (VTime t) = lib_time_string L t"
| "fmt_v L outer (VStringer ty k s) = s"
| "fmt_v L outer (VOther ty k s) = s"
  by pat_completeness auto

lemma size_assoc_value [simp]:
  "(k, v) \<in> set m \<Longrightarrow> size v < Suc (size_list (size_prod (\<lambda>_. 0) size) m)"
  by (induction m) auto

termination fmt_v
  by (relation "measure (\<lambda>(L, outer, v). size v)")
    (auto simp: less_Suc_eq_le size_list_estimation' dest: size_assoc_value)

definition sprint_v :: "go_lib \<Rightarrow> gval \<Rightarrow> string" where
  "sprint_v L v = fmt_v L True v"

section \<open>Numeric readings\<close>

text \<open>The numeric kinds of the type switches in \<open>validator.go\<close> and \<open>number.go\<close>.\<close>

definition is_numeric :: "gval \<Rightarrow> bool" where
  "is_numeric v = (case v of VInt _ _ \<Rightarrow> True | VFloat32 _ \<Rightarrow> True | VFloat64 _ \<Rightarrow> True | _ \<Rightarrow> False)"

text \<open>The slice an array-like value stands for, through \<open>reflect\<close>.\<close>

definition as_slice :: "gval \<Rightarrow> gval list option" where
  "as_slice v = (case v of VSlice xs \<Rightarrow> Some xs | VTSlice _ _ xs \<Rightarrow> Some xs | _ \<Rightarrow> None)"

end
