(* ===== verification/Errors.thy ===== *)
theory Errors
  imports GoValue
begin

text \<open>
  \<open>errors.go\<close>: field errors, the validation error that collects them, and \<open>WrapError\<close>.
  A Go \<open>error\<close> is one of the module's two error types or any other error, of which only the
  \<open>Error()\<close> text matters. The lemmas show how wrapping composes with paths.
\<close>

record field_error =
  fe_path :: string
  fe_message :: string
  fe_value :: gval

datatype go_error =
    ValidationError "field_error list"
  | FieldErr field_error
  | OtherError string

definition FieldError_String :: "field_error \<Rightarrow> string" where
  "FieldError_String e =
     (if fe_path e = [] then fe_message e else fe_path e @ '': '' @ fe_message e)"

definition ValidationError_Error :: "field_error list \<Rightarrow> string" where
  "ValidationError_Error es = (case es of
       [] \<Rightarrow> ''validation failed''
     | [e] \<Rightarrow> ''validation failed: '' @ FieldError_String e
     | _ \<Rightarrow> trim_space (''validation failed:'' @ [CHR 0x0A]
              @ concat (map (\<lambda>e. ''  '' @ FieldError_String e @ [CHR 0x0A]) es)))"

definition error_text :: "go_error \<Rightarrow> string" where
  "error_text e = (case e of
       ValidationError es \<Rightarrow> ValidationError_Error es
     | FieldErr f \<Rightarrow> FieldError_String f
     | OtherError s \<Rightarrow> s)"

definition NewFieldError :: "string \<Rightarrow> string \<Rightarrow> gval \<Rightarrow> field_error" where
  "NewFieldError p m v = \<lparr>fe_path = p, fe_message = m, fe_value = v\<rparr>"

definition ValidationError_Add :: "field_error list \<Rightarrow> string \<Rightarrow> string \<Rightarrow> gval \<Rightarrow> field_error list" where
  "ValidationError_Add es p m v = es @ [\<lparr>fe_path = p, fe_message = m, fe_value = v\<rparr>]"

definition ValidationError_AddError :: "field_error list \<Rightarrow> field_error \<Rightarrow> field_error list" where
  "ValidationError_AddError es e = es @ [e]"

definition ValidationError_HasErrors :: "field_error list \<Rightarrow> bool" where
  "ValidationError_HasErrors es = (0 < length es)"

definition joinPath :: "string \<Rightarrow> string \<Rightarrow> string" where
  "joinPath base sub =
     (if base = [] then sub
      else if sub = [] then base
      else if has_prefix sub ''['' then base @ sub
      else base @ ''.'' @ sub)"

definition WrapError :: "go_error option \<Rightarrow> string \<Rightarrow> go_error option" where
  "WrapError err p = (case err of
       None \<Rightarrow> None
     | Some (ValidationError es) \<Rightarrow>
         Some (ValidationError (foldl (\<lambda>w e. ValidationError_AddError w
                 (e\<lparr>fe_path := joinPath p (fe_path e)\<rparr>)) [] es))
     | Some e \<Rightarrow> Some (ValidationError [NewFieldError p (error_text e) VNil]))"

section \<open>Path joining\<close>

lemma has_prefix_bracket [simp]:
  "has_prefix s ''['' \<longleftrightarrow> s \<noteq> [] \<and> hd s = CHR ''[''"
  by (cases s) (auto simp: has_prefix_def)

lemma joinPath_Nil [simp]: "joinPath [] s = s" "joinPath s [] = s"
  by (simp_all add: joinPath_def)

lemma joinPath_eq_Nil [simp]: "joinPath a b = [] \<longleftrightarrow> a = [] \<and> b = []"
  by (auto simp: joinPath_def)

lemma hd_joinPath: "a \<noteq> [] \<Longrightarrow> hd (joinPath a b) = hd a"
  by (auto simp: joinPath_def)

lemma joinPath_assoc: "joinPath (joinPath a b) c = joinPath a (joinPath b c)"
proof (cases "a = [] \<or> b = [] \<or> c = []")
  case True
  then show ?thesis by auto
next
  case False
  then show ?thesis
    by (auto simp: joinPath_def hd_append)
qed

section \<open>Wrapping\<close>

definition prefix_error :: "string \<Rightarrow> field_error \<Rightarrow> field_error" where
  "prefix_error p e = e\<lparr>fe_path := joinPath p (fe_path e)\<rparr>"

lemma foldl_AddError: "foldl (\<lambda>w e. ValidationError_AddError w (f e)) w es = w @ map f es"
  by (induction es arbitrary: w) (auto simp: ValidationError_AddError_def)

lemma WrapError_ValidationError:
  "WrapError (Some (ValidationError es)) p = Some (ValidationError (map (prefix_error p) es))"
  by (simp add: WrapError_def foldl_AddError prefix_error_def [abs_def])

lemma prefix_error_join: "prefix_error p (prefix_error q e) = prefix_error (joinPath p q) e"
  by (simp add: prefix_error_def joinPath_assoc)

lemma WrapError_other:
  "e \<noteq> ValidationError es \<Longrightarrow> (\<And>es. e \<noteq> ValidationError es) \<Longrightarrow>
   WrapError (Some e) p = Some (ValidationError [NewFieldError p (error_text e) VNil])"
  by (cases e) (auto simp: WrapError_def)

end
