(* ===== verification/ValidationCtx.thy ===== *)
theory ValidationCtx
  imports Errors
begin

text \<open>
  \<open>context.go\<close>: the validation context, threaded explicitly. Each method of
  \<open>*ValidationContext\<close> is a function from the context to the new context; \<open>WithPath\<close> and
  \<open>WithIndex\<close> take the body as a context transformer. \<open>env\<close> is the environment of a run: the
  library engines and the order in which \<open>range\<close> visits the keys of a map, which Go leaves
  open. The order may depend on everything the run has done so far (the context); whatever
  the environment answers, each key is visited exactly once (\<open>range_keys\<close>).

  The contract of the library's validation functions is stated here once: \<open>steps f R\<close> says
  that the context transformer \<open>f\<close> restores the path, keeps the mode, only appends to the
  errors and transformations, and that what it appends is the multiset \<open>R path mode\<close>, whatever
  was collected before. Its rules, collected in \<open>steps_intros\<close>, follow the statements of Go.
\<close>

datatype vmode = Strict | Loose

definition mode_String :: "vmode \<Rightarrow> string" where
  "mode_String m = (case m of Strict \<Rightarrow> ''strict'' | Loose \<Rightarrow> ''loose'')"

record transformation_record =
  tr_path :: string
  tr_original :: gval
  tr_result :: gval
  tr_type :: string

record validation_context =
  c_path :: "string list"
  c_errors :: "field_error list"
  c_mode :: vmode
  c_trans :: "transformation_record list"

record env =
  e_lib :: go_lib
  e_order :: "validation_context \<Rightarrow> string list \<Rightarrow> string list"

section \<open>The operations of the context\<close>

definition NewValidationContext :: "vmode \<Rightarrow> validation_context" where
  "NewValidationContext m = \<lparr>c_path = [], c_errors = [], c_mode = m, c_trans = []\<rparr>"

definition ctx_Reset :: "validation_context \<Rightarrow> validation_context" where
  "ctx_Reset c = c\<lparr>c_path := [], c_errors := [], c_trans := []\<rparr>"

definition PushPath :: "string \<Rightarrow> validation_context \<Rightarrow> validation_context" where
  "PushPath s c = c\<lparr>c_path := c_path c @ [s]\<rparr>"

definition index_segment :: "int \<Rightarrow> string" where
  "index_segment i = ''['' @ show_int i @ '']''"

definition PushIndex :: "int \<Rightarrow> validation_context \<Rightarrow> validation_context" where
  "PushIndex i c = c\<lparr>c_path := c_path c @ [index_segment i]\<rparr>"

definition PopPath :: "validation_context \<Rightarrow> validation_context" where
  "PopPath c = (if 0 < length (c_path c) then c\<lparr>c_path := butlast (c_path c)\<rparr> else c)"

text \<open>The loop of \<open>CurrentPath\<close>: a dot before every segment but the first and the bracketed ones.\<close>

fun path_text_from :: "nat \<Rightarrow> string list \<Rightarrow> string" where
  "path_text_from i [] = []"
| "path_text_from i (seg # segs) =
     (if 0 < i \<and> \<not> has_prefix seg ''['' then ''.'' else []) @ seg @ path_text_from (Suc i) segs"

definition path_text :: "string list \<Rightarrow> string" where
  "path_text p = (if length p = 0 then [] else path_text_from 0 p)"

definition CurrentPath :: "validation_context \<Rightarrow> string" where
  "CurrentPath c = path_text (c_path c)"

definition AddError :: "string \<Rightarrow> gval \<Rightarrow> validation_context \<Rightarrow> validation_context" where
  "AddError msg v c = c\<lparr>c_errors := c_errors c @
     [\<lparr>fe_path = CurrentPath c, fe_message = msg, fe_value = v\<rparr>]\<rparr>"

definition AddFieldError :: "field_error \<Rightarrow> validation_context \<Rightarrow> validation_context" where
  "AddFieldError e c = c\<lparr>c_errors := c_errors c @
     [if fe_path e = [] then e\<lparr>fe_path := CurrentPath c\<rparr> else e]\<rparr>"

definition HasErrors :: "validation_context \<Rightarrow> bool" where
  "HasErrors c = (0 < length (c_errors c))"

definition ctx_Error :: "validation_context \<Rightarrow> go_error option" where
  "ctx_Error c = (if \<not> HasErrors c then None else Some (ValidationError (c_errors c)))"

definition WithPath :: "string \<Rightarrow> (validation_context \<Rightarrow> validation_context) \<Rightarrow>
    validation_context \<Rightarrow> validation_context" where
  "WithPath s f c = PopPath (f (PushPath s c))"

definition WithIndex :: "int \<Rightarrow> (validation_context \<Rightarrow> validation_context) \<Rightarrow>
    validation_context \<Rightarrow> validation_context" where
  "WithIndex i f c = PopPath (f (PushIndex i c))"

definition RecordTransformation :: "gval \<Rightarrow> gval \<Rightarrow> string \<Rightarrow> validation_context \<Rightarrow> validation_context" where
  "RecordTransformation orig res ty c = c\<lparr>c_trans := c_trans c @
     [\<lparr>tr_path = CurrentPath c, tr_original = orig, tr_result = res, tr_type = ty\<rparr>]\<rparr>"

definition HasTransformations :: "validation_context \<Rightarrow> bool" where
  "HasTransformations c = (0 < length (c_trans c))"

text \<open>The keys of a map in the order \<open>range\<close> visits them.\<close>

definition range_keys :: "env \<Rightarrow> validation_context \<Rightarrow> 'v gmap \<Rightarrow> string list" where
  "range_keys E c m = (let ks = map_keys m; o' = e_order E c ks in
     if mset o' = mset ks then o' else ks)"

lemma mset_range_keys [simp]: "mset (range_keys E c m) = mset (map_keys m)"
  by (simp add: range_keys_def Let_def)

lemma set_range_keys [simp]: "set (range_keys E c m) = set (map_keys m)"
  by (metis mset_range_keys set_mset_mset)

section \<open>Paths\<close>

lemma path_text_Nil [simp]: "path_text [] = []"
  by (simp add: path_text_def)

text \<open>Pushing a segment is joining it to the path.\<close>

lemma path_text_from_append:
  "path_text_from i (p @ q) = path_text_from i p @ path_text_from (i + length p) q"
  by (induction i p rule: path_text_from.induct) auto

lemma path_text_from_Nil_iff: "path_text_from 0 p = [] \<longleftrightarrow> p = [] \<or> p = [[]]"
proof (cases p)
  case (Cons s ss)
  then show ?thesis by (cases ss) auto
qed simp

lemma path_text_snoc:
  assumes "seg \<noteq> []" and "[] \<notin> set p"
  shows "path_text (p @ [seg]) = joinPath (path_text p) seg"
proof (cases p)
  case Nil
  then show ?thesis by (simp add: path_text_def)
next
  case (Cons a p')
  with assms have "path_text p \<noteq> []"
    by (auto simp: path_text_def path_text_from_Nil_iff)
  with Cons assms(1) show ?thesis
    by (simp add: path_text_def joinPath_def path_text_from_append)
qed

lemma path_text_append:
  assumes "[] \<notin> set p" and "[] \<notin> set q"
  shows "path_text (p @ q) = joinPath (path_text p) (path_text q)"
  using assms(2)
proof (induction q rule: rev_induct)
  case (snoc s q)
  then have "path_text (p @ q @ [s]) = joinPath (path_text (p @ q)) s"
    using assms(1) path_text_snoc [of s "p @ q"] by auto
  with snoc show ?case by (auto simp: path_text_snoc joinPath_assoc)
qed simp

section \<open>What a step reports\<close>

datatype event = EErr field_error | ETrans transformation_record

type_synonym report = "event multiset"

definition ctx_events :: "validation_context \<Rightarrow> report" where
  "ctx_events c = image_mset EErr (mset (c_errors c)) + image_mset ETrans (mset (c_trans c))"

definition err_at :: "string \<Rightarrow> gval \<Rightarrow> string list \<Rightarrow> vmode \<Rightarrow> report" where
  "err_at msg v p m = {#EErr \<lparr>fe_path = path_text p, fe_message = msg, fe_value = v\<rparr>#}"

definition trans_at :: "gval \<Rightarrow> gval \<Rightarrow> string \<Rightarrow> string list \<Rightarrow> vmode \<Rightarrow> report" where
  "trans_at orig res ty p m =
     {#ETrans \<lparr>tr_path = path_text p, tr_original = orig, tr_result = res, tr_type = ty\<rparr>#}"

text \<open>The errors of a report; a report without any is clean.\<close>

definition is_err :: "event \<Rightarrow> bool" where
  "is_err e = (case e of EErr _ \<Rightarrow> True | ETrans _ \<Rightarrow> False)"

definition clean :: "report \<Rightarrow> bool" where
  "clean R = (\<forall>e \<in># R. \<not> is_err e)"

lemma clean_simps [simp]:
  "clean {#}" "clean (R + S) \<longleftrightarrow> clean R \<and> clean S" "\<not> clean (err_at msg v p m)"
  "clean (trans_at x y ty p m)"
  by (auto simp: clean_def err_at_def trans_at_def is_err_def)

lemma clean_sum_list [simp]: "clean (sum_list Rs) \<longleftrightarrow> (\<forall>R \<in> set Rs. clean R)"
  by (induction Rs) auto

lemma clean_ctx_events: "clean (ctx_events c) \<longleftrightarrow> c_errors c = []"
  by (cases "c_errors c") (auto simp: clean_def ctx_events_def is_err_def)

definition extends :: "validation_context \<Rightarrow> validation_context \<Rightarrow> bool" where
  "extends c c' = (c_path c' = c_path c \<and> c_mode c' = c_mode c \<and>
     (\<exists>es. c_errors c' = c_errors c @ es) \<and> (\<exists>ts. c_trans c' = c_trans c @ ts))"

definition steps :: "(validation_context \<Rightarrow> validation_context) \<Rightarrow>
    (string list \<Rightarrow> vmode \<Rightarrow> report) \<Rightarrow> bool" where
  "steps f R = (\<forall>c. extends c (f c) \<and> ctx_events (f c) = ctx_events c + R (c_path c) (c_mode c))"

named_theorems steps_intros "rules that compose steps"

lemma extends_refl [simp]: "extends c c"
  by (simp add: extends_def)

lemma extends_trans: "extends c d \<Longrightarrow> extends d e \<Longrightarrow> extends c e"
  by (auto simp: extends_def)

lemma extendsD:
  assumes "extends c d"
  shows "c_path d = c_path c" and "c_mode d = c_mode c"
  using assms by (simp_all add: extends_def)

lemma stepsD:
  assumes "steps f R"
  shows "extends c (f c)" and "ctx_events (f c) = ctx_events c + R (c_path c) (c_mode c)"
  using assms by (auto simp: steps_def)

lemma steps_id [steps_intros]: "steps (\<lambda>c. c) (\<lambda>p m. {#})"
  by (simp add: steps_def)

lemma steps_comp:
  assumes "steps f R" and "steps g S"
  shows "steps (\<lambda>c. g (f c)) (\<lambda>p m. R p m + S p m)"
  unfolding steps_def
proof (intro allI conjI)
  fix c
  show "extends c (g (f c))"
    using assms stepsD(1) extends_trans by blast
  show "ctx_events (g (f c)) = ctx_events c + (R (c_path c) (c_mode c) + S (c_path c) (c_mode c))"
    using stepsD [OF assms(1), of c] stepsD [OF assms(2), of "f c"]
    by (simp add: add.assoc extendsD [of c "f c"])
qed

lemma steps_AddError [steps_intros]: "steps (AddError msg v) (err_at msg v)"
  by (simp add: steps_def extends_def AddError_def ctx_events_def err_at_def CurrentPath_def)

lemma steps_RecordTransformation [steps_intros]:
  "steps (RecordTransformation x y ty) (trans_at x y ty)"
  by (simp add: steps_def extends_def RecordTransformation_def ctx_events_def trans_at_def
      CurrentPath_def)

lemma steps_if [steps_intros]:
  "(b \<Longrightarrow> steps f R) \<Longrightarrow> (\<not> b \<Longrightarrow> steps g S) \<Longrightarrow>
   steps (\<lambda>c. if b then f c else g c) (\<lambda>p m. if b then R p m else S p m)"
  by (cases b) simp_all

text \<open>A choice on the mode, which no step changes.\<close>

lemma steps_mode:
  "(\<And>m. steps (f m) (R m)) \<Longrightarrow> steps (\<lambda>c. f (c_mode c) c) (\<lambda>p m. R m p m)"
  by (auto simp: steps_def)

lemma steps_option [steps_intros]:
  "(x = None \<Longrightarrow> steps f R) \<Longrightarrow> (\<And>y. x = Some y \<Longrightarrow> steps (g y) (S y)) \<Longrightarrow>
   steps (\<lambda>c. case x of None \<Rightarrow> f c | Some y \<Rightarrow> g y c)
     (\<lambda>p m. case x of None \<Rightarrow> R p m | Some y \<Rightarrow> S y p m)"
  by (cases x) auto

lemma steps_fold [steps_intros]:
  "(\<And>x. x \<in> set xs \<Longrightarrow> steps (f x) (R x)) \<Longrightarrow>
   steps (fold f xs) (\<lambda>p m. \<Sum>x\<leftarrow>xs. R x p m)"
proof (induction xs)
  case Nil
  then show ?case by (simp add: steps_id id_def)
next
  case (Cons x xs)
  have "steps (\<lambda>c. fold f xs (f x c)) (\<lambda>p m. R x p m + (\<Sum>y\<leftarrow>xs. R y p m))"
    by (rule steps_comp) (use Cons in auto)
  then show ?case by (simp add: comp_def)
qed

text \<open>A loop over the keys of a map reports the same whatever the order.\<close>

lemma steps_range [steps_intros]:
  assumes "\<And>k. k \<in> set (map_keys m) \<Longrightarrow> steps (f k) (R k)"
  shows "steps (\<lambda>c. fold f (range_keys E c m) c) (\<lambda>p md. \<Sum>k\<leftarrow>map_keys m. R k p md)"
  unfolding steps_def
proof (intro allI)
  fix c
  have "steps (fold f (range_keys E c m)) (\<lambda>p md. \<Sum>k\<leftarrow>range_keys E c m. R k p md)"
    by (rule steps_fold) (use assms in simp)
  moreover have "(\<Sum>k\<leftarrow>range_keys E c m. R k p md) = (\<Sum>k\<leftarrow>map_keys m. R k p md)" for p md
    by (rule sum_mset_map_perm) simp
  ultimately show "extends c (fold f (range_keys E c m) c) \<and>
      ctx_events (fold f (range_keys E c m) c) =
      ctx_events c + (\<Sum>k\<leftarrow>map_keys m. R k (c_path c) (c_mode c))"
    by (simp add: steps_def)
qed

lemma PopPath_PushPath: "c_path d = c_path c @ [s] \<Longrightarrow> c_path (PopPath d) = c_path c"
  by (simp add: PopPath_def)

lemma PopPath_frame [simp]:
  "c_errors (PopPath c) = c_errors c" "c_trans (PopPath c) = c_trans c" "c_mode (PopPath c) = c_mode c"
  "ctx_events (PopPath c) = ctx_events c"
  by (simp_all add: PopPath_def ctx_events_def)

lemma PushPath_frame [simp]:
  "c_errors (PushPath s c) = c_errors c" "c_trans (PushPath s c) = c_trans c"
  "c_mode (PushPath s c) = c_mode c" "c_path (PushPath s c) = c_path c @ [s]"
  "ctx_events (PushPath s c) = ctx_events c"
  by (simp_all add: PushPath_def ctx_events_def)

lemma steps_WithPath [steps_intros]:
  assumes "steps f R"
  shows "steps (WithPath s f) (\<lambda>p m. R (p @ [s]) m)"
  unfolding steps_def
proof (intro allI)
  fix c
  let ?c = "PushPath s c"
  have "extends ?c (f ?c)" and "ctx_events (f ?c) = ctx_events ?c + R (c_path c @ [s]) (c_mode c)"
    using stepsD [OF assms, of ?c] by simp_all
  then show "extends c (WithPath s f c) \<and>
      ctx_events (WithPath s f c) = ctx_events c + R (c_path c @ [s]) (c_mode c)"
    by (auto simp: WithPath_def extends_def PopPath_PushPath)
qed

lemma WithIndex_WithPath: "WithIndex i f = WithPath (index_segment i) f"
  by (simp add: fun_eq_iff WithIndex_def WithPath_def PushIndex_def PushPath_def)

lemma steps_WithIndex [steps_intros]:
  "steps f R \<Longrightarrow> steps (WithIndex i f) (\<lambda>p m. R (p @ [index_segment i]) m)"
  by (simp add: WithIndex_WithPath steps_WithPath)

text \<open>What a step on a fresh context tells: it passes exactly when its report is clean.\<close>

lemma steps_fresh:
  assumes "steps f R"
  shows "HasErrors (f (NewValidationContext m)) \<longleftrightarrow> \<not> clean (R [] m)"
proof -
  have "ctx_events (f (NewValidationContext m)) = R [] m"
    using stepsD(2) [OF assms, of "NewValidationContext m"]
    by (simp add: NewValidationContext_def ctx_events_def)
  then show ?thesis
    by (metis HasErrors_def clean_ctx_events length_greater_0_conv)
qed

lemma steps_clean:
  assumes "steps f R"
  shows "c_errors (f c) = c_errors c \<longleftrightarrow> clean (R (c_path c) (c_mode c))"
proof -
  obtain es ts where f: "c_errors (f c) = c_errors c @ es" "c_trans (f c) = c_trans c @ ts"
    using stepsD(1) [OF assms, of c] by (auto simp: extends_def)
  have "ctx_events (f c) = ctx_events c + (image_mset EErr (mset es) + image_mset ETrans (mset ts))"
    by (simp add: ctx_events_def f)
  with stepsD(2) [OF assms, of c]
  have "R (c_path c) (c_mode c) = image_mset EErr (mset es) + image_mset ETrans (mset ts)"
    by simp
  then have "clean (R (c_path c) (c_mode c)) \<longleftrightarrow> es = []"
    by (cases es) (auto simp: clean_def is_err_def)
  with f show ?thesis by simp
qed

text \<open>Steps that agree on their reports agree up to the order of what they append.\<close>

lemma steps_perm:
  assumes "steps f R" and "steps g R"
  shows "mset (c_errors (f c)) = mset (c_errors (g c)) \<and> mset (c_trans (f c)) = mset (c_trans (g c))"
proof -
  have eq: "ctx_events (f c) = ctx_events (g c)"
    using assms by (simp add: steps_def)
  have errs: "image_mset EErr (mset (c_errors d)) = filter_mset is_err (ctx_events d)"
    and trans: "image_mset ETrans (mset (c_trans d)) = filter_mset (\<lambda>e. \<not> is_err e) (ctx_events d)"
    for d
    by (simp_all add: ctx_events_def filter_mset_image_mset is_err_def)
  have "image_mset EErr (mset (c_errors (f c))) = image_mset EErr (mset (c_errors (g c)))"
    and "image_mset ETrans (mset (c_trans (f c))) = image_mset ETrans (mset (c_trans (g c)))"
    unfolding errs trans eq by simp_all
  then show ?thesis
    by (simp add: inj_eq [OF multiset.inj_map] inj_def)
qed

end
