(* ===== verification/SchemaBase.thy ===== *)
theory SchemaBase
  imports ValidationCtx
begin

text \<open>
  \<open>types.go\<close> and \<open>schema.go\<close>: schema types, the embedded \<open>BaseSchema\<close> with its setters and
  \<open>CheckRequired\<close>, and the \<open>Schema\<close> interface. A value of an interface type is a record of its
  methods (\<open>iface\<close>): what a schema that holds other schemas can do with them is to call these.
  The locale \<open>schema_contract\<close> is the contract every \<open>Validate\<close> of the library keeps; the
  schemas that hold others rely on it for their children.
\<close>

datatype schema_type = TypeString | TypeNumber | TypeBool | TypeObject | TypeArray | TypeAny
  | TypeCustom | TypeComposite | TypeDateTime | TypeDependent | TypeTransform

definition SchemaType_String :: "schema_type \<Rightarrow> string" where
  "SchemaType_String t = (case t of
       TypeString \<Rightarrow> ''string'' | TypeNumber \<Rightarrow> ''number'' | TypeBool \<Rightarrow> ''boolean''
     | TypeObject \<Rightarrow> ''object'' | TypeArray \<Rightarrow> ''array'' | TypeAny \<Rightarrow> ''any''
     | TypeCustom \<Rightarrow> ''custom'' | TypeComposite \<Rightarrow> ''composite'' | TypeDateTime \<Rightarrow> ''datetime''
     | TypeDependent \<Rightarrow> ''dependent'' | TypeTransform \<Rightarrow> ''transform'')"

text \<open>\<open>ValidatorFunc\<close>: a custom validator returns the text of its error, or None.\<close>

type_synonym validator_func = "gval \<Rightarrow> string option"

section \<open>BaseSchema\<close>

record base_schema =
  bs_type :: schema_type
  bs_required :: bool
  bs_nullable :: bool
  bs_metadata :: "gval gmap"

definition new_base :: "schema_type \<Rightarrow> base_schema" where
  "new_base t = \<lparr>bs_type = t, bs_required = False, bs_nullable = False, bs_metadata = []\<rparr>"

definition GetMeta :: "base_schema \<Rightarrow> string \<Rightarrow> gval option" where
  "GetMeta b key = map_of (bs_metadata b) key"

definition SetMeta :: "string \<Rightarrow> gval \<Rightarrow> base_schema \<Rightarrow> base_schema" where
  "SetMeta key v b = b\<lparr>bs_metadata := map_put key v (bs_metadata b)\<rparr>"

definition SetRequired :: "bool \<Rightarrow> base_schema \<Rightarrow> base_schema" where
  "SetRequired r b = b\<lparr>bs_required := r\<rparr>"

definition SetNullable :: "bool \<Rightarrow> base_schema \<Rightarrow> base_schema" where
  "SetNullable n b = b\<lparr>bs_nullable := n\<rparr>"

text \<open>\<open>CheckRequired\<close>: the context after the check, and whether validation goes on.\<close>

definition CheckRequired :: "base_schema \<Rightarrow> gval \<Rightarrow> validation_context \<Rightarrow> validation_context \<times> bool" where
  "CheckRequired b v c =
     (if v = VNil then
        (if bs_required b then (AddError ''field is required'' VNil c, False)
         else if \<not> bs_nullable b then (AddError ''field cannot be null'' VNil c, False)
         else (c, False))
      else (c, True))"

text \<open>What \<open>CheckRequired\<close> reports when it stops validation.\<close>

definition nil_report :: "base_schema \<Rightarrow> string list \<Rightarrow> vmode \<Rightarrow> report" where
  "nil_report b = (if bs_required b then err_at ''field is required'' VNil
     else if \<not> bs_nullable b then err_at ''field cannot be null'' VNil else (\<lambda>p m. {#}))"

lemma GetMeta_SetMeta: "GetMeta (SetMeta k v b) j = (if j = k then Some v else GetMeta b j)"
  by (simp add: GetMeta_def SetMeta_def)

lemma CheckRequired_snd [simp]: "snd (CheckRequired b v c) \<longleftrightarrow> v \<noteq> VNil"
  by (simp add: CheckRequired_def)

lemma CheckRequired_present [simp]: "v \<noteq> VNil \<Longrightarrow> CheckRequired b v c = (c, True)"
  by (simp add: CheckRequired_def)

text \<open>
  The guard \<open>if !s.CheckRequired(value, ctx) { return nil }\<close> around the rest of a \<open>Validate\<close>.
\<close>

definition guarded :: "base_schema \<Rightarrow> (gval \<Rightarrow> validation_context \<Rightarrow> validation_context) \<Rightarrow>
    gval \<Rightarrow> validation_context \<Rightarrow> validation_context" where
  "guarded b rest v c = (case CheckRequired b v c of
     (c', go) \<Rightarrow> if go then rest v c' else c')"

definition guarded_report :: "base_schema \<Rightarrow> (gval \<Rightarrow> string list \<Rightarrow> vmode \<Rightarrow> report) \<Rightarrow>
    gval \<Rightarrow> string list \<Rightarrow> vmode \<Rightarrow> report" where
  "guarded_report b rest v p m = (if v = VNil then nil_report b p m else rest v p m)"

lemma guarded_present [simp]: "v \<noteq> VNil \<Longrightarrow> guarded b rest v c = rest v c"
  by (simp add: guarded_def)

lemma guarded_nil: "guarded b rest VNil = (if bs_required b then AddError ''field is required'' VNil
     else if \<not> bs_nullable b then AddError ''field cannot be null'' VNil else (\<lambda>c. c))"
  by (auto simp: guarded_def CheckRequired_def)

lemma steps_guarded [steps_intros]:
  assumes "v \<noteq> VNil \<Longrightarrow> steps (rest v) (R v)"
  shows "steps (guarded b rest v) (guarded_report b R v)"
proof (cases "v = VNil")
  case True
  then show ?thesis
    by (auto simp: guarded_nil guarded_report_def [abs_def] nil_report_def
        intro: steps_AddError steps_id)
next
  case False
  then have "guarded b rest v = rest v" and "guarded_report b R v = R v"
    by (auto simp: guarded_report_def fun_eq_iff)
  with assms False show ?thesis by simp
qed

text \<open>The loop over the custom validators, each called on \<open>arg\<close> and reporting \<open>shown\<close>.\<close>

definition run_validator :: "gval \<Rightarrow> gval \<Rightarrow> validator_func \<Rightarrow> validation_context \<Rightarrow> validation_context" where
  "run_validator arg shown f c = (case f arg of None \<Rightarrow> c | Some msg \<Rightarrow> AddError msg shown c)"

definition run_validators :: "validator_func list \<Rightarrow> gval \<Rightarrow> gval \<Rightarrow>
    validation_context \<Rightarrow> validation_context" where
  "run_validators fs arg shown = fold (run_validator arg shown) fs"

definition validators_report :: "validator_func list \<Rightarrow> gval \<Rightarrow> gval \<Rightarrow> string list \<Rightarrow> vmode \<Rightarrow> report" where
  "validators_report fs arg shown p m =
     (\<Sum>f\<leftarrow>fs. case f arg of None \<Rightarrow> {#} | Some msg \<Rightarrow> err_at msg shown p m)"

lemma steps_run_validators [steps_intros]:
  "steps (run_validators fs arg shown) (validators_report fs arg shown)"
  unfolding run_validators_def validators_report_def [abs_def] run_validator_def [abs_def]
  by (intro steps_intros)

lemma clean_validators_report [simp]:
  "clean (validators_report fs arg shown p m) \<longleftrightarrow> (\<forall>f \<in> set fs. f arg = None)"
  by (auto simp: validators_report_def split: option.splits)

section \<open>The Schema interface\<close>

type_synonym validate_fun = "gval \<Rightarrow> validation_context \<Rightarrow> validation_context"

type_synonym report_fun = "gval \<Rightarrow> string list \<Rightarrow> vmode \<Rightarrow> report"

text \<open>
  The result of \<open>ValidateAndTransform\<close>: the context, the value and the error. The error result
  of \<open>Validate\<close> is always nil in the library and is left out.
\<close>

type_synonym vat_fun = "gval \<Rightarrow> validation_context \<Rightarrow> validation_context \<times> gval \<times> go_error option"

record iface =
  i_type :: schema_type
  i_required :: bool                     \<comment> \<open>\<open>IsRequired()\<close>\<close>
  i_nullable :: bool                     \<comment> \<open>\<open>IsNullable()\<close>\<close>
  i_validate :: validate_fun
  i_vat :: "vat_fun option"              \<comment> \<open>\<open>ValidateAndTransform\<close>, where the type has it\<close>

text \<open>The same interface seen from the specification: what \<open>Validate\<close> reports.\<close>

record rface =
  r_type :: schema_type
  r_required :: bool
  r_nullable :: bool
  r_report :: report_fun

locale schema_contract =
  fixes V :: validate_fun and R :: report_fun
  assumes contract: "steps (V v) (R v)"
begin

lemma frame: "c_path (V v c) = c_path c" "c_mode (V v c) = c_mode c"
  using stepsD(1) [OF contract, of c v] by (simp_all add: extends_def)

lemma appends: "\<exists>es. c_errors (V v c) = c_errors c @ es" "\<exists>ts. c_trans (V v c) = c_trans c @ ts"
  using stepsD(1) [OF contract, of c v] by (simp_all add: extends_def)

lemma reports: "ctx_events (V v c) = ctx_events c + R v (c_path c) (c_mode c)"
  by (rule stepsD(2) [OF contract])

lemma fresh: "HasErrors (V v (NewValidationContext m)) \<longleftrightarrow> \<not> clean (R v [] m)"
  by (rule steps_fresh [OF contract])

lemma accepts: "c_errors (V v c) = c_errors c \<longleftrightarrow> clean (R v (c_path c) (c_mode c))"
  by (rule steps_clean [OF contract])

end

text \<open>An interface value that keeps the contract, and the same value's specification.\<close>

definition refines :: "iface \<Rightarrow> rface \<Rightarrow> bool" where
  "refines i r = (i_type i = r_type r \<and> i_required i = r_required r \<and> i_nullable i = r_nullable r
     \<and> (\<forall>v. steps (i_validate i v) (r_report r v)))"

lemma refinesD:
  assumes "refines i r"
  shows "i_type i = r_type r" and "i_required i = r_required r" and "i_nullable i = r_nullable r"
    and "steps (i_validate i v) (r_report r v)"
  using assms by (simp_all add: refines_def)

lemma refinesI:
  "i_type i = r_type r \<Longrightarrow> i_required i = r_required r \<Longrightarrow> i_nullable i = r_nullable r \<Longrightarrow>
   (\<And>v. steps (i_validate i v) (r_report r v)) \<Longrightarrow> refines i r"
  by (simp add: refines_def)

end
