(* ===== verification/Validator.thy ===== *)
theory Validator
  imports SchemaBase
begin

text \<open>
  \<open>validator.go\<close>: the type check \<open>ValidateValue\<close> with its helpers and the conversions of loose
  mode. A helper returns the context and its verdict.
\<close>

section \<open>Conversions\<close>

definition ConvertToString :: "go_lib \<Rightarrow> gval \<Rightarrow> string option" where
  "ConvertToString L v = (case v of
       VStr s \<Rightarrow> Some s
     | VStringer ty k s \<Rightarrow> Some s
     | VTime t \<Rightarrow> Some (lib_time_string L t)
     | VBool b \<Rightarrow> Some (sprint_v L v)
     | VInt k i \<Rightarrow> Some (sprint_v L v)
     | VFloat32 x \<Rightarrow> Some (sprint_v L v)
     | VFloat64 x \<Rightarrow> Some (sprint_v L v)
     | _ \<Rightarrow> None)"

text \<open>\<open>fmt.Sscanf(str, "%f", &f)\<close>; None where the code returns false.\<close>

definition ConvertStringToNumber :: "string \<Rightarrow> f64 option" where
  "ConvertStringToNumber s = sscanf_float s"

section \<open>Type checks\<close>

definition expected_msg :: "string \<Rightarrow> gval \<Rightarrow> string" where
  "expected_msg what v = ''expected '' @ what @ '', got '' @ type_name v"

definition validateString :: "go_lib \<Rightarrow> gval \<Rightarrow> validation_context \<Rightarrow> validation_context \<times> bool" where
  "validateString L v c = (case v of
       VStr s \<Rightarrow> (c, True)
     | _ \<Rightarrow> if c_mode c = Loose \<and> ConvertToString L v \<noteq> None then (c, True)
           else (AddError (expected_msg ''string'' v) v c, False))"

definition validateNumber :: "gval \<Rightarrow> validation_context \<Rightarrow> validation_context \<times> bool" where
  "validateNumber v c = (case v of
       VInt _ _ \<Rightarrow> (c, True)
     | VFloat32 _ \<Rightarrow> (c, True)
     | VFloat64 _ \<Rightarrow> (c, True)
     | VStr s \<Rightarrow> if c_mode c = Loose \<and> ConvertStringToNumber s \<noteq> None then (c, True)
                else (AddError (expected_msg ''number'' v) v c, False)
     | _ \<Rightarrow> (AddError (expected_msg ''number'' v) v c, False))"

definition validateBool :: "gval \<Rightarrow> validation_context \<Rightarrow> validation_context \<times> bool" where
  "validateBool v c = (case v of
       VBool _ \<Rightarrow> (c, True)
     | VStr s \<Rightarrow> if c_mode c = Loose \<and> (s = ''true'' \<or> s = ''false'') then (c, True)
                else (AddError (expected_msg ''boolean'' v) v c, False)
     | _ \<Rightarrow> (AddError (expected_msg ''boolean'' v) v c, False))"

definition validateObject :: "gval \<Rightarrow> validation_context \<Rightarrow> validation_context \<times> bool" where
  "validateObject v c = (case v of
       VMap _ \<Rightarrow> (c, True)
     | VTMap _ _ _ \<Rightarrow> (c, True)
     | VOtherMap _ _ \<Rightarrow> (AddError ''expected object with string keys'' v c, False)
     | _ \<Rightarrow> (AddError (expected_msg ''object'' v) v c, False))"

definition validateArray :: "gval \<Rightarrow> validation_context \<Rightarrow> validation_context \<times> bool" where
  "validateArray v c = (case v of
       VSlice _ \<Rightarrow> (c, True)
     | VTSlice _ _ _ \<Rightarrow> (c, True)
     | _ \<Rightarrow> (AddError (expected_msg ''array'' v) v c, False))"

definition ValidateValue :: "go_lib \<Rightarrow> gval \<Rightarrow> schema_type \<Rightarrow> validation_context \<Rightarrow>
    validation_context \<times> bool" where
  "ValidateValue L v t c = (if v = VNil then (c, True) else (case t of
       TypeString \<Rightarrow> validateString L v c
     | TypeNumber \<Rightarrow> validateNumber v c
     | TypeBool \<Rightarrow> validateBool v c
     | TypeObject \<Rightarrow> validateObject v c
     | TypeArray \<Rightarrow> validateArray v c
     | TypeAny \<Rightarrow> (c, True)
     | _ \<Rightarrow> (AddError (''unknown schema type: '' @ SchemaType_String t) v c, False)))"

section \<open>The verdicts\<close>

text \<open>
  The check passes without touching the context, or adds exactly one error; which of the two
  depends on the value, the type and the mode only.
\<close>

definition type_ok :: "go_lib \<Rightarrow> schema_type \<Rightarrow> gval \<Rightarrow> vmode \<Rightarrow> bool" where
  "type_ok L t v m = snd (ValidateValue L v t (NewValidationContext m))"

definition type_msg :: "schema_type \<Rightarrow> gval \<Rightarrow> string" where
  "type_msg t v = (case t of
       TypeString \<Rightarrow> expected_msg ''string'' v | TypeNumber \<Rightarrow> expected_msg ''number'' v
     | TypeBool \<Rightarrow> expected_msg ''boolean'' v
     | TypeObject \<Rightarrow> (case v of VOtherMap _ _ \<Rightarrow> ''expected object with string keys''
                     | _ \<Rightarrow> expected_msg ''object'' v)
     | TypeArray \<Rightarrow> expected_msg ''array'' v
     | _ \<Rightarrow> ''unknown schema type: '' @ SchemaType_String t)"

lemmas validate_value_defs = ValidateValue_def validateString_def validateNumber_def
  validateBool_def validateObject_def validateArray_def

lemma ValidateValue_eq:
  "ValidateValue L v t c =
     (if type_ok L t v (c_mode c) then (c, True) else (AddError (type_msg t v) v c, False))"
  by (cases t; cases v)
    (auto simp: type_ok_def type_msg_def validate_value_defs NewValidationContext_def)

text \<open>Which types a value passes as, spelled out.\<close>

lemma type_ok_string: "v \<noteq> VNil \<Longrightarrow> type_ok L TypeString v m \<longleftrightarrow>
    (\<exists>s. v = VStr s) \<or> (m = Loose \<and> ConvertToString L v \<noteq> None)"
  by (cases v) (auto simp: type_ok_def validate_value_defs NewValidationContext_def)

lemma type_ok_number: "v \<noteq> VNil \<Longrightarrow> type_ok L TypeNumber v m \<longleftrightarrow>
    is_numeric v \<or> (m = Loose \<and> (\<exists>s. v = VStr s \<and> ConvertStringToNumber s \<noteq> None))"
  by (cases v) (auto simp: type_ok_def validate_value_defs NewValidationContext_def is_numeric_def)

lemma type_ok_bool: "v \<noteq> VNil \<Longrightarrow> type_ok L TypeBool v m \<longleftrightarrow>
    (\<exists>b. v = VBool b) \<or> (m = Loose \<and> v \<in> {VStr ''true'', VStr ''false''})"
  by (cases v) (auto simp: type_ok_def validate_value_defs NewValidationContext_def)

lemma type_ok_object: "v \<noteq> VNil \<Longrightarrow> type_ok L TypeObject v m \<longleftrightarrow>
    (\<exists>f. v = VMap f) \<or> (\<exists>k e f. v = VTMap k e f)"
  by (cases v) (auto simp: type_ok_def validate_value_defs NewValidationContext_def)

lemma type_ok_array: "v \<noteq> VNil \<Longrightarrow> type_ok L TypeArray v m \<longleftrightarrow> as_slice v \<noteq> None"
  by (cases v) (auto simp: type_ok_def validate_value_defs NewValidationContext_def as_slice_def)

text \<open>The pattern \<open>if !ValidateValue(...) { return nil }\<close>.\<close>

definition typed :: "go_lib \<Rightarrow> schema_type \<Rightarrow> validate_fun \<Rightarrow> validate_fun" where
  "typed L t rest v c = (case ValidateValue L v t c of (c', ok) \<Rightarrow> if ok then rest v c' else c')"

definition typed_report :: "go_lib \<Rightarrow> schema_type \<Rightarrow> report_fun \<Rightarrow> report_fun" where
  "typed_report L t R v p m = (if type_ok L t v m then R v p m else err_at (type_msg t v) v p m)"

lemma typed_eq: "typed L t rest v c =
    (if type_ok L t v (c_mode c) then rest v c else AddError (type_msg t v) v c)"
  by (simp add: typed_def ValidateValue_eq)

lemma steps_typed [steps_intros]:
  assumes "\<And>m. type_ok L t v m \<Longrightarrow> steps (rest v) (R v)"
  shows "steps (typed L t rest v) (typed_report L t R v)"
proof -
  have "steps (\<lambda>c. (\<lambda>m c. if type_ok L t v m then rest v c else AddError (type_msg t v) v c) (c_mode c) c)
      (\<lambda>p m. (\<lambda>m p md. if type_ok L t v m then R v p md else err_at (type_msg t v) v p md) m p m)"
    by (rule steps_mode) (intro steps_intros assms)
  then show ?thesis
    by (simp add: typed_eq [abs_def] typed_report_def [abs_def])
qed

end
