(* ===== verification/StringSchema.thy ===== *)
theory StringSchema
  imports Validator
begin

text \<open>
  \<open>builders/string.go\<close> and \<open>builders/formats.go\<close>: the string schema, its builder methods and
  its \<open>Validate\<close>, and the registry of named formats. The compiled regular expression is kept as
  its match function; compiling is an engine of \<open>go_lib\<close>. Lengths count bytes, as \<open>len\<close> does.
\<close>

record string_schema =
  ss_base :: base_schema
  ss_minLength :: "int option"
  ss_maxLength :: "int option"
  ss_pattern :: "(string \<Rightarrow> bool) option"
  ss_patternStr :: string
  ss_enum :: "string list"
  ss_validators :: "validator_func list"
  ss_formatType :: string

section \<open>Builder methods\<close>

definition String_new :: string_schema where
  "String_new = \<lparr>ss_base = new_base TypeString, ss_minLength = None, ss_maxLength = None,
     ss_pattern = None, ss_patternStr = [], ss_enum = [], ss_validators = [], ss_formatType = []\<rparr>"

definition String_Required :: "string_schema \<Rightarrow> string_schema" where
  "String_Required s = s\<lparr>ss_base := SetRequired True (ss_base s)\<rparr>"

definition String_Optional :: "string_schema \<Rightarrow> string_schema" where
  "String_Optional s = s\<lparr>ss_base := SetRequired False (ss_base s)\<rparr>"

definition String_Nullable :: "string_schema \<Rightarrow> string_schema" where
  "String_Nullable s = s\<lparr>ss_base := SetNullable True (ss_base s)\<rparr>"

definition String_MinLength :: "int \<Rightarrow> string_schema \<Rightarrow> string_schema" where
  "String_MinLength n s = s\<lparr>ss_minLength := Some n\<rparr>"

definition String_MaxLength :: "int \<Rightarrow> string_schema \<Rightarrow> string_schema" where
  "String_MaxLength n s = s\<lparr>ss_maxLength := Some n\<rparr>"

definition String_Length :: "int \<Rightarrow> string_schema \<Rightarrow> string_schema" where
  "String_Length n s = s\<lparr>ss_minLength := Some n, ss_maxLength := Some n\<rparr>"

definition String_Pattern :: "go_lib \<Rightarrow> string \<Rightarrow> string_schema \<Rightarrow> string_schema" where
  "String_Pattern L pat s = (case lib_regexp_compile L pat of
       Inl err \<Rightarrow> s\<lparr>ss_validators := ss_validators s @
         [\<lambda>v. Some (''invalid regex pattern: '' @ err)]\<rparr>
     | Inr re \<Rightarrow> s\<lparr>ss_pattern := Some re, ss_patternStr := pat\<rparr>)"

definition String_Enum :: "string list \<Rightarrow> string_schema \<Rightarrow> string_schema" where
  "String_Enum vals s = s\<lparr>ss_enum := vals\<rparr>"

definition email_pattern :: string where
  "email_pattern = ''^[a-zA-Z0-9._%+-]+@[a-zA-Z0-9.-]+'' @ [CHR 0x5C] @ ''.[a-zA-Z]{2,}$''"

definition url_pattern :: string where
  "url_pattern = ''^https?://[^'' @ [CHR 0x5C] @ ''s/$.?#].[^'' @ [CHR 0x5C] @ ''s]*$''"

definition uuid_pattern :: string where
  "uuid_pattern = ''^[0-9a-fA-F]{8}-[0-9a-fA-F]{4}-[0-9a-fA-F]{4}-[0-9a-fA-F]{4}-[0-9a-fA-F]{12}$''"

definition String_Email :: "go_lib \<Rightarrow> string_schema \<Rightarrow> string_schema" where
  "String_Email L s = String_Pattern L email_pattern (s\<lparr>ss_formatType := ''email''\<rparr>)"

definition String_URL :: "go_lib \<Rightarrow> string_schema \<Rightarrow> string_schema" where
  "String_URL L s = String_Pattern L url_pattern (s\<lparr>ss_formatType := ''url''\<rparr>)"

definition String_UUID :: "go_lib \<Rightarrow> string_schema \<Rightarrow> string_schema" where
  "String_UUID L s = String_Pattern L uuid_pattern (s\<lparr>ss_formatType := ''uuid''\<rparr>)"

definition String_Custom :: "validator_func \<Rightarrow> string_schema \<Rightarrow> string_schema" where
  "String_Custom f s = s\<lparr>ss_validators := ss_validators s @ [f]\<rparr>"

definition String_Meta :: "string \<Rightarrow> gval \<Rightarrow> string_schema \<Rightarrow> string_schema" where
  "String_Meta k v s = s\<lparr>ss_base := SetMeta k v (ss_base s)\<rparr>"

definition String_PatternMatch :: "string_schema \<Rightarrow> string \<Rightarrow> bool" where
  "String_PatternMatch s str = (case ss_pattern s of None \<Rightarrow> True | Some re \<Rightarrow> re str)"

section \<open>Validate\<close>

definition min_length_msg :: "int \<Rightarrow> string \<Rightarrow> string" where
  "min_length_msg n str =
     ''length must be at least '' @ show_int n @ '', got '' @ show_int (int (length str))"

definition max_length_msg :: "int \<Rightarrow> string \<Rightarrow> string" where
  "max_length_msg n str =
     ''length must be at most '' @ show_int n @ '', got '' @ show_int (int (length str))"

definition pattern_msg :: "string \<Rightarrow> string \<Rightarrow> string" where
  "pattern_msg fmt pat =
     (if fmt = ''email'' then ''must be a valid email address''
      else if fmt = ''url'' then ''must be a valid URL''
      else if fmt = ''uuid'' then ''must be a valid UUID''
      else ''must match pattern '' @ pat)"

definition enum_msg :: "string list \<Rightarrow> string" where
  "enum_msg vals = ''must be one of: '' @ str_join '', '' vals"

definition check_minLength :: "string_schema \<Rightarrow> string \<Rightarrow> validation_context \<Rightarrow> validation_context" where
  "check_minLength s str c = (case ss_minLength s of None \<Rightarrow> c
     | Some n \<Rightarrow> if int (length str) < n then AddError (min_length_msg n str) (VStr str) c else c)"

definition check_maxLength :: "string_schema \<Rightarrow> string \<Rightarrow> validation_context \<Rightarrow> validation_context" where
  "check_maxLength s str c = (case ss_maxLength s of None \<Rightarrow> c
     | Some n \<Rightarrow> if n < int (length str) then AddError (max_length_msg n str) (VStr str) c else c)"

definition check_pattern :: "string_schema \<Rightarrow> string \<Rightarrow> validation_context \<Rightarrow> validation_context" where
  "check_pattern s str c = (case ss_pattern s of None \<Rightarrow> c
     | Some re \<Rightarrow> if \<not> re str
         then AddError (pattern_msg (ss_formatType s) (ss_patternStr s)) (VStr str) c else c)"

definition check_enum :: "string_schema \<Rightarrow> string \<Rightarrow> validation_context \<Rightarrow> validation_context" where
  "check_enum s str c =
     (if 0 < length (ss_enum s) \<and> str \<notin> set (ss_enum s)
      then AddError (enum_msg (ss_enum s)) (VStr str) c else c)"

definition string_constraints :: "string_schema \<Rightarrow> string \<Rightarrow> validation_context \<Rightarrow> validation_context" where
  "string_constraints s str c =
     (let c = check_minLength s str c;
          c = check_maxLength s str c;
          c = check_pattern s str c;
          c = check_enum s str c
      in run_validators (ss_validators s) (VStr str) (VStr str) c)"

definition as_string :: "gval \<Rightarrow> string option" where
  "as_string v = (case v of VStr s \<Rightarrow> Some s | _ \<Rightarrow> None)"

definition string_Validate :: "go_lib \<Rightarrow> string_schema \<Rightarrow> validate_fun" where
  "string_Validate L s = guarded (ss_base s) (\<lambda>v c.
     if c_mode c = Loose then
       (case ConvertToString L v of
          None \<Rightarrow> AddError (''cannot convert '' @ type_name v @ '' to string'') v c
        | Some str \<Rightarrow> string_constraints s str c)
     else
       (case as_string v of
          None \<Rightarrow> AddError (expected_msg ''string'' v) v c
        | Some str \<Rightarrow> string_constraints s str c))"

section \<open>What it reports\<close>

text \<open>The constraints a string must meet, with the message each gives when it does not.\<close>

definition string_violations :: "string_schema \<Rightarrow> string \<Rightarrow> string list" where
  "string_violations s str =
     (case ss_minLength s of Some n \<Rightarrow> if int (length str) < n then [min_length_msg n str] else []
        | None \<Rightarrow> [])
   @ (case ss_maxLength s of Some n \<Rightarrow> if n < int (length str) then [max_length_msg n str] else []
        | None \<Rightarrow> [])
   @ (if String_PatternMatch s str then [] else [pattern_msg (ss_formatType s) (ss_patternStr s)])
   @ (if ss_enum s = [] \<or> str \<in> set (ss_enum s) then [] else [enum_msg (ss_enum s)])
   @ concat (map (\<lambda>f. case f (VStr str) of None \<Rightarrow> [] | Some msg \<Rightarrow> [msg]) (ss_validators s))"

definition string_reading :: "go_lib \<Rightarrow> gval \<Rightarrow> vmode \<Rightarrow> string option" where
  "string_reading L v m = (if m = Loose then ConvertToString L v else as_string v)"

definition add_errors :: "string list \<Rightarrow> gval \<Rightarrow> validation_context \<Rightarrow> validation_context" where
  "add_errors msgs v = fold (\<lambda>msg. AddError msg v) msgs"

lemma add_errors_simps [simp]:
  "add_errors [] v c = c" "add_errors (a @ b) v c = add_errors b v (add_errors a v c)"
  "add_errors [msg] v c = AddError msg v c"
  by (simp_all add: add_errors_def)

lemma run_validators_add_errors:
  "run_validators fs a v c =
   add_errors (concat (map (\<lambda>f. case f a of None \<Rightarrow> [] | Some msg \<Rightarrow> [msg]) fs)) v c"
  by (induction fs arbitrary: c)
    (auto simp: run_validators_def run_validator_def split: option.splits)

lemma string_constraints_eq:
  "string_constraints s str c = add_errors (string_violations s str) (VStr str) c"
  by (auto simp: string_constraints_def string_violations_def check_minLength_def
      check_maxLength_def check_pattern_def check_enum_def String_PatternMatch_def
      run_validators_add_errors split: option.splits)

definition errs_at :: "string list \<Rightarrow> gval \<Rightarrow> string list \<Rightarrow> vmode \<Rightarrow> report" where
  "errs_at msgs v p m = (\<Sum>msg\<leftarrow>msgs. err_at msg v p m)"

lemma steps_add_errors [steps_intros]: "steps (add_errors msgs v) (errs_at msgs v)"
  unfolding add_errors_def errs_at_def [abs_def] by (intro steps_intros)

lemma clean_errs_at [simp]: "clean (errs_at msgs v p m) \<longleftrightarrow> msgs = []"
  by (cases msgs) (auto simp: errs_at_def)

lemma steps_string_constraints [steps_intros]:
  "steps (string_constraints s str) (errs_at (string_violations s str) (VStr str))"
  unfolding string_constraints_eq [abs_def] by (rule steps_add_errors)

definition string_report :: "go_lib \<Rightarrow> string_schema \<Rightarrow> report_fun" where
  "string_report L s = guarded_report (ss_base s) (\<lambda>v p m.
     if m = Loose then
       (case ConvertToString L v of
          None \<Rightarrow> err_at (''cannot convert '' @ type_name v @ '' to string'') v p m
        | Some str \<Rightarrow> errs_at (string_violations s str) (VStr str) p m)
     else
       (case as_string v of
          None \<Rightarrow> err_at (expected_msg ''string'' v) v p m
        | Some str \<Rightarrow> errs_at (string_violations s str) (VStr str) p m))"

lemma steps_string_Validate: "steps (string_Validate L s v) (string_report L s v)"
  unfolding string_Validate_def string_report_def
  by (rule steps_guarded)
    (rule steps_mode [where f = "\<lambda>m c. if m = Loose then _ c else _ c"
        and R = "\<lambda>m p md. if m = Loose then _ p md else _ p md"]; intro steps_intros)

text \<open>A string schema accepts a value that reads as a string and violates nothing.\<close>

lemma clean_string_report:
  "v \<noteq> VNil \<Longrightarrow> clean (string_report L s v p m) \<longleftrightarrow>
   (\<exists>str. string_reading L v m = Some str \<and> string_violations s str = [])"
  by (auto simp: string_report_def guarded_report_def string_reading_def split: option.splits)

section \<open>The format registry\<close>

text \<open>
  The registry is a package variable: a map from names to validators. \<open>FormatString\<close> looks the
  name up when the schema is built (\<open>reg\<close>); when it is missing, the validator it adds looks
  again when it runs (\<open>later\<close> is the registry at that time).
\<close>

type_synonym format_registry = "validator_func gmap"

definition RegisterFormat :: "string \<Rightarrow> validator_func \<Rightarrow> format_registry \<Rightarrow> format_registry" where
  "RegisterFormat name f reg = map_put name f reg"

definition LookupFormat :: "string \<Rightarrow> format_registry \<Rightarrow> validator_func option" where
  "LookupFormat name reg = map_of reg name"

definition RegisteredFormats :: "env \<Rightarrow> validation_context \<Rightarrow> format_registry \<Rightarrow> string list" where
  "RegisteredFormats E c reg = range_keys E c reg"

definition late_format :: "format_registry \<Rightarrow> string \<Rightarrow> validator_func" where
  "late_format later name v = (case LookupFormat name later of
       Some f \<Rightarrow> f v
     | None \<Rightarrow> Some (''unknown format: '' @ go_quote name))"

definition String_FormatString :: "format_registry \<Rightarrow> format_registry \<Rightarrow> string \<Rightarrow>
    string_schema \<Rightarrow> string_schema" where
  "String_FormatString reg later name s =
     (let s = s\<lparr>ss_formatType := name\<rparr> in
      case LookupFormat name reg of
        Some f \<Rightarrow> s\<lparr>ss_validators := ss_validators s @ [f]\<rparr>
      | None \<Rightarrow> s\<lparr>ss_validators := ss_validators s @ [late_format later name]\<rparr>)"

lemma LookupFormat_RegisterFormat:
  "LookupFormat n (RegisterFormat k f reg) = (if n = k then Some f else LookupFormat n reg)"
  by (simp add: LookupFormat_def RegisterFormat_def)

end
