(* ===== verification/NumberSchema.thy ===== *)
theory NumberSchema
  imports StringSchema
begin

text \<open>
  \<open>builders/number.go\<close>, with \<open>bool.go\<close> and \<open>custom.go\<close>: the number schema with its builder
  methods (some add validators of their own), the numeric conversions, and \<open>Validate\<close>; the
  boolean schema and the schema made of one custom validator.
\<close>

section \<open>Conversions\<close>

text \<open>\<open>toFloat64\<close>: every numeric kind, 0 for anything else.\<close>

definition toFloat64 :: "gval \<Rightarrow> f64" where
  "toFloat64 v = (case v of
       VFloat64 x \<Rightarrow> x | VFloat32 x \<Rightarrow> x | VInt k i \<Rightarrow> f_of_int i | _ \<Rightarrow> FFin 0)"

definition toFloat64WithMode :: "gval \<Rightarrow> vmode \<Rightarrow> f64 option" where
  "toFloat64WithMode v m = (case v of
       VFloat64 x \<Rightarrow> Some x | VFloat32 x \<Rightarrow> Some x | VInt k i \<Rightarrow> Some (f_of_int i)
     | VStr s \<Rightarrow> if m = Loose then ConvertStringToNumber s else None
     | _ \<Rightarrow> None)"

lemma toFloat64WithMode_numeric: "is_numeric v \<Longrightarrow> toFloat64WithMode v m = Some (toFloat64 v)"
  by (cases v) (auto simp: is_numeric_def toFloat64_def toFloat64WithMode_def)

section \<open>The number schema\<close>

record number_schema =
  ns_base :: base_schema
  ns_min :: "f64 option"
  ns_max :: "f64 option"
  ns_multipleOf :: "f64 option"
  ns_isInteger :: bool
  ns_validators :: "validator_func list"

definition Number_new :: number_schema where
  "Number_new = \<lparr>ns_base = new_base TypeNumber, ns_min = None, ns_max = None,
     ns_multipleOf = None, ns_isInteger = False, ns_validators = []\<rparr>"

definition Number_Required :: "number_schema \<Rightarrow> number_schema" where
  "Number_Required s = s\<lparr>ns_base := SetRequired True (ns_base s)\<rparr>"

definition Number_Optional :: "number_schema \<Rightarrow> number_schema" where
  "Number_Optional s = s\<lparr>ns_base := SetRequired False (ns_base s)\<rparr>"

definition Number_Nullable :: "number_schema \<Rightarrow> number_schema" where
  "Number_Nullable s = s\<lparr>ns_base := SetNullable True (ns_base s)\<rparr>"

definition Number_Min :: "f64 \<Rightarrow> number_schema \<Rightarrow> number_schema" where
  "Number_Min x s = s\<lparr>ns_min := Some x\<rparr>"

definition Number_Max :: "f64 \<Rightarrow> number_schema \<Rightarrow> number_schema" where
  "Number_Max x s = s\<lparr>ns_max := Some x\<rparr>"

definition Number_Range :: "f64 \<Rightarrow> f64 \<Rightarrow> number_schema \<Rightarrow> number_schema" where
  "Number_Range x y s = s\<lparr>ns_min := Some x, ns_max := Some y\<rparr>"

definition Number_MultipleOf :: "f64 \<Rightarrow> number_schema \<Rightarrow> number_schema" where
  "Number_MultipleOf x s = s\<lparr>ns_multipleOf := Some x\<rparr>"

definition integer_validator :: validator_func where
  "integer_validator v = (let num = toFloat64 v in
     if \<not> f_eq num (f_floor num) then Some ''must be an integer'' else None)"

definition Number_Integer :: "number_schema \<Rightarrow> number_schema" where
  "Number_Integer s = s\<lparr>ns_isInteger := True, ns_validators := ns_validators s @ [integer_validator]\<rparr>"

definition positive_validator :: validator_func where
  "positive_validator v = (if toFloat64 v \<le> f_zero then Some ''must be positive'' else None)"

definition Number_Positive :: "number_schema \<Rightarrow> number_schema" where
  "Number_Positive s = s\<lparr>ns_min := Some f_zero, ns_validators := ns_validators s @ [positive_validator]\<rparr>"

definition negative_validator :: validator_func where
  "negative_validator v = (if f_zero \<le> toFloat64 v then Some ''must be negative'' else None)"

definition Number_Negative :: "number_schema \<Rightarrow> number_schema" where
  "Number_Negative s = s\<lparr>ns_max := Some f_zero, ns_validators := ns_validators s @ [negative_validator]\<rparr>"

definition Number_Custom :: "validator_func \<Rightarrow> number_schema \<Rightarrow> number_schema" where
  "Number_Custom f s = s\<lparr>ns_validators := ns_validators s @ [f]\<rparr>"

definition Number_Meta :: "string \<Rightarrow> gval \<Rightarrow> number_schema \<Rightarrow> number_schema" where
  "Number_Meta k v s = s\<lparr>ns_base := SetMeta k v (ns_base s)\<rparr>"

definition number_constraints :: "number_schema \<Rightarrow> f64 \<Rightarrow> validation_context \<Rightarrow> validation_context" where
  "number_constraints s num c =
     (let c = (case ns_min s of None \<Rightarrow> c
         | Some lo \<Rightarrow> if num < lo then AddError (''must be >= '' @ fmt_float double_fmt lo) (VFloat64 num) c else c);
        c = (case ns_max s of None \<Rightarrow> c
         | Some hi \<Rightarrow> if hi < num then AddError (''must be <= '' @ fmt_float double_fmt hi) (VFloat64 num) c else c);
        c = (case ns_multipleOf s of None \<Rightarrow> c
         | Some mul \<Rightarrow> if \<not> f_eq mul f_zero then
               (if \<not> f_eq (f_mod num mul) f_zero
                then AddError (''must be a multiple of '' @ fmt_float double_fmt mul) (VFloat64 num) c else c)
             else c)
      in run_validators (ns_validators s) (VFloat64 num) (VFloat64 num) c)"

definition number_Validate :: "number_schema \<Rightarrow> validate_fun" where
  "number_Validate s = guarded (ns_base s) (\<lambda>v c.
     case toFloat64WithMode v (c_mode c) of
       None \<Rightarrow> AddError (expected_msg ''number'' v) v c
     | Some num \<Rightarrow> number_constraints s num c)"

definition number_violations :: "number_schema \<Rightarrow> f64 \<Rightarrow> string list" where
  "number_violations s num =
     (case ns_min s of Some lo \<Rightarrow> if num < lo then [''must be >= '' @ fmt_float double_fmt lo] else []
        | None \<Rightarrow> [])
   @ (case ns_max s of Some hi \<Rightarrow> if hi < num then [''must be <= '' @ fmt_float double_fmt hi] else []
        | None \<Rightarrow> [])
   @ (case ns_multipleOf s of
          Some mul \<Rightarrow> if f_eq mul f_zero \<or> f_eq (f_mod num mul) f_zero then []
            else [''must be a multiple of '' @ fmt_float double_fmt mul]
        | None \<Rightarrow> [])
   @ concat (map (\<lambda>f. case f (VFloat64 num) of None \<Rightarrow> [] | Some msg \<Rightarrow> [msg]) (ns_validators s))"

lemma number_constraints_eq:
  "number_constraints s num c = add_errors (number_violations s num) (VFloat64 num) c"
  by (auto simp: number_constraints_def number_violations_def run_validators_add_errors
      split: option.splits)

definition number_report :: "number_schema \<Rightarrow> report_fun" where
  "number_report s = guarded_report (ns_base s) (\<lambda>v p m.
     case toFloat64WithMode v m of
       None \<Rightarrow> err_at (expected_msg ''number'' v) v p m
     | Some num \<Rightarrow> errs_at (number_violations s num) (VFloat64 num) p m)"

lemma steps_number_constraints [steps_intros]:
  "steps (number_constraints s num) (errs_at (number_violations s num) (VFloat64 num))"
  unfolding number_constraints_eq [abs_def] by (rule steps_add_errors)

lemma steps_number_Validate: "steps (number_Validate s v) (number_report s v)"
  unfolding number_Validate_def number_report_def
  by (rule steps_guarded)
    (rule steps_mode [where f = "\<lambda>m c. case toFloat64WithMode _ m of None \<Rightarrow> _ c | Some n \<Rightarrow> _ n c"
        and R = "\<lambda>m p md. case toFloat64WithMode _ m of None \<Rightarrow> _ p md | Some n \<Rightarrow> _ n p md"];
     intro steps_intros)

lemma clean_number_report:
  "v \<noteq> VNil \<Longrightarrow> clean (number_report s v p m) \<longleftrightarrow>
   (\<exists>num. toFloat64WithMode v m = Some num \<and> number_violations s num = [])"
  by (auto simp: number_report_def guarded_report_def split: option.splits)

section \<open>The boolean schema\<close>

record bool_schema =
  bo_base :: base_schema
  bo_validators :: "validator_func list"

definition Bool_new :: bool_schema where
  "Bool_new = \<lparr>bo_base = new_base TypeBool, bo_validators = []\<rparr>"

definition Bool_Required :: "bool_schema \<Rightarrow> bool_schema" where
  "Bool_Required s = s\<lparr>bo_base := SetRequired True (bo_base s)\<rparr>"

definition Bool_Optional :: "bool_schema \<Rightarrow> bool_schema" where
  "Bool_Optional s = s\<lparr>bo_base := SetRequired False (bo_base s)\<rparr>"

definition Bool_Nullable :: "bool_schema \<Rightarrow> bool_schema" where
  "Bool_Nullable s = s\<lparr>bo_base := SetNullable True (bo_base s)\<rparr>"

definition Bool_Custom :: "validator_func \<Rightarrow> bool_schema \<Rightarrow> bool_schema" where
  "Bool_Custom f s = s\<lparr>bo_validators := bo_validators s @ [f]\<rparr>"

definition Bool_Meta :: "string \<Rightarrow> gval \<Rightarrow> bool_schema \<Rightarrow> bool_schema" where
  "Bool_Meta k v s = s\<lparr>bo_base := SetMeta k v (bo_base s)\<rparr>"

definition bool_Validate :: "go_lib \<Rightarrow> bool_schema \<Rightarrow> validate_fun" where
  "bool_Validate L s = guarded (bo_base s)
     (typed L TypeBool (\<lambda>v. run_validators (bo_validators s) v v))"

definition bool_report :: "go_lib \<Rightarrow> bool_schema \<Rightarrow> report_fun" where
  "bool_report L s = guarded_report (bo_base s)
     (typed_report L TypeBool (\<lambda>v. validators_report (bo_validators s) v v))"

lemma steps_bool_Validate: "steps (bool_Validate L s v) (bool_report L s v)"
  unfolding bool_Validate_def bool_report_def by (intro steps_intros)

section \<open>The custom schema\<close>

text \<open>The validator may be a nil function.\<close>

record custom_schema =
  cu_base :: base_schema
  cu_validator :: "validator_func option"

definition Custom_new :: "validator_func option \<Rightarrow> custom_schema" where
  "Custom_new f = \<lparr>cu_base = new_base TypeCustom, cu_validator = f\<rparr>"

definition Custom_Required :: "custom_schema \<Rightarrow> custom_schema" where
  "Custom_Required s = s\<lparr>cu_base := SetRequired True (cu_base s)\<rparr>"

definition Custom_Optional :: "custom_schema \<Rightarrow> custom_schema" where
  "Custom_Optional s = s\<lparr>cu_base := SetRequired False (cu_base s)\<rparr>"

definition Custom_Nullable :: "custom_schema \<Rightarrow> custom_schema" where
  "Custom_Nullable s = s\<lparr>cu_base := SetNullable True (cu_base s)\<rparr>"

definition Custom_Meta :: "string \<Rightarrow> gval \<Rightarrow> custom_schema \<Rightarrow> custom_schema" where
  "Custom_Meta k v s = s\<lparr>cu_base := SetMeta k v (cu_base s)\<rparr>"

definition custom_Validate :: "custom_schema \<Rightarrow> validate_fun" where
  "custom_Validate s = guarded (cu_base s) (\<lambda>v c.
     case cu_validator s of None \<Rightarrow> c | Some f \<Rightarrow> run_validator v v f c)"

definition custom_report :: "custom_schema \<Rightarrow> report_fun" where
  "custom_report s = guarded_report (cu_base s) (\<lambda>v p m.
     case cu_validator s of None \<Rightarrow> {#}
     | Some f \<Rightarrow> (case f v of None \<Rightarrow> {#} | Some msg \<Rightarrow> err_at msg v p m))"

lemma steps_custom_Validate: "steps (custom_Validate s v) (custom_report s v)"
  unfolding custom_Validate_def custom_report_def run_validator_def by (intro steps_intros)

end
