(* ===== verification/DateTimeSchema.thy ===== *)
theory DateTimeSchema
  imports NumberSchema
begin

text \<open>
  \<open>builders/datetime.go\<close>: the date/time schema. Parsing and formatting a time with a layout are
  engines of \<open>go_lib\<close>, and so is the clock; the calendar readings the code uses (\<open>Year\<close>,
  \<open>YearDay\<close>, \<open>Weekday\<close>) are computed here from the instant and the zone offset, in the
  proleptic Gregorian calendar.
\<close>

section \<open>Calendar\<close>

text \<open>Days since 1970-01-01 in the time's own zone.\<close>

definition local_days :: "gtime \<Rightarrow> int" where
  "local_days t = (t_instant t div 1000000000 + t_offset t) div 86400"

definition days_from_civil :: "int \<Rightarrow> int \<Rightarrow> int \<Rightarrow> int" where
  "days_from_civil y m d = (let
       y' = (if m \<le> 2 then y - 1 else y);
       era = y' div 400;
       yoe = y' mod 400;
       doy = (153 * ((m + 9) mod 12) + 2) div 5 + d - 1;
       doe = yoe * 365 + yoe div 4 - yoe div 100 + doy
     in era * 146097 + doe - 719468)"

text \<open>The year of a day number.\<close>

definition civil_year :: "int \<Rightarrow> int" where
  "civil_year days = (let
       z = days + 719468;
       era = z div 146097;
       doe = z mod 146097;
       yoe = (doe - doe div 1460 + doe div 36524 - doe div 146096) div 365;
       doy = doe - (365 * yoe + yoe div 4 - yoe div 100);
       mp = (5 * doy + 2) div 153
     in yoe + era * 400 + (if mp < 10 then 0 else 1))"

definition time_Year :: "gtime \<Rightarrow> int" where
  "time_Year t = civil_year (local_days t)"

definition time_YearDay :: "gtime \<Rightarrow> int" where
  "time_YearDay t = local_days t - days_from_civil (time_Year t) 1 1 + 1"

definition time_Weekday :: "gtime \<Rightarrow> int" where
  "time_Weekday t = (local_days t + 4) mod 7"

definition time_of_date :: "int \<Rightarrow> int \<Rightarrow> int \<Rightarrow> gtime" where
  "time_of_date y m d =
     \<lparr>t_instant = days_from_civil y m d * 86400 * 1000000000, t_offset = 0\<rparr>"

definition time_Before :: "gtime \<Rightarrow> gtime \<Rightarrow> bool" where
  "time_Before a b = (t_instant a < t_instant b)"

definition time_After :: "gtime \<Rightarrow> gtime \<Rightarrow> bool" where
  "time_After a b = (t_instant b < t_instant a)"

section \<open>The schema and its builder methods\<close>

record datetime_schema =
  dt_base :: base_schema
  dt_format :: string
  dt_strict :: bool
  dt_min :: "gtime option"
  dt_max :: "gtime option"
  dt_validators :: "validator_func list"

definition rfc3339 :: string where
  "rfc3339 = ''2006-01-02T15:04:05Z07:00''"

definition DateTime_new :: datetime_schema where
  "DateTime_new = \<lparr>dt_base = new_base TypeDateTime, dt_format = rfc3339, dt_strict = False,
     dt_min = None, dt_max = None, dt_validators = []\<rparr>"

definition DateTime_Required :: "datetime_schema \<Rightarrow> datetime_schema" where
  "DateTime_Required s = s\<lparr>dt_base := SetRequired True (dt_base s)\<rparr>"

definition DateTime_Optional :: "datetime_schema \<Rightarrow> datetime_schema" where
  "DateTime_Optional s = s\<lparr>dt_base := SetRequired False (dt_base s)\<rparr>"

definition DateTime_Nullable :: "datetime_schema \<Rightarrow> datetime_schema" where
  "DateTime_Nullable s = s\<lparr>dt_base := SetNullable True (dt_base s)\<rparr>"

definition DateTime_Format :: "string \<Rightarrow> datetime_schema \<Rightarrow> datetime_schema" where
  "DateTime_Format f s = s\<lparr>dt_format := f\<rparr>"

definition DateTime_ISO8601 :: "datetime_schema \<Rightarrow> datetime_schema" where
  "DateTime_ISO8601 s = s\<lparr>dt_format := rfc3339\<rparr>"

definition DateTime_DateOnly :: "datetime_schema \<Rightarrow> datetime_schema" where
  "DateTime_DateOnly s = s\<lparr>dt_format := ''2006-01-02''\<rparr>"

definition DateTime_YMD :: "datetime_schema \<Rightarrow> datetime_schema" where
  "DateTime_YMD s = s\<lparr>dt_format := ''2006-01-02''\<rparr>"

definition DateTime_DMY :: "datetime_schema \<Rightarrow> datetime_schema" where
  "DateTime_DMY s = s\<lparr>dt_format := ''02/01/2006''\<rparr>"

definition DateTime_MDY :: "datetime_schema \<Rightarrow> datetime_schema" where
  "DateTime_MDY s = s\<lparr>dt_format := ''01/02/2006''\<rparr>"

definition DateTime_StrictFormat :: "datetime_schema \<Rightarrow> datetime_schema" where
  "DateTime_StrictFormat s = s\<lparr>dt_strict := True\<rparr>"

definition DateTime_Custom :: "validator_func \<Rightarrow> datetime_schema \<Rightarrow> datetime_schema" where
  "DateTime_Custom f s = s\<lparr>dt_validators := dt_validators s @ [f]\<rparr>"

definition DateTime_Min :: "gtime \<Rightarrow> datetime_schema \<Rightarrow> datetime_schema" where
  "DateTime_Min t s = s\<lparr>dt_min := Some t\<rparr>"

definition DateTime_Max :: "gtime \<Rightarrow> datetime_schema \<Rightarrow> datetime_schema" where
  "DateTime_Max t s = s\<lparr>dt_max := Some t\<rparr>"

definition DateTime_MinString :: "go_lib \<Rightarrow> string \<Rightarrow> datetime_schema \<Rightarrow> datetime_schema" where
  "DateTime_MinString L str s = (case lib_time_parse L (dt_format s) str of
       Inr t \<Rightarrow> s\<lparr>dt_min := Some t\<rparr>
     | Inl err \<Rightarrow> DateTime_Custom (\<lambda>v. Some (''invalid min time format: '' @ err)) s)"

definition DateTime_MaxString :: "go_lib \<Rightarrow> string \<Rightarrow> datetime_schema \<Rightarrow> datetime_schema" where
  "DateTime_MaxString L str s = (case lib_time_parse L (dt_format s) str of
       Inr t \<Rightarrow> s\<lparr>dt_max := Some t\<rparr>
     | Inl err \<Rightarrow> DateTime_Custom (\<lambda>v. Some (''invalid max time format: '' @ err)) s)"

definition DateTime_Between :: "gtime \<Rightarrow> gtime \<Rightarrow> datetime_schema \<Rightarrow> datetime_schema" where
  "DateTime_Between lo hi s = s\<lparr>dt_min := Some lo, dt_max := Some hi\<rparr>"

definition DateTime_BetweenStrings :: "go_lib \<Rightarrow> string \<Rightarrow> string \<Rightarrow> datetime_schema \<Rightarrow> datetime_schema" where
  "DateTime_BetweenStrings L lo hi s = DateTime_MaxString L hi (DateTime_MinString L lo s)"

text \<open>The validators of \<open>Future\<close>, \<open>Past\<close>, \<open>Age\<close> and \<open>Weekday\<close> pass anything but a time.\<close>

definition future_validator :: "go_lib \<Rightarrow> validator_func" where
  "future_validator L v = (case v of
       VTime t \<Rightarrow> if \<not> time_After t (lib_now L) then Some ''must be in the future'' else None
     | _ \<Rightarrow> None)"

definition DateTime_Future :: "go_lib \<Rightarrow> datetime_schema \<Rightarrow> datetime_schema" where
  "DateTime_Future L s = DateTime_Custom (future_validator L) s"

definition past_validator :: "go_lib \<Rightarrow> validator_func" where
  "past_validator L v = (case v of
       VTime t \<Rightarrow> if \<not> time_Before t (lib_now L) then Some ''must be in the past'' else None
     | _ \<Rightarrow> None)"

definition DateTime_Past :: "go_lib \<Rightarrow> datetime_schema \<Rightarrow> datetime_schema" where
  "DateTime_Past L s = DateTime_Custom (past_validator L) s"

definition calculateAge :: "gtime \<Rightarrow> gtime \<Rightarrow> int" where
  "calculateAge now birth = (let years = time_Year now - time_Year birth in
     if time_YearDay now < time_YearDay birth then years - 1 else years)"

definition age_validator :: "go_lib \<Rightarrow> int \<Rightarrow> int \<Rightarrow> validator_func" where
  "age_validator L lo hi v = (case v of
       VTime t \<Rightarrow> (let age = calculateAge (lib_now L) t in
         if age < lo then Some (''age must be at least '' @ show_int lo @ '' years (current: ''
              @ show_int age @ '')'')
         else if hi < age then Some (''age must be at most '' @ show_int hi @ '' years (current: ''
              @ show_int age @ '')'')
         else None)
     | _ \<Rightarrow> None)"

definition DateTime_Age :: "go_lib \<Rightarrow> int \<Rightarrow> int \<Rightarrow> datetime_schema \<Rightarrow> datetime_schema" where
  "DateTime_Age L lo hi s = DateTime_Custom (age_validator L lo hi) s"

definition weekday_name :: "int \<Rightarrow> string" where
  "weekday_name d = (if d = 0 then ''Sunday'' else if d = 1 then ''Monday''
     else if d = 2 then ''Tuesday'' else if d = 3 then ''Wednesday'' else if d = 4 then ''Thursday''
     else if d = 5 then ''Friday'' else if d = 6 then ''Saturday''
     else ''%!Weekday('' @ show_int d @ '')'')"

definition formatWeekdays :: "int list \<Rightarrow> string" where
  "formatWeekdays days = (case days of [] \<Rightarrow> [] | [d] \<Rightarrow> weekday_name d
     | d # ds \<Rightarrow> weekday_name d @ '' through '' @ weekday_name (last ds))"

definition weekday_validator :: "int list \<Rightarrow> validator_func" where
  "weekday_validator days v = (case v of
       VTime t \<Rightarrow> if time_Weekday t \<in> set days then None
                  else Some (''must be on '' @ formatWeekdays days)
     | _ \<Rightarrow> None)"

definition DateTime_Weekday :: "int list \<Rightarrow> datetime_schema \<Rightarrow> datetime_schema" where
  "DateTime_Weekday days s = DateTime_Custom (weekday_validator days) s"

definition DateTime_BusinessDay :: "datetime_schema \<Rightarrow> datetime_schema" where
  "DateTime_BusinessDay s = DateTime_Weekday [1, 2, 3, 4, 5] s"

definition DateTime_Meta :: "string \<Rightarrow> gval \<Rightarrow> datetime_schema \<Rightarrow> datetime_schema" where
  "DateTime_Meta k v s = s\<lparr>dt_base := SetMeta k v (dt_base s)\<rparr>"

section \<open>Parsing with the common formats\<close>

definition worldwide_formats :: "string list" where
  "worldwide_formats = [rfc3339, ''2006-01-02'', ''2006-01-02 15:04:05'', ''02/01/2006'',
     ''2/1/2006'', ''02-01-2006'', ''2-1-2006'', ''02.01.2006'', ''2.1.2006'', ''2006/01/02'',
     ''02-Jan-2006'', ''2-Jan-2006'', ''Jan 2, 2006'', ''January 2, 2006'', ''2 January 2006'',
     ''2nd January 2006'', ''2006-01-02T15:04:05'', ''15:04:05'', ''3:04 PM'', ''2006-01-02 15:04'',
     ''02/01/06'', ''2/1/06'']"

definition additional_formats :: "string list" where
  "additional_formats = [''01-02-2006'', ''1-2-2006'', ''Monday, 2 January 2006'',
     ''Mon, 2 Jan 2006'', ''01/02/06'', ''1/2/06'']"

fun try_formats :: "go_lib \<Rightarrow> string list \<Rightarrow> string \<Rightarrow> gtime option" where
  "try_formats L [] str = None"
| "try_formats L (f # fs) str = (case lib_time_parse L f str of
       Inr t \<Rightarrow> Some t | Inl _ \<Rightarrow> try_formats L fs str)"

text \<open>The formats the slash test adds: month first, once or twice.\<close>

definition slash_formats :: "string \<Rightarrow> string list" where
  "slash_formats str =
     (if CHR ''/'' \<in> set str then
        (case str_split (CHR ''/'') str of
           [a, b, c] \<Rightarrow>
             (case (go_atoi a, go_atoi b) of
                (Some first, Some second) \<Rightarrow>
                  (if first \<le> 12 \<and> 12 < second \<and> second \<le> 31 then [''01/02/2006'', ''1/2/2006''] else [])
                @ (if first \<le> 12 \<and> second \<le> 12 then [''01/02/2006'', ''1/2/2006''] else [])
              | _ \<Rightarrow> [])
         | _ \<Rightarrow> [])
      else [])"

definition tryCommonFormats :: "go_lib \<Rightarrow> string \<Rightarrow> string + gtime" where
  "tryCommonFormats L str =
     (case try_formats L worldwide_formats str of Some t \<Rightarrow> Inr t | None \<Rightarrow>
       (case try_formats L (slash_formats str) str of Some t \<Rightarrow> Inr t | None \<Rightarrow>
         (case try_formats L additional_formats str of Some t \<Rightarrow> Inr t | None \<Rightarrow>
           Inl (''unable to parse date/time from: '' @ str))))"

section \<open>Validate\<close>

text \<open>The time a value stands for, or the message and value of the error.\<close>

definition bad_time_msg :: "datetime_schema \<Rightarrow> string \<Rightarrow> string" where
  "bad_time_msg s err =
     ''invalid date/time format (expected '' @ dt_format s @ ''): '' @ err"

definition parse_time_string :: "go_lib \<Rightarrow> datetime_schema \<Rightarrow> string \<Rightarrow> (string \<times> gval) + gtime" where
  "parse_time_string L s str = (case lib_time_parse L (dt_format s) str of
       Inr t \<Rightarrow> Inr t
     | Inl err \<Rightarrow>
         if dt_strict s then Inl (bad_time_msg s err, VStr str)
         else (case tryCommonFormats L str of
             Inr t \<Rightarrow> Inr t | Inl _ \<Rightarrow> Inl (bad_time_msg s err, VStr str)))"

definition time_reading :: "go_lib \<Rightarrow> datetime_schema \<Rightarrow> gval \<Rightarrow> vmode \<Rightarrow> (string \<times> gval) + gtime" where
  "time_reading L s v m = (case v of
       VTime t \<Rightarrow> Inr t
     | VStr str \<Rightarrow> parse_time_string L s str
     | _ \<Rightarrow> if m = Loose then
              (case ConvertToString L v of
                 None \<Rightarrow> Inl (''cannot convert '' @ type_name v @ '' to date/time'', v)
               | Some str \<Rightarrow> parse_time_string L s str)
            else Inl (''expected time.Time or string, got '' @ type_name v, v))"

definition time_constraints :: "go_lib \<Rightarrow> datetime_schema \<Rightarrow> gtime \<Rightarrow>
    validation_context \<Rightarrow> validation_context" where
  "time_constraints L s t c =
     (let shown = VStr (lib_time_format L t (dt_format s));
          c = (case dt_min s of None \<Rightarrow> c | Some lo \<Rightarrow>
                 if time_Before t lo
                 then AddError (''must be after '' @ lib_time_format L lo (dt_format s)) shown c else c);
          c = (case dt_max s of None \<Rightarrow> c | Some hi \<Rightarrow>
                 if time_After t hi
                 then AddError (''must be before '' @ lib_time_format L hi (dt_format s)) shown c else c)
      in run_validators (dt_validators s) (VTime t) shown c)"

definition datetime_Validate :: "go_lib \<Rightarrow> datetime_schema \<Rightarrow> validate_fun" where
  "datetime_Validate L s = guarded (dt_base s) (\<lambda>v c.
     case time_reading L s v (c_mode c) of
       Inl (msg, shown) \<Rightarrow> AddError msg shown c
     | Inr t \<Rightarrow> time_constraints L s t c)"

definition time_violations :: "go_lib \<Rightarrow> datetime_schema \<Rightarrow> gtime \<Rightarrow> string list" where
  "time_violations L s t =
     (case dt_min s of Some lo \<Rightarrow> if time_Before t lo
        then [''must be after '' @ lib_time_format L lo (dt_format s)] else [] | None \<Rightarrow> [])
   @ (case dt_max s of Some hi \<Rightarrow> if time_After t hi
        then [''must be before '' @ lib_time_format L hi (dt_format s)] else [] | None \<Rightarrow> [])
   @ concat (map (\<lambda>f. case f (VTime t) of None \<Rightarrow> [] | Some msg \<Rightarrow> [msg]) (dt_validators s))"

lemma time_constraints_eq:
  "time_constraints L s t c =
     add_errors (time_violations L s t) (VStr (lib_time_format L t (dt_format s))) c"
  by (auto simp: time_constraints_def time_violations_def run_validators_add_errors Let_def
      split: option.splits)

definition datetime_report :: "go_lib \<Rightarrow> datetime_schema \<Rightarrow> report_fun" where
  "datetime_report L s = guarded_report (dt_base s) (\<lambda>v p m.
     case time_reading L s v m of
       Inl (msg, shown) \<Rightarrow> err_at msg shown p m
     | Inr t \<Rightarrow> errs_at (time_violations L s t) (VStr (lib_time_format L t (dt_format s))) p m)"

lemma steps_time_constraints [steps_intros]:
  "steps (time_constraints L s t)
     (errs_at (time_violations L s t) (VStr (lib_time_format L t (dt_format s))))"
  unfolding time_constraints_eq [abs_def] by (rule steps_add_errors)

lemma steps_sum_case [steps_intros]:
  "(\<And>a b. x = Inl (a, b) \<Longrightarrow> steps (f a b) (R a b)) \<Longrightarrow> (\<And>t. x = Inr t \<Longrightarrow> steps (g t) (S t)) \<Longrightarrow>
   steps (\<lambda>c. case x of Inl (a, b) \<Rightarrow> f a b c | Inr t \<Rightarrow> g t c)
     (\<lambda>p m. case x of Inl (a, b) \<Rightarrow> R a b p m | Inr t \<Rightarrow> S t p m)"
  by (cases x) auto

lemma steps_datetime_Validate: "steps (datetime_Validate L s v) (datetime_report L s v)"
  unfolding datetime_Validate_def datetime_report_def
  by (rule steps_guarded)
    (rule steps_mode [where f = "\<lambda>m c. case time_reading _ _ _ m of Inl (a, b) \<Rightarrow> _ a b c | Inr t \<Rightarrow> _ t c"
        and R = "\<lambda>m p md. case time_reading _ _ _ m of Inl (a, b) \<Rightarrow> _ a b p md | Inr t \<Rightarrow> _ t p md"];
     intro steps_intros)

lemma try_formats_Some:
  "try_formats L fs str = Some t \<Longrightarrow> \<exists>f \<in> set fs. lib_time_parse L f str = Inr t"
  by (induction fs) (auto split: sum.splits)

end
