(* ===== verification/ObjectSchema.thy ===== *)
theory ObjectSchema
  imports DateTimeSchema
begin

text \<open>
  \<open>builders/object.go\<close>. An object schema holds the schemas of its fields; the type is
  parametric in what it holds, and the operations that call the fields are defined on a schema
  whose fields are interface values (\<open>iface\<close>), which is all the code knows of them.
  \<open>object_report\<close> is the specification of \<open>Validate\<close>, and \<open>object_result\<close> that of
  \<open>ValidateAndTransform\<close>, given those of the fields.
\<close>

section \<open>The contract of ValidateAndTransform\<close>

text \<open>
  Its specification gives the transformed value, or None when validation fails. The contract:
  the context is only extended, the error result is \<open>ctx.Error()\<close>, and on a context without
  errors the specification tells whether there are errors at the end and what is returned.
\<close>

type_synonym result_fun = "gval \<Rightarrow> string list \<Rightarrow> vmode \<Rightarrow> gval option"

definition vat_ok :: "(validation_context \<Rightarrow> validation_context \<times> gval \<times> go_error option) \<Rightarrow>
    (string list \<Rightarrow> vmode \<Rightarrow> gval option) \<Rightarrow> bool" where
  "vat_ok f D = (\<forall>c. case f c of (c', w, e) \<Rightarrow>
     extends c c' \<and> e = ctx_Error c' \<and>
     (c_errors c = [] \<longrightarrow> (case D (c_path c) (c_mode c) of
        None \<Rightarrow> c_errors c' \<noteq> []
      | Some w' \<Rightarrow> c_errors c' = [] \<and> w = w')))"

lemma vat_okD:
  assumes "vat_ok f D" and "f c = (c', w, e)"
  shows "extends c c'" and "e = ctx_Error c'"
    and "c_errors c = [] \<Longrightarrow> D (c_path c) (c_mode c) = None \<Longrightarrow> c_errors c' \<noteq> []"
    and "c_errors c = [] \<Longrightarrow> D (c_path c) (c_mode c) = Some w' \<Longrightarrow> c_errors c' = [] \<and> w = w'"
  using assms unfolding vat_ok_def by (auto dest!: spec [of _ c])

text \<open>The specification side of an interface value with \<open>ValidateAndTransform\<close>.\<close>

record sface = rface +
  r_result :: "result_fun option"

definition implements :: "iface \<Rightarrow> sface \<Rightarrow> bool" where
  "implements i r = (refines i (rface.truncate r) \<and>
     (case (i_vat i, r_result r) of
        (None, None) \<Rightarrow> True
      | (Some g, Some D) \<Rightarrow> (\<forall>v. vat_ok (g v) (D v))
      | _ \<Rightarrow> False))"

lemma implementsD:
  assumes "implements i r"
  shows "i_type i = r_type r" and "i_required i = r_required r" and "i_nullable i = r_nullable r"
    and "steps (i_validate i v) (r_report r v)"
    and "i_vat i = None \<longleftrightarrow> r_result r = None"
    and "i_vat i = Some g \<Longrightarrow> r_result r = Some D \<Longrightarrow> vat_ok (g v) (D v)"
  using assms unfolding implements_def refines_def
  by (auto simp: rface.defs split: option.splits)

lemma implementsI:
  assumes "i_type i = r_type r" "i_required i = r_required r" "i_nullable i = r_nullable r"
    and "\<And>v. steps (i_validate i v) (r_report r v)"
    and "i_vat i = None \<longleftrightarrow> r_result r = None"
    and "\<And>g D v. i_vat i = Some g \<Longrightarrow> r_result r = Some D \<Longrightarrow> vat_ok (g v) (D v)"
  shows "implements i r"
  using assms unfolding implements_def refines_def
  by (auto simp: rface.defs split: option.splits)

section \<open>The object schema\<close>

text \<open>
  An asynchronous validator may answer differently each time it is asked; its first argument
  numbers the questions asked so far.
\<close>

type_synonym async_validator = "nat \<Rightarrow> gval \<Rightarrow> string option"

datatype 's object_schema = ObjectSchema
  (ob_base: base_schema)
  (ob_fields: "(string \<times> 's) list")
  (ob_requiredFields: "(string \<times> bool) list")
  (ob_allowAdditional: "bool option")
  (ob_validators: "validator_func list")
  (ob_asyncValidators: "async_validator list")

definition Object_new :: "'s object_schema" where
  "Object_new = ObjectSchema (new_base TypeObject) [] [] None [] []"

fun ob_map_base :: "(base_schema \<Rightarrow> base_schema) \<Rightarrow> 's object_schema \<Rightarrow> 's object_schema" where
  "ob_map_base f (ObjectSchema b fs rs al vs as) = ObjectSchema (f b) fs rs al vs as"

definition Object_Required :: "'s object_schema \<Rightarrow> 's object_schema" where
  "Object_Required s = ob_map_base (SetRequired True) s"

definition Object_Optional :: "'s object_schema \<Rightarrow> 's object_schema" where
  "Object_Optional s = ob_map_base (SetRequired False) s"

definition Object_Nullable :: "'s object_schema \<Rightarrow> 's object_schema" where
  "Object_Nullable s = ob_map_base (SetNullable True) s"

definition Object_Meta :: "string \<Rightarrow> gval \<Rightarrow> 's object_schema \<Rightarrow> 's object_schema" where
  "Object_Meta k v s = ob_map_base (SetMeta k v) s"

fun Object_Custom :: "validator_func \<Rightarrow> 's object_schema \<Rightarrow> 's object_schema" where
  "Object_Custom f (ObjectSchema b fs rs al vs as) = ObjectSchema b fs rs al (vs @ [f]) as"

fun Object_AsyncCustom :: "async_validator \<Rightarrow> 's object_schema \<Rightarrow> 's object_schema" where
  "Object_AsyncCustom f (ObjectSchema b fs rs al vs as) = ObjectSchema b fs rs al vs (as @ [f])"

fun Object_AllowAdditional :: "bool \<Rightarrow> 's object_schema \<Rightarrow> 's object_schema" where
  "Object_AllowAdditional allow (ObjectSchema b fs rs al vs as) = ObjectSchema b fs rs (Some allow) vs as"

text \<open>
  The two writes of \<open>Field\<close>, for a schema that is or is not required; the test for a dependent
  schema, which panics, is made where the schemas are known (\<open>SchemaTree\<close>).
\<close>

fun ob_put_field :: "string \<Rightarrow> 's \<Rightarrow> bool \<Rightarrow> 's object_schema \<Rightarrow> 's object_schema" where
  "ob_put_field name f req (ObjectSchema b fs rs al vs as) =
     ObjectSchema b (map_put name f fs) (if req then map_put name True rs else rs) al vs as"

text \<open>One round of \<open>RequiredFields\<close>; \<open>setReq\<close> is \<open>SetRequired(true)\<close> on the field's schema.\<close>

fun ob_require_field :: "('s \<Rightarrow> 's) \<Rightarrow> string \<Rightarrow> 's object_schema \<Rightarrow> 's object_schema" where
  "ob_require_field setReq name (ObjectSchema b fs rs al vs as) =
     ObjectSchema b (case map_of fs name of None \<Rightarrow> fs | Some f \<Rightarrow> map_put name (setReq f) fs)
       (map_put name True rs) al vs as"

definition ob_RequiredFields :: "('s \<Rightarrow> 's) \<Rightarrow> string list \<Rightarrow> 's object_schema \<Rightarrow> 's object_schema" where
  "ob_RequiredFields setReq names s = fold (ob_require_field setReq) names s"

section \<open>Introspection\<close>

definition Object_GetField :: "'s object_schema \<Rightarrow> string \<Rightarrow> 's option" where
  "Object_GetField s name = map_of (ob_fields s) name"

definition Object_AllowsAdditional :: "'s object_schema \<Rightarrow> bool \<times> bool" where
  "Object_AllowsAdditional s = (case ob_allowAdditional s of
     None \<Rightarrow> (False, False) | Some b \<Rightarrow> (b, True))"

definition Object_FieldNames :: "'s object_schema \<Rightarrow> string list" where
  "Object_FieldNames s = sort (map_keys (ob_fields s))"

text \<open>\<open>s.requiredFields[name]\<close>: false when the name is missing.\<close>

definition in_requiredFields :: "'s object_schema \<Rightarrow> string \<Rightarrow> bool" where
  "in_requiredFields s name = (map_of (ob_requiredFields s) name = Some True)"

definition Object_RequiredFieldNames :: "('s \<Rightarrow> bool) \<Rightarrow> 's object_schema \<Rightarrow> string list" where
  "Object_RequiredFieldNames isReq s = sort
     (map fst (filter snd (ob_requiredFields s))
      @ map fst (filter (\<lambda>(name, f). \<not> in_requiredFields s name \<and> isReq f) (ob_fields s)))"

definition rejectsExtra :: "'s object_schema \<Rightarrow> vmode \<Rightarrow> bool" where
  "rejectsExtra s m = (case ob_allowAdditional s of Some b \<Rightarrow> \<not> b | None \<Rightarrow> m = Strict)"

text \<open>\<open>convertToMap\<close>.\<close>

definition convertToMap :: "gval \<Rightarrow> gval gmap option" where
  "convertToMap v = (case v of VMap m \<Rightarrow> Some m | VTMap k e m \<Rightarrow> Some m | _ \<Rightarrow> None)"

lemma type_ok_object_map: "v \<noteq> VNil \<Longrightarrow> type_ok L TypeObject v m \<longleftrightarrow> convertToMap v \<noteq> None"
  by (cases v) (auto simp: type_ok_object convertToMap_def)

section \<open>Validate\<close>

definition check_required_field :: "gval gmap \<Rightarrow> (string \<times> bool) list \<Rightarrow> string \<Rightarrow>
    validation_context \<Rightarrow> validation_context" where
  "check_required_field objMap rs name =
     (if map_of rs name = Some True \<and> map_of objMap name = None
      then WithPath name (AddError ''field is required'' VNil) else (\<lambda>c. c))"

definition validate_field :: "iface object_schema \<Rightarrow> gval gmap \<Rightarrow> string \<Rightarrow>
    validation_context \<Rightarrow> validation_context" where
  "validate_field s objMap name = WithPath name (\<lambda>c.
     case map_of (ob_fields s) name of None \<Rightarrow> c
     | Some f \<Rightarrow>
         (case map_of objMap name of
            Some fv \<Rightarrow> i_validate f fv c
          | None \<Rightarrow> if in_requiredFields s name then c
                   else if i_required f then AddError ''field is required'' VNil c else c))"

definition check_extra :: "'s object_schema \<Rightarrow> gval gmap \<Rightarrow> string \<Rightarrow>
    validation_context \<Rightarrow> validation_context" where
  "check_extra s objMap key = (case map_of (ob_fields s) key of
       Some _ \<Rightarrow> (\<lambda>c. c)
     | None \<Rightarrow> WithPath key (AddError ''unexpected field'' (the (map_of objMap key))))"

definition object_body :: "env \<Rightarrow> iface object_schema \<Rightarrow> gval gmap \<Rightarrow>
    validation_context \<Rightarrow> validation_context" where
  "object_body E s objMap c =
     (let c = fold (check_required_field objMap (ob_requiredFields s))
                (range_keys E c (ob_requiredFields s)) c;
          c = fold (validate_field s objMap) (range_keys E c (ob_fields s)) c;
          c = (if rejectsExtra s (c_mode c)
               then fold (check_extra s objMap) (range_keys E c objMap) c else c)
      in run_validators (ob_validators s) (VMap objMap) (VMap objMap) c)"

definition object_Validate :: "env \<Rightarrow> iface object_schema \<Rightarrow> validate_fun" where
  "object_Validate E s = guarded (ob_base s) (typed (e_lib E) TypeObject (\<lambda>v c.
     case convertToMap v of
       None \<Rightarrow> AddError (''cannot convert '' @ type_name v @ '' to map'') v c
     | Some objMap \<Rightarrow> object_body E s objMap c))"

section \<open>What Validate reports\<close>

definition required_report :: "gval gmap \<Rightarrow> (string \<times> bool) list \<Rightarrow> string \<Rightarrow>
    string list \<Rightarrow> vmode \<Rightarrow> report" where
  "required_report objMap rs name p m =
     (if map_of rs name = Some True \<and> map_of objMap name = None
      then err_at ''field is required'' VNil (p @ [name]) m else {#})"

definition field_report :: "sface object_schema \<Rightarrow> gval gmap \<Rightarrow> string \<Rightarrow>
    string list \<Rightarrow> vmode \<Rightarrow> report" where
  "field_report s objMap name p m = (case map_of (ob_fields s) name of None \<Rightarrow> {#}
     | Some f \<Rightarrow>
         (case map_of objMap name of
            Some fv \<Rightarrow> r_report f fv (p @ [name]) m
          | None \<Rightarrow> if in_requiredFields s name then {#}
                   else if r_required f then err_at ''field is required'' VNil (p @ [name]) m else {#}))"

definition extra_report :: "'s object_schema \<Rightarrow> gval gmap \<Rightarrow> string \<Rightarrow>
    string list \<Rightarrow> vmode \<Rightarrow> report" where
  "extra_report s objMap key p m = (case map_of (ob_fields s) key of
       Some _ \<Rightarrow> {#}
     | None \<Rightarrow> err_at ''unexpected field'' (the (map_of objMap key)) (p @ [key]) m)"

definition object_body_report :: "sface object_schema \<Rightarrow> gval gmap \<Rightarrow> string list \<Rightarrow> vmode \<Rightarrow> report" where
  "object_body_report s objMap p m =
     (\<Sum>name\<leftarrow>map_keys (ob_requiredFields s). required_report objMap (ob_requiredFields s) name p m)
   + (\<Sum>name\<leftarrow>map_keys (ob_fields s). field_report s objMap name p m)
   + (if rejectsExtra s m then \<Sum>key\<leftarrow>map_keys objMap. extra_report s objMap key p m else {#})
   + validators_report (ob_validators s) (VMap objMap) (VMap objMap) p m"

definition object_report :: "go_lib \<Rightarrow> sface object_schema \<Rightarrow> report_fun" where
  "object_report L s = guarded_report (ob_base s) (typed_report L TypeObject (\<lambda>v p m.
     case convertToMap v of
       None \<Rightarrow> err_at (''cannot convert '' @ type_name v @ '' to map'') v p m
     | Some objMap \<Rightarrow> object_body_report s objMap p m))"

section \<open>Validate meets its specification\<close>

lemma rel_fields:
  assumes "rel_object_schema P s r"
  shows "map_keys (ob_fields s) = map_keys (ob_fields r)"
    and "rel_option P (map_of (ob_fields s) k) (map_of (ob_fields r) k)"
    and "ob_base s = ob_base r" and "ob_requiredFields s = ob_requiredFields r"
    and "ob_validators s = ob_validators r" and "rejectsExtra s = rejectsExtra r"
    and "in_requiredFields s = in_requiredFields r" and "check_extra s = check_extra r"
proof -
  from assms have fs: "list_all2 (rel_prod (=) P) (ob_fields s) (ob_fields r)"
    and rs: "ob_requiredFields s = ob_requiredFields r"
    and al: "ob_allowAdditional s = ob_allowAdditional r"
    by (simp_all add: object_schema.rel_sel)
  show keys: "map_keys (ob_fields s) = map_keys (ob_fields r)"
    using fs by induction (auto simp: rel_prod_sel)
  have lookup: "rel_option P (map_of (ob_fields s) j) (map_of (ob_fields r) j)" for j
    using fs by induction (auto simp: rel_prod_sel split: prod.splits)
  then show "rel_option P (map_of (ob_fields s) k) (map_of (ob_fields r) k)" .
  show "ob_base s = ob_base r" "ob_requiredFields s = ob_requiredFields r"
    "ob_validators s = ob_validators r"
    using assms by (simp_all add: object_schema.rel_sel)
  show "rejectsExtra s = rejectsExtra r"
    by (simp add: fun_eq_iff rejectsExtra_def al split: option.splits)
  show "in_requiredFields s = in_requiredFields r"
    by (simp add: fun_eq_iff in_requiredFields_def rs)
  have "check_extra s objMap j c = check_extra r objMap j c" for objMap j c
    using lookup [of j]
    by (cases "map_of (ob_fields s) j"; cases "map_of (ob_fields r) j") (auto simp: check_extra_def)
  then show "check_extra s = check_extra r"
    by (intro ext)
qed

lemma steps_check_required_field [steps_intros]:
  "steps (check_required_field objMap rs name) (required_report objMap rs name)"
  unfolding check_required_field_def required_report_def [abs_def]
  by (auto intro: steps_WithPath steps_AddError steps_id)

lemma steps_check_extra [steps_intros]: "steps (check_extra s objMap key) (extra_report s objMap key)"
  unfolding check_extra_def extra_report_def [abs_def]
  by (cases "map_of (ob_fields s) key") (auto intro: steps_WithPath steps_AddError steps_id)

lemma steps_validate_field:
  assumes "rel_object_schema implements s r"
  shows "steps (validate_field s objMap name) (field_report r objMap name)"
proof -
  note rel = rel_fields [OF assms]
  show ?thesis
  proof (cases "map_of (ob_fields r) name")
    case None
    with rel(2) [of name] show ?thesis
      using steps_WithPath [OF steps_id, of name]
      by (simp add: validate_field_def field_report_def [abs_def])
  next
    case (Some g)
    with rel(2) [of name] obtain f where f: "map_of (ob_fields s) name = Some f" "implements f g"
      by (cases "map_of (ob_fields s) name") auto
    have "steps (\<lambda>c. case map_of objMap name of Some fv \<Rightarrow> i_validate f fv c
          | None \<Rightarrow> if in_requiredFields s name then c
               else if i_required f then AddError ''field is required'' VNil c else c)
        (\<lambda>p m. case map_of objMap name of Some fv \<Rightarrow> r_report g fv p m
          | None \<Rightarrow> if in_requiredFields r name then {#}
               else if r_required g then err_at ''field is required'' VNil p m else {#})"
      unfolding rel(7) implementsD(2) [OF f(2)]
      by (intro steps_intros implementsD(4) [OF f(2)])
    from steps_WithPath [OF this, of name] show ?thesis
      by (simp add: validate_field_def field_report_def [abs_def] Some f(1))
  qed
qed

lemma steps_rejectsExtra [steps_intros]:
  assumes "steps f R"
  shows "steps (\<lambda>c. if rejectsExtra s (c_mode c) then f c else c)
    (\<lambda>p m. if rejectsExtra s m then R p m else {#})"
  by (rule steps_mode [where f = "\<lambda>m c. if rejectsExtra s m then f c else c"
        and R = "\<lambda>m p md. if rejectsExtra s m then R p md else {#}"])
    (intro steps_intros assms)

lemma steps_object_body:
  assumes "rel_object_schema implements s r"
  shows "steps (object_body E s objMap) (object_body_report r objMap)"
proof -
  note rel = rel_fields [OF assms]
  have a: "steps (\<lambda>c. fold (check_required_field objMap (ob_requiredFields s))
        (range_keys E c (ob_requiredFields s)) c)
      (\<lambda>p m. \<Sum>name\<leftarrow>map_keys (ob_requiredFields s). required_report objMap (ob_requiredFields s) name p m)"
    by (intro steps_intros)
  have b: "steps (\<lambda>c. fold (validate_field s objMap) (range_keys E c (ob_fields s)) c)
      (\<lambda>p m. \<Sum>name\<leftarrow>map_keys (ob_fields s). field_report r objMap name p m)"
    by (rule steps_range) (rule steps_validate_field [OF assms])
  have c: "steps (\<lambda>c. if rejectsExtra s (c_mode c)
        then fold (check_extra s objMap) (range_keys E c objMap) c else c)
      (\<lambda>p m. if rejectsExtra s m then \<Sum>key\<leftarrow>map_keys objMap. extra_report r objMap key p m else {#})"
    unfolding rel(8) by (intro steps_intros)
  have d: "steps (run_validators (ob_validators s) (VMap objMap) (VMap objMap))
      (validators_report (ob_validators s) (VMap objMap) (VMap objMap))"
    by (rule steps_run_validators)
  from steps_comp [OF steps_comp [OF steps_comp [OF a b] c] d] show ?thesis
    by (simp add: object_body_def [abs_def] object_body_report_def [abs_def] Let_def rel(1,4,5,6))
qed

lemma steps_object_Validate:
  assumes "rel_object_schema implements s r"
  shows "steps (object_Validate E s v) (object_report (e_lib E) r v)"
  unfolding object_Validate_def object_report_def rel_fields(3) [OF assms, symmetric]
  by (intro steps_intros steps_object_body [OF assms])

section \<open>ValidateAndTransform\<close>

definition checked_vat :: "base_schema \<Rightarrow> go_lib \<Rightarrow> schema_type \<Rightarrow> vat_fun \<Rightarrow> vat_fun" where
  "checked_vat b L t rest v c = (case CheckRequired b v c of (c, go) \<Rightarrow>
     if \<not> go then (c, v, ctx_Error c)
     else (case ValidateValue L v t c of (c, ok) \<Rightarrow>
       if \<not> ok then (c, v, ctx_Error c) else rest v c))"

definition vat_field :: "iface object_schema \<Rightarrow> gval gmap \<Rightarrow> string \<Rightarrow>
    validation_context \<times> gval gmap \<Rightarrow> validation_context \<times> gval gmap" where
  "vat_field s objMap name cr = (case cr of (c, result) \<Rightarrow>
     (case map_of (ob_fields s) name of None \<Rightarrow> (c, result)
      | Some f \<Rightarrow>
         (case map_of objMap name of
            None \<Rightarrow> (if in_requiredFields s name then c
                     else if i_required f then WithPath name (AddError ''field is required'' VNil) c
                     else c, result)
          | Some fv \<Rightarrow>
             (case i_vat f of
                Some g \<Rightarrow> (case g fv (PushPath name c) of (c', w, _) \<Rightarrow>
                  (PopPath c', map_put name w result))
              | None \<Rightarrow> (WithPath name (i_validate f fv) c, map_put name fv result)))))"

definition object_map_vat :: "env \<Rightarrow> iface object_schema \<Rightarrow> gval gmap \<Rightarrow> validation_context \<Rightarrow>
    validation_context \<times> gval \<times> go_error option" where
  "object_map_vat E s objMap c =
     (let result = (if \<not> rejectsExtra s (c_mode c) then map_from objMap else []);
          c = fold (check_required_field objMap (ob_requiredFields s))
                (range_keys E c (ob_requiredFields s)) c;
          (c, result) = fold (vat_field s objMap) (range_keys E c (ob_fields s)) (c, result);
          c = (if rejectsExtra s (c_mode c)
               then fold (check_extra s objMap) (range_keys E c objMap) c else c);
          c = run_validators (ob_validators s) (VMap result) (VMap result) c
      in (c, VMap result, ctx_Error c))"

definition object_vat :: "env \<Rightarrow> iface object_schema \<Rightarrow> vat_fun" where
  "object_vat E s = checked_vat (ob_base s) (e_lib E) TypeObject (\<lambda>v c.
     case convertToMap v of
       None \<Rightarrow> let c = AddError (''cannot convert '' @ type_name v @ '' to map'') v c
               in (c, v, ctx_Error c)
     | Some objMap \<Rightarrow> object_map_vat E s objMap c)"

section \<open>What ValidateAndTransform returns\<close>

text \<open>A field fails (None), is absent (\<open>Some None\<close>), or contributes a value.\<close>

definition field_result :: "sface object_schema \<Rightarrow> gval gmap \<Rightarrow> string list \<Rightarrow> vmode \<Rightarrow> string \<Rightarrow>
    gval option option" where
  "field_result s objMap p m name = (case map_of (ob_fields s) name of None \<Rightarrow> Some None
     | Some f \<Rightarrow>
        (case map_of objMap name of
           None \<Rightarrow> if \<not> in_requiredFields s name \<and> r_required f then None else Some None
         | Some fv \<Rightarrow>
            (case r_result f of
               Some D \<Rightarrow> map_option Some (D fv (p @ [name]) m)
             | None \<Rightarrow> if clean (r_report f fv (p @ [name]) m) then Some (Some fv) else None)))"

definition field_updates :: "(string \<Rightarrow> gval option option) \<Rightarrow> string list \<Rightarrow> (string \<times> gval) list" where
  "field_updates F names =
     concat (map (\<lambda>name. case F name of Some (Some w) \<Rightarrow> [(name, w)] | _ \<Rightarrow> []) names)"

definition put_all :: "(string \<times> gval) list \<Rightarrow> gval gmap \<Rightarrow> gval gmap" where
  "put_all ups = fold (\<lambda>(k, v). map_put k v) ups"

definition object_map_result :: "sface object_schema \<Rightarrow> gval gmap \<Rightarrow> string list \<Rightarrow> vmode \<Rightarrow> gval option" where
  "object_map_result s objMap p m =
     (let F = field_result s objMap p m;
          names = map_keys (ob_fields s);
          start = (if \<not> rejectsExtra s m then map_from objMap else []);
          result = VMap (put_all (field_updates F names) start)
      in if (\<forall>(name, req) \<in> set (ob_requiredFields s).
               map_of (ob_requiredFields s) name = Some True \<longrightarrow> map_of objMap name \<noteq> None)
            \<and> (\<forall>name \<in> set names. F name \<noteq> None)
            \<and> (rejectsExtra s m \<longrightarrow> (\<forall>key \<in> set (map_keys objMap). map_of (ob_fields s) key \<noteq> None))
            \<and> (\<forall>f \<in> set (ob_validators s). f result = None)
         then Some result else None)"

definition checked_result :: "base_schema \<Rightarrow> go_lib \<Rightarrow> schema_type \<Rightarrow> result_fun \<Rightarrow> result_fun" where
  "checked_result b L t D v p m =
     (if v = VNil then (if \<not> bs_required b \<and> bs_nullable b then Some VNil else None)
      else if \<not> type_ok L t v m then None else D v p m)"

definition object_result :: "go_lib \<Rightarrow> sface object_schema \<Rightarrow> result_fun" where
  "object_result L s = checked_result (ob_base s) L TypeObject (\<lambda>v p m.
     case convertToMap v of None \<Rightarrow> None | Some objMap \<Rightarrow> object_map_result s objMap p m)"

text \<open>Errors stay.\<close>

lemma extends_errors: "extends c c' \<Longrightarrow> c_errors c \<noteq> [] \<Longrightarrow> c_errors c' \<noteq> []"
  by (auto simp: extends_def)

lemma extends_AddError [simp]: "extends c (AddError msg v c)"
  using stepsD(1) [OF steps_AddError] .

lemma AddError_errors [simp]: "c_errors (AddError msg v c) \<noteq> []"
  by (simp add: AddError_def)

lemma steps_errors_iff:
  "steps f R \<Longrightarrow> c_errors c = [] \<Longrightarrow> c_errors (f c) = [] \<longleftrightarrow> clean (R (c_path c) (c_mode c))"
  using steps_clean [of f R c] by simp

lemma vat_ok_checked:
  assumes "\<And>m. v \<noteq> VNil \<Longrightarrow> type_ok L t v m \<Longrightarrow> vat_ok (rest v) (D v)"
  shows "vat_ok (checked_vat b L t rest v) (checked_result b L t D v)"
proof -
  have rest: "vat_ok (rest v) (D v)" if "v \<noteq> VNil" "type_ok L t v m" for m
    using assms that .
  show ?thesis
    unfolding vat_ok_def
  proof (intro allI)
    fix c
    show "case checked_vat b L t rest v c of (c', w, e) \<Rightarrow>
        extends c c' \<and> e = ctx_Error c' \<and> (c_errors c = [] \<longrightarrow>
          (case checked_result b L t D v (c_path c) (c_mode c) of None \<Rightarrow> c_errors c' \<noteq> []
           | Some w' \<Rightarrow> c_errors c' = [] \<and> w = w'))"
    proof (cases "v = VNil")
      case True
      then show ?thesis
        by (simp add: checked_vat_def checked_result_def CheckRequired_def)
    next
      case False
      with rest [of "c_mode c"] show ?thesis
        by (auto simp: checked_vat_def checked_result_def ValidateValue_eq vat_ok_def)
    qed
  qed
qed

lemma vat_ok_WithPath:
  assumes "vat_ok f D" and "f (PushPath k c) = (c', w, e)"
  shows "extends c (PopPath c')"
    and "c_errors c = [] \<Longrightarrow> D (c_path c @ [k]) (c_mode c) = None \<Longrightarrow> c_errors (PopPath c') \<noteq> []"
    and "c_errors c = [] \<Longrightarrow> D (c_path c @ [k]) (c_mode c) = Some w' \<Longrightarrow>
      c_errors (PopPath c') = [] \<and> w = w'"
  using vat_okD [OF assms] by (auto simp: extends_def PopPath_PushPath)

definition field_outcome :: "validation_context \<Rightarrow> gval gmap \<Rightarrow> string \<Rightarrow>
    validation_context \<times> gval gmap \<Rightarrow> gval option option \<Rightarrow> bool" where
  "field_outcome c res name cr o' = (case cr of (c', res') \<Rightarrow>
     extends c c' \<and> (c_errors c = [] \<longrightarrow> (case o' of
        None \<Rightarrow> c_errors c' \<noteq> []
      | Some None \<Rightarrow> c_errors c' = [] \<and> res' = res
      | Some (Some w) \<Rightarrow> c_errors c' = [] \<and> res' = map_put name w res)))"

lemma vat_field_outcome:
  assumes "rel_object_schema implements s r"
  shows "field_outcome c res name (vat_field s objMap name (c, res))
    (field_result r objMap (c_path c) (c_mode c) name)"
proof (cases "map_of (ob_fields r) name")
  case None
  with rel_fields(2) [OF assms, of name] show ?thesis
    by (simp add: vat_field_def field_result_def field_outcome_def)
next
  case (Some g)
  with rel_fields(2) [OF assms, of name] obtain f
    where f: "map_of (ob_fields s) name = Some f" "implements f g"
    by (cases "map_of (ob_fields s) name") auto
  note imp = implementsD [OF f(2)]
  show ?thesis
  proof (cases "map_of objMap name")
    case None
    then show ?thesis
      using stepsD(1) [OF steps_WithPath [OF steps_AddError], of c name]
        steps_errors_iff [OF steps_WithPath [OF steps_AddError], of c name]
      by (auto simp: vat_field_def field_result_def field_outcome_def Some f rel_fields(7) [OF assms]
          imp(2))
  next
    case objs: (Some fv)
    show ?thesis
    proof (cases "i_vat f")
      case None
      with imp(5) have "r_result g = None" by simp
      with None show ?thesis
        using stepsD(1) [OF steps_WithPath [OF imp(4)], of c name fv]
          steps_errors_iff [OF steps_WithPath [OF imp(4)], of c name fv]
        by (simp add: vat_field_def field_result_def field_outcome_def Some f objs)
    next
      case vat: (Some h)
      with imp(5) obtain D where D: "r_result g = Some D" by auto
      obtain c' w e where h: "h fv (PushPath name c) = (c', w, e)"
        by (cases "h fv (PushPath name c)")
      show ?thesis
        using vat_ok_WithPath [OF imp(6) [OF vat D] h]
        by (auto simp: vat_field_def field_result_def field_outcome_def Some f objs vat D h
            split: option.splits)
    qed
  qed
qed

lemma fold_vat_field:
  assumes "rel_object_schema implements s r"
    and "fold (vat_field s objMap) names (c, res) = (c', res')"
  shows "extends c c' \<and> (c_errors c = [] \<longrightarrow>
     (let F = field_result r objMap (c_path c) (c_mode c) in
        if (\<forall>name \<in> set names. F name \<noteq> None)
        then c_errors c' = [] \<and> res' = put_all (field_updates F names) res
        else c_errors c' \<noteq> []))"
  using assms(2)
proof (induction names arbitrary: c res)
  case Nil
  then show ?case by (simp add: put_all_def field_updates_def)
next
  case (Cons name names)
  obtain c1 res1 where 1: "vat_field s objMap name (c, res) = (c1, res1)"
    by (cases "vat_field s objMap name (c, res)")
  have o1: "field_outcome c res name (c1, res1) (field_result r objMap (c_path c) (c_mode c) name)"
    using vat_field_outcome [OF assms(1), of c res name objMap] 1 by simp
  from Cons.IH [of c1 res1] Cons.prems 1
  have 2: "extends c1 c'" and 3: "c_errors c1 = [] \<Longrightarrow>
     (let F = field_result r objMap (c_path c1) (c_mode c1) in
        if (\<forall>name \<in> set names. F name \<noteq> None)
        then c_errors c' = [] \<and> res' = put_all (field_updates F names) res1
        else c_errors c' \<noteq> [])"
    by simp_all
  from o1 have e: "extends c c1" by (simp add: field_outcome_def)
  note frame = extendsD [OF e]
  show ?case
    using o1 e 2 3 extends_trans [OF e 2] extends_errors [OF 2]
    by (auto simp: field_outcome_def frame Let_def put_all_def field_updates_def
        split: option.splits if_splits)
qed

text \<open>The order of the updates does not matter: they agree on every key.\<close>

lemma wf_put_all: "wf_map m \<Longrightarrow> wf_map (put_all ups m)"
  by (simp add: put_all_def wf_fold_put)

lemma map_of_updates:
  "map_of (field_updates F names) k =
     (if k \<in> set names then (case F k of Some w \<Rightarrow> w | None \<Rightarrow> None) else None)"
  by (induction names) (auto simp: field_updates_def split: option.splits)

lemma field_updates_rev: "rev (field_updates F names) = field_updates F (rev names)"
  by (induction names) (auto simp: field_updates_def split: option.splits)

lemma put_all_updates_perm:
  assumes "wf_map m" and "set names = set names'"
  shows "put_all (field_updates F names) m = put_all (field_updates F names') m"
  by (rule wf_map_eqI)
    (simp_all add: wf_put_all assms(1) put_all_def [symmetric],
     simp add: put_all_def fold_put_get field_updates_rev map_add_def map_of_updates assms(2) fun_eq_iff)

lemma required_report_clean:
  "clean (required_report objMap rs name p m) \<longleftrightarrow>
   (map_of rs name = Some True \<longrightarrow> map_of objMap name \<noteq> None)"
  by (simp add: required_report_def)

lemma extra_report_clean:
  "clean (extra_report s objMap key p m) \<longleftrightarrow> map_of (ob_fields s) key \<noteq> None"
  by (simp add: extra_report_def split: option.splits)

lemma required_clean:
  "clean (\<Sum>name\<leftarrow>map_keys rs. required_report objMap rs name p m) \<longleftrightarrow>
   (\<forall>(name, req) \<in> set rs. map_of rs name = Some True \<longrightarrow> map_of objMap name \<noteq> None)"
  by (auto simp: required_report_clean)

lemma extra_clean:
  "clean (\<Sum>key\<leftarrow>map_keys objMap. extra_report s objMap key p m) \<longleftrightarrow>
   (\<forall>key \<in> set (map_keys objMap). map_of (ob_fields s) key \<noteq> None)"
  by (auto simp: extra_report_clean)

lemma error_chain:
  assumes "A \<longleftrightarrow> R" and "A \<Longrightarrow> B \<longleftrightarrow> F" and "B \<Longrightarrow> C \<longleftrightarrow> X" and "C \<Longrightarrow> D \<longleftrightarrow> V"
    and "\<not> A \<Longrightarrow> \<not> B" and "\<not> B \<Longrightarrow> \<not> C" and "\<not> C \<Longrightarrow> \<not> D"
  shows "D \<longleftrightarrow> R \<and> F \<and> X \<and> V"
  using assms by blast

lemma outcome_of_chain:
  assumes "es = [] \<longleftrightarrow> R \<and> F \<and> X \<and> V res" and "R \<Longrightarrow> F \<Longrightarrow> res = res'"
  shows "case (if R \<and> F \<and> X \<and> V res' then Some (g res') else None) of
      None \<Rightarrow> es \<noteq> [] | Some w' \<Rightarrow> es = [] \<and> g res = w'"
  using assms by auto

lemma vat_ok_object_map:
  assumes "rel_object_schema implements s r"
  shows "vat_ok (object_map_vat E s objMap) (object_map_result r objMap)"
  unfolding vat_ok_def
proof (intro allI)
  fix c :: validation_context
  note rel = rel_fields [OF assms]
  define res0 where "res0 = (if \<not> rejectsExtra s (c_mode c) then map_from objMap else [])"
  define c1 where "c1 = fold (check_required_field objMap (ob_requiredFields s))
      (range_keys E c (ob_requiredFields s)) c"
  obtain c2 res where 2: "fold (vat_field s objMap) (range_keys E c1 (ob_fields s)) (c1, res0) = (c2, res)"
    by (cases "fold (vat_field s objMap) (range_keys E c1 (ob_fields s)) (c1, res0)")
  define c3 where "c3 = (if rejectsExtra s (c_mode c2)
      then fold (check_extra s objMap) (range_keys E c2 objMap) c2 else c2)"
  define c4 where "c4 = run_validators (ob_validators s) (VMap res) (VMap res) c3"
  have s1: "steps (\<lambda>c. fold (check_required_field objMap (ob_requiredFields s))
        (range_keys E c (ob_requiredFields s)) c)
      (\<lambda>p m. \<Sum>name\<leftarrow>map_keys (ob_requiredFields s). required_report objMap (ob_requiredFields s) name p m)"
    by (intro steps_intros)
  have s3: "steps (\<lambda>c. if rejectsExtra s (c_mode c)
        then fold (check_extra s objMap) (range_keys E c objMap) c else c)
      (\<lambda>p m. if rejectsExtra s m then \<Sum>key\<leftarrow>map_keys objMap. extra_report s objMap key p m else {#})"
    by (intro steps_intros)
  have e1: "extends c c1" and e2: "extends c1 c2" and e3: "extends c2 c3" and e4: "extends c3 c4"
    using stepsD(1) [OF s1, of c] fold_vat_field [OF assms 2] stepsD(1) [OF s3, of c2]
      stepsD(1) [OF steps_run_validators, of c3]
    by (simp_all add: c1_def c3_def c4_def)
  note f1 = extendsD [OF e1] and f2 = extendsD [OF e2] and f3 = extendsD [OF e3]
  let ?F = "field_result r objMap (c_path c) (c_mode c)"
  let ?req = "\<forall>(name, req) \<in> set (ob_requiredFields r).
      map_of (ob_requiredFields r) name = Some True \<longrightarrow> map_of objMap name \<noteq> None"
  let ?fields = "\<forall>name \<in> set (map_keys (ob_fields r)). ?F name \<noteq> None"
  let ?extra = "rejectsExtra r (c_mode c) \<longrightarrow>
      (\<forall>key \<in> set (map_keys objMap). map_of (ob_fields r) key \<noteq> None)"
  have wf0: "wf_map res0" by (simp add: res0_def)
  have 1: "c_errors c1 = [] \<longleftrightarrow> ?req" if "c_errors c = []"
    using steps_errors_iff [OF s1 that] by (simp only: c1_def required_clean rel(4))
  have fields2: "(c_errors c2 = [] \<longleftrightarrow> ?fields) \<and>
        (?fields \<longrightarrow> res = put_all (field_updates ?F (map_keys (ob_fields r))) res0)"
    if c1: "c_errors c1 = []"
  proof -
    have keys: "set (range_keys E c1 (ob_fields s)) = set (map_keys (ob_fields r))"
      unfolding set_range_keys rel(1) by (rule refl)
    from conjunct2 [OF fold_vat_field [OF assms 2]] c1
    have "if ?fields then c_errors c2 = [] \<and>
        res = put_all (field_updates ?F (range_keys E c1 (ob_fields s))) res0 else c_errors c2 \<noteq> []"
      unfolding Let_def f1 keys by (rule mp)
    then show ?thesis
      unfolding put_all_updates_perm [OF wf0 keys] by (simp split: if_splits)
  qed
  have undefd: "map_of (ob_fields s) key \<noteq> None \<longleftrightarrow> map_of (ob_fields r) key \<noteq> None" for key
    using arg_cong [OF rel(1), of set] by (simp add: map_of_eq_None_iff)
  have 3: "c_errors c3 = [] \<longleftrightarrow> ?extra" if "c_errors c2 = []"
  proof -
    have "clean (if rejectsExtra s (c_mode c2)
        then \<Sum>key\<leftarrow>map_keys objMap. extra_report s objMap key (c_path c2) (c_mode c2) else {#}) \<longleftrightarrow>
      (rejectsExtra s (c_mode c2) \<longrightarrow>
        (\<forall>key \<in> set (map_keys objMap). map_of (ob_fields s) key \<noteq> None))"
      using extra_clean [of s objMap "c_path c2" "c_mode c2"] by (simp del: clean_sum_list)
    with steps_errors_iff [OF s3 that] show ?thesis
      unfolding c3_def undefd f1 f2 rel(6) by (simp only:)
  qed
  have 4: "c_errors c4 = [] \<longleftrightarrow> (\<forall>f \<in> set (ob_validators r). f (VMap res) = None)"
    if "c_errors c3 = []"
    using steps_errors_iff [OF steps_run_validators [of "ob_validators s" "VMap res" "VMap res"] that]
    by (simp only: c4_def clean_validators_report rel(5))
  show "case object_map_vat E s objMap c of (c', w, e) \<Rightarrow>
      extends c c' \<and> e = ctx_Error c' \<and> (c_errors c = [] \<longrightarrow>
        (case object_map_result r objMap (c_path c) (c_mode c) of None \<Rightarrow> c_errors c' \<noteq> []
         | Some w' \<Rightarrow> c_errors c' = [] \<and> w = w'))"
    unfolding object_map_vat_def res0_def [symmetric] Let_def
    unfolding c1_def [symmetric] 2 prod.case c3_def [symmetric] c4_def [symmetric]
  proof (intro conjI impI)
    show "extends c c4" using e1 e2 e3 e4 by (blast intro: extends_trans)
    assume c: "c_errors c = []"
    have D: "object_map_result r objMap (c_path c) (c_mode c) =
        (if ?req \<and> ?fields \<and> ?extra \<and> (\<forall>f \<in> set (ob_validators r).
           f (VMap (put_all (field_updates ?F (map_keys (ob_fields r))) res0)) = None)
         then Some (VMap (put_all (field_updates ?F (map_keys (ob_fields r))) res0)) else None)"
      unfolding object_map_result_def Let_def res0_def rel(6) by (rule refl)
    have "c_errors c4 = [] \<longleftrightarrow> ?req \<and> ?fields \<and> ?extra \<and> (\<forall>f \<in> set (ob_validators r). f (VMap res) = None)"
      by (rule error_chain [OF 1 [OF c] conjunct1 [OF fields2] 3 4
            extends_errors [OF e2] extends_errors [OF e3] extends_errors [OF e4]])
    moreover have "?req \<Longrightarrow> ?fields \<Longrightarrow> res = put_all (field_updates ?F (map_keys (ob_fields r))) res0"
      using 1 [OF c] conjunct2 [OF fields2] by (iprover)
    ultimately show "case object_map_result r objMap (c_path c) (c_mode c) of
        None \<Rightarrow> c_errors c4 \<noteq> [] | Some w' \<Rightarrow> c_errors c4 = [] \<and> VMap res = w'"
      unfolding D by (rule outcome_of_chain)
  qed simp
qed

lemma vat_ok_object:
  assumes "rel_object_schema implements s r"
  shows "vat_ok (object_vat E s v) (object_result (e_lib E) r v)"
  unfolding object_vat_def object_result_def rel_fields(3) [OF assms, symmetric]
proof (rule vat_ok_checked)
  fix m
  assume "v \<noteq> VNil" "type_ok (e_lib E) TypeObject v m"
  then obtain objMap where "convertToMap v = Some objMap"
    by (auto simp: type_ok_object_map)
  then show "vat_ok (\<lambda>c. case convertToMap v of
        None \<Rightarrow> let c = AddError (''cannot convert '' @ type_name v @ '' to map'') v c
                in (c, v, ctx_Error c)
      | Some objMap \<Rightarrow> object_map_vat E s objMap c)
      (\<lambda>p m. case convertToMap v of None \<Rightarrow> None
      | Some objMap \<Rightarrow> object_map_result r objMap p m)"
    using vat_ok_object_map [OF assms] by simp
qed

end
