(* ===== verification/ArraySchema.thy ===== *)
theory ArraySchema
  imports ObjectSchema
begin

text \<open>
  \<open>builders/array.go\<close>: the array schema, parametric in the element schema, its \<open>Validate\<close> and
  \<open>ValidateAndTransform\<close>, and their specifications \<open>array_report\<close> and \<open>array_result\<close>.
\<close>

section \<open>The schema and its builder methods\<close>

datatype 's array_schema = ArraySchema
  (ar_base: base_schema)
  (ar_elementSchema: "'s option")
  (ar_minItems: "int option")
  (ar_maxItems: "int option")
  (ar_uniqueItems: bool)
  (ar_validators: "validator_func list")
  (ar_asyncValidators: "async_validator list")

definition Array_new :: "'s array_schema" where
  "Array_new = ArraySchema (new_base TypeArray) None None None False [] []"

fun ar_map_base :: "(base_schema \<Rightarrow> base_schema) \<Rightarrow> 's array_schema \<Rightarrow> 's array_schema" where
  "ar_map_base f (ArraySchema b el lo hi u vs as) = ArraySchema (f b) el lo hi u vs as"

definition Array_Required :: "'s array_schema \<Rightarrow> 's array_schema" where
  "Array_Required s = ar_map_base (SetRequired True) s"

definition Array_Optional :: "'s array_schema \<Rightarrow> 's array_schema" where
  "Array_Optional s = ar_map_base (SetRequired False) s"

definition Array_Nullable :: "'s array_schema \<Rightarrow> 's array_schema" where
  "Array_Nullable s = ar_map_base (SetNullable True) s"

definition Array_Meta :: "string \<Rightarrow> gval \<Rightarrow> 's array_schema \<Rightarrow> 's array_schema" where
  "Array_Meta k v s = ar_map_base (SetMeta k v) s"

fun Array_Of :: "'s \<Rightarrow> 's array_schema \<Rightarrow> 's array_schema" where
  "Array_Of e (ArraySchema b el lo hi u vs as) = ArraySchema b (Some e) lo hi u vs as"

definition Array_Items :: "'s \<Rightarrow> 's array_schema \<Rightarrow> 's array_schema" where
  "Array_Items e s = Array_Of e s"

fun Array_MinItems :: "int \<Rightarrow> 's array_schema \<Rightarrow> 's array_schema" where
  "Array_MinItems n (ArraySchema b el lo hi u vs as) = ArraySchema b el (Some n) hi u vs as"

fun Array_MaxItems :: "int \<Rightarrow> 's array_schema \<Rightarrow> 's array_schema" where
  "Array_MaxItems n (ArraySchema b el lo hi u vs as) = ArraySchema b el lo (Some n) u vs as"

fun Array_Length :: "int \<Rightarrow> 's array_schema \<Rightarrow> 's array_schema" where
  "Array_Length n (ArraySchema b el lo hi u vs as) = ArraySchema b el (Some n) (Some n) u vs as"

fun Array_UniqueItems :: "'s array_schema \<Rightarrow> 's array_schema" where
  "Array_UniqueItems (ArraySchema b el lo hi u vs as) = ArraySchema b el lo hi True vs as"

fun Array_Custom :: "validator_func \<Rightarrow> 's array_schema \<Rightarrow> 's array_schema" where
  "Array_Custom f (ArraySchema b el lo hi u vs as) = ArraySchema b el lo hi u (vs @ [f]) as"

fun Array_AsyncCustom :: "async_validator \<Rightarrow> 's array_schema \<Rightarrow> 's array_schema" where
  "Array_AsyncCustom f (ArraySchema b el lo hi u vs as) = ArraySchema b el lo hi u vs (as @ [f])"

section \<open>The checks on the whole array\<close>

definition min_items_msg :: "int \<Rightarrow> nat \<Rightarrow> string" where
  "min_items_msg n len = ''must have at least '' @ show_int n @ '' items, got '' @ show_int (int len)"

definition max_items_msg :: "int \<Rightarrow> nat \<Rightarrow> string" where
  "max_items_msg n len = ''must have at most '' @ show_int n @ '' items, got '' @ show_int (int len)"

text \<open>The loop with the map \<open>seen\<close>: does a key come twice?\<close>

fun repeats :: "string list \<Rightarrow> string list \<Rightarrow> bool" where
  "repeats seen [] = False"
| "repeats seen (k # ks) = (if k \<in> set seen then True else repeats (k # seen) ks)"

lemma repeats_iff: "repeats seen ks \<longleftrightarrow> \<not> distinct ks \<or> set ks \<inter> set seen \<noteq> {}"
  by (induction seen ks rule: repeats.induct) auto

definition array_checks :: "go_lib \<Rightarrow> 's array_schema \<Rightarrow> gval \<Rightarrow> gval list \<Rightarrow>
    validation_context \<Rightarrow> validation_context" where
  "array_checks L s v xs c =
     (let c = (case ar_minItems s of None \<Rightarrow> c
         | Some n \<Rightarrow> if int (length xs) < n then AddError (min_items_msg n (length xs)) v c else c);
          c = (case ar_maxItems s of None \<Rightarrow> c
         | Some n \<Rightarrow> if n < int (length xs) then AddError (max_items_msg n (length xs)) v c else c)
      in (if ar_uniqueItems s \<and> 1 < length xs
          then if repeats [] (map (sprint_v L) xs) then AddError ''items must be unique'' v c else c
          else c))"

definition array_violations :: "go_lib \<Rightarrow> 's array_schema \<Rightarrow> gval list \<Rightarrow> string list" where
  "array_violations L s xs =
     (case ar_minItems s of Some n \<Rightarrow> if int (length xs) < n then [min_items_msg n (length xs)] else []
        | None \<Rightarrow> [])
   @ (case ar_maxItems s of Some n \<Rightarrow> if n < int (length xs) then [max_items_msg n (length xs)] else []
        | None \<Rightarrow> [])
   @ (if ar_uniqueItems s \<and> \<not> distinct (map (sprint_v L) xs) then [''items must be unique''] else [])"

lemma not_distinct_length: "\<not> distinct (map f xs) \<Longrightarrow> 1 < length xs"
  by (cases xs; cases "tl xs") auto

lemma array_checks_eq: "array_checks L s v xs c = add_errors (array_violations L s xs) v c"
  using not_distinct_length [of "sprint_v L" xs]
  by (auto simp: array_checks_def array_violations_def repeats_iff Let_def split: option.splits)

section \<open>Validate\<close>

definition array_elements :: "iface array_schema \<Rightarrow> gval list \<Rightarrow> validation_context \<Rightarrow> validation_context" where
  "array_elements s xs c = (case ar_elementSchema s of None \<Rightarrow> c
     | Some f \<Rightarrow> fold (\<lambda>(i, x). WithIndex (int i) (i_validate f x)) (enumerate 0 xs) c)"

definition array_Validate :: "env \<Rightarrow> iface array_schema \<Rightarrow> validate_fun" where
  "array_Validate E s = guarded (ar_base s) (typed (e_lib E) TypeArray (\<lambda>v c.
     let xs = the (as_slice v);
         c = array_checks (e_lib E) s v xs c;
         c = array_elements s xs c
     in run_validators (ar_validators s) v v c))"

definition elements_report :: "sface array_schema \<Rightarrow> gval list \<Rightarrow> string list \<Rightarrow> vmode \<Rightarrow> report" where
  "elements_report s xs p m = (case ar_elementSchema s of None \<Rightarrow> {#}
     | Some f \<Rightarrow> \<Sum>(i, x)\<leftarrow>enumerate 0 xs. r_report f x (p @ [index_segment (int i)]) m)"

definition array_report :: "go_lib \<Rightarrow> sface array_schema \<Rightarrow> report_fun" where
  "array_report L s = guarded_report (ar_base s) (typed_report L TypeArray (\<lambda>v p m.
     let xs = the (as_slice v) in
       errs_at (array_violations L s xs) v p m + elements_report s xs p m
       + validators_report (ar_validators s) v v p m))"

section \<open>ValidateAndTransform\<close>

definition vat_elem :: "iface array_schema \<Rightarrow> nat \<Rightarrow> gval \<Rightarrow> validation_context \<Rightarrow>
    validation_context \<times> gval" where
  "vat_elem s i x c = (case ar_elementSchema s of
       None \<Rightarrow> (WithIndex (int i) (\<lambda>c. c) c, x)
     | Some f \<Rightarrow> (case i_vat f of
           Some g \<Rightarrow> (case g x (PushIndex (int i) c) of (c', w, _) \<Rightarrow> (PopPath c', w))
         | None \<Rightarrow> (WithIndex (int i) (i_validate f x) c, x)))"

text \<open>The loop that fills \<open>result\<close> from index \<open>i\<close> on.\<close>

fun vat_elems :: "iface array_schema \<Rightarrow> nat \<Rightarrow> gval list \<Rightarrow> validation_context \<Rightarrow>
    validation_context \<times> gval list" where
  "vat_elems s i [] c = (c, [])"
| "vat_elems s i (x # xs) c = (case vat_elem s i x c of (c, w) \<Rightarrow>
     (case vat_elems s (Suc i) xs c of (c, ws) \<Rightarrow> (c, w # ws)))"

definition array_slice_vat :: "env \<Rightarrow> iface array_schema \<Rightarrow> vat_fun" where
  "array_slice_vat E s v c =
     (let xs = the (as_slice v);
          c = array_checks (e_lib E) s v xs c;
          (c, result) = vat_elems s 0 xs c;
          c = run_validators (ar_validators s) v v c
      in (c, VSlice result, ctx_Error c))"

definition array_vat :: "env \<Rightarrow> iface array_schema \<Rightarrow> vat_fun" where
  "array_vat E s = checked_vat (ar_base s) (e_lib E) TypeArray (array_slice_vat E s)"

definition elem_result :: "sface array_schema \<Rightarrow> nat \<Rightarrow> gval \<Rightarrow> string list \<Rightarrow> vmode \<Rightarrow> gval option" where
  "elem_result s i x p m = (case ar_elementSchema s of
       None \<Rightarrow> Some x
     | Some f \<Rightarrow> (case r_result f of
           Some D \<Rightarrow> D x (p @ [index_segment (int i)]) m
         | None \<Rightarrow> if clean (r_report f x (p @ [index_segment (int i)]) m) then Some x else None))"

fun elem_results :: "sface array_schema \<Rightarrow> nat \<Rightarrow> gval list \<Rightarrow> string list \<Rightarrow> vmode \<Rightarrow> gval list option" where
  "elem_results s i [] p m = Some []"
| "elem_results s i (x # xs) p m = (case elem_result s i x p m of None \<Rightarrow> None
     | Some w \<Rightarrow> map_option (\<lambda>ws. w # ws) (elem_results s (Suc i) xs p m))"

definition array_result :: "go_lib \<Rightarrow> sface array_schema \<Rightarrow> result_fun" where
  "array_result L s = checked_result (ar_base s) L TypeArray (\<lambda>v p m.
     let xs = the (as_slice v) in
     if array_violations L s xs = [] \<and> (\<forall>f \<in> set (ar_validators s). f v = None)
     then map_option VSlice (elem_results s 0 xs p m) else None)"

section \<open>Both meet their specifications\<close>

lemma rel_array:
  assumes "rel_array_schema P s r"
  shows "rel_option P (ar_elementSchema s) (ar_elementSchema r)"
    and "ar_base s = ar_base r" and "ar_validators s = ar_validators r"
    and "array_violations L s = array_violations L r"
  using assms by (simp_all add: array_schema.rel_sel array_violations_def fun_eq_iff)

lemma steps_array_checks [steps_intros]:
  "steps (array_checks L s v xs) (errs_at (array_violations L s xs) v)"
  unfolding array_checks_eq [abs_def] by (rule steps_add_errors)

lemma steps_array_elements:
  assumes "rel_array_schema implements s r"
  shows "steps (array_elements s xs) (elements_report r xs)"
proof (cases "ar_elementSchema r")
  case None
  with rel_array(1) [OF assms] show ?thesis
    by (simp add: array_elements_def [abs_def] elements_report_def [abs_def] steps_id)
next
  case (Some g)
  with rel_array(1) [OF assms] obtain f where f: "ar_elementSchema s = Some f" "implements f g"
    by (cases "ar_elementSchema s") auto
  have "steps (fold (\<lambda>(i, x). WithIndex (int i) (i_validate f x)) (enumerate 0 xs))
      (\<lambda>p m. \<Sum>ix\<leftarrow>enumerate 0 xs.
         (\<lambda>ix p m. case ix of (i, x) \<Rightarrow> r_report g x (p @ [index_segment (int i)]) m) ix p m)"
  proof (rule steps_fold)
    fix ix :: "nat \<times> gval"
    obtain i x where ix: "ix = (i, x)" by (cases ix)
    show "steps ((\<lambda>(i, x). WithIndex (int i) (i_validate f x)) ix)
        ((\<lambda>ix p m. case ix of (i, x) \<Rightarrow> r_report g x (p @ [index_segment (int i)]) m) ix)"
      unfolding ix prod.case by (intro steps_intros implementsD(4) [OF f(2)])
  qed
  with Some f show ?thesis
    by (simp add: array_elements_def [abs_def] elements_report_def [abs_def])
qed

lemma steps_array_Validate:
  assumes "rel_array_schema implements s r"
  shows "steps (array_Validate E s v) (array_report (e_lib E) r v)"
  unfolding array_Validate_def array_report_def rel_array(2) [OF assms, symmetric]
proof (rule steps_guarded, rule steps_typed)
  let ?xs = "the (as_slice v)"
  from steps_comp [OF steps_comp [OF steps_array_checks [of "e_lib E" s v ?xs]
        steps_array_elements [OF assms, of ?xs]]
      steps_run_validators [of "ar_validators r" v v]]
  show "steps (\<lambda>c. let xs = ?xs; c = array_checks (e_lib E) s v xs c; c = array_elements s xs c
         in run_validators (ar_validators s) v v c)
      (\<lambda>p m. let xs = ?xs in errs_at (array_violations (e_lib E) r xs) v p m + elements_report r xs p m
         + validators_report (ar_validators r) v v p m)"
    unfolding Let_def rel_array(3) [OF assms] rel_array(4) [OF assms, symmetric] .
qed

lemma vat_elem_result:
  assumes "rel_array_schema implements s r" and "vat_elem s i x c = (c', w)"
  shows "extends c c' \<and> (c_errors c = [] \<longrightarrow> (case elem_result r i x (c_path c) (c_mode c) of
     None \<Rightarrow> c_errors c' \<noteq> [] | Some w' \<Rightarrow> c_errors c' = [] \<and> w = w'))"
proof (cases "ar_elementSchema r")
  case None
  with rel_array(1) [OF assms(1)] assms(2)
    stepsD(1) [OF steps_WithIndex [OF steps_id], of c "int i"]
    steps_errors_iff [OF steps_WithIndex [OF steps_id], of c "int i"]
  show ?thesis
    by (auto simp: vat_elem_def elem_result_def)
next
  case (Some g)
  with rel_array(1) [OF assms(1)] obtain f where f: "ar_elementSchema s = Some f" "implements f g"
    by (cases "ar_elementSchema s") auto
  note imp = implementsD [OF f(2)]
  show ?thesis
  proof (cases "i_vat f")
    case None
    with imp(5) have "r_result g = None" by simp
    with None Some f(1) assms(2)
      stepsD(1) [OF steps_WithIndex [OF imp(4)], of c "int i" x]
      steps_errors_iff [OF steps_WithIndex [OF imp(4)], of c "int i" x]
    show ?thesis
      by (auto simp: vat_elem_def elem_result_def)
  next
    case vat: (Some h)
    with imp(5) obtain D where D: "r_result g = Some D" by auto
    obtain d u e where h: "h x (PushPath (index_segment (int i)) c) = (d, u, e)"
      by (cases "h x (PushPath (index_segment (int i)) c)")
    have push: "PushIndex (int i) c = PushPath (index_segment (int i)) c"
      by (simp add: PushIndex_def PushPath_def)
    show ?thesis
      using vat_ok_WithPath [OF imp(6) [OF vat D] h] assms(2)
      by (auto simp: vat_elem_def elem_result_def Some f(1) vat D push h split: option.splits)
  qed
qed

lemma vat_elems_result:
  assumes "rel_array_schema implements s r" and "vat_elems s i xs c = (c', ws)"
  shows "extends c c' \<and> (c_errors c = [] \<longrightarrow> (case elem_results r i xs (c_path c) (c_mode c) of
     None \<Rightarrow> c_errors c' \<noteq> [] | Some ws' \<Rightarrow> c_errors c' = [] \<and> ws = ws'))"
  using assms(2)
proof (induction xs arbitrary: i c ws)
  case (Cons x xs)
  obtain c1 w where 1: "vat_elem s i x c = (c1, w)" by (cases "vat_elem s i x c")
  obtain c2 vs where 2: "vat_elems s (Suc i) xs c1 = (c2, vs)" by (cases "vat_elems s (Suc i) xs c1")
  from Cons.prems 1 2 have ws: "c' = c2" "ws = w # vs" by auto
  have e1: "extends c c1" using vat_elem_result [OF assms(1) 1] by simp
  have e2: "extends c1 c2" using Cons.IH [OF 2 [folded ws(1)]] ws by simp
  show ?case
    using vat_elem_result [OF assms(1) 1] Cons.IH [OF 2 [folded ws(1)]] ws
      extends_trans [OF e1 e2] extends_errors [OF e2] extendsD [OF e1]
    by (auto split: option.splits)
qed simp

lemma vat_ok_array_slice:
  assumes "rel_array_schema implements s r"
  shows "vat_ok (array_slice_vat E s v) (\<lambda>p m. let xs = the (as_slice v) in
     if array_violations (e_lib E) r xs = [] \<and> (\<forall>f \<in> set (ar_validators r). f v = None)
     then map_option VSlice (elem_results r 0 xs p m) else None)"
  unfolding vat_ok_def
proof (intro allI)
  fix c
  note rel = rel_array [OF assms]
  define xs where "xs = the (as_slice v)"
  define c1 where "c1 = array_checks (e_lib E) s v xs c"
  obtain c2 ws where 2: "vat_elems s 0 xs c1 = (c2, ws)" by (cases "vat_elems s 0 xs c1")
  define c3 where "c3 = run_validators (ar_validators s) v v c2"
  have e1: "extends c c1" and e2: "extends c1 c2" and e3: "extends c2 c3"
    using stepsD(1) [OF steps_array_checks] vat_elems_result [OF assms 2]
      stepsD(1) [OF steps_run_validators]
    by (simp_all add: c1_def c3_def)
  have 1: "c_errors c1 = [] \<longleftrightarrow> array_violations (e_lib E) r xs = []" if "c_errors c = []"
    using steps_errors_iff [OF steps_array_checks [of "e_lib E" s v xs] that]
    by (simp add: c1_def rel(4))
  define pass where "pass \<longleftrightarrow> (\<forall>f \<in> set (ar_validators r). f v = None)"
  have 3: "c_errors c3 = [] \<longleftrightarrow> pass" if "c_errors c2 = []"
    using steps_errors_iff [OF steps_run_validators [of "ar_validators s" v v] that]
    by (simp add: c3_def rel(3) pass_def)
  have run: "array_slice_vat E s v c = (c3, VSlice ws, ctx_Error c3)"
    by (simp add: array_slice_vat_def Let_def xs_def [symmetric] c1_def [symmetric] 2 c3_def)
  show "case array_slice_vat E s v c of (c', w, e) \<Rightarrow>
      extends c c' \<and> e = ctx_Error c' \<and> (c_errors c = [] \<longrightarrow>
        (case (let xs = the (as_slice v) in
           if array_violations (e_lib E) r xs = [] \<and> (\<forall>f \<in> set (ar_validators r). f v = None)
           then map_option VSlice (elem_results r 0 xs (c_path c) (c_mode c)) else None) of
           None \<Rightarrow> c_errors c' \<noteq> [] | Some w' \<Rightarrow> c_errors c' = [] \<and> w = w'))"
    unfolding run Let_def xs_def [symmetric] pass_def [symmetric]
    using e1 e2 e3 1 3 vat_elems_result [OF assms 2] extends_errors [OF e2] extends_errors [OF e3]
      extendsD [OF e1]
    by (auto intro: extends_trans split: option.splits)
qed

lemma vat_ok_array:
  assumes "rel_array_schema implements s r"
  shows "vat_ok (array_vat E s v) (array_result (e_lib E) r v)"
  unfolding array_vat_def array_result_def rel_array(2) [OF assms, symmetric]
  by (rule vat_ok_checked) (rule vat_ok_array_slice [OF assms])

end
