(* ===== verification/Composite.thy ===== *)
theory Composite
  imports ArraySchema
begin

text \<open>
  \<open>builders/composite.go\<close> (\<open>And\<close>, \<open>Or\<close>, \<open>Not\<close>) and \<open>builders/transform.go\<close>, parametric in the
  schemas they hold. \<open>Or\<close> and \<open>Not\<close> try their schemas on contexts of their own; the two empty
  loops of \<open>Or\<close> over the errors of the real context, which trying never changes, are left out.
\<close>

section \<open>And\<close>

datatype 's and_schema = AndSchema (an_base: base_schema) (an_schemas: "'s list")

definition And_new :: "'s list \<Rightarrow> 's and_schema" where
  "And_new ss = AndSchema (new_base TypeComposite) ss"

fun And_map_base :: "(base_schema \<Rightarrow> base_schema) \<Rightarrow> 's and_schema \<Rightarrow> 's and_schema" where
  "And_map_base f (AndSchema b ss) = AndSchema (f b) ss"

definition And_Required :: "'s and_schema \<Rightarrow> 's and_schema" where
  "And_Required s = And_map_base (SetRequired True) s"

definition And_Optional :: "'s and_schema \<Rightarrow> 's and_schema" where
  "And_Optional s = And_map_base (SetRequired False) s"

definition And_Nullable :: "'s and_schema \<Rightarrow> 's and_schema" where
  "And_Nullable s = And_map_base (SetNullable True) s"

definition and_Validate :: "iface and_schema \<Rightarrow> validate_fun" where
  "and_Validate s = guarded (an_base s) (\<lambda>v c. fold (\<lambda>i. i_validate i v) (an_schemas s) c)"

definition and_report :: "sface and_schema \<Rightarrow> report_fun" where
  "and_report s = guarded_report (an_base s) (\<lambda>v p m. \<Sum>i\<leftarrow>an_schemas s. r_report i v p m)"

section \<open>Or\<close>

datatype 's or_schema = OrSchema (or_base: base_schema) (or_schemas: "'s list")

definition Or_new :: "'s list \<Rightarrow> 's or_schema" where
  "Or_new ss = OrSchema (new_base TypeComposite) ss"

fun Or_map_base :: "(base_schema \<Rightarrow> base_schema) \<Rightarrow> 's or_schema \<Rightarrow> 's or_schema" where
  "Or_map_base f (OrSchema b ss) = OrSchema (f b) ss"

definition Or_Required :: "'s or_schema \<Rightarrow> 's or_schema" where
  "Or_Required s = Or_map_base (SetRequired True) s"

definition Or_Optional :: "'s or_schema \<Rightarrow> 's or_schema" where
  "Or_Optional s = Or_map_base (SetRequired False) s"

definition Or_Nullable :: "'s or_schema \<Rightarrow> 's or_schema" where
  "Or_Nullable s = Or_map_base (SetNullable True) s"

text \<open>Does a schema pass on a fresh context?\<close>

definition passes :: "iface \<Rightarrow> gval \<Rightarrow> vmode \<Rightarrow> bool" where
  "passes i v m = (\<not> HasErrors (i_validate i v (NewValidationContext m)))"

fun all_failed :: "iface list \<Rightarrow> gval \<Rightarrow> vmode \<Rightarrow> bool" where
  "all_failed [] v m = True"
| "all_failed (i # is) v m = (if passes i v m then False else all_failed is v m)"

definition or_Validate :: "iface or_schema \<Rightarrow> validate_fun" where
  "or_Validate s = guarded (or_base s) (\<lambda>v c.
     if length (or_schemas s) = 0 then c
     else if all_failed (or_schemas s) v (c_mode c)
          then AddError ''none of the validators passed'' v c else c)"

definition or_report :: "sface or_schema \<Rightarrow> report_fun" where
  "or_report s = guarded_report (or_base s) (\<lambda>v p m.
     if or_schemas s \<noteq> [] \<and> (\<forall>i \<in> set (or_schemas s). \<not> clean (r_report i v [] m))
     then err_at ''none of the validators passed'' v p m else {#})"

section \<open>Not\<close>

datatype 's not_schema = NotSchema (no_base: base_schema) (no_schema: 's)

definition Not_new :: "'s \<Rightarrow> 's not_schema" where
  "Not_new s = NotSchema (new_base TypeComposite) s"

fun Not_map_base :: "(base_schema \<Rightarrow> base_schema) \<Rightarrow> 's not_schema \<Rightarrow> 's not_schema" where
  "Not_map_base f (NotSchema b s) = NotSchema (f b) s"

definition Not_Required :: "'s not_schema \<Rightarrow> 's not_schema" where
  "Not_Required s = Not_map_base (SetRequired True) s"

definition Not_Optional :: "'s not_schema \<Rightarrow> 's not_schema" where
  "Not_Optional s = Not_map_base (SetRequired False) s"

definition Not_Nullable :: "'s not_schema \<Rightarrow> 's not_schema" where
  "Not_Nullable s = Not_map_base (SetNullable True) s"

definition not_Validate :: "iface not_schema \<Rightarrow> validate_fun" where
  "not_Validate s = guarded (no_base s) (\<lambda>v c.
     if passes (no_schema s) v (c_mode c)
     then AddError ''value must not match the validation'' v c else c)"

definition not_report :: "sface not_schema \<Rightarrow> report_fun" where
  "not_report s = guarded_report (no_base s) (\<lambda>v p m.
     if clean (r_report (no_schema s) v [] m)
     then err_at ''value must not match the validation'' v p m else {#})"

section \<open>They meet their specifications\<close>

lemma passes_clean: "implements i r \<Longrightarrow> passes i v m \<longleftrightarrow> clean (r_report r v [] m)"
  by (simp add: passes_def steps_fresh [OF implementsD(4)])

lemma steps_and_Validate:
  assumes "rel_and_schema implements s r"
  shows "steps (and_Validate s v) (and_report r v)"
proof -
  have base: "an_base s = an_base r" and rel: "list_all2 implements (an_schemas s) (an_schemas r)"
    using assms by (simp_all add: and_schema.rel_sel)
  have "steps (fold (\<lambda>i. i_validate i v) is) (\<lambda>p m. \<Sum>i\<leftarrow>rs. r_report i v p m)"
    if "list_all2 implements is rs" for "is" rs
    using that
  proof induction
    case (Cons i "is" r rs)
    from steps_comp [OF implementsD(4) [OF Cons.hyps(1)] Cons.IH]
    show ?case by (simp add: comp_def)
  qed (simp add: steps_id id_def)
  from this [OF rel] show ?thesis
    unfolding and_Validate_def and_report_def base by (intro steps_guarded) simp
qed

lemma all_failed_clean:
  "list_all2 implements is rs \<Longrightarrow>
   all_failed is v m \<longleftrightarrow> (\<forall>r \<in> set rs. \<not> clean (r_report r v [] m))"
  by (induction rule: list_all2_induct) (auto simp: passes_clean)

lemma steps_mode_if:
  "(\<And>m. P m \<longleftrightarrow> Q m) \<Longrightarrow> steps (\<lambda>c. if P (c_mode c) then AddError msg v c else c)
     (\<lambda>p m. if Q m then err_at msg v p m else {#})"
  by (rule steps_mode [where f = "\<lambda>m c. if P m then AddError msg v c else c"
        and R = "\<lambda>m p md. if Q m then err_at msg v p md else {#}"])
    (auto intro: steps_intros)

lemma steps_or_Validate:
  assumes "rel_or_schema implements s r"
  shows "steps (or_Validate s v) (or_report r v)"
proof -
  have base: "or_base s = or_base r" and rel: "list_all2 implements (or_schemas s) (or_schemas r)"
    using assms by (simp_all add: or_schema.rel_sel)
  show ?thesis
    unfolding or_Validate_def or_report_def base
  proof (rule steps_guarded)
    have len: "length (or_schemas s) = 0 \<longleftrightarrow> or_schemas r = []"
      using list_all2_lengthD [OF rel] by simp
    show "steps (\<lambda>c. if length (or_schemas s) = 0 then c
          else if all_failed (or_schemas s) v (c_mode c)
               then AddError ''none of the validators passed'' v c else c)
        (\<lambda>p m. if or_schemas r \<noteq> [] \<and> (\<forall>i \<in> set (or_schemas r). \<not> clean (r_report i v [] m))
          then err_at ''none of the validators passed'' v p m else {#})"
    proof (cases "or_schemas r = []")
      case False
      have "steps (\<lambda>c. if all_failed (or_schemas s) v (c_mode c)
            then AddError ''none of the validators passed'' v c else c)
          (\<lambda>p m. if \<forall>i \<in> set (or_schemas r). \<not> clean (r_report i v [] m)
            then err_at ''none of the validators passed'' v p m else {#})"
        by (intro steps_mode_if all_failed_clean [OF rel])
      with False len show ?thesis by simp
    qed (use len in \<open>simp add: steps_id\<close>)
  qed
qed

lemma steps_not_Validate:
  assumes "rel_not_schema implements s r"
  shows "steps (not_Validate s v) (not_report r v)"
proof -
  have base: "no_base s = no_base r" and rel: "implements (no_schema s) (no_schema r)"
    using assms by (simp_all add: not_schema.rel_sel)
  show ?thesis
    unfolding not_Validate_def not_report_def base
    by (intro steps_guarded steps_mode_if passes_clean [OF rel])
qed

section \<open>Transform\<close>

type_synonym transformer = "gval \<Rightarrow> string + gval"

datatype 's transform_schema = TransformSchema
  (tf_base: base_schema)
  (tf_inner: 's)
  (tf_transformers: "transformer list")
  (tf_asyncValidators: "async_validator list")

definition Transform_new :: "'s \<Rightarrow> 's transform_schema" where
  "Transform_new s = TransformSchema (new_base TypeTransform) s [] []"

fun Transform_Add :: "transformer \<Rightarrow> 's transform_schema \<Rightarrow> 's transform_schema" where
  "Transform_Add t (TransformSchema b s ts as) = TransformSchema b s (ts @ [t]) as"

text \<open>\<open>Required\<close> and \<open>Optional\<close> also set the inner schema; \<open>setReq\<close> is its \<open>SetRequired\<close>.\<close>

fun tf_SetRequired_both :: "(bool \<Rightarrow> 's \<Rightarrow> 's) \<Rightarrow> bool \<Rightarrow> 's transform_schema \<Rightarrow> 's transform_schema" where
  "tf_SetRequired_both setReq r (TransformSchema b s ts as) =
     TransformSchema (SetRequired r b) (setReq r s) ts as"

fun tf_map_base :: "(base_schema \<Rightarrow> base_schema) \<Rightarrow> 's transform_schema \<Rightarrow> 's transform_schema" where
  "tf_map_base f (TransformSchema b s ts as) = TransformSchema (f b) s ts as"

definition transform_name :: "nat \<Rightarrow> string" where
  "transform_name i = ''transform_'' @ show_nat (i + 1)"

definition transform_failed_msg :: "nat \<Rightarrow> string \<Rightarrow> string" where
  "transform_failed_msg i err = ''transformation '' @ show_nat (i + 1) @ '' failed: '' @ err"

text \<open>The loop over the transformers, from the \<open>i\<close>-th on; None when one failed.\<close>

fun apply_transformers :: "nat \<Rightarrow> transformer list \<Rightarrow> gval \<Rightarrow> validation_context \<Rightarrow>
    validation_context \<times> gval option" where
  "apply_transformers i [] v c = (c, Some v)"
| "apply_transformers i (t # ts) v c = (case t v of
       Inl err \<Rightarrow> (AddError (transform_failed_msg i err) v c, None)
     | Inr w \<Rightarrow> apply_transformers (Suc i) ts w (RecordTransformation v w (transform_name i) c))"

definition transform_Validate :: "iface transform_schema \<Rightarrow> validate_fun" where
  "transform_Validate s v c = (case apply_transformers 0 (tf_transformers s) v c of
       (c, None) \<Rightarrow> c
     | (c, Some w) \<Rightarrow> i_validate (tf_inner s) w c)"

definition transform_vat :: "iface transform_schema \<Rightarrow> vat_fun" where
  "transform_vat s v c = (case apply_transformers 0 (tf_transformers s) v c of
       (c, None) \<Rightarrow> (c, v, ctx_Error c)
     | (c, Some w) \<Rightarrow> (let c = i_validate (tf_inner s) w c in (c, w, ctx_Error c)))"

text \<open>The pipeline as a function, and what it reports.\<close>

fun pipeline :: "transformer list \<Rightarrow> gval \<Rightarrow> gval option" where
  "pipeline [] v = Some v"
| "pipeline (t # ts) v = (case t v of Inl _ \<Rightarrow> None | Inr w \<Rightarrow> pipeline ts w)"

fun pipeline_report :: "nat \<Rightarrow> transformer list \<Rightarrow> gval \<Rightarrow> string list \<Rightarrow> vmode \<Rightarrow> report" where
  "pipeline_report i [] v p m = {#}"
| "pipeline_report i (t # ts) v p m = (case t v of
       Inl err \<Rightarrow> err_at (transform_failed_msg i err) v p m
     | Inr w \<Rightarrow> trans_at v w (transform_name i) p m + pipeline_report (Suc i) ts w p m)"

definition transform_report :: "sface transform_schema \<Rightarrow> report_fun" where
  "transform_report s v p m = pipeline_report 0 (tf_transformers s) v p m
     + (case pipeline (tf_transformers s) v of None \<Rightarrow> {#} | Some w \<Rightarrow> r_report (tf_inner s) w p m)"

definition transform_result :: "sface transform_schema \<Rightarrow> result_fun" where
  "transform_result s v p m = (case pipeline (tf_transformers s) v of None \<Rightarrow> None
     | Some w \<Rightarrow> if clean (r_report (tf_inner s) w p m) then Some w else None)"

lemma apply_transformers_pipeline: "snd (apply_transformers i ts v c) = pipeline ts v"
  by (induction i ts v c rule: apply_transformers.induct) (auto split: sum.splits)

lemma clean_pipeline_report: "clean (pipeline_report i ts v p m) \<longleftrightarrow> pipeline ts v \<noteq> None"
  by (induction i ts v p m rule: pipeline_report.induct) (auto split: sum.splits)

lemma steps_apply_transformers:
  "steps (\<lambda>c. fst (apply_transformers i ts v c)) (pipeline_report i ts v)"
proof (induction ts arbitrary: i v)
  case Nil
  then show ?case by (simp add: steps_id pipeline_report.simps [abs_def])
next
  case (Cons t ts)
  show ?case
  proof (cases "t v")
    case (Inl err)
    then show ?thesis by (simp add: pipeline_report.simps [abs_def] steps_AddError)
  next
    case (Inr w)
    with steps_comp [OF steps_RecordTransformation [of v w "transform_name i"]
        Cons.IH [of "Suc i" w]]
    show ?thesis by (simp add: pipeline_report.simps [abs_def])
  qed
qed

lemma steps_transform_Validate:
  assumes "rel_transform_schema implements s r"
  shows "steps (transform_Validate s v) (transform_report r v)"
proof -
  have ts: "tf_transformers s = tf_transformers r" and inner: "implements (tf_inner s) (tf_inner r)"
    using assms by (simp_all add: transform_schema.rel_sel)
  have "transform_Validate s v =
      (\<lambda>c. (\<lambda>c. case pipeline (tf_transformers r) v of None \<Rightarrow> c
         | Some w \<Rightarrow> i_validate (tf_inner s) w c) (fst (apply_transformers 0 (tf_transformers r) v c)))"
    by (rule ext) (use apply_transformers_pipeline [of 0 "tf_transformers r" v] in
        \<open>simp add: transform_Validate_def ts split_beta\<close>)
  moreover have "steps (\<lambda>c. case pipeline (tf_transformers r) v of None \<Rightarrow> c
         | Some w \<Rightarrow> i_validate (tf_inner s) w c)
      (\<lambda>p m. case pipeline (tf_transformers r) v of None \<Rightarrow> {#} | Some w \<Rightarrow> r_report (tf_inner r) w p m)"
    by (intro steps_intros implementsD(4) [OF inner])
  ultimately show ?thesis
    using steps_comp [OF steps_apply_transformers] by (simp add: transform_report_def [abs_def])
qed

text \<open>\<open>ValidateAndTransform\<close> leaves the same context as \<open>Validate\<close>.\<close>

lemma transform_vat_Validate: "fst (transform_vat s v c) = transform_Validate s v c"
  by (simp add: transform_vat_def transform_Validate_def Let_def split: prod.splits option.splits)

lemma vat_ok_transform:
  assumes "rel_transform_schema implements s r"
  shows "vat_ok (transform_vat s v) (transform_result r v)"
  unfolding vat_ok_def
proof (intro allI)
  fix c
  have ts: "tf_transformers s = tf_transformers r"
    using assms by (simp add: transform_schema.rel_sel)
  note S = steps_transform_Validate [OF assms, of v]
  obtain c' w e where run: "transform_vat s v c = (c', w, e)" by (cases "transform_vat s v c")
  with transform_vat_Validate [of s v c] have c': "c' = transform_Validate s v c" by simp
  have e: "e = ctx_Error c'" and w: "pipeline (tf_transformers r) v = Some u \<Longrightarrow> w = u" for u
    using run apply_transformers_pipeline [of 0 "tf_transformers r" v c]
    by (auto simp: transform_vat_def Let_def ts split: prod.splits option.splits)
  show "case transform_vat s v c of (c', w, e) \<Rightarrow>
      extends c c' \<and> e = ctx_Error c' \<and> (c_errors c = [] \<longrightarrow>
        (case transform_result r v (c_path c) (c_mode c) of
           None \<Rightarrow> c_errors c' \<noteq> [] | Some w' \<Rightarrow> c_errors c' = [] \<and> w = w'))"
    using stepsD(1) [OF S, of c] steps_errors_iff [OF S, of c] e w
    by (auto simp: run c' transform_result_def transform_report_def clean_pipeline_report
        split: option.splits)
qed

end
