(* ===== verification/Dependent.thy ===== *)
theory Dependent
  imports Composite
begin

text \<open>
  \<open>builders/dependent.go\<close>: the conditions on the parent object, the dependent schema, and the
  object schema with dependent fields, with what each reports.
\<close>

section \<open>Deep equality\<close>

text \<open>
  \<open>reflect.DeepEqual\<close>: equal dynamic types and equal contents; floats compare as floats, two
  pointers are equal when they are the same or what they point to is. (Maps and slices that share
  their storage are equal to \<open>DeepEqual\<close> without a look inside, which tells only for NaN.)
\<close>

function deep_equal :: "gval \<Rightarrow> gval \<Rightarrow> bool" where
  "deep_equal v w = (case (v, w) of
       (VFloat32 x, VFloat32 y) \<Rightarrow> f_eq x y
     | (VFloat64 x, VFloat64 y) \<Rightarrow> f_eq x y
     | (VMap m, VMap n) \<Rightarrow> list_all2 (\<lambda>kv kw. fst kv = fst kw \<and> deep_equal (snd kv) (snd kw)) m n
     | (VTMap k e m, VTMap k' e' n) \<Rightarrow> k = k' \<and> e = e' \<and>
         list_all2 (\<lambda>kv kw. fst kv = fst kw \<and> deep_equal (snd kv) (snd kw)) m n
     | (VSlice xs, VSlice ys) \<Rightarrow> list_all2 deep_equal xs ys
     | (VTSlice a ty xs, VTSlice a' ty' ys) \<Rightarrow> a = a' \<and> ty = ty' \<and> list_all2 deep_equal xs ys
     | (VStruct ty fs, VStruct ty' gs) \<Rightarrow> ty = ty' \<and>
         list_all2 (\<lambda>kv kw. fst kv = fst kw \<and> deep_equal (snd kv) (snd kw)) fs gs
     | (VPtr ty a (Some x), VPtr ty' b (Some y)) \<Rightarrow> ty = ty' \<and> (a = b \<or> deep_equal x y)
     | _ \<Rightarrow> v = w)"
  by pat_completeness auto
termination
  by (relation "measure (\<lambda>(v, w). size v)")
    (auto simp: less_Suc_eq_le size_list_estimation' dest: size_assoc_value)

declare deep_equal.simps [simp del]

section \<open>Conditions\<close>

type_synonym dependency_condition = "gval gmap \<Rightarrow> bool"

definition WhenEquals :: "string \<Rightarrow> gval \<Rightarrow> dependency_condition" where
  "WhenEquals field v data = (case map_of data field of Some w \<Rightarrow> deep_equal w v | None \<Rightarrow> False)"

definition WhenNotEquals :: "string \<Rightarrow> gval \<Rightarrow> dependency_condition" where
  "WhenNotEquals field v data = (case map_of data field of Some w \<Rightarrow> \<not> deep_equal w v | None \<Rightarrow> True)"

definition WhenExists :: "string \<Rightarrow> dependency_condition" where
  "WhenExists field data = (case map_of data field of Some w \<Rightarrow> w \<noteq> VNil | None \<Rightarrow> False)"

definition WhenNotExists :: "string \<Rightarrow> dependency_condition" where
  "WhenNotExists field data = (case map_of data field of None \<Rightarrow> True | Some w \<Rightarrow> w = VNil)"

definition WhenIn :: "string \<Rightarrow> gval list \<Rightarrow> dependency_condition" where
  "WhenIn field vs data = (case map_of data field of
     Some w \<Rightarrow> list_ex (\<lambda>v. deep_equal w v) vs | None \<Rightarrow> False)"

definition dependentToFloat64 :: "gval \<Rightarrow> f64 option" where
  "dependentToFloat64 v = (case v of
       VFloat64 x \<Rightarrow> Some x | VFloat32 x \<Rightarrow> Some x
     | VInt k i \<Rightarrow> if k \<in> {KInt, KInt64, KInt32, KUint, KUint64, KUint32} then Some (f_of_int i) else None
     | _ \<Rightarrow> None)"

definition WhenGreaterThan :: "string \<Rightarrow> f64 \<Rightarrow> dependency_condition" where
  "WhenGreaterThan field threshold data = (case map_of data field of
     Some w \<Rightarrow> (case dependentToFloat64 w of Some num \<Rightarrow> threshold < num | None \<Rightarrow> False)
   | None \<Rightarrow> False)"

definition WhenLessThan :: "string \<Rightarrow> f64 \<Rightarrow> dependency_condition" where
  "WhenLessThan field threshold data = (case map_of data field of
     Some w \<Rightarrow> (case dependentToFloat64 w of Some num \<Rightarrow> num < threshold | None \<Rightarrow> False)
   | None \<Rightarrow> False)"

definition WhenTrue :: "string \<Rightarrow> dependency_condition" where
  "WhenTrue field data = (case map_of data field of Some (VBool b) \<Rightarrow> b | _ \<Rightarrow> False)"

definition WhenFalse :: "string \<Rightarrow> dependency_condition" where
  "WhenFalse field data = (case map_of data field of Some (VBool b) \<Rightarrow> \<not> b | _ \<Rightarrow> False)"

fun WhenAll :: "dependency_condition list \<Rightarrow> dependency_condition" where
  "WhenAll [] data = True"
| "WhenAll (f # fs) data = (if \<not> f data then False else WhenAll fs data)"

fun WhenAny :: "dependency_condition list \<Rightarrow> dependency_condition" where
  "WhenAny [] data = False"
| "WhenAny (f # fs) data = (if f data then True else WhenAny fs data)"

lemma When_dual:
  "WhenNotEquals field v data \<longleftrightarrow> \<not> WhenEquals field v data"
  "WhenNotExists field data \<longleftrightarrow> \<not> WhenExists field data"
  by (auto simp: WhenNotEquals_def WhenEquals_def WhenNotExists_def WhenExists_def split: option.splits)

lemma WhenAll_iff: "WhenAll fs data \<longleftrightarrow> (\<forall>f \<in> set fs. f data)"
  by (induction fs) auto

lemma WhenAny_iff: "WhenAny fs data \<longleftrightarrow> (\<exists>f \<in> set fs. f data)"
  by (induction fs) auto

section \<open>The dependent schema\<close>

datatype 's dependent_schema = DependentSchema
  (dp_base: base_schema)
  (dp_fieldName: string)
  (dp_dependsOn: "string list")
  (dp_conditionFunc: "dependency_condition option")
  (dp_schema: "'s option")
  (dp_elseSchema: "'s option")
  (dp_validators: "validator_func list")

definition Dependent_new :: "string \<Rightarrow> 's dependent_schema" where
  "Dependent_new name = DependentSchema (new_base TypeDependent) name [] None None None []"

fun Dependent_On :: "string list \<Rightarrow> 's dependent_schema \<Rightarrow> 's dependent_schema" where
  "Dependent_On fs (DependentSchema b n on cf th el vs) = DependentSchema b n (on @ fs) cf th el vs"

fun Dependent_When :: "dependency_condition \<Rightarrow> 's dependent_schema \<Rightarrow> 's dependent_schema" where
  "Dependent_When g (DependentSchema b n on cf th el vs) = DependentSchema b n on (Some g) th el vs"

fun Dependent_Then :: "'s \<Rightarrow> 's dependent_schema \<Rightarrow> 's dependent_schema" where
  "Dependent_Then s (DependentSchema b n on cf th el vs) = DependentSchema b n on cf (Some s) el vs"

fun Dependent_Else :: "'s \<Rightarrow> 's dependent_schema \<Rightarrow> 's dependent_schema" where
  "Dependent_Else s (DependentSchema b n on cf th el vs) = DependentSchema b n on cf th (Some s) vs"

fun dp_map_base :: "(base_schema \<Rightarrow> base_schema) \<Rightarrow> 's dependent_schema \<Rightarrow> 's dependent_schema" where
  "dp_map_base f (DependentSchema b n on cf th el vs) = DependentSchema (f b) n on cf th el vs"

definition Dependent_Required :: "'s dependent_schema \<Rightarrow> 's dependent_schema" where
  "Dependent_Required s = dp_map_base (SetRequired True) s"

definition Dependent_Optional :: "'s dependent_schema \<Rightarrow> 's dependent_schema" where
  "Dependent_Optional s = dp_map_base (SetRequired False) s"

fun Dependent_Custom :: "validator_func \<Rightarrow> 's dependent_schema \<Rightarrow> 's dependent_schema" where
  "Dependent_Custom f (DependentSchema b n on cf th el vs) = DependentSchema b n on cf th el (vs @ [f])"

text \<open>\<open>RequiredWhen\<close> and \<open>RequiredUnless\<close>; \<open>setReq\<close> is \<open>markAsRequired\<close>.\<close>

definition RequiredWhen :: "('s \<Rightarrow> 's) \<Rightarrow> dependency_condition \<Rightarrow> 's \<Rightarrow> 's dependent_schema" where
  "RequiredWhen setReq g s = Dependent_Then (setReq s) (Dependent_When g (Dependent_new []))"

definition RequiredUnless :: "('s \<Rightarrow> 's) \<Rightarrow> dependency_condition \<Rightarrow> 's \<Rightarrow> 's dependent_schema" where
  "RequiredUnless setReq g s =
     Dependent_Then (setReq s) (Dependent_When (\<lambda>data. \<not> g data) (Dependent_new []))"

definition dependent_Validate :: "iface dependent_schema \<Rightarrow> validate_fun" where
  "dependent_Validate s v c = (case dp_schema s of None \<Rightarrow> c | Some f \<Rightarrow> i_validate f v c)"

definition condition_met :: "'s dependent_schema \<Rightarrow> gval gmap \<Rightarrow> bool" where
  "condition_met s parent = (case dp_conditionFunc s of None \<Rightarrow> False | Some g \<Rightarrow> g parent)"

definition ValidateWithParent :: "iface dependent_schema \<Rightarrow> gval \<Rightarrow> gval gmap \<Rightarrow>
    validation_context \<Rightarrow> validation_context" where
  "ValidateWithParent s v parent c =
     (case (if condition_met s parent then dp_schema s else dp_elseSchema s) of
        Some f \<Rightarrow> i_validate f v c
      | None \<Rightarrow> run_validators (dp_validators s) v v c)"

definition dependent_report :: "sface dependent_schema \<Rightarrow> report_fun" where
  "dependent_report s v p m = (case dp_schema s of None \<Rightarrow> {#} | Some f \<Rightarrow> r_report f v p m)"

definition with_parent_report :: "sface dependent_schema \<Rightarrow> gval \<Rightarrow> gval gmap \<Rightarrow>
    string list \<Rightarrow> vmode \<Rightarrow> report" where
  "with_parent_report s v parent p m =
     (case (if condition_met s parent then dp_schema s else dp_elseSchema s) of
        Some f \<Rightarrow> r_report f v p m
      | None \<Rightarrow> validators_report (dp_validators s) v v p m)"

section \<open>Objects with dependent fields\<close>

datatype 's dep_object_schema = DepObjectSchema
  (do_object: "'s object_schema")
  (do_dependentFields: "(string \<times> 's dependent_schema) list")

definition WithDependencies :: "'s object_schema \<Rightarrow> 's dep_object_schema" where
  "WithDependencies s = DepObjectSchema s []"

fun do_map_object :: "('s object_schema \<Rightarrow> 's object_schema) \<Rightarrow> 's dep_object_schema \<Rightarrow>
    's dep_object_schema" where
  "do_map_object f (DepObjectSchema ob ds) = DepObjectSchema (f ob) ds"

text \<open>
  The two writes of \<open>DependentField\<close>: \<open>s.fields[name]\<close> is assigned directly, so that
  \<open>requiredFields\<close> stays as it is; \<open>as_schema\<close> makes the dependent schema a schema.
\<close>

fun ob_set_field :: "string \<Rightarrow> 's \<Rightarrow> 's object_schema \<Rightarrow> 's object_schema" where
  "ob_set_field name f (ObjectSchema b fs rs al vs as) = ObjectSchema b (map_put name f fs) rs al vs as"

fun do_DependentField :: "('s dependent_schema \<Rightarrow> 's) \<Rightarrow> string \<Rightarrow> 's dependent_schema \<Rightarrow>
    's dep_object_schema \<Rightarrow> 's dep_object_schema" where
  "do_DependentField as_schema name d (DepObjectSchema ob ds) =
     DepObjectSchema (ob_set_field name (as_schema d) ob) (map_put name d ds)"

definition dependent_field :: "iface dep_object_schema \<Rightarrow> gval gmap \<Rightarrow> string \<Rightarrow>
    validation_context \<Rightarrow> validation_context" where
  "dependent_field s objMap name = WithPath name (\<lambda>c.
     case map_of (do_dependentFields s) name of None \<Rightarrow> c
     | Some d \<Rightarrow>
         (case map_of objMap name of
            None \<Rightarrow>
              if condition_met d objMap
              then if bs_required (dp_base d) \<or> (\<exists>f. dp_schema d = Some f \<and> i_required f)
                   then AddError ''field is required'' VNil c else c
              else c
          | Some fv \<Rightarrow> ValidateWithParent d fv objMap c))"

definition dep_object_Validate :: "env \<Rightarrow> iface dep_object_schema \<Rightarrow> validate_fun" where
  "dep_object_Validate E s v c = (case convertToMap v of
       None \<Rightarrow> AddError (''cannot convert '' @ type_name v @ '' to map'') v c
     | Some objMap \<Rightarrow>
        (let c = object_Validate E (do_object s) v c in
         fold (dependent_field s objMap) (range_keys E c (do_dependentFields s)) c))"

definition dependent_field_report :: "sface dep_object_schema \<Rightarrow> gval gmap \<Rightarrow> string \<Rightarrow>
    string list \<Rightarrow> vmode \<Rightarrow> report" where
  "dependent_field_report s objMap name p m = (case map_of (do_dependentFields s) name of None \<Rightarrow> {#}
     | Some d \<Rightarrow>
         (case map_of objMap name of
            None \<Rightarrow>
              if condition_met d objMap
              then if bs_required (dp_base d) \<or> (\<exists>f. dp_schema d = Some f \<and> r_required f)
                   then err_at ''field is required'' VNil (p @ [name]) m else {#}
              else {#}
          | Some fv \<Rightarrow> with_parent_report d fv objMap (p @ [name]) m))"

definition dep_object_report :: "go_lib \<Rightarrow> sface dep_object_schema \<Rightarrow> report_fun" where
  "dep_object_report L s v p m = (case convertToMap v of
       None \<Rightarrow> err_at (''cannot convert '' @ type_name v @ '' to map'') v p m
     | Some objMap \<Rightarrow> object_report L (do_object s) v p m
         + (\<Sum>name\<leftarrow>map_keys (do_dependentFields s). dependent_field_report s objMap name p m))"

section \<open>They meet their specifications\<close>

lemma rel_option_cases:
  assumes "rel_option P x y"
  obtains "x = None" "y = None" | a b where "x = Some a" "y = Some b" "P a b"
  using assms by (cases x; cases y) auto

lemma steps_rel_option:
  assumes "rel_option implements x y" and "steps f R"
  shows "steps (\<lambda>c. case x of Some i \<Rightarrow> i_validate i v c | None \<Rightarrow> f c)
    (\<lambda>p m. case y of Some r \<Rightarrow> r_report r v p m | None \<Rightarrow> R p m)"
  using assms(1) by (rule rel_option_cases) (simp_all add: assms(2) implementsD(4))

lemma rel_dependent:
  assumes "rel_dependent_schema P s r"
  shows "rel_option P (dp_schema s) (dp_schema r)" "rel_option P (dp_elseSchema s) (dp_elseSchema r)"
    and "dp_base s = dp_base r" "dp_validators s = dp_validators r"
    and "condition_met s = condition_met r"
  using assms by (simp_all add: dependent_schema.rel_sel condition_met_def fun_eq_iff)

lemma steps_dependent_Validate:
  "rel_dependent_schema implements s r \<Longrightarrow> steps (dependent_Validate s v) (dependent_report r v)"
  unfolding dependent_Validate_def [abs_def] dependent_report_def [abs_def]
  using steps_rel_option [OF rel_dependent(1) steps_id] by blast

lemma steps_ValidateWithParent:
  assumes "rel_dependent_schema implements s r"
  shows "steps (ValidateWithParent s v parent) (with_parent_report r v parent)"
  unfolding ValidateWithParent_def [abs_def] with_parent_report_def [abs_def] rel_dependent(4,5) [OF assms]
  by (rule steps_rel_option) (simp_all add: rel_dependent(1,2) [OF assms] steps_run_validators)

lemma steps_dependent_field:
  assumes "rel_dep_object_schema implements s r"
  shows "steps (dependent_field s objMap name) (dependent_field_report r objMap name)"
proof -
  have fs: "list_all2 (rel_prod (=) (rel_dependent_schema implements))
      (do_dependentFields s) (do_dependentFields r)"
    using assms by (simp add: dep_object_schema.rel_sel)
  have "rel_option (rel_dependent_schema implements) (map_of (do_dependentFields s) name)
      (map_of (do_dependentFields r) name)"
    using fs by induction (auto simp: rel_prod_sel split: prod.splits)
  then show ?thesis
  proof (rule rel_option_cases)
    assume "map_of (do_dependentFields s) name = None" "map_of (do_dependentFields r) name = None"
    then show ?thesis
      using steps_WithPath [OF steps_id, of name]
      by (simp add: dependent_field_def dependent_field_report_def [abs_def])
  next
    fix d e
    assume d: "map_of (do_dependentFields s) name = Some d"
      and e: "map_of (do_dependentFields r) name = Some e" and de: "rel_dependent_schema implements d e"
    note rel = rel_dependent [OF de]
    have req: "(\<exists>f. dp_schema d = Some f \<and> i_required f) \<longleftrightarrow> (\<exists>f. dp_schema e = Some f \<and> r_required f)"
      using rel(1) by (rule rel_option_cases) (simp_all add: implementsD(2))
    have "steps (\<lambda>c. case map_of objMap name of
            None \<Rightarrow> if condition_met d objMap
              then if bs_required (dp_base d) \<or> (\<exists>f. dp_schema d = Some f \<and> i_required f)
                   then AddError ''field is required'' VNil c else c
              else c
          | Some fv \<Rightarrow> ValidateWithParent d fv objMap c)
        (\<lambda>p m. case map_of objMap name of
            None \<Rightarrow> if condition_met e objMap
              then if bs_required (dp_base e) \<or> (\<exists>f. dp_schema e = Some f \<and> r_required f)
                   then err_at ''field is required'' VNil p m else {#}
              else {#}
          | Some fv \<Rightarrow> with_parent_report e fv objMap p m)"
      unfolding req rel(3,5) by (intro steps_intros steps_ValidateWithParent [OF de])
    from steps_WithPath [OF this, of name] show ?thesis
      by (simp add: dependent_field_def dependent_field_report_def [abs_def] d e)
  qed
qed

lemma rel_dep_object:
  assumes "rel_dep_object_schema P s r"
  shows "rel_object_schema P (do_object s) (do_object r)"
    and "map_keys (do_dependentFields s) = map_keys (do_dependentFields r)"
proof -
  have fs: "list_all2 (rel_prod (=) (rel_dependent_schema P)) (do_dependentFields s) (do_dependentFields r)"
    and "rel_object_schema P (do_object s) (do_object r)"
    using assms by (simp_all add: dep_object_schema.rel_sel)
  then show "rel_object_schema P (do_object s) (do_object r)" by simp
  show "map_keys (do_dependentFields s) = map_keys (do_dependentFields r)"
    using fs by induction (auto simp: rel_prod_sel)
qed

lemma steps_dep_object_Validate:
  assumes "rel_dep_object_schema implements s r"
  shows "steps (dep_object_Validate E s v) (dep_object_report (e_lib E) r v)"
proof (cases "convertToMap v")
  case None
  then show ?thesis
    by (simp add: dep_object_Validate_def [abs_def] dep_object_report_def [abs_def] steps_AddError)
next
  case (Some objMap)
  have "steps (\<lambda>c. fold (dependent_field s objMap) (range_keys E c (do_dependentFields s)) c)
      (\<lambda>p m. \<Sum>name\<leftarrow>map_keys (do_dependentFields s). dependent_field_report r objMap name p m)"
    by (rule steps_range) (rule steps_dependent_field [OF assms])
  from steps_comp [OF steps_object_Validate [OF rel_dep_object(1) [OF assms]] this]
  show ?thesis
    by (simp add: dep_object_Validate_def [abs_def] dep_object_report_def [abs_def] Some Let_def
        rel_dep_object(2) [OF assms])
qed

end
