(* ===== verification/Compile.thy ===== *)
theory Compile
  imports Dependent
begin

text \<open>
  \<open>compile.go\<close>: the compiler from a schema to a flat list of checks, and the compiled schema.
  A check, a closure in the code, is a value here (\<open>check\<close>), run by \<open>run_check\<close>; the delegating
  check calls the inner schema. \<open>compile_string\<close>, \<open>compile_number\<close> and \<open>compile_bool\<close> are the
  three compilers that the schemas of the library reach: object and array schemas implement
  \<open>ValidateAndTransform\<close>, for which the compiler delegates.
\<close>

section \<open>Checks\<close>

datatype check =
    CkStringType
  | CkMinLength int
  | CkMaxLength int
  | CkPattern "string \<Rightarrow> bool" string string     \<comment> \<open>match function, format type, pattern\<close>
  | CkEnum "string list"
  | CkStringValidator validator_func
  | CkType schema_type
  | CkInteger
  | CkMin f64
  | CkMax f64
  | CkMultipleOf f64
  | CkValidator validator_func
  | CkDelegate

definition toString :: "go_lib \<Rightarrow> gval \<Rightarrow> vmode \<Rightarrow> string" where
  "toString L v m = (case as_string v of
       Some s \<Rightarrow> s
     | None \<Rightarrow> if m = Loose then (case ConvertToString L v of Some s \<Rightarrow> s | None \<Rightarrow> []) else [])"

definition compiled_toFloat :: "gval \<Rightarrow> f64" where
  "compiled_toFloat v = (case v of
       VFloat64 x \<Rightarrow> x | VFloat32 x \<Rightarrow> x
     | VInt k i \<Rightarrow> if k = KInt \<or> k = KInt64 then f_of_int i else FFin 0
     | _ \<Rightarrow> FFin 0)"

text \<open>\<open>f != float64(int64(f))\<close>.\<close>

definition not_int64 :: "f64 \<Rightarrow> bool" where
  "not_int64 x = (\<not> f_eq x (f_of_int (f_to_int64 x)))"

text \<open>The error a check adds to a value, if any: message and value.\<close>

fun check_error :: "go_lib \<Rightarrow> check \<Rightarrow> gval \<Rightarrow> vmode \<Rightarrow> (string \<times> gval) option" where
  "check_error L CkStringType v m =
     (if m = Loose then
        (if ConvertToString L v = None
         then Some (''cannot convert '' @ type_name v @ '' to string'', v) else None)
      else (if as_string v = None then Some (expected_msg ''string'' v, v) else None))"
| "check_error L (CkMinLength n) v m = (let str = toString L v m in
     if (str \<noteq> [] \<or> v \<noteq> VNil) \<and> int (length str) < n then Some (min_length_msg n str, VStr str) else None)"
| "check_error L (CkMaxLength n) v m = (let str = toString L v m in
     if n < int (length str) then Some (max_length_msg n str, VStr str) else None)"
| "check_error L (CkPattern re fmt pat) v m = (let str = toString L v m in
     if \<not> re str then Some (pattern_msg fmt pat, VStr str) else None)"
| "check_error L (CkEnum vals) v m = (let str = toString L v m in
     if str \<notin> set vals then Some (enum_msg vals, VStr str) else None)"
| "check_error L (CkStringValidator f) v m = (let str = toString L v m in
     map_option (\<lambda>msg. (msg, VStr str)) (f (VStr str)))"
| "check_error L (CkType t) v m =
     (if v = VNil \<or> type_ok L t v m then None else Some (type_msg t v, v))"
| "check_error L CkInteger v m =
     (if not_int64 (compiled_toFloat v) then Some (''must be an integer'', v) else None)"
| "check_error L (CkMin lo) v m =
     (if compiled_toFloat v < lo then Some (''must be at least '' @ fmt_float double_fmt lo, v) else None)"
| "check_error L (CkMax hi) v m =
     (if hi < compiled_toFloat v then Some (''must be at most '' @ fmt_float double_fmt hi, v) else None)"
| "check_error L (CkMultipleOf mul) v m =
     (if not_int64 (f_div (compiled_toFloat v) mul)
      then Some (''must be a multiple of '' @ fmt_float double_fmt mul, v) else None)"
| "check_error L (CkValidator f) v m = map_option (\<lambda>msg. (msg, v)) (f v)"
| "check_error L CkDelegate v m = None"

text \<open>A check other than the delegating one adds at most one error.\<close>

definition run_check :: "go_lib \<Rightarrow> iface \<Rightarrow> check \<Rightarrow> gval \<Rightarrow> validation_context \<Rightarrow> validation_context" where
  "run_check L inner k v c = (case k of CkDelegate \<Rightarrow> i_validate inner v c
     | _ \<Rightarrow> (case check_error L k v (c_mode c) of
           None \<Rightarrow> c | Some (msg, shown) \<Rightarrow> AddError msg shown c))"

definition check_report :: "go_lib \<Rightarrow> sface \<Rightarrow> check \<Rightarrow> report_fun" where
  "check_report L inner k v p m = (case k of CkDelegate \<Rightarrow> r_report inner v p m
     | _ \<Rightarrow> (case check_error L k v m of None \<Rightarrow> {#} | Some (msg, shown) \<Rightarrow> err_at msg shown p m))"

section \<open>The compilers\<close>

definition compile_string :: "string_schema \<Rightarrow> check list" where
  "compile_string s = [CkStringType]
     @ (case ss_minLength s of None \<Rightarrow> [] | Some n \<Rightarrow> [CkMinLength n])
     @ (case ss_maxLength s of None \<Rightarrow> [] | Some n \<Rightarrow> [CkMaxLength n])
     @ (if ss_patternStr s \<noteq> []
        then [CkPattern (String_PatternMatch s) (ss_formatType s) (ss_patternStr s)] else [])
     @ (if 0 < length (ss_enum s) then [CkEnum (ss_enum s)] else [])
     @ map CkStringValidator (ss_validators s)"

definition compile_number :: "number_schema \<Rightarrow> check list" where
  "compile_number s = [CkType TypeNumber]
     @ (if ns_isInteger s then [CkInteger] else [])
     @ (case ns_min s of None \<Rightarrow> [] | Some lo \<Rightarrow> [CkMin lo])
     @ (case ns_max s of None \<Rightarrow> [] | Some hi \<Rightarrow> [CkMax hi])
     @ (case ns_multipleOf s of None \<Rightarrow> [] | Some mul \<Rightarrow> [CkMultipleOf mul])
     @ map CkValidator (ns_validators s)"

definition compile_bool :: "bool_schema \<Rightarrow> check list" where
  "compile_bool s = [CkType TypeBool] @ map CkValidator (bo_validators s)"

section \<open>The compiled schema\<close>

datatype 's compiled_schema = CompiledSchema
  (cs_base: base_schema)
  (cs_inner: 's)
  (cs_schemaType: schema_type)
  (cs_checks: "check list")

text \<open>
  \<open>extractBase\<close>: the two flags of the schema. The type stored in the base, which the code
  leaves empty and never reads, is the schema's type here.
\<close>

definition extractBase :: "schema_type \<Rightarrow> bool \<Rightarrow> bool \<Rightarrow> base_schema" where
  "extractBase t req nul = SetNullable nul (SetRequired req (new_base t))"

definition compiled_Validate :: "go_lib \<Rightarrow> iface compiled_schema \<Rightarrow> validate_fun" where
  "compiled_Validate L s = guarded (cs_base s)
     (\<lambda>v c. fold (\<lambda>k. run_check L (cs_inner s) k v) (cs_checks s) c)"

definition compiled_vat :: "go_lib \<Rightarrow> iface compiled_schema \<Rightarrow> vat_fun" where
  "compiled_vat L s v c = (case i_vat (cs_inner s) of
       Some g \<Rightarrow> g v c
     | None \<Rightarrow> (let c = compiled_Validate L s v c in
         if HasErrors c then (c, VNil, ctx_Error c) else (c, v, None)))"

definition compiled_report :: "go_lib \<Rightarrow> sface compiled_schema \<Rightarrow> report_fun" where
  "compiled_report L s = guarded_report (cs_base s)
     (\<lambda>v p m. \<Sum>k\<leftarrow>cs_checks s. check_report L (cs_inner s) k v p m)"

definition compiled_result :: "go_lib \<Rightarrow> sface compiled_schema \<Rightarrow> result_fun" where
  "compiled_result L s v p m = (case r_result (cs_inner s) of
       Some D \<Rightarrow> D v p m
     | None \<Rightarrow> if clean (compiled_report L s v p m) then Some v else None)"

section \<open>It meets its specification\<close>

lemma steps_error_at:
  "steps (\<lambda>c. case e of None \<Rightarrow> c | Some (msg, shown) \<Rightarrow> AddError msg shown c)
    (\<lambda>p m. case e of None \<Rightarrow> {#} | Some (msg, shown) \<Rightarrow> err_at msg shown p m)"
  by (cases e) (auto simp: steps_id steps_AddError)

lemma steps_error_option:
  "steps (\<lambda>c. case check_error L k v (c_mode c) of None \<Rightarrow> c | Some (msg, shown) \<Rightarrow> AddError msg shown c)
    (\<lambda>p m. case check_error L k v m of None \<Rightarrow> {#} | Some (msg, shown) \<Rightarrow> err_at msg shown p m)"
  by (rule steps_mode [where f = "\<lambda>m c. case check_error L k v m of None \<Rightarrow> c
          | Some (msg, shown) \<Rightarrow> AddError msg shown c"
        and R = "\<lambda>m p md. case check_error L k v m of None \<Rightarrow> {#}
          | Some (msg, shown) \<Rightarrow> err_at msg shown p md"])
    (rule steps_error_at)

lemma steps_run_check:
  assumes "implements i r"
  shows "steps (run_check L i k v) (check_report L r k v)"
  using steps_error_option [of L k v] implementsD(4) [OF assms, of v]
  by (cases k) (simp_all add: run_check_def [abs_def] check_report_def [abs_def])

lemma steps_compiled_Validate:
  assumes "rel_compiled_schema implements s r"
  shows "steps (compiled_Validate L s v) (compiled_report L r v)"
proof -
  have base: "cs_base s = cs_base r" and checks: "cs_checks s = cs_checks r"
    and inner: "implements (cs_inner s) (cs_inner r)"
    using assms by (simp_all add: compiled_schema.rel_sel)
  show ?thesis
    unfolding compiled_Validate_def compiled_report_def base checks
    by (intro steps_intros steps_run_check [OF inner])
qed

lemma vat_ok_compiled:
  assumes "rel_compiled_schema implements s r"
  shows "vat_ok (compiled_vat L s v) (compiled_result L r v)"
proof -
  have inner: "implements (cs_inner s) (cs_inner r)"
    using assms by (simp_all add: compiled_schema.rel_sel)
  show ?thesis
  proof (cases "i_vat (cs_inner s)")
    case (Some g)
    with implementsD(5) [OF inner] obtain D where "r_result (cs_inner r) = Some D" by auto
    with Some implementsD(6) [OF inner, of g D v] show ?thesis
      by (simp add: compiled_vat_def [abs_def] compiled_result_def [abs_def])
  next
    case None
    with implementsD(5) [OF inner] have none: "r_result (cs_inner r) = None" by simp
    note S = steps_compiled_Validate [OF assms, of L v]
    show ?thesis
      unfolding vat_ok_def
    proof (intro allI)
      fix c
      show "case compiled_vat L s v c of (c', w, e) \<Rightarrow>
          extends c c' \<and> e = ctx_Error c' \<and> (c_errors c = [] \<longrightarrow>
            (case compiled_result L r v (c_path c) (c_mode c) of
               None \<Rightarrow> c_errors c' \<noteq> [] | Some w' \<Rightarrow> c_errors c' = [] \<and> w = w'))"
        using stepsD(1) [OF S, of c] steps_errors_iff [OF S, of c]
        by (auto simp: compiled_vat_def compiled_result_def None none Let_def HasErrors_def ctx_Error_def)
    qed
  qed
qed

end
