(* ===== verification/SchemaTree.thy ===== *)
theory SchemaTree
  imports Compile
begin

text \<open>
  The schemas of the library as one datatype, a constructor for each concrete schema type, and
  the dynamic dispatch: \<open>iface_of\<close> gives the interface value a schema is, \<open>sface_of\<close> its
  specification. The main lemma, by induction on the schema, is that every schema implements its
  specification; \<open>validate\<close> is then interpreted in \<open>schema_contract\<close>.
\<close>

datatype schema =
    StringS string_schema
  | NumberS number_schema
  | BoolS bool_schema
  | CustomS custom_schema
  | DateTimeS datetime_schema
  | ObjectS "schema object_schema"
  | DepObjectS "schema dep_object_schema"
  | ArrayS "schema array_schema"
  | AndS "schema and_schema"
  | OrS "schema or_schema"
  | NotS "schema not_schema"
  | TransformS "schema transform_schema"
  | DependentS "schema dependent_schema"
  | CompiledS "schema compiled_schema"

section \<open>Dispatch\<close>

definition base_iface :: "schema_type \<Rightarrow> base_schema \<Rightarrow> validate_fun \<Rightarrow> vat_fun option \<Rightarrow> iface" where
  "base_iface t b V g = \<lparr>i_type = t, i_required = bs_required b, i_nullable = bs_nullable b,
     i_validate = V, i_vat = g\<rparr>"

definition base_sface :: "schema_type \<Rightarrow> base_schema \<Rightarrow> report_fun \<Rightarrow> result_fun option \<Rightarrow> sface" where
  "base_sface t b R D = \<lparr>r_type = t, r_required = bs_required b, r_nullable = bs_nullable b,
     r_report = R, r_result = D\<rparr>"

text \<open>A transform is of its inner schema's type and required when either is.\<close>

definition transform_iface :: "iface transform_schema \<Rightarrow> iface" where
  "transform_iface s = \<lparr>i_type = i_type (tf_inner s),
     i_required = bs_required (tf_base s) \<or> i_required (tf_inner s),
     i_nullable = bs_nullable (tf_base s),
     i_validate = transform_Validate s, i_vat = Some (transform_vat s)\<rparr>"

definition transform_sface :: "sface transform_schema \<Rightarrow> sface" where
  "transform_sface s = \<lparr>r_type = r_type (tf_inner s),
     r_required = bs_required (tf_base s) \<or> r_required (tf_inner s),
     r_nullable = bs_nullable (tf_base s),
     r_report = transform_report s, r_result = Some (transform_result s)\<rparr>"

definition object_iface :: "env \<Rightarrow> iface object_schema \<Rightarrow> iface" where
  "object_iface E s = base_iface TypeObject (ob_base s) (object_Validate E s) (Some (object_vat E s))"

definition object_sface :: "go_lib \<Rightarrow> sface object_schema \<Rightarrow> sface" where
  "object_sface L s = base_sface TypeObject (ob_base s) (object_report L s) (Some (object_result L s))"

text \<open>The methods that \<open>ObjectSchemaWithDependencies\<close> does not override are the object's.\<close>

definition dep_object_iface :: "env \<Rightarrow> iface dep_object_schema \<Rightarrow> iface" where
  "dep_object_iface E s = (object_iface E (do_object s))\<lparr>i_validate := dep_object_Validate E s\<rparr>"

definition dep_object_sface :: "go_lib \<Rightarrow> sface dep_object_schema \<Rightarrow> sface" where
  "dep_object_sface L s = (object_sface L (do_object s))\<lparr>r_report := dep_object_report L s\<rparr>"

primrec iface_of :: "env \<Rightarrow> schema \<Rightarrow> iface" where
  "iface_of E (StringS s) = base_iface TypeString (ss_base s) (string_Validate (e_lib E) s) None"
| "iface_of E (NumberS s) = base_iface TypeNumber (ns_base s) (number_Validate s) None"
| "iface_of E (BoolS s) = base_iface TypeBool (bo_base s) (bool_Validate (e_lib E) s) None"
| "iface_of E (CustomS s) = base_iface TypeCustom (cu_base s) (custom_Validate s) None"
| "iface_of E (DateTimeS s) = base_iface TypeDateTime (dt_base s) (datetime_Validate (e_lib E) s) None"
| "iface_of E (ObjectS s) = object_iface E (map_object_schema (iface_of E) s)"
| "iface_of E (DepObjectS s) = dep_object_iface E (map_dep_object_schema (iface_of E) s)"
| "iface_of E (ArrayS s) = (let s = map_array_schema (iface_of E) s in
     base_iface TypeArray (ar_base s) (array_Validate E s) (Some (array_vat E s)))"
| "iface_of E (AndS s) = (let s = map_and_schema (iface_of E) s in
     base_iface TypeComposite (an_base s) (and_Validate s) None)"
| "iface_of E (OrS s) = (let s = map_or_schema (iface_of E) s in
     base_iface TypeComposite (or_base s) (or_Validate s) None)"
| "iface_of E (NotS s) = (let s = map_not_schema (iface_of E) s in
     base_iface TypeComposite (no_base s) (not_Validate s) None)"
| "iface_of E (TransformS s) = transform_iface (map_transform_schema (iface_of E) s)"
| "iface_of E (DependentS s) = (let s = map_dependent_schema (iface_of E) s in
     base_iface TypeDependent (dp_base s) (dependent_Validate s) None)"
| "iface_of E (CompiledS s) = (let s = map_compiled_schema (iface_of E) s in
     base_iface (cs_schemaType s) (cs_base s) (compiled_Validate (e_lib E) s)
       (Some (compiled_vat (e_lib E) s)))"

primrec sface_of :: "go_lib \<Rightarrow> schema \<Rightarrow> sface" where
  "sface_of L (StringS s) = base_sface TypeString (ss_base s) (string_report L s) None"
| "sface_of L (NumberS s) = base_sface TypeNumber (ns_base s) (number_report s) None"
| "sface_of L (BoolS s) = base_sface TypeBool (bo_base s) (bool_report L s) None"
| "sface_of L (CustomS s) = base_sface TypeCustom (cu_base s) (custom_report s) None"
| "sface_of L (DateTimeS s) = base_sface TypeDateTime (dt_base s) (datetime_report L s) None"
| "sface_of L (ObjectS s) = object_sface L (map_object_schema (sface_of L) s)"
| "sface_of L (DepObjectS s) = dep_object_sface L (map_dep_object_schema (sface_of L) s)"
| "sface_of L (ArrayS s) = (let s = map_array_schema (sface_of L) s in
     base_sface TypeArray (ar_base s) (array_report L s) (Some (array_result L s)))"
| "sface_of L (AndS s) = (let s = map_and_schema (sface_of L) s in
     base_sface TypeComposite (an_base s) (and_report s) None)"
| "sface_of L (OrS s) = (let s = map_or_schema (sface_of L) s in
     base_sface TypeComposite (or_base s) (or_report s) None)"
| "sface_of L (NotS s) = (let s = map_not_schema (sface_of L) s in
     base_sface TypeComposite (no_base s) (not_report s) None)"
| "sface_of L (TransformS s) = transform_sface (map_transform_schema (sface_of L) s)"
| "sface_of L (DependentS s) = (let s = map_dependent_schema (sface_of L) s in
     base_sface TypeDependent (dp_base s) (dependent_report s) None)"
| "sface_of L (CompiledS s) = (let s = map_compiled_schema (sface_of L) s in
     base_sface (cs_schemaType s) (cs_base s) (compiled_report L s) (Some (compiled_result L s)))"

section \<open>Every schema implements its specification\<close>

lemma implements_plain:
  "(\<And>v. steps (V v) (R v)) \<Longrightarrow> implements (base_iface t b V None) (base_sface t b R None)"
  by (rule implementsI) (simp_all add: base_iface_def base_sface_def)

lemma implements_vat:
  "(\<And>v. steps (V v) (R v)) \<Longrightarrow> (\<And>v. vat_ok (g v) (D v)) \<Longrightarrow>
   implements (base_iface t b V (Some g)) (base_sface t b R (Some D))"
  by (rule implementsI) (simp_all add: base_iface_def base_sface_def)

lemma implements_object:
  "rel_object_schema implements s r \<Longrightarrow> implements (object_iface E s) (object_sface (e_lib E) r)"
  unfolding object_iface_def object_sface_def rel_fields(3)
  by (intro implements_vat steps_object_Validate vat_ok_object)

lemma implements_dep_object:
  assumes "rel_dep_object_schema implements s r"
  shows "implements (dep_object_iface E s) (dep_object_sface (e_lib E) r)"
  using implementsD [OF implements_object [OF rel_dep_object(1) [OF assms], of E]]
    steps_dep_object_Validate [OF assms]
  by (intro implementsI) (auto simp: dep_object_iface_def dep_object_sface_def)

lemma implements_transform:
  assumes "rel_transform_schema implements s r"
  shows "implements (transform_iface s) (transform_sface r)"
proof -
  have "implements (tf_inner s) (tf_inner r)" and "tf_base s = tf_base r"
    using assms by (simp_all add: transform_schema.rel_sel)
  then show ?thesis
    using steps_transform_Validate [OF assms] vat_ok_transform [OF assms]
    by (intro implementsI) (auto simp: transform_iface_def transform_sface_def dest: implementsD(1,2))
qed

lemma schema_implements: "implements (iface_of E s) (sface_of (e_lib E) s)"
proof (induction s)
  case (StringS s)
  then show ?case by (auto intro: implements_plain steps_string_Validate)
next
  case (NumberS s)
  then show ?case by (auto intro: implements_plain steps_number_Validate)
next
  case (BoolS s)
  then show ?case by (auto intro: implements_plain steps_bool_Validate)
next
  case (CustomS s)
  then show ?case by (auto intro: implements_plain steps_custom_Validate)
next
  case (DateTimeS s)
  then show ?case by (auto intro: implements_plain steps_datetime_Validate)
next
  case (ObjectS s)
  then have "rel_object_schema implements (map_object_schema (iface_of E) s)
      (map_object_schema (sface_of (e_lib E)) s)"
    unfolding object_schema.rel_map by (rule object_schema.rel_refl_strong)
  then show ?case by (simp add: implements_object)
next
  case (DepObjectS s)
  then have "rel_dep_object_schema implements (map_dep_object_schema (iface_of E) s)
      (map_dep_object_schema (sface_of (e_lib E)) s)"
    unfolding dep_object_schema.rel_map by (rule dep_object_schema.rel_refl_strong)
  then show ?case by (simp add: implements_dep_object)
next
  case (ArrayS s)
  then have rel: "rel_array_schema implements (map_array_schema (iface_of E) s)
      (map_array_schema (sface_of (e_lib E)) s)"
    unfolding array_schema.rel_map by (rule array_schema.rel_refl_strong)
  then show ?case
    using implements_vat [OF steps_array_Validate [OF rel, of E] vat_ok_array [OF rel, of E]]
    by (simp add: Let_def array_schema.map_sel)
next
  case (AndS s)
  then have rel: "rel_and_schema implements (map_and_schema (iface_of E) s)
      (map_and_schema (sface_of (e_lib E)) s)"
    unfolding and_schema.rel_map by (rule and_schema.rel_refl_strong)
  then show ?case
    using implements_plain [OF steps_and_Validate [OF rel]]
    by (simp add: Let_def and_schema.map_sel)
next
  case (OrS s)
  then have rel: "rel_or_schema implements (map_or_schema (iface_of E) s)
      (map_or_schema (sface_of (e_lib E)) s)"
    unfolding or_schema.rel_map by (rule or_schema.rel_refl_strong)
  then show ?case
    using implements_plain [OF steps_or_Validate [OF rel]]
    by (simp add: Let_def or_schema.map_sel)
next
  case (NotS s)
  then have rel: "rel_not_schema implements (map_not_schema (iface_of E) s)
      (map_not_schema (sface_of (e_lib E)) s)"
    unfolding not_schema.rel_map by (rule not_schema.rel_refl_strong)
  then show ?case
    using implements_plain [OF steps_not_Validate [OF rel]]
    by (simp add: Let_def not_schema.map_sel)
next
  case (TransformS s)
  then have "rel_transform_schema implements (map_transform_schema (iface_of E) s)
      (map_transform_schema (sface_of (e_lib E)) s)"
    unfolding transform_schema.rel_map by (rule transform_schema.rel_refl_strong)
  then show ?case by (simp add: implements_transform)
next
  case (DependentS s)
  then have rel: "rel_dependent_schema implements (map_dependent_schema (iface_of E) s)
      (map_dependent_schema (sface_of (e_lib E)) s)"
    unfolding dependent_schema.rel_map by (rule dependent_schema.rel_refl_strong)
  then show ?case
    using implements_plain [OF steps_dependent_Validate [OF rel]]
    by (simp add: Let_def dependent_schema.map_sel)
next
  case (CompiledS s)
  then have rel: "rel_compiled_schema implements (map_compiled_schema (iface_of E) s)
      (map_compiled_schema (sface_of (e_lib E)) s)"
    unfolding compiled_schema.rel_map by (rule compiled_schema.rel_refl_strong)
  then show ?case
    using implements_vat [OF steps_compiled_Validate [OF rel] vat_ok_compiled [OF rel]]
    by (simp add: Let_def compiled_schema.map_sel)
qed

end
