(* ===== verification/Builders.thy ===== *)
theory Builders
  imports SchemaTree
begin

text \<open>
  The builder and introspection methods that need to know which concrete type a schema held by
  another one is: \<open>IsRequired\<close>, \<open>SetRequired\<close>, \<open>Field\<close> with its panic on a dependent schema,
  \<open>RequiredFields\<close>, the dependent builders, and \<open>Compile\<close> of \<open>compile.go\<close>.
\<close>

section \<open>Methods every schema has\<close>

primrec schema_Type :: "schema \<Rightarrow> schema_type" where
  "schema_Type (StringS s) = TypeString"
| "schema_Type (NumberS s) = TypeNumber"
| "schema_Type (BoolS s) = TypeBool"
| "schema_Type (CustomS s) = TypeCustom"
| "schema_Type (DateTimeS s) = TypeDateTime"
| "schema_Type (ObjectS s) = TypeObject"
| "schema_Type (DepObjectS s) = TypeObject"
| "schema_Type (ArrayS s) = TypeArray"
| "schema_Type (AndS s) = TypeComposite"
| "schema_Type (OrS s) = TypeComposite"
| "schema_Type (NotS s) = TypeComposite"
| "schema_Type (TransformS s) = tf_inner (map_transform_schema schema_Type s)"
| "schema_Type (DependentS s) = TypeDependent"
| "schema_Type (CompiledS s) = cs_schemaType s"

text \<open>The embedded \<open>BaseSchema\<close>.\<close>

fun base_of :: "schema \<Rightarrow> base_schema" where
  "base_of (StringS s) = ss_base s"
| "base_of (NumberS s) = ns_base s"
| "base_of (BoolS s) = bo_base s"
| "base_of (CustomS s) = cu_base s"
| "base_of (DateTimeS s) = dt_base s"
| "base_of (ObjectS s) = ob_base s"
| "base_of (DepObjectS s) = ob_base (do_object s)"
| "base_of (ArrayS s) = ar_base s"
| "base_of (AndS s) = an_base s"
| "base_of (OrS s) = or_base s"
| "base_of (NotS s) = no_base s"
| "base_of (TransformS s) = tf_base s"
| "base_of (DependentS s) = dp_base s"
| "base_of (CompiledS s) = cs_base s"

primrec IsRequired :: "schema \<Rightarrow> bool" where
  "IsRequired (StringS s) = bs_required (ss_base s)"
| "IsRequired (NumberS s) = bs_required (ns_base s)"
| "IsRequired (BoolS s) = bs_required (bo_base s)"
| "IsRequired (CustomS s) = bs_required (cu_base s)"
| "IsRequired (DateTimeS s) = bs_required (dt_base s)"
| "IsRequired (ObjectS s) = bs_required (ob_base s)"
| "IsRequired (DepObjectS s) = bs_required (ob_base (do_object s))"
| "IsRequired (ArrayS s) = bs_required (ar_base s)"
| "IsRequired (AndS s) = bs_required (an_base s)"
| "IsRequired (OrS s) = bs_required (or_base s)"
| "IsRequired (NotS s) = bs_required (no_base s)"
| "IsRequired (TransformS s) =
     (bs_required (tf_base s) \<or> tf_inner (map_transform_schema IsRequired s))"
| "IsRequired (DependentS s) = bs_required (dp_base s)"
| "IsRequired (CompiledS s) = bs_required (cs_base s)"

definition IsNullable :: "schema \<Rightarrow> bool" where
  "IsNullable s = bs_nullable (base_of s)"

text \<open>\<open>SetRequired\<close>, and the same for any change of the base.\<close>

fun map_base :: "(base_schema \<Rightarrow> base_schema) \<Rightarrow> schema \<Rightarrow> schema" where
  "map_base f (StringS s) = StringS (s\<lparr>ss_base := f (ss_base s)\<rparr>)"
| "map_base f (NumberS s) = NumberS (s\<lparr>ns_base := f (ns_base s)\<rparr>)"
| "map_base f (BoolS s) = BoolS (s\<lparr>bo_base := f (bo_base s)\<rparr>)"
| "map_base f (CustomS s) = CustomS (s\<lparr>cu_base := f (cu_base s)\<rparr>)"
| "map_base f (DateTimeS s) = DateTimeS (s\<lparr>dt_base := f (dt_base s)\<rparr>)"
| "map_base f (ObjectS s) = ObjectS (ob_map_base f s)"
| "map_base f (DepObjectS s) = DepObjectS (do_map_object (ob_map_base f) s)"
| "map_base f (ArrayS s) = ArrayS (ar_map_base f s)"
| "map_base f (AndS s) = AndS (And_map_base f s)"
| "map_base f (OrS s) = OrS (Or_map_base f s)"
| "map_base f (NotS s) = NotS (Not_map_base f s)"
| "map_base f (TransformS s) = TransformS (tf_map_base f s)"
| "map_base f (DependentS s) = DependentS (dp_map_base f s)"
| "map_base f (CompiledS (CompiledSchema b s t ks)) = CompiledS (CompiledSchema (f b) s t ks)"

definition schema_SetRequired :: "bool \<Rightarrow> schema \<Rightarrow> schema" where
  "schema_SetRequired r = map_base (SetRequired r)"

definition markAsRequired :: "schema \<Rightarrow> schema" where
  "markAsRequired s = schema_SetRequired True s"

lemma base_of_map_base: "base_of (map_base f s) = f (base_of s)"
proof (cases s)
  case (DepObjectS t)
  then show ?thesis by (cases t; cases "do_object t") auto
next
  case (ObjectS t) then show ?thesis by (cases t) auto
next
  case (ArrayS t) then show ?thesis by (cases t) auto
next
  case (AndS t) then show ?thesis by (cases t) auto
next
  case (OrS t) then show ?thesis by (cases t) auto
next
  case (NotS t) then show ?thesis by (cases t) auto
next
  case (TransformS t) then show ?thesis by (cases t) auto
next
  case (DependentS t) then show ?thesis by (cases t) auto
next
  case (CompiledS t) then show ?thesis by (cases t) auto
qed auto

lemma IsRequired_base: "bs_required (base_of s) \<Longrightarrow> IsRequired s"
  by (cases s) auto

lemma IsRequired_SetRequired: "IsRequired (schema_SetRequired True s)"
  by (rule IsRequired_base) (simp add: schema_SetRequired_def base_of_map_base SetRequired_def)

text \<open>The interface value and its specification agree with these methods.\<close>

lemma iface_methods:
  "i_type (iface_of E s) = schema_Type s" "i_required (iface_of E s) = IsRequired s"
  "i_nullable (iface_of E s) = IsNullable s"
proof (induction s)
  case (TransformS s)
  case 1 show ?case using TransformS by (cases s) (simp add: transform_iface_def)
  case 2 show ?case using TransformS by (cases s) (simp add: transform_iface_def)
  case 3 show ?case by (cases s) (simp add: transform_iface_def IsNullable_def)
qed (simp_all add: base_iface_def object_iface_def dep_object_iface_def IsNullable_def Let_def
      object_schema.map_sel dep_object_schema.map_sel array_schema.map_sel and_schema.map_sel
      or_schema.map_sel not_schema.map_sel dependent_schema.map_sel compiled_schema.map_sel)

lemma sface_methods:
  fixes E :: env
  shows "r_type (sface_of (e_lib E) s) = schema_Type s" "r_required (sface_of (e_lib E) s) = IsRequired s"
  "r_nullable (sface_of (e_lib E) s) = IsNullable s"
  using implementsD(1,2,3) [OF schema_implements [of E s]] by (simp_all add: iface_methods)

section \<open>Object builders\<close>

text \<open>\<open>Field\<close>: None is the panic on a dependent schema.\<close>

definition Object_Field :: "string \<Rightarrow> schema \<Rightarrow> schema object_schema \<Rightarrow> schema object_schema option" where
  "Object_Field name f s = (case f of
       DependentS _ \<Rightarrow> None
     | _ \<Rightarrow> Some (ob_put_field name f (IsRequired f) s))"

text \<open>\<open>Fields\<close>, with the map given as the list of its entries in the order they are visited.\<close>

fun Object_Fields :: "(string \<times> schema) list \<Rightarrow> schema object_schema \<Rightarrow> schema object_schema option" where
  "Object_Fields [] s = Some s"
| "Object_Fields ((name, f) # fs) s = (case Object_Field name f s of
     None \<Rightarrow> None | Some s \<Rightarrow> Object_Fields fs s)"

definition Object_RequiredFields :: "string list \<Rightarrow> schema object_schema \<Rightarrow> schema object_schema" where
  "Object_RequiredFields names s = ob_RequiredFields (schema_SetRequired True) names s"

definition RequiredFieldNames :: "schema object_schema \<Rightarrow> string list" where
  "RequiredFieldNames s = Object_RequiredFieldNames IsRequired s"

definition DependentField :: "string \<Rightarrow> schema dependent_schema \<Rightarrow> schema dep_object_schema \<Rightarrow>
    schema dep_object_schema" where
  "DependentField name d s = do_DependentField DependentS name d s"

text \<open>
  The builders of \<open>ObjectSchemaWithDependencies\<close> that pass the call on to the object schema it
  embeds.
\<close>

definition DepObject_Field :: "string \<Rightarrow> schema \<Rightarrow> schema dep_object_schema \<Rightarrow> schema dep_object_schema option" where
  "DepObject_Field name f s =
     map_option (\<lambda>ob. do_map_object (\<lambda>_. ob) s) (Object_Field name f (do_object s))"

definition DepObject_Fields :: "(string \<times> schema) list \<Rightarrow> schema dep_object_schema \<Rightarrow>
    schema dep_object_schema option" where
  "DepObject_Fields fs s =
     map_option (\<lambda>ob. do_map_object (\<lambda>_. ob) s) (Object_Fields fs (do_object s))"

definition DepObject_RequiredFields :: "string list \<Rightarrow> schema dep_object_schema \<Rightarrow> schema dep_object_schema" where
  "DepObject_RequiredFields names = do_map_object (Object_RequiredFields names)"

definition DepObject_Custom :: "validator_func \<Rightarrow> schema dep_object_schema \<Rightarrow> schema dep_object_schema" where
  "DepObject_Custom fn = do_map_object (Object_Custom fn)"

definition DepObject_Required :: "schema dep_object_schema \<Rightarrow> schema dep_object_schema" where
  "DepObject_Required = do_map_object Object_Required"

definition DepObject_Optional :: "schema dep_object_schema \<Rightarrow> schema dep_object_schema" where
  "DepObject_Optional = do_map_object Object_Optional"

definition DepObject_Nullable :: "schema dep_object_schema \<Rightarrow> schema dep_object_schema" where
  "DepObject_Nullable = do_map_object Object_Nullable"

section \<open>Transform builders\<close>

definition Transform_Required :: "schema transform_schema \<Rightarrow> schema transform_schema" where
  "Transform_Required s = tf_SetRequired_both schema_SetRequired True s"

definition Transform_Optional :: "schema transform_schema \<Rightarrow> schema transform_schema" where
  "Transform_Optional s = tf_SetRequired_both schema_SetRequired False s"

text \<open>The \<open>Transform\<close> methods of the other builders.\<close>

definition with_transform :: "schema \<Rightarrow> transformer \<Rightarrow> schema transform_schema" where
  "with_transform s t = Transform_Add t (Transform_new s)"

section \<open>Compile\<close>

text \<open>Which schemas implement \<open>ValidateAndTransform\<close>.\<close>

fun transformable :: "schema \<Rightarrow> bool" where
  "transformable (ObjectS s) = True"
| "transformable (DepObjectS s) = True"
| "transformable (ArrayS s) = True"
| "transformable (TransformS s) = True"
| "transformable (CompiledS s) = True"
| "transformable _ = False"

lemma transformable_iff: "i_vat (iface_of E s) \<noteq> None \<longleftrightarrow> transformable s"
  by (cases s) (simp_all add: base_iface_def object_iface_def dep_object_iface_def
      transform_iface_def Let_def)

definition compiled_with :: "schema \<Rightarrow> check list \<Rightarrow> schema" where
  "compiled_with s ks = CompiledS (CompiledSchema
     (extractBase (schema_Type s) (IsRequired s) (IsNullable s)) s (schema_Type s) ks)"

text \<open>
  \<open>Compile\<close>: a compiled schema is returned as it is; a transformable schema, and one whose type
  the compiler has no checks for, gets the delegating check alone.
\<close>

fun compile_schema :: "schema \<Rightarrow> schema" where
  "compile_schema (CompiledS s) = CompiledS s"
| "compile_schema (StringS s) = compiled_with (StringS s) (compile_string s)"
| "compile_schema (NumberS s) = compiled_with (NumberS s) (compile_number s)"
| "compile_schema (BoolS s) = compiled_with (BoolS s) (compile_bool s)"
| "compile_schema s = compiled_with s [CkDelegate]"

end
