(* ===== verification/Queryfy.thy ===== *)
theory Queryfy
  imports Builders
begin

text \<open>
  \<open>queryfy.go\<close> and the type \<open>Validator\<close> of \<open>validator.go\<close>: the entry points. \<open>validate\<close> is the
  method call \<open>schema.Validate(value, ctx)\<close>; \<open>report\<close> and \<open>outcome\<close> are the specifications of
  validation and of transformation. The properties here hold for every schema of the library.
\<close>

definition validate :: "env \<Rightarrow> schema \<Rightarrow> validate_fun" where
  "validate E s v c = i_validate (iface_of E s) v c"

definition report :: "go_lib \<Rightarrow> schema \<Rightarrow> report_fun" where
  "report L s v p m = r_report (sface_of L s) v p m"

text \<open>What validation and transformation of a value yield: the value, or None on failure.\<close>

definition outcome :: "go_lib \<Rightarrow> schema \<Rightarrow> result_fun" where
  "outcome L s v p m = (case r_result (sface_of L s) of
       Some D \<Rightarrow> D v p m
     | None \<Rightarrow> if clean (report L s v p m) then Some v else None)"

section \<open>Entry points\<close>

definition ValidateWithMode :: "env \<Rightarrow> gval \<Rightarrow> schema \<Rightarrow> vmode \<Rightarrow> go_error option" where
  "ValidateWithMode E data s m = ctx_Error (validate E s data (NewValidationContext m))"

definition Validate :: "env \<Rightarrow> gval \<Rightarrow> schema \<Rightarrow> go_error option" where
  "Validate E data s = ValidateWithMode E data s Strict"

text \<open>\<open>MustValidate\<close>: the text of the panic, or None.\<close>

definition MustValidate :: "env \<Rightarrow> gval \<Rightarrow> schema \<Rightarrow> string option" where
  "MustValidate E data s = (case Validate E data s of
     None \<Rightarrow> None | Some err \<Rightarrow> Some (''validation failed: '' @ error_text err))"

definition ValidateAndTransform :: "env \<Rightarrow> gval \<Rightarrow> schema \<Rightarrow> vmode \<Rightarrow> gval \<times> go_error option" where
  "ValidateAndTransform E data s m = (let c = NewValidationContext m in
     case i_vat (iface_of E s) of
       Some g \<Rightarrow> (case g data c of (_, w, e) \<Rightarrow> (w, e))
     | None \<Rightarrow> (data, ctx_Error (validate E s data c)))"

record validator =
  vd_schema :: schema
  vd_mode :: vmode

definition NewValidator :: "schema \<Rightarrow> validator" where
  "NewValidator s = \<lparr>vd_schema = s, vd_mode = Strict\<rparr>"

definition Validator_Strict :: "validator \<Rightarrow> validator" where
  "Validator_Strict d = d\<lparr>vd_mode := Strict\<rparr>"

definition Validator_Loose :: "validator \<Rightarrow> validator" where
  "Validator_Loose d = d\<lparr>vd_mode := Loose\<rparr>"

definition Validator_Validate :: "env \<Rightarrow> validator \<Rightarrow> gval \<Rightarrow> go_error option" where
  "Validator_Validate E d data = ValidateWithMode E data (vd_schema d) (vd_mode d)"

section \<open>The contract of every schema\<close>

interpretation library: schema_contract "validate E s" "report (e_lib E) s" for E s
  by unfold_locales
    (simp add: validate_def [abs_def] report_def [abs_def] implementsD(4) [OF schema_implements])

text \<open>Acceptance on a fresh context.\<close>

definition accepts :: "env \<Rightarrow> schema \<Rightarrow> gval \<Rightarrow> vmode \<Rightarrow> bool" where
  "accepts E s v m = (ValidateWithMode E v s m = None)"

lemma accepts_clean: "accepts E s v m \<longleftrightarrow> clean (report (e_lib E) s v [] m)"
  using library.fresh [of E s v m]
  by (auto simp: accepts_def ValidateWithMode_def ctx_Error_def)

lemma outcome_vat:
  assumes "i_vat (iface_of E s) = Some g"
  shows "vat_ok (g v) (outcome (e_lib E) s v)"
proof -
  obtain D where D: "r_result (sface_of (e_lib E) s) = Some D"
    using implementsD(5) [OF schema_implements [of E s]] assms by auto
  with implementsD(6) [OF schema_implements assms D, of v] show ?thesis
    by (simp add: outcome_def [abs_def])
qed

text \<open>
  C1: validating a value leaves the path and the mode of the context as they were, and keeps
  every error and transformation collected before.
\<close>

theorem validate_only_appends:
  "c_path (validate E s v c) = c_path c \<and> c_mode (validate E s v c) = c_mode c
   \<and> (\<exists>es. c_errors (validate E s v c) = c_errors c @ es)
   \<and> (\<exists>ts. c_trans (validate E s v c) = c_trans c @ ts)"
  using library.frame library.appends by blast

text \<open>
  C2: the errors and transformations that validation appends are those of the specification, a
  function of the schema, the value, the path and the mode: not of what was collected before,
  nor of the order in which Go visits maps.
\<close>

theorem validate_meets_report:
  "ctx_events (validate E s v c) = ctx_events c + report (e_lib E) s v (c_path c) (c_mode c)"
  by (rule library.reports)

text \<open>
  C3: whatever orders two runs visit the maps of schema and value in, they collect the same
  errors and the same transformations, up to the order in which they stand.
\<close>

theorem map_order_is_immaterial:
  "mset (c_errors (validate (E\<lparr>e_order := o1\<rparr>) s v c)) = mset (c_errors (validate (E\<lparr>e_order := o2\<rparr>) s v c))
   \<and> mset (c_trans (validate (E\<lparr>e_order := o1\<rparr>) s v c)) = mset (c_trans (validate (E\<lparr>e_order := o2\<rparr>) s v c))"
  using steps_perm [OF library.contract [where E = "E\<lparr>e_order := o1\<rparr>"]]
    library.contract [where E = "E\<lparr>e_order := o2\<rparr>"]
  by simp

text \<open>\<open>ValidateAndTransform\<close> succeeds with the outcome.\<close>

lemma ValidateAndTransform_success:
  "ValidateAndTransform E data s m = (w, None) \<longleftrightarrow> outcome (e_lib E) s data [] m = Some w"
proof (cases "i_vat (iface_of E s)")
  case None
  then have "r_result (sface_of (e_lib E) s) = None"
    using implementsD(5) [OF schema_implements] by blast
  with None show ?thesis
    using accepts_clean [of E s data m]
    by (auto simp: ValidateAndTransform_def outcome_def accepts_def ValidateWithMode_def Let_def)
next
  case (Some g)
  obtain c' v e where run: "g data (NewValidationContext m) = (c', v, e)"
    by (cases "g data (NewValidationContext m)")
  from vat_okD [OF outcome_vat [OF Some] run] Some run show ?thesis
    by (auto simp: ValidateAndTransform_def Let_def NewValidationContext_def ctx_Error_def
        HasErrors_def split: option.splits)
qed

text \<open>
  C4: \<open>ValidateAndTransform\<close> returns an error exactly when the specification has no outcome, and
  otherwise the outcome, again whatever the map orders.
\<close>

theorem ValidateAndTransform_outcome:
  "case outcome (e_lib E) s data [] m of
     None \<Rightarrow> snd (ValidateAndTransform E data s m) \<noteq> None
   | Some w \<Rightarrow> ValidateAndTransform E data s m = (w, None)"
  using ValidateAndTransform_success [of E data s m]
  by (cases "ValidateAndTransform E data s m") (auto split: option.split)

end
