(* ===== verification/Acceptance.thy ===== *)
theory Acceptance
  imports Queryfy
begin

text \<open>
  Which values each kind of schema accepts, as an equation: the specification of a schema in
  terms of the acceptance of the schemas it holds. That a field or an element is validated at
  another path does not change whether it is accepted (\<open>clean_any_path\<close>), nor what
  \<open>ValidateAndTransform\<close> makes of it (\<open>outcome_any_path\<close>).
\<close>

section \<open>Clean reports\<close>

lemma clean_nil_report [simp]: "clean (nil_report b p m) \<longleftrightarrow> \<not> bs_required b \<and> bs_nullable b"
  by (simp add: nil_report_def)

lemma clean_guarded_report:
  "clean (guarded_report b R v p m) \<longleftrightarrow>
   (if v = VNil then \<not> bs_required b \<and> bs_nullable b else clean (R v p m))"
  by (simp add: guarded_report_def)

lemma clean_typed_report: "clean (typed_report L t R v p m) \<longleftrightarrow> type_ok L t v m \<and> clean (R v p m)"
  by (simp add: typed_report_def)

lemma clean_field_report:
  "clean (field_report s objMap name p m) \<longleftrightarrow> (case map_of (ob_fields s) name of None \<Rightarrow> True
     | Some f \<Rightarrow> (case map_of objMap name of
           Some fv \<Rightarrow> clean (r_report f fv (p @ [name]) m)
         | None \<Rightarrow> in_requiredFields s name \<or> \<not> r_required f))"
  by (simp add: field_report_def split: option.splits)

lemma clean_object_body:
  "clean (object_body_report s objMap p m) \<longleftrightarrow>
     (\<forall>name \<in> set (map_keys (ob_requiredFields s)).
        map_of (ob_requiredFields s) name = Some True \<longrightarrow> map_of objMap name \<noteq> None)
   \<and> (\<forall>name \<in> set (map_keys (ob_fields s)). clean (field_report s objMap name p m))
   \<and> (rejectsExtra s m \<longrightarrow> (\<forall>key \<in> set (map_keys objMap). map_of (ob_fields s) key \<noteq> None))
   \<and> (\<forall>f \<in> set (ob_validators s). f (VMap objMap) = None)"
  by (auto simp: object_body_report_def required_report_clean extra_report_clean split: if_splits)

lemma clean_object_report:
  "clean (object_report L s v p m) \<longleftrightarrow>
   (if v = VNil then \<not> bs_required (ob_base s) \<and> bs_nullable (ob_base s)
    else (case convertToMap v of None \<Rightarrow> False | Some objMap \<Rightarrow> clean (object_body_report s objMap p m)))"
  by (auto simp: object_report_def clean_guarded_report clean_typed_report type_ok_object_map
      split: option.splits)

lemma clean_elements_report:
  "clean (elements_report s xs p m) \<longleftrightarrow> (case ar_elementSchema s of None \<Rightarrow> True
     | Some f \<Rightarrow> \<forall>(i, x) \<in> set (enumerate 0 xs). clean (r_report f x (p @ [index_segment (int i)]) m))"
  by (auto simp: elements_report_def split: option.splits)

lemma clean_array_report:
  "clean (array_report L s v p m) \<longleftrightarrow>
   (if v = VNil then \<not> bs_required (ar_base s) \<and> bs_nullable (ar_base s)
    else (case as_slice v of None \<Rightarrow> False
      | Some xs \<Rightarrow> array_violations L s xs = [] \<and> clean (elements_report s xs p m)
          \<and> (\<forall>f \<in> set (ar_validators s). f v = None)))"
  by (auto simp: array_report_def clean_guarded_report clean_typed_report type_ok_array Let_def
      split: option.splits)

lemma clean_dependent_field:
  "clean (dependent_field_report s objMap name p m) \<longleftrightarrow>
   (case map_of (do_dependentFields s) name of None \<Rightarrow> True
    | Some d \<Rightarrow> (case map_of objMap name of
          None \<Rightarrow> \<not> (condition_met d objMap \<and>
            (bs_required (dp_base d) \<or> (\<exists>f. dp_schema d = Some f \<and> r_required f)))
        | Some fv \<Rightarrow> clean (with_parent_report d fv objMap (p @ [name]) m)))"
  by (simp add: dependent_field_report_def split: option.splits)

section \<open>The path does not matter\<close>

lemma fields_in_set: "map_of (ob_fields s) k = Some x \<Longrightarrow> x \<in> set_object_schema s"
  by (cases s) (force dest: map_of_SomeD)

lemma element_in_set: "ar_elementSchema s = Some x \<Longrightarrow> x \<in> set_array_schema s"
  by (cases s) simp

lemma object_fields_map:
  "map_of (ob_fields (map_object_schema g s)) k = map_option g (map_of (ob_fields s) k)"
  by (cases s) (simp add: map_prod_def map_of_map_snd)

lemma object_map_sel [simp]:
  "map_keys (ob_fields (map_object_schema g s)) = map_keys (ob_fields s)"
  "ob_requiredFields (map_object_schema g s) = ob_requiredFields s"
  "in_requiredFields (map_object_schema g s) = in_requiredFields s"
  "rejectsExtra (map_object_schema g s) = rejectsExtra s"
  "ob_validators (map_object_schema g s) = ob_validators s"
  by (cases s; simp add: fun_eq_iff in_requiredFields_def rejectsExtra_def comp_def)+

definition path_free :: "sface \<Rightarrow> bool" where
  "path_free r = (\<forall>v p q m. clean (r_report r v p m) \<longleftrightarrow> clean (r_report r v q m))"

lemma path_freeD: "path_free r \<Longrightarrow> clean (r_report r v p m) \<longleftrightarrow> clean (r_report r v q m)"
  unfolding path_free_def by blast

lemma path_free_plain [simp]:
  "path_free (base_sface TypeString b (string_report L s) D)"
  "path_free (base_sface TypeNumber b (number_report n) D)"
  "path_free (base_sface TypeDateTime b (datetime_report L d) D)"
  "path_free (base_sface TypeBool b (bool_report L bo) D)"
  "path_free (base_sface TypeCustom b (custom_report cu) D)"
  by (simp_all add: path_free_def base_sface_def string_report_def number_report_def
      datetime_report_def bool_report_def custom_report_def clean_guarded_report clean_typed_report
      split: option.splits sum.splits)

lemma clean_field_any_path:
  assumes "\<And>x. x \<in> set_object_schema s \<Longrightarrow> path_free (g x)"
  shows "clean (field_report (map_object_schema g s) objMap name p m) \<longleftrightarrow>
    clean (field_report (map_object_schema g s) objMap name q m)"
  using assms fields_in_set [of s name]
  by (auto simp: clean_field_report object_fields_map dest: path_freeD split: option.splits)

lemma clean_object_any_path:
  assumes "\<And>x. x \<in> set_object_schema s \<Longrightarrow> path_free (g x)"
  shows "clean (object_report L (map_object_schema g s) v p m) \<longleftrightarrow>
    clean (object_report L (map_object_schema g s) v q m)"
  using clean_field_any_path [of s g _ _ p m q, OF assms]
  by (simp add: clean_object_report clean_object_body split: option.splits)

lemma clean_dependent_any_path:
  assumes "\<And>x. x \<in> set_dep_object_schema s \<Longrightarrow> path_free (g x)"
  shows "clean (dependent_field_report (map_dep_object_schema g s) objMap name p m) \<longleftrightarrow>
    clean (dependent_field_report (map_dep_object_schema g s) objMap name q m)"
proof (cases "map_of (do_dependentFields s) name")
  case None
  then show ?thesis
    by (cases s) (simp add: clean_dependent_field map_prod_def map_of_map_snd)
next
  case (Some d)
  then have "path_free (g x)" if "x \<in> set_dependent_schema d" for x
    using assms that by (cases s) (force dest: map_of_SomeD)
  then have "clean (with_parent_report (map_dependent_schema g d) fv objMap (p @ [name]) m) \<longleftrightarrow>
      clean (with_parent_report (map_dependent_schema g d) fv objMap (q @ [name]) m)" for fv
    by (cases d) (auto simp: with_parent_report_def condition_met_def dest: path_freeD
        split: option.splits)
  with Some show ?thesis
    by (cases s) (simp add: clean_dependent_field map_prod_def map_of_map_snd split: option.splits)
qed

lemma clean_elements_any_path:
  assumes "\<And>x. x \<in> set_array_schema s \<Longrightarrow> path_free (g x)"
  shows "clean (elements_report (map_array_schema g s) xs p m) \<longleftrightarrow>
    clean (elements_report (map_array_schema g s) xs q m)"
proof (cases "ar_elementSchema s")
  case None
  then show ?thesis by (simp add: clean_elements_report array_schema.map_sel)
next
  case (Some x)
  have "path_free (g x)" by (rule assms) (rule element_in_set [OF Some])
  then have "clean (r_report (g x) v (p @ i) m) \<longleftrightarrow> clean (r_report (g x) v (q @ i) m)" for v i
    by (rule path_freeD)
  with Some show ?thesis by (simp add: clean_elements_report array_schema.map_sel)
qed

lemma clean_any_path: "path_free (sface_of L s)"
proof (induction s)
  case (ObjectS s)
  then show ?case
    using clean_object_any_path [of s "sface_of L"]
    by (auto simp: path_free_def object_sface_def base_sface_def)
next
  case (DepObjectS s)
  let ?s = "map_dep_object_schema (sface_of L) s"
  have ob: "do_object ?s = map_object_schema (sface_of L) (do_object s)"
    by (cases s) simp
  have "path_free (sface_of L x)" if "x \<in> set_object_schema (do_object s)" for x
    using DepObjectS that by (cases s) auto
  note clean_object = clean_object_any_path [of "do_object s" "sface_of L", OF this]
    and clean_dep = clean_dependent_any_path [of s "sface_of L", OF DepObjectS]
  have "clean (dep_object_report L ?s v p m) \<longleftrightarrow> clean (dep_object_report L ?s v q m)" for v p q m
    by (simp add: dep_object_report_def ob clean_object [of L v p m q] clean_dep [of _ _ p m q]
        split: option.splits)
  then show ?case by (simp add: path_free_def dep_object_sface_def)
next
  case (ArrayS s)
  from clean_elements_any_path [of s "sface_of L", OF this]
  show ?case
    by (auto simp: path_free_def base_sface_def Let_def clean_array_report array_schema.map_sel
        split: option.splits)
next
  case (AndS s)
  then have "clean (r_report (sface_of L x) v p m) \<longleftrightarrow> clean (r_report (sface_of L x) v q m)"
    if "x \<in> set (an_schemas s)" for x v p q m
    using that by (cases s) (auto dest: path_freeD)
  then show ?case
    by (simp add: path_free_def base_sface_def Let_def and_report_def clean_guarded_report
        and_schema.map_sel cong: ball_cong) blast
next
  case (OrS s)
  then show ?case
    by (cases s) (auto simp: path_free_def base_sface_def or_report_def clean_guarded_report)
next
  case (NotS s)
  then show ?case
    by (cases s) (auto simp: path_free_def base_sface_def not_report_def clean_guarded_report)
next
  case (TransformS s)
  then show ?case
    by (cases s) (auto simp: path_free_def transform_sface_def transform_report_def
        clean_pipeline_report split: option.splits)
next
  case (DependentS s)
  then show ?case
    by (cases s) (auto simp: path_free_def base_sface_def dependent_report_def split: option.splits)
next
  case (CompiledS s)
  then have "clean (check_report L (sface_of L (cs_inner s)) k v p m) \<longleftrightarrow>
      clean (check_report L (sface_of L (cs_inner s)) k v q m)" for k v p q m
    by (cases s; cases k)
      (auto simp: check_report_def dest: path_freeD split: option.splits)
  then show ?case
    by (simp add: path_free_def base_sface_def Let_def compiled_report_def clean_guarded_report
        compiled_schema.map_sel) blast
qed (simp_all)

text \<open>Nor does the path change what \<open>ValidateAndTransform\<close> gives.\<close>

definition same_results :: "sface \<Rightarrow> bool" where
  "same_results r = (\<forall>D v p q m. r_result r = Some D \<longrightarrow> D v p m = D v q m)"

lemma same_resultsD: "same_results r \<Longrightarrow> r_result r = Some D \<Longrightarrow> D v p m = D v q m"
  unfolding same_results_def by blast

lemma field_result_any_path:
  assumes "\<And>x. x \<in> set_object_schema s \<Longrightarrow> path_free (g x) \<and> same_results (g x)"
  shows "field_result (map_object_schema g s) objMap p m name = field_result (map_object_schema g s) objMap q m name"
proof (cases "map_of (ob_fields s) name")
  case (Some x)
  have "path_free (g x) \<and> same_results (g x)" by (rule assms) (rule fields_in_set [OF Some])
  note same = path_freeD [OF conjunct1 [OF this], of _ "p @ [name]" m "q @ [name]"]
    same_resultsD [OF conjunct2 [OF this], of _ _ "p @ [name]" m "q @ [name]"]
  with Some show ?thesis
    by (cases "r_result (g x)") (simp_all add: field_result_def object_fields_map same split: option.split)
qed (simp add: field_result_def object_fields_map)

lemma object_result_any_path:
  assumes "\<And>x. x \<in> set_object_schema s \<Longrightarrow> path_free (g x) \<and> same_results (g x)"
  shows "object_result L (map_object_schema g s) v p m = object_result L (map_object_schema g s) v q m"
proof -
  have "field_result (map_object_schema g s) objMap p m = field_result (map_object_schema g s) objMap q m" for objMap
    using field_result_any_path [of s g objMap p m _ q, OF assms] by blast
  then show ?thesis
    by (simp add: object_result_def checked_result_def object_map_result_def split: option.split)
qed

lemma elem_results_any_path:
  assumes "\<And>x. x \<in> set_array_schema s \<Longrightarrow> path_free (g x) \<and> same_results (g x)"
  shows "elem_results (map_array_schema g s) i xs p m = elem_results (map_array_schema g s) i xs q m"
proof -
  have "elem_result (map_array_schema g s) i v p m = elem_result (map_array_schema g s) i v q m" for i v
  proof (cases "ar_elementSchema s")
    case (Some x)
    have "path_free (g x) \<and> same_results (g x)" by (rule assms) (rule element_in_set [OF Some])
    note same = path_freeD [OF conjunct1 [OF this], of _ "p @ k" m "q @ k" for k]
      same_resultsD [OF conjunct2 [OF this], of _ _ "p @ k" m "q @ k" for k]
    with Some show ?thesis
      by (cases "r_result (g x)") (simp_all add: elem_result_def array_schema.map_sel same)
  qed (simp add: elem_result_def array_schema.map_sel)
  then show ?thesis by (induction xs arbitrary: i) (simp_all split: option.split)
qed

lemma result_any_path: "same_results (sface_of L s)"
proof (induction s)
  case (ObjectS s)
  then show ?case
    using object_result_any_path [of s "sface_of L"] clean_any_path
    by (auto simp: same_results_def object_sface_def base_sface_def)
next
  case (DepObjectS s)
  have ob: "do_object (map_dep_object_schema (sface_of L) s) = map_object_schema (sface_of L) (do_object s)"
    by (cases s) simp
  have "path_free (sface_of L x) \<and> same_results (sface_of L x)" if "x \<in> set_object_schema (do_object s)" for x
    using DepObjectS that clean_any_path by (cases s) auto
  then show ?case
    using object_result_any_path [of "do_object s" "sface_of L"]
    by (auto simp: same_results_def dep_object_sface_def object_sface_def base_sface_def ob)
next
  case (ArrayS s)
  then have "elem_results (map_array_schema (sface_of L) s) 0 xs p m = elem_results (map_array_schema (sface_of L) s) 0 xs q m"
    for xs p q m
    by (intro elem_results_any_path conjI clean_any_path)
  note result = arg_cong [where f = "map_option VSlice", OF this]
  have "array_result L (map_array_schema (sface_of L) s) v p m = array_result L (map_array_schema (sface_of L) s) v q m"
    for v p q m
    unfolding array_result_def checked_result_def Let_def by (intro if_cong refl result)
  then show ?case
    unfolding same_results_def by (simp add: base_sface_def Let_def)
next
  case (TransformS s)
  have "clean (r_report (sface_of L (tf_inner s)) w p m) = clean (r_report (sface_of L (tf_inner s)) w q m)" for w p q m
    by (rule path_freeD [OF clean_any_path])
  then show ?case
    unfolding same_results_def
    by (simp add: transform_sface_def transform_result_def transform_schema.map_sel split: option.split) blast
next
  case (CompiledS s)
  then have inner: "same_results (sface_of L (cs_inner s))" by (cases s) auto
  have "path_free (sface_of L (CompiledS s))" by (rule clean_any_path)
  then have "clean (compiled_report L (map_compiled_schema (sface_of L) s) v p m) \<longleftrightarrow>
      clean (compiled_report L (map_compiled_schema (sface_of L) s) v q m)" for v p q m
    by (auto simp: path_free_def base_sface_def Let_def)
  with inner show ?case
    unfolding same_results_def
    by (simp add: base_sface_def Let_def compiled_result_def compiled_schema.map_sel split: option.split) blast
qed (simp_all add: same_results_def base_sface_def Let_def)

lemma outcome_any_path: "outcome L s v p m = outcome L s v q m"
  using result_any_path [of L s] path_freeD [OF clean_any_path, of L s v p m q]
  by (auto simp: outcome_def same_results_def report_def split: option.split)

section \<open>Acceptance by kind of schema\<close>

definition ok :: "go_lib \<Rightarrow> schema \<Rightarrow> gval \<Rightarrow> vmode \<Rightarrow> bool" where
  "ok L s v m = clean (report L s v [] m)"

lemma clean_ok: "clean (r_report (sface_of L s) v p m) \<longleftrightarrow> ok L s v m"
  unfolding ok_def report_def by (rule path_freeD [OF clean_any_path])

lemma accepts_ok: "accepts E s v m \<longleftrightarrow> ok (e_lib E) s v m"
  by (simp add: accepts_clean ok_def)

text \<open>Null is accepted by a schema that is nullable and not required.\<close>

definition nil_ok :: "base_schema \<Rightarrow> bool" where
  "nil_ok b = (\<not> bs_required b \<and> bs_nullable b)"

definition object_requires :: "schema object_schema \<Rightarrow> string \<Rightarrow> bool" where
  "object_requires s name = (in_requiredFields s name
     \<or> (case Object_GetField s name of Some f \<Rightarrow> IsRequired f | None \<Rightarrow> False))"

lemma ball_map_keys: "(\<forall>x \<in> set (map_keys al). P x) \<longleftrightarrow> (\<forall>x. map_of al x \<noteq> None \<longrightarrow> P x)"
  by (auto simp: map_of_eq_None_iff)

lemma object_ok:
  fixes E :: env
  shows "ok (e_lib E) (ObjectS s) v m \<longleftrightarrow>
   (if v = VNil then nil_ok (ob_base s)
    else (case convertToMap v of None \<Rightarrow> False
      | Some mp \<Rightarrow> (\<forall>name. case map_of mp name of
             None \<Rightarrow> \<not> object_requires s name
           | Some fv \<Rightarrow> (case Object_GetField s name of
                 Some f \<Rightarrow> ok (e_lib E) f fv m | None \<Rightarrow> \<not> rejectsExtra s m))
        \<and> list_all (\<lambda>f. f (VMap mp) = None) (ob_validators s)))"
proof -
  let ?s = "map_object_schema (sface_of (e_lib E)) s"
  have field: "clean (field_report ?s mp name [] m) \<longleftrightarrow> (case map_of (ob_fields s) name of None \<Rightarrow> True
       | Some f \<Rightarrow> (case map_of mp name of
             Some fv \<Rightarrow> ok (e_lib E) f fv m
           | None \<Rightarrow> in_requiredFields s name \<or> \<not> IsRequired f))" for mp name
    by (auto simp: clean_field_report object_fields_map clean_ok sface_methods split: option.splits)
  have "clean (object_body_report ?s mp [] m) \<longleftrightarrow>
      (\<forall>name. case map_of mp name of
             None \<Rightarrow> \<not> object_requires s name
           | Some fv \<Rightarrow> (case Object_GetField s name of
                 Some f \<Rightarrow> ok (e_lib E) f fv m | None \<Rightarrow> \<not> rejectsExtra s m))
        \<and> list_all (\<lambda>f. f (VMap mp) = None) (ob_validators s)" for mp
  proof -
    have names: "(\<forall>name \<in> set (map_keys (ob_requiredFields s)).
          map_of (ob_requiredFields s) name = Some True \<longrightarrow> map_of mp name \<noteq> None)
      \<and> (\<forall>name \<in> set (map_keys (ob_fields s)). clean (field_report ?s mp name [] m))
      \<and> (rejectsExtra s m \<longrightarrow> (\<forall>key \<in> set (map_keys mp). map_of (ob_fields s) key \<noteq> None))
      \<longleftrightarrow> (\<forall>name. (in_requiredFields s name \<longrightarrow> map_of mp name \<noteq> None)
           \<and> clean (field_report ?s mp name [] m)
           \<and> (rejectsExtra s m \<longrightarrow> map_of mp name \<noteq> None \<longrightarrow> map_of (ob_fields s) name \<noteq> None))"
      unfolding ball_map_keys in_requiredFields_def field by (auto split: option.splits)
    have point: "(in_requiredFields s name \<longrightarrow> map_of mp name \<noteq> None)
           \<and> clean (field_report ?s mp name [] m)
           \<and> (rejectsExtra s m \<longrightarrow> map_of mp name \<noteq> None \<longrightarrow> map_of (ob_fields s) name \<noteq> None)
      \<longleftrightarrow> (case map_of mp name of
             None \<Rightarrow> \<not> object_requires s name
           | Some fv \<Rightarrow> (case Object_GetField s name of
                 Some f \<Rightarrow> ok (e_lib E) f fv m | None \<Rightarrow> \<not> rejectsExtra s m))" for name
      unfolding field object_requires_def Object_GetField_def
      by (cases "map_of mp name"; cases "map_of (ob_fields s) name") auto
    have extra: "map_option (sface_of (e_lib E)) x \<noteq> None \<longleftrightarrow> x \<noteq> None" for x
      by simp
    have "clean (object_body_report ?s mp [] m) \<longleftrightarrow>
        ((\<forall>name \<in> set (map_keys (ob_requiredFields s)).
            map_of (ob_requiredFields s) name = Some True \<longrightarrow> map_of mp name \<noteq> None)
        \<and> (\<forall>name \<in> set (map_keys (ob_fields s)). clean (field_report ?s mp name [] m))
        \<and> (rejectsExtra s m \<longrightarrow> (\<forall>key \<in> set (map_keys mp). map_of (ob_fields s) key \<noteq> None)))
        \<and> list_all (\<lambda>f. f (VMap mp) = None) (ob_validators s)"
      by (simp only: clean_object_body object_map_sel object_fields_map
          list_all_iff extra conj_assoc)
    then show ?thesis unfolding names point .
  qed
  then show ?thesis
    by (simp add: ok_def report_def object_sface_def base_sface_def clean_object_report nil_ok_def
        object_schema.map_sel split: option.splits)
qed

text \<open>
  C6: an object schema accepts a map exactly when every required name is there, every declared
  field is accepted by its schema, every other field is allowed by the policy or the mode, and
  the custom validators pass. Other values are rejected, null unless it is allowed.
\<close>

theorem object_accepts:
  fixes E :: env
  shows "accepts E (ObjectS s) v m =
   (if v = VNil then nil_ok (ob_base s)
    else (case convertToMap v of None \<Rightarrow> False
      | Some mp \<Rightarrow> (\<forall>name. case map_of mp name of
             None \<Rightarrow> \<not> object_requires s name
           | Some fv \<Rightarrow> (case Object_GetField s name of
                 Some f \<Rightarrow> accepts E f fv m | None \<Rightarrow> \<not> rejectsExtra s m))
        \<and> list_all (\<lambda>f. f (VMap mp) = None) (ob_validators s)))"
  unfolding accepts_ok by (rule object_ok)

lemma ball_enumerate: "(\<forall>(i, x) \<in> set (enumerate n xs). P x) \<longleftrightarrow> list_all P xs"
proof -
  have "set xs = snd ` set (enumerate n xs)"
    by (metis list.set_map map_snd_enumerate)
  then show ?thesis by (auto simp: list_all_iff)
qed

lemma array_ok:
  "ok L (ArrayS s) v m =
   (if v = VNil then nil_ok (ar_base s)
    else (case as_slice v of None \<Rightarrow> False
      | Some xs \<Rightarrow>
          (case ar_minItems s of None \<Rightarrow> True | Some n \<Rightarrow> n \<le> int (length xs))
        \<and> (case ar_maxItems s of None \<Rightarrow> True | Some n \<Rightarrow> int (length xs) \<le> n)
        \<and> (if ar_uniqueItems s then distinct (map (sprint_v L) xs) else True)
        \<and> (case ar_elementSchema s of None \<Rightarrow> True | Some f \<Rightarrow> list_all (\<lambda>x. ok L f x m) xs)
        \<and> list_all (\<lambda>f. f v = None) (ar_validators s)))"
proof -
  let ?s = "map_array_schema (sface_of L) s"
  have el: "clean (elements_report ?s xs [] m) \<longleftrightarrow> (case ar_elementSchema s of None \<Rightarrow> True
      | Some f \<Rightarrow> list_all (\<lambda>x. ok L f x m) xs)" for xs
    by (cases "ar_elementSchema s")
      (simp_all add: clean_elements_report array_schema.map_sel clean_ok ball_enumerate)
  show ?thesis
    unfolding ok_def [of _ "ArrayS s"]
    by (auto simp: report_def base_sface_def Let_def clean_array_report nil_ok_def el
        array_schema.map_sel array_violations_def list_all_iff split: option.splits)
qed

text \<open>
  C7: an array schema accepts a slice exactly when its length is within the bounds, its items
  print differently if they must be unique, each item is accepted by the element schema and the
  custom validators pass.
\<close>

theorem array_accepts:
  fixes E :: env
  shows "accepts E (ArrayS s) v m =
   (if v = VNil then nil_ok (ar_base s)
    else (case as_slice v of None \<Rightarrow> False
      | Some xs \<Rightarrow>
          (case ar_minItems s of None \<Rightarrow> True | Some n \<Rightarrow> n \<le> int (length xs))
        \<and> (case ar_maxItems s of None \<Rightarrow> True | Some n \<Rightarrow> int (length xs) \<le> n)
        \<and> (if ar_uniqueItems s then distinct (map (sprint_v (e_lib E)) xs) else True)
        \<and> (case ar_elementSchema s of None \<Rightarrow> True | Some f \<Rightarrow> list_all (\<lambda>x. accepts E f x m) xs)
        \<and> list_all (\<lambda>f. f v = None) (ar_validators s)))"
  unfolding accepts_ok by (rule array_ok)

text \<open>
  C8: \<open>And\<close> accepts what all its schemas accept, \<open>Or\<close> what one of them accepts (or anything when
  it has none), \<open>Not\<close> what its schema rejects; null is decided by the composite alone.
\<close>

theorem composite_accepts:
  fixes E :: env
  shows "accepts E (AndS (AndSchema b ss)) v m =
      (if v = VNil then nil_ok b else list_all (\<lambda>s. accepts E s v m) ss)
   \<and> accepts E (OrS (OrSchema b ss)) v m =
      (if v = VNil then nil_ok b else ss = [] \<or> list_ex (\<lambda>s. accepts E s v m) ss)
   \<and> accepts E (NotS (NotSchema b s)) v m =
      (if v = VNil then nil_ok b else \<not> accepts E s v m)"
  unfolding accepts_ok ok_def [of _ "AndS _"] ok_def [of _ "OrS _"] ok_def [of _ "NotS _"]
  by (simp add: report_def base_sface_def and_report_def or_report_def not_report_def
      clean_guarded_report nil_ok_def clean_ok list_all_iff list_ex_iff)

text \<open>
  C9: trying the alternatives of \<open>Or\<close> and the schema of \<open>Not\<close> leaves no trace: the context gains
  one error at most, and no transformation.
\<close>

theorem trials_leave_no_trace:
  "c_trans (validate E (OrS s) v c) = c_trans c
   \<and> length (c_errors (validate E (OrS s) v c)) \<le> Suc (length (c_errors c))
   \<and> c_trans (validate E (NotS n) v c) = c_trans c
   \<and> length (c_errors (validate E (NotS n) v c)) \<le> Suc (length (c_errors c))"
  by (simp add: validate_def base_iface_def Let_def or_Validate_def not_Validate_def
      guarded_def CheckRequired_def AddError_def)

lemma string_violations_Nil:
  "string_violations s str = [] \<longleftrightarrow>
          (case ss_minLength s of None \<Rightarrow> True | Some n \<Rightarrow> n \<le> int (length str))
        \<and> (case ss_maxLength s of None \<Rightarrow> True | Some n \<Rightarrow> int (length str) \<le> n)
        \<and> String_PatternMatch s str
        \<and> (ss_enum s = [] \<or> List.member (ss_enum s) str)
        \<and> list_all (\<lambda>f. f (VStr str) = None) (ss_validators s)"
  by (auto simp: string_violations_def list_all_iff split: option.splits)

lemma accepts_StringS:
  fixes E :: env
  shows "accepts E (StringS s) v m =
   (if v = VNil then nil_ok (ss_base s)
    else (case string_reading (e_lib E) v m of None \<Rightarrow> False
      | Some str \<Rightarrow> string_violations s str = []))"
proof (cases "v = VNil")
  case True
  then show ?thesis
    by (simp add: accepts_ok ok_def report_def base_sface_def string_report_def guarded_report_def
        nil_ok_def)
next
  case False
  then show ?thesis
    by (simp add: accepts_ok ok_def report_def base_sface_def clean_string_report split: option.splits)
qed

lemma number_violations_Nil:
  "number_violations s num = [] \<longleftrightarrow>
          (case ns_min s of None \<Rightarrow> True | Some lo \<Rightarrow> \<not> num < lo)
        \<and> (case ns_max s of None \<Rightarrow> True | Some hi \<Rightarrow> \<not> hi < num)
        \<and> (case ns_multipleOf s of None \<Rightarrow> True
           | Some mul \<Rightarrow> f_eq mul f_zero \<or> f_eq (f_mod num mul) f_zero)
        \<and> list_all (\<lambda>f. f (VFloat64 num) = None) (ns_validators s)"
  by (auto simp: number_violations_def list_all_iff split: option.splits)

lemma accepts_NumberS:
  fixes E :: env
  shows "accepts E (NumberS s) v m =
   (if v = VNil then nil_ok (ns_base s)
    else (case toFloat64WithMode v m of None \<Rightarrow> False
      | Some num \<Rightarrow> number_violations s num = []))"
proof (cases "v = VNil")
  case True
  then show ?thesis
    by (simp add: accepts_ok ok_def report_def base_sface_def number_report_def guarded_report_def
        nil_ok_def)
next
  case False
  then show ?thesis
    by (simp add: accepts_ok ok_def report_def base_sface_def clean_number_report split: option.splits)
qed

text \<open>
  C10: a string schema accepts what reads as a string (in strict mode strings only) within the
  length bounds, matching the pattern, in the enumeration if there is one, and passing the
  custom validators.
\<close>

theorem string_accepts:
  fixes E :: env
  shows "accepts E (StringS s) v m =
   (if v = VNil then nil_ok (ss_base s)
    else (case string_reading (e_lib E) v m of None \<Rightarrow> False
      | Some str \<Rightarrow>
          (case ss_minLength s of None \<Rightarrow> True | Some n \<Rightarrow> n \<le> int (length str))
        \<and> (case ss_maxLength s of None \<Rightarrow> True | Some n \<Rightarrow> int (length str) \<le> n)
        \<and> String_PatternMatch s str
        \<and> (ss_enum s = [] \<or> List.member (ss_enum s) str)
        \<and> list_all (\<lambda>f. f (VStr str) = None) (ss_validators s)))"
  by (simp add: accepts_StringS string_violations_Nil split: option.splits)

text \<open>
  C11: a number schema accepts what reads as a number that is not below the minimum, not above
  the maximum, divisible by the non-zero divisor, and passing the custom validators.
\<close>

theorem number_accepts:
  fixes E :: env
  shows "accepts E (NumberS s) v m =
   (if v = VNil then nil_ok (ns_base s)
    else (case toFloat64WithMode v m of None \<Rightarrow> False
      | Some num \<Rightarrow>
          (case ns_min s of None \<Rightarrow> True | Some lo \<Rightarrow> \<not> num < lo)
        \<and> (case ns_max s of None \<Rightarrow> True | Some hi \<Rightarrow> \<not> hi < num)
        \<and> (case ns_multipleOf s of None \<Rightarrow> True
           | Some mul \<Rightarrow> f_eq mul f_zero \<or> f_eq (f_mod num mul) f_zero)
        \<and> list_all (\<lambda>f. f (VFloat64 num) = None) (ns_validators s)))"
  by (simp add: accepts_NumberS number_violations_Nil split: option.splits)

section \<open>Types\<close>

text \<open>The values of a schema type in strict mode.\<close>

fun of_type :: "schema_type \<Rightarrow> gval \<Rightarrow> bool" where
  "of_type TypeString v = (\<exists>str. v = VStr str)"
| "of_type TypeNumber v = is_numeric v"
| "of_type TypeBool v = (\<exists>b. v = VBool b)"
| "of_type TypeObject v = (convertToMap v \<noteq> None)"
| "of_type TypeArray v = (as_slice v \<noteq> None)"
| "of_type _ v = True"

fun basic :: "schema \<Rightarrow> bool" where
  "basic (StringS s) = True"
| "basic (NumberS s) = True"
| "basic (BoolS s) = True"
| "basic (ObjectS s) = True"
| "basic (ArrayS s) = True"
| "basic _ = False"

lemma accepts_BoolS_type:
  "accepts E (BoolS s) v Strict \<Longrightarrow> v \<noteq> VNil \<Longrightarrow> \<exists>b. v = VBool b"
  by (auto simp: accepts_clean report_def base_sface_def bool_report_def clean_guarded_report
      clean_typed_report type_ok_bool)

text \<open>
  C12: in strict mode a basic schema accepts nothing but null and the values of its type.
\<close>

theorem accepted_has_type:
  assumes "accepts E s v Strict" and "basic s" and "v \<noteq> VNil"
  shows "of_type (schema_Type s) v"
proof (cases s)
  case (StringS t)
  with assms show ?thesis
    by (auto simp: accepts_StringS string_reading_def as_string_def split: option.splits gval.splits)
next
  case (NumberS t)
  with assms show ?thesis
    by (auto simp: accepts_NumberS toFloat64WithMode_def is_numeric_def split: option.splits gval.splits)
next
  case (BoolS t)
  with assms accepts_BoolS_type show ?thesis by auto
next
  case (ObjectS t)
  with assms show ?thesis
    unfolding accepts_ok by (auto simp: object_ok split: option.splits)
next
  case (ArrayS t)
  with assms show ?thesis
    unfolding accepts_ok by (auto simp: array_ok split: option.splits)
qed (use assms in simp_all)

section \<open>A concrete environment\<close>

text \<open>
  For the witnesses: no regular expression compiles, no time parses, and
  maps are walked in the order of their keys.
\<close>

definition sample_lib :: go_lib where
  "sample_lib = \<lparr>lib_regexp_compile = \<lambda>_. Inl ''unsupported'', lib_time_parse = \<lambda>_ _. Inl ''unsupported'',
     lib_time_format = \<lambda>_ _. [], lib_time_string = \<lambda>_. [], lib_now = \<lparr>t_instant = 0, t_offset = 0\<rparr>\<rparr>"

definition sample_env :: env where
  "sample_env = \<lparr>e_lib = sample_lib, e_order = \<lambda>_ ks. ks\<rparr>"

theorem accepted_has_type_witness: "of_type TypeString (VStr ''a'')"
  using accepted_has_type [of sample_env "StringS String_new" "VStr ''a''"]
  by (simp add: accepts_StringS string_reading_def as_string_def string_violations_Nil String_new_def
      String_PatternMatch_def)

end
