(* ===== verification/CompileProps.thy ===== *)
theory CompileProps
  imports Acceptance
begin

text \<open>
  What \<open>Compile\<close> keeps of a schema: for strings and numbers the acceptance, on the values the
  compiled checks read as the schema does; for objects, arrays, composites, custom and date/time
  schemas everything. The last theorems show inputs on which a compiled schema differs.
\<close>

section \<open>Running compiled checks\<close>

lemma validate_compiled_with:
  "validate E (compiled_with s ks) v =
   guarded (extractBase (schema_Type s) (IsRequired s) (IsNullable s))
     (\<lambda>v c. fold (\<lambda>k. run_check (e_lib E) (iface_of E s) k v) ks c) v"
  by (simp add: fun_eq_iff validate_def compiled_with_def base_iface_def compiled_Validate_def)

lemma extractBase_flags [simp]:
  "bs_required (extractBase t r n) = r" "bs_nullable (extractBase t r n) = n"
  by (simp_all add: extractBase_def SetNullable_def SetRequired_def)

lemma run_check_simps [simp]:
  "run_check L i CkDelegate v c = i_validate i v c"
  by (simp add: run_check_def)

lemma run_check_error:
  "k \<noteq> CkDelegate \<Longrightarrow> run_check L i k v c = (case check_error L k v (c_mode c) of
     None \<Rightarrow> c | Some (msg, shown) \<Rightarrow> AddError msg shown c)"
  by (cases k) (simp_all add: run_check_def)

lemma delegate_guarded:
  assumes "i_validate (iface_of E s) = guarded b R"
    and "bs_required b = IsRequired s" "bs_nullable b = IsNullable s"
  shows "validate E (compiled_with s [CkDelegate]) v c = validate E s v c"
proof (cases "v = VNil")
  case True
  then show ?thesis
    by (simp add: validate_compiled_with) (simp add: validate_def assms guarded_nil)
next
  case False
  then show ?thesis by (simp add: validate_compiled_with) (simp add: validate_def)
qed

text \<open>
  C14: a compiled object, array, composite, custom or date/time schema validates exactly as the
  schema it was compiled from: same errors, same order, same context.
\<close>

theorem compile_transparent:
  "validate E (compile_schema (ObjectS o')) v c = validate E (ObjectS o') v c
   \<and> validate E (compile_schema (ArrayS a)) v c = validate E (ArrayS a) v c
   \<and> validate E (compile_schema (AndS an)) v c = validate E (AndS an) v c
   \<and> validate E (compile_schema (OrS r)) v c = validate E (OrS r) v c
   \<and> validate E (compile_schema (NotS n)) v c = validate E (NotS n) v c
   \<and> validate E (compile_schema (CustomS cu)) v c = validate E (CustomS cu) v c
   \<and> validate E (compile_schema (DateTimeS d)) v c = validate E (DateTimeS d) v c"
  unfolding compile_schema.simps
  by (intro conjI; rule delegate_guarded)
    (auto simp: base_iface_def object_iface_def Let_def IsNullable_def fun_eq_iff
      object_Validate_def array_Validate_def and_Validate_def or_Validate_def not_Validate_def
      custom_Validate_def datetime_Validate_def object_schema.map_sel array_schema.map_sel
      and_schema.map_sel or_schema.map_sel not_schema.map_sel)

text \<open>Compiling keeps the type and the two flags, and compiling twice is compiling once.\<close>

theorem compile_keeps_interface:
  "schema_Type (compile_schema s) = schema_Type s \<and> IsRequired (compile_schema s) = IsRequired s
   \<and> IsNullable (compile_schema s) = IsNullable s
   \<and> compile_schema (compile_schema s) = compile_schema s"
  by (cases s) (simp_all add: compiled_with_def IsNullable_def)

section \<open>Compiled strings\<close>

lemma run_check_string_simps:
  "run_check L i (CkMinLength n) v c = (let str = toString L v (c_mode c) in
     if (str \<noteq> [] \<or> v \<noteq> VNil) \<and> int (length str) < n then AddError (min_length_msg n str) (VStr str) c else c)"
  "run_check L i (CkMaxLength n) v c = (let str = toString L v (c_mode c) in
     if n < int (length str) then AddError (max_length_msg n str) (VStr str) c else c)"
  "run_check L i (CkPattern re fmt pat) v c = (let str = toString L v (c_mode c) in
     if \<not> re str then AddError (pattern_msg fmt pat) (VStr str) c else c)"
  "run_check L i (CkEnum vals) v c = (let str = toString L v (c_mode c) in
     if str \<notin> set vals then AddError (enum_msg vals) (VStr str) c else c)"
  "run_check L i (CkStringValidator f) v c = (let str = toString L v (c_mode c) in
     run_validator (VStr str) (VStr str) f c)"
  by (auto simp: run_check_def Let_def run_validator_def split: option.splits)

lemma toString_reading: "string_reading L v m = Some str \<Longrightarrow> toString L v m = str"
  by (cases "as_string v") (auto simp: string_reading_def toString_def as_string_def ConvertToString_def
      split: if_splits gval.splits)

lemma fold_string_validators:
  assumes "toString L v (c_mode c) = str"
  shows "fold (\<lambda>k. run_check L i k v) (map CkStringValidator fs) c = run_validators fs (VStr str) (VStr str) c"
  using assms
proof (induction fs arbitrary: c)
  case (Cons f fs)
  have "c_mode (run_validator (VStr str) (VStr str) f c) = c_mode c"
    by (simp add: run_validator_def AddError_def split: option.splits)
  with Cons show ?case
    by (simp add: run_check_string_simps run_validators_def)
qed (simp add: run_validators_def)

lemma AddError_mode [simp]: "c_mode (AddError msg v c) = c_mode c"
  by (simp add: AddError_def)

text \<open>On a value that reads as a string the compiled checks are the constraints.\<close>

lemma compiled_string_checks:
  assumes "v \<noteq> VNil" and reading: "string_reading L v (c_mode c) = Some str"
    and "ss_patternStr s = [] \<Longrightarrow> \<forall>x. String_PatternMatch s x"
  shows "fold (\<lambda>k. run_check L i k v) (compile_string s) c = string_constraints s str c"
proof -
  have pat: "re str" if "ss_patternStr s = []" "ss_pattern s = Some re" for re
    using assms(3) that by (simp add: String_PatternMatch_def)
  have type: "run_check L i CkStringType v c = c"
    using reading by (auto simp: run_check_def string_reading_def split: if_splits)
  have str: "toString L v (c_mode c) = str" by (rule toString_reading [OF reading])
  let ?run = "\<lambda>k. run_check L i k v"
  let ?m = "c_mode c"
  have blocks:
    "fold ?run (case ss_minLength s of None \<Rightarrow> [] | Some n \<Rightarrow> [CkMinLength n]) d = check_minLength s str d"
    "fold ?run (case ss_maxLength s of None \<Rightarrow> [] | Some n \<Rightarrow> [CkMaxLength n]) d = check_maxLength s str d"
    "fold ?run (if 0 < length (ss_enum s) then [CkEnum (ss_enum s)] else []) d = check_enum s str d"
    "fold ?run (map CkStringValidator (ss_validators s)) d
     = run_validators (ss_validators s) (VStr str) (VStr str) d"
    if "c_mode d = ?m" for d
    using assms(1) str that
    by (simp_all add: run_check_string_simps Let_def check_minLength_def check_maxLength_def
        check_enum_def fold_string_validators split: option.splits)
  have pattern: "fold ?run (if ss_patternStr s \<noteq> []
       then [CkPattern (String_PatternMatch s) (ss_formatType s) (ss_patternStr s)] else []) d
     = check_pattern s str d" if "c_mode d = ?m" for d
    using assms(1) str that
    by (cases "ss_pattern s")
      (auto simp: run_check_string_simps check_pattern_def String_PatternMatch_def dest: pat)
  have modes: "c_mode (check_minLength s str d) = c_mode d" "c_mode (check_maxLength s str d) = c_mode d"
    "c_mode (check_pattern s str d) = c_mode d" "c_mode (check_enum s str d) = c_mode d" for d
    by (simp_all add: check_minLength_def check_maxLength_def check_pattern_def check_enum_def
        split: option.splits)
  show ?thesis
    by (simp only: compile_string_def string_constraints_def Let_def fold_append comp_apply
        fold_simps type blocks pattern modes)
qed

lemma clean_check_report:
  "k \<noteq> CkDelegate \<Longrightarrow> clean (check_report L i k v p m) \<longleftrightarrow> check_error L k v m = None"
  by (cases k) (auto simp: check_report_def split: option.splits)

lemma compiled_accepts:
  fixes E :: env
  assumes "CkDelegate \<notin> set ks"
  shows "accepts E (compiled_with s ks) v m \<longleftrightarrow>
   (if v = VNil then \<not> IsRequired s \<and> IsNullable s
    else list_all (\<lambda>k. check_error (e_lib E) k v m = None) ks)"
proof -
  have "clean (check_report L i k v p m) \<longleftrightarrow> check_error L k v m = None" if "k \<in> set ks" for L i k p
    using clean_check_report that assms by metis
  then show ?thesis
    by (auto simp: accepts_clean report_def compiled_with_def base_sface_def compiled_report_def
        clean_guarded_report list_all_iff)
qed

lemma string_check_errors:
  assumes "v \<noteq> VNil" and "ss_patternStr s = [] \<Longrightarrow> \<forall>x. String_PatternMatch s x"
  shows "list_all (\<lambda>k. check_error L k v m = None) (compile_string s) \<longleftrightarrow>
    (\<exists>str. string_reading L v m = Some str \<and> string_violations s str = [])"
proof (cases "string_reading L v m")
  case None
  then have "check_error L CkStringType v m \<noteq> None"
    by (auto simp: string_reading_def split: if_splits)
  with None show ?thesis by (simp add: compile_string_def)
next
  case (Some str)
  have type: "check_error L CkStringType v m = None"
    using Some by (auto simp: string_reading_def split: if_splits)
  have str: "toString L v m = str" by (rule toString_reading [OF Some])
  have pat: "ss_patternStr s = [] \<Longrightarrow> String_PatternMatch s str"
    using assms(2) by blast
  let ?P = "\<lambda>k. check_error L k v m = None"
  have "list_all ?P (case ss_minLength s of None \<Rightarrow> [] | Some n \<Rightarrow> [CkMinLength n]) \<longleftrightarrow>
      (case ss_minLength s of Some n \<Rightarrow> if int (length str) < n then [min_length_msg n str] else []
        | None \<Rightarrow> []) = []"
    and "list_all ?P (case ss_maxLength s of None \<Rightarrow> [] | Some n \<Rightarrow> [CkMaxLength n]) \<longleftrightarrow>
      (case ss_maxLength s of Some n \<Rightarrow> if n < int (length str) then [max_length_msg n str] else []
        | None \<Rightarrow> []) = []"
    and "list_all ?P (if ss_patternStr s \<noteq> []
        then [CkPattern (String_PatternMatch s) (ss_formatType s) (ss_patternStr s)] else []) \<longleftrightarrow>
      (if String_PatternMatch s str then [] else [pattern_msg (ss_formatType s) (ss_patternStr s)]) = []"
    and "list_all ?P (if 0 < length (ss_enum s) then [CkEnum (ss_enum s)] else []) \<longleftrightarrow>
      (if ss_enum s = [] \<or> str \<in> set (ss_enum s) then [] else [enum_msg (ss_enum s)]) = []"
    and "list_all ?P (map CkStringValidator (ss_validators s)) \<longleftrightarrow>
      concat (map (\<lambda>f. case f (VStr str) of None \<Rightarrow> [] | Some msg \<Rightarrow> [msg]) (ss_validators s)) = []"
    using assms(1) pat by (auto simp: str Let_def list_all_iff split: option.splits)
  note blocks = this
  show ?thesis
    unfolding compile_string_def string_violations_def list_all_append blocks append_is_Nil_conv Some
    using type by (simp del: check_error.simps)
qed

lemma string_accepts_compiled:
  assumes "ss_patternStr s = [] \<Longrightarrow> \<forall>x. String_PatternMatch s x"
  shows "accepts E (compile_schema (StringS s)) v m = accepts E (StringS s) v m"
proof (cases "v = VNil")
  case True
  have "CkDelegate \<notin> set (compile_string s)"
    by (auto simp: compile_string_def split: option.splits)
  with True show ?thesis
    by (simp add: compiled_accepts accepts_StringS nil_ok_def IsNullable_def)
next
  case False
  have "CkDelegate \<notin> set (compile_string s)"
    by (auto simp: compile_string_def split: option.splits)
  with False show ?thesis
    using string_check_errors [OF False assms, of "e_lib E" m]
    by (simp add: compiled_accepts)
      (simp add: accepts_clean report_def base_sface_def clean_string_report)
qed

text \<open>
  C15: a compiled string schema accepts the same values as the schema, provided that a pattern
  whose text is empty matches every string, as the empty regular expression of Go does: the
  compiler takes an empty pattern text for no pattern.
\<close>

theorem compile_string_accepts:
  assumes "ss_patternStr s = [] \<Longrightarrow> \<forall>x. String_PatternMatch s x"
  shows "accepts E (compile_schema (StringS s)) v m = accepts E (StringS s) v m"
  by (rule string_accepts_compiled) (rule assms)

text \<open>On a value that reads as a string, it also adds the same errors in the same order.\<close>

theorem compile_string_errors:
  assumes "ss_patternStr s = [] \<Longrightarrow> \<forall>x. String_PatternMatch s x"
    and "v \<noteq> VNil" and "string_reading (e_lib E) v (c_mode c) = Some str"
  shows "validate E (compile_schema (StringS s)) v c = validate E (StringS s) v c"
proof -
  have "validate E (StringS s) v c = string_constraints s str c"
    using assms(2,3)
    by (auto simp: validate_def base_iface_def string_Validate_def string_reading_def split: if_splits)
  then show ?thesis
    using compiled_string_checks [OF assms(2,3,1)] assms(2) by (simp add: validate_compiled_with)
qed

definition two_letters :: string_schema where
  "two_letters = String_MinLength 2 String_new"

theorem compile_string_accepts_witness:
  "\<not> accepts sample_env (compile_schema (StringS two_letters)) (VStr ''a'') Strict"
  using compile_string_accepts [of two_letters sample_env "VStr ''a''" Strict]
  by (simp add: accepts_StringS string_violations_Nil string_reading_def as_string_def two_letters_def
      String_MinLength_def String_new_def String_PatternMatch_def)

theorem compile_string_errors_witness:
  "validate sample_env (compile_schema (StringS two_letters)) (VStr ''a'') (NewValidationContext Strict) =
     validate sample_env (StringS two_letters) (VStr ''a'') (NewValidationContext Strict)"
  by (rule compile_string_errors [where str = "''a''"])
    (simp_all add: two_letters_def String_MinLength_def String_new_def string_reading_def
      as_string_def NewValidationContext_def String_PatternMatch_def)

section \<open>Compiled numbers\<close>

text \<open>The values that both number readings take the same way.\<close>

definition wide_number :: "gval \<Rightarrow> bool" where
  "wide_number v = (case v of VFloat64 _ \<Rightarrow> True | VFloat32 _ \<Rightarrow> True
     | VInt k _ \<Rightarrow> k = KInt \<or> k = KInt64 | _ \<Rightarrow> False)"

lemma compiled_toFloat_wide: "wide_number v \<Longrightarrow> compiled_toFloat v = toFloat64 v"
  by (cases v) (auto simp: wide_number_def compiled_toFloat_def toFloat64_def)

text \<open>
  A float64 value in the range of \<open>int64\<close>, which beyond \<open>2 ^ 53\<close> has no fraction: truncating it
  loses the fraction only.
\<close>

definition int64_range :: "f64 \<Rightarrow> bool" where
  "int64_range x = (case x of FFin q \<Rightarrow> - (2 ^ 63) \<le> q \<and> q < 2 ^ 63 \<and>
        (\<bar>q\<bar> \<le> 2 ^ 53 \<or> q \<in> \<int> \<and> f_round double_fmt q = FFin q)
     | FNegZero \<Rightarrow> True | _ \<Rightarrow> False)"

lemma rat_trunc_range:
  assumes "- (2 ^ 63) \<le> q" and "q < 2 ^ 63"
  shows "- (2 ^ 63) \<le> rat_trunc q \<and> rat_trunc q < 2 ^ 63"
proof (cases "0 \<le> q")
  case True
  with assms show ?thesis by (simp add: rat_trunc_def floor_less_iff)
next
  case False
  define k where "k = \<lfloor>- q\<rfloor>"
  have "of_int k \<le> - q" unfolding k_def by (rule of_int_floor_le)
  also have "\<dots> \<le> of_int (2 ^ 63)" using assms(1) by simp
  finally have "k \<le> 2 ^ 63" by (simp only: of_int_le_iff)
  moreover have "0 \<le> k" and "rat_trunc q = - k"
    using False by (simp_all add: k_def rat_trunc_def)
  ultimately show ?thesis by simp
qed

lemma f_of_int_trunc:
  assumes "\<bar>q\<bar> \<le> 2 ^ 53"
  shows "f_of_int (rat_trunc q) = FFin (of_int (rat_trunc q))"
proof -
  have "\<bar>rat_trunc q\<bar> \<le> 2 ^ 53"
  proof (cases "0 \<le> q")
    case True
    have "of_int \<lfloor>q\<rfloor> \<le> q" by (rule of_int_floor_le)
    also have "\<dots> \<le> of_int (2 ^ 53)" using assms by simp
    finally show ?thesis using True by (simp only: of_int_le_iff) (simp add: rat_trunc_def)
  next
    case False
    have "of_int \<lfloor>- q\<rfloor> \<le> - q" by (rule of_int_floor_le)
    also have "\<dots> \<le> of_int (2 ^ 53)" using assms by simp
    finally show ?thesis using False by (simp only: of_int_le_iff) (simp add: rat_trunc_def)
  qed
  then show ?thesis by (simp add: f_of_int_def)
qed

lemma not_int64_iff:
  assumes "int64_range x"
  shows "not_int64 x \<longleftrightarrow> \<not> f_eq x (f_floor x)"
proof (cases x)
  case (FFin q)
  with assms have range: "- (2 ^ 63) \<le> q" "q < 2 ^ 63"
    and exact: "\<bar>q\<bar> \<le> 2 ^ 53 \<or> q \<in> \<int> \<and> f_round double_fmt q = FFin q"
    by (simp_all add: int64_range_def)
  have "f_to_int64 x = rat_trunc q"
    using rat_trunc_range [OF range] by (simp add: FFin Let_def)
  moreover have "f_eq x (f_of_int (rat_trunc q)) \<longleftrightarrow> q \<in> \<int>"
  proof (cases "q \<in> \<int>")
    case True
    then obtain i where q: "q = of_int i" by (auto elim: Ints_cases)
    with exact have "f_of_int i = FFin q"
      by (auto simp: f_of_int_def simp flip: of_int_abs)
    with q True show ?thesis by (simp add: FFin)
  next
    case False
    with exact have "f_of_int (rat_trunc q) = FFin (of_int (rat_trunc q))"
      by (simp add: f_of_int_trunc)
    moreover have "q \<noteq> of_int i" for i
      using False by (metis Ints_of_int)
    ultimately show ?thesis using False by (simp add: FFin)
  qed
  moreover have "f_eq x (f_floor x) \<longleftrightarrow> q \<in> \<int>"
    using f_floor_eq_iff [of q] f_eq_sym by (simp add: FFin)
  ultimately show ?thesis by (simp add: not_int64_def)
qed (use assms in \<open>simp_all add: int64_range_def not_int64_def f_of_int_def\<close>)

lemma number_check_errors:
  assumes "wide_number v" and "ns_multipleOf s = None"
    and "ns_isInteger s \<Longrightarrow> int64_range (toFloat64 v) \<and> integer_validator \<in> set (ns_validators s)"
    and "\<And>f. f \<in> set (ns_validators s) \<Longrightarrow> f v = None \<longleftrightarrow> f (VFloat64 (toFloat64 v)) = None"
  shows "list_all (\<lambda>k. check_error L k v m = None) (compile_number s) \<longleftrightarrow>
    number_violations s (toFloat64 v) = []"
proof -
  let ?P = "\<lambda>k. check_error L k v m = None" and ?x = "toFloat64 v"
  have num: "is_numeric v" "v \<noteq> VNil"
    using assms(1) by (cases v; simp add: wide_number_def is_numeric_def)+
  then have type: "?P (CkType TypeNumber)"
    by (simp add: type_ok_number)
  have float: "compiled_toFloat v = ?x" by (rule compiled_toFloat_wide [OF assms(1)])
  have int: "list_all ?P (if ns_isInteger s then [CkInteger] else [])"
    if "\<forall>f \<in> set (ns_validators s). f (VFloat64 ?x) = None"
  proof (cases "ns_isInteger s")
    case True
    then have "integer_validator (VFloat64 ?x) = None" using assms(3) that by blast
    then have "f_eq ?x (f_floor ?x)"
      by (simp add: integer_validator_def toFloat64_def Let_def split: if_splits)
    with True assms(3) not_int64_iff [of ?x] show ?thesis by (simp add: float)
  qed simp
  have "list_all ?P (case ns_min s of None \<Rightarrow> [] | Some lo \<Rightarrow> [CkMin lo]) \<longleftrightarrow>
      (case ns_min s of None \<Rightarrow> True | Some lo \<Rightarrow> \<not> ?x < lo)"
    and "list_all ?P (case ns_max s of None \<Rightarrow> [] | Some hi \<Rightarrow> [CkMax hi]) \<longleftrightarrow>
      (case ns_max s of None \<Rightarrow> True | Some hi \<Rightarrow> \<not> hi < ?x)"
    and "list_all ?P (map CkValidator (ns_validators s)) \<longleftrightarrow>
      (\<forall>f \<in> set (ns_validators s). f (VFloat64 ?x) = None)"
    using assms(4) by (auto simp: float list_all_iff split: option.splits)
  note blocks = this
  have viol: "number_violations s ?x = [] \<longleftrightarrow>
      (case ns_min s of None \<Rightarrow> True | Some lo \<Rightarrow> \<not> ?x < lo)
    \<and> (case ns_max s of None \<Rightarrow> True | Some hi \<Rightarrow> \<not> hi < ?x)
    \<and> (\<forall>f \<in> set (ns_validators s). f (VFloat64 ?x) = None)"
    by (auto simp: number_violations_def assms(2) split: option.splits)
  show ?thesis
    unfolding compile_number_def list_all_append blocks viol assms(2)
    using type int by (auto simp del: check_error.simps)
qed

text \<open>
  C16: a compiled number schema without divisor accepts the same values of the four number types
  its float conversion knows, provided its custom validators do not tell a value from its
  float64 reading, and for integer schemas the value fits an \<open>int64\<close>.
\<close>

theorem compile_number_accepts:
  assumes "wide_number v" and "ns_multipleOf s = None"
    and "ns_isInteger s \<Longrightarrow> int64_range (toFloat64 v) \<and> integer_validator \<in> set (ns_validators s)"
    and "\<And>f. f \<in> set (ns_validators s) \<Longrightarrow> f v = None \<longleftrightarrow> f (VFloat64 (toFloat64 v)) = None"
  shows "accepts E (compile_schema (NumberS s)) v m = accepts E (NumberS s) v m"
proof -
  have num: "is_numeric v" "v \<noteq> VNil"
    using assms(1) by (cases v; simp add: wide_number_def is_numeric_def)+
  have "CkDelegate \<notin> set (compile_number s)"
    by (auto simp: compile_number_def split: option.splits)
  with num number_check_errors [OF assms, of "e_lib E" m]
  have "accepts E (compile_schema (NumberS s)) v m \<longleftrightarrow> number_violations s (toFloat64 v) = []"
    by (simp add: compiled_accepts)
  with num show ?thesis
    by (simp add: accepts_clean report_def base_sface_def clean_number_report toFloat64WithMode_numeric)
qed

section \<open>Where a compiled schema differs\<close>

definition min_five :: number_schema where
  "min_five = Number_Min (FFin 5) Number_new"

definition multiple_of_zero :: number_schema where
  "multiple_of_zero = Number_MultipleOf (FFin 0) Number_new"

lemma f_round_neg_not_PInf: "q < 0 \<Longrightarrow> \<not> f_eq (FInf False) (f_round fmt q)"
  by (auto simp: f_round_def Let_def)

theorem compile_number_accepts_witness:
  "accepts sample_env (compile_schema (NumberS min_five)) (VInt KInt 10) Strict =
     accepts sample_env (NumberS min_five) (VInt KInt 10) Strict"
  by (rule compile_number_accepts)
    (simp_all add: min_five_def Number_Min_def Number_new_def wide_number_def)

text \<open>
  \<open>Number().Min(5)\<close> accepts the \<open>int32\<close> 10, but compiled it rejects it, reading it as 0; and
  \<open>Number().MultipleOf(0)\<close>, which checks nothing, rejects 1 once compiled.
\<close>

theorem compile_number_differs:
  "accepts E (NumberS min_five) (VInt KInt32 10) m
   \<and> \<not> accepts E (compile_schema (NumberS min_five)) (VInt KInt32 10) m
   \<and> accepts E (NumberS multiple_of_zero) (VFloat64 (FFin 1)) m
   \<and> \<not> accepts E (compile_schema (NumberS multiple_of_zero)) (VFloat64 (FFin 1)) m"
proof -
  have float: "f_of_int 10 = FFin 10" "f_of_int (- 9223372036854775808) = f_round double_fmt (- 9223372036854775808)"
    by (simp_all add: f_of_int_def)
  have rej: "\<not> accepts E (compile_schema (NumberS n)) v m"
    if "v \<noteq> VNil" "k \<in> set (compile_number n)" "check_error (e_lib E) k v m \<noteq> None" for n v k
  proof -
    have "CkDelegate \<notin> set (compile_number n)"
      by (auto simp: compile_number_def split: option.splits)
    with that show ?thesis by (auto simp: compiled_accepts list_all_iff)
  qed
  have "\<not> accepts E (compile_schema (NumberS min_five)) (VInt KInt32 10) m"
    by (rule rej [of _ "CkMin (FFin 5)"])
      (simp_all add: min_five_def Number_Min_def Number_new_def compile_number_def compiled_toFloat_def
        less_f64_def)
  moreover have "\<not> accepts E (compile_schema (NumberS multiple_of_zero)) (VFloat64 (FFin 1)) m"
    by (rule rej [of _ "CkMultipleOf (FFin 0)"])
      (simp_all add: multiple_of_zero_def Number_MultipleOf_def Number_new_def compile_number_def
        compiled_toFloat_def not_int64_def f_of_int_def f_neg_def f_round_neg_not_PInf)
  ultimately show ?thesis
    by (simp add: accepts_NumberS number_violations_Nil min_five_def Number_Min_def multiple_of_zero_def Number_MultipleOf_def
        Number_new_def toFloat64WithMode_def less_f64_def float f_zero_def)
qed

text \<open>
  \<open>Transform(String().Required())\<close> with a transformer that replaces null by a default.
\<close>

definition default_transformer :: "gval \<Rightarrow> transformer" where
  "default_transformer d v = Inr (if v = VNil then d else v)"

definition defaulted_string :: "schema transform_schema" where
  "defaulted_string = with_transform (StringS (String_Required String_new)) (default_transformer (VStr ''x''))"

text \<open>
  A transform that turns null into a valid string accepts null, but compiled it rejects it:
  the compiled schema checks null before the transform runs.
\<close>

theorem compile_transform_null_differs:
  "accepts E (TransformS defaulted_string) VNil m
   \<and> \<not> accepts E (compile_schema (TransformS defaulted_string)) VNil m"
proof
  show "accepts E (TransformS defaulted_string) VNil m"
    by (simp add: accepts_clean report_def defaulted_string_def with_transform_def Transform_new_def
        transform_sface_def transform_report_def default_transformer_def base_sface_def
        string_report_def guarded_report_def String_Required_def String_new_def as_string_def
        ConvertToString_def string_violations_def String_PatternMatch_def errs_at_def)
  show "\<not> accepts E (compile_schema (TransformS defaulted_string)) VNil m"
    by (simp add: accepts_clean report_def defaulted_string_def with_transform_def Transform_new_def
        compiled_with_def base_sface_def compiled_report_def clean_guarded_report new_base_def
        String_Required_def String_new_def SetRequired_def)
qed

end
