(* ===== verification/QueryLexer.thy ===== *)
theory QueryLexer
  imports Prelude
begin

text \<open>
  \<open>query/lexer.go\<close>: the lexer of the query language. The lexer reads bytes and classifies each
  as the Unicode character with that number, so the letters and spaces are those of Latin-1.
\<close>

section \<open>Character classes\<close>

definition is_digit :: "char \<Rightarrow> bool" where
  "is_digit ch = (let n = (of_char ch :: nat) in 48 \<le> n \<and> n \<le> 57)"

definition is_letter :: "char \<Rightarrow> bool" where
  "is_letter ch = (let n = (of_char ch :: nat) in
     (65 \<le> n \<and> n \<le> 90) \<or> (97 \<le> n \<and> n \<le> 122) \<or> n = 0xAA \<or> n = 0xB5 \<or> n = 0xBA
     \<or> (0xC0 \<le> n \<and> n \<le> 0xD6) \<or> (0xD8 \<le> n \<and> n \<le> 0xF6) \<or> (0xF8 \<le> n \<and> n \<le> 0xFF))"

definition is_space :: "char \<Rightarrow> bool" where
  "is_space ch = (let n = (of_char ch :: nat) in (9 \<le> n \<and> n \<le> 13) \<or> n = 32 \<or> n = 0x85 \<or> n = 0xA0)"

definition ident_char :: "char \<Rightarrow> bool" where
  "ident_char ch = (is_letter ch \<or> is_digit ch \<or> ch = CHR ''_'')"

section \<open>Tokens\<close>

datatype token_type = TokenEOF | TokenIdentifier | TokenDot | TokenLeftBracket | TokenRightBracket
  | TokenNumber | TokenStar | TokenError

record token =
  tk_type :: token_type
  tk_value :: string
  tk_pos :: nat

definition TokenTypeName :: "token_type \<Rightarrow> string" where
  "TokenTypeName t = (case t of TokenEOF \<Rightarrow> ''EOF'' | TokenIdentifier \<Rightarrow> ''Identifier''
     | TokenDot \<Rightarrow> ''Dot'' | TokenLeftBracket \<Rightarrow> ''LeftBracket'' | TokenRightBracket \<Rightarrow> ''RightBracket''
     | TokenNumber \<Rightarrow> ''Number'' | TokenStar \<Rightarrow> ''Star'' | TokenError \<Rightarrow> ''Error'')"

text \<open>The number of a token type, which \<open>%v\<close> prints.\<close>

definition token_type_number :: "token_type \<Rightarrow> nat" where
  "token_type_number t = (case t of TokenEOF \<Rightarrow> 0 | TokenIdentifier \<Rightarrow> 1 | TokenDot \<Rightarrow> 2
     | TokenLeftBracket \<Rightarrow> 3 | TokenRightBracket \<Rightarrow> 4 | TokenNumber \<Rightarrow> 5 | TokenStar \<Rightarrow> 6 | TokenError \<Rightarrow> 7)"

definition Token_String :: "token \<Rightarrow> string" where
  "Token_String t = (case tk_type t of TokenEOF \<Rightarrow> ''EOF''
     | TokenError \<Rightarrow> ''ERROR:'' @ tk_value t
     | ty \<Rightarrow> show_nat (token_type_number ty) @ '':'' @ tk_value t)"

definition FormatTokens :: "token list \<Rightarrow> string" where
  "FormatTokens ts = str_join '' '' (map Token_String ts)"

section \<open>The lexer\<close>

record lexer =
  lx_input :: string
  lx_pos :: nat

definition NewLexer :: "string \<Rightarrow> lexer" where
  "NewLexer input = \<lparr>lx_input = input, lx_pos = 0\<rparr>"

text \<open>The loops that move the position over the bytes of a class.\<close>

function scan :: "(char \<Rightarrow> bool) \<Rightarrow> string \<Rightarrow> nat \<Rightarrow> nat" where
  "scan P input pos = (if pos < length input \<and> P (input ! pos) then scan P input (Suc pos) else pos)"
  by pat_completeness auto
termination
  by (relation "measure (\<lambda>(P, input, pos). length input - pos)") auto

declare scan.simps [simp del]

definition slice :: "string \<Rightarrow> nat \<Rightarrow> nat \<Rightarrow> string" where
  "slice s i j = take (j - i) (drop i s)"

text \<open>\<open>%c\<close> of a byte: the UTF-8 encoding of the character with its number.\<close>

definition rune_text :: "char \<Rightarrow> string" where
  "rune_text ch = (let n = (of_char ch :: nat) in
     if n < 128 then [ch] else [char_of (0xC0 + n div 64), char_of (0x80 + n mod 64)])"

definition punct_type :: "char \<Rightarrow> token_type option" where
  "punct_type ch = (if ch = CHR ''.'' then Some TokenDot
     else if ch = CHR ''['' then Some TokenLeftBracket
     else if ch = CHR '']'' then Some TokenRightBracket
     else if ch = CHR ''*'' then Some TokenStar else None)"

definition lex_next :: "lexer \<Rightarrow> token \<times> lexer" where
  "lex_next l = (let input = lx_input l; pos = scan is_space input (lx_pos l) in
     if length input \<le> pos
     then (\<lparr>tk_type = TokenEOF, tk_value = [], tk_pos = pos\<rparr>, l\<lparr>lx_pos := pos\<rparr>)
     else let ch = input ! pos in
       case punct_type ch of
         Some ty \<Rightarrow> (\<lparr>tk_type = ty, tk_value = [ch], tk_pos = pos\<rparr>, l\<lparr>lx_pos := pos + 1\<rparr>)
       | None \<Rightarrow>
           if is_digit ch then
             (let e = scan is_digit input pos in
               (\<lparr>tk_type = TokenNumber, tk_value = slice input pos e, tk_pos = pos\<rparr>, l\<lparr>lx_pos := e\<rparr>))
           else if is_letter ch \<or> ch = CHR ''_'' then
             (let e = scan ident_char input pos in
               (\<lparr>tk_type = TokenIdentifier, tk_value = slice input pos e, tk_pos = pos\<rparr>, l\<lparr>lx_pos := e\<rparr>))
           else (\<lparr>tk_type = TokenError, tk_value = ''unexpected character: '' @ rune_text ch,
                   tk_pos = pos\<rparr>, l\<lparr>lx_pos := pos\<rparr>))"

definition lex_peek :: "lexer \<Rightarrow> token \<times> lexer" where
  "lex_peek l = (case lex_next l of (t, l') \<Rightarrow> (t, l'\<lparr>lx_pos := lx_pos l\<rparr>))"

definition stops :: "token \<Rightarrow> bool" where
  "stops t = (tk_type t = TokenEOF \<or> tk_type t = TokenError)"

section \<open>The bytes still to read\<close>

definition rest :: "lexer \<Rightarrow> string" where
  "rest l = drop (lx_pos l) (lx_input l)"

text \<open>The lexer on the rest of the input: type and text of the next token, and what remains.\<close>

definition lex_rest :: "string \<Rightarrow> (token_type \<times> string) \<times> string" where
  "lex_rest s = (let s = dropWhile is_space s in
     case s of
       [] \<Rightarrow> ((TokenEOF, []), [])
     | ch # r \<Rightarrow>
         (case punct_type ch of
            Some ty \<Rightarrow> ((ty, [ch]), r)
          | None \<Rightarrow>
              if is_digit ch then ((TokenNumber, takeWhile is_digit s), dropWhile is_digit s)
              else if is_letter ch \<or> ch = CHR ''_''
                then ((TokenIdentifier, takeWhile ident_char s), dropWhile ident_char s)
              else ((TokenError, ''unexpected character: '' @ rune_text ch), s)))"

lemma scan_takeWhile: "scan P s i = i + length (takeWhile P (drop i s))"
proof (induction P s i rule: scan.induct)
  case (1 P s i)
  show ?case
  proof (cases "i < length s \<and> P (s ! i)")
    case True
    with "1.IH" have "scan P s i = Suc i + length (takeWhile P (drop (Suc i) s))"
      by (simp add: scan.simps [of P s i])
    moreover have "drop i s = s ! i # drop (Suc i) s"
      using True by (simp add: Cons_nth_drop_Suc)
    ultimately show ?thesis using True by simp
  next
    case False
    then have "takeWhile P (drop i s) = []"
      by (cases "i < length s") (simp_all add: takeWhile_eq_Nil_iff hd_drop_conv_nth)
    with False show ?thesis by (auto simp: scan.simps [of P s i])
  qed
qed

lemma drop_scan: "drop (scan P s i) s = dropWhile P (drop i s)"
  by (simp add: scan_takeWhile dropWhile_eq_drop add.commute)

lemma slice_scan: "slice s i (scan P s i) = takeWhile P (drop i s)"
  by (simp add: slice_def scan_takeWhile takeWhile_eq_take [symmetric])

lemma lex_rest_Cons:
  assumes "dropWhile is_space s = ch # r"
  shows "lex_rest s = (case punct_type ch of
       Some ty \<Rightarrow> ((ty, [ch]), r)
     | None \<Rightarrow>
         if is_digit ch then ((TokenNumber, takeWhile is_digit (ch # r)), dropWhile is_digit (ch # r))
         else if is_letter ch \<or> ch = CHR ''_''
           then ((TokenIdentifier, takeWhile ident_char (ch # r)), dropWhile ident_char (ch # r))
         else ((TokenError, ''unexpected character: '' @ rune_text ch), ch # r))"
  unfolding lex_rest_def assms Let_def list.case by (rule refl)

lemma lex_next_rest:
  "lex_next l = (t, l') \<Longrightarrow>
   lex_rest (rest l) = ((tk_type t, tk_value t), rest l') \<and> lx_input l' = lx_input l"
proof -
  assume run: "lex_next l = (t, l')"
  let ?s = "lx_input l" and ?p = "scan is_space (lx_input l) (lx_pos l)"
  have skip: "dropWhile is_space (rest l) = drop ?p ?s"
    by (simp add: rest_def drop_scan)
  show ?thesis
  proof (cases "length ?s \<le> ?p")
    case True
    then show ?thesis
      using run unfolding lex_rest_def skip by (auto simp: lex_next_def Let_def rest_def)
  next
    case False
    then have s: "drop ?p ?s = ?s ! ?p # drop (Suc ?p) ?s" by (simp add: Cons_nth_drop_Suc)
    let ?ch = "?s ! ?p"
    have nxt: "lex_next l = (case punct_type ?ch of
         Some ty \<Rightarrow> (\<lparr>tk_type = ty, tk_value = [?ch], tk_pos = ?p\<rparr>, l\<lparr>lx_pos := ?p + 1\<rparr>)
       | None \<Rightarrow>
           if is_digit ?ch then
             (\<lparr>tk_type = TokenNumber, tk_value = takeWhile is_digit (drop ?p ?s), tk_pos = ?p\<rparr>,
              l\<lparr>lx_pos := scan is_digit ?s ?p\<rparr>)
           else if is_letter ?ch \<or> ?ch = CHR ''_'' then
             (\<lparr>tk_type = TokenIdentifier, tk_value = takeWhile ident_char (drop ?p ?s), tk_pos = ?p\<rparr>,
              l\<lparr>lx_pos := scan ident_char ?s ?p\<rparr>)
           else (\<lparr>tk_type = TokenError, tk_value = ''unexpected character: '' @ rune_text ?ch,
                   tk_pos = ?p\<rparr>, l\<lparr>lx_pos := ?p\<rparr>))"
      unfolding lex_next_def Let_def slice_scan using False by (rule if_not_P)
    have lex: "lex_rest (rest l) = (case punct_type ?ch of
            Some ty \<Rightarrow> ((ty, [?ch]), drop (Suc ?p) ?s)
          | None \<Rightarrow>
              if is_digit ?ch then ((TokenNumber, takeWhile is_digit (drop ?p ?s)), dropWhile is_digit (drop ?p ?s))
              else if is_letter ?ch \<or> ?ch = CHR ''_''
                then ((TokenIdentifier, takeWhile ident_char (drop ?p ?s)), dropWhile ident_char (drop ?p ?s))
              else ((TokenError, ''unexpected character: '' @ rune_text ?ch), drop ?p ?s))"
      unfolding s by (rule lex_rest_Cons) (simp only: skip s)
    show ?thesis
      using run unfolding nxt lex
      by (cases "punct_type ?ch"; cases "is_digit ?ch"; cases "is_letter ?ch \<or> ?ch = CHR ''_''")
        (auto simp: rest_def drop_scan)
  qed
qed

section \<open>Progress\<close>

lemma is_digit_ident [simp]: "is_digit ch \<Longrightarrow> ident_char ch"
  by (simp add: ident_char_def)

lemma ident_char_not_space: "ident_char ch \<Longrightarrow> \<not> is_space ch"
  by (auto simp: ident_char_def is_letter_def is_digit_def is_space_def Let_def)

lemma punct_not_space: "punct_type ch = Some ty \<Longrightarrow> \<not> is_space ch"
  by (auto simp: punct_type_def is_space_def split: if_splits)

lemma lex_rest_cases:
  obtains "dropWhile is_space s = []" "lex_rest s = ((TokenEOF, []), [])"
  | ch r ty where "dropWhile is_space s = ch # r" "punct_type ch = Some ty" "lex_rest s = ((ty, [ch]), r)"
  | ch r P ty where "dropWhile is_space s = ch # r" "P ch" "\<And>x. P x \<Longrightarrow> ident_char x"
      "ty = TokenNumber \<or> ty = TokenIdentifier"
      "lex_rest s = ((ty, takeWhile P (ch # r)), dropWhile P (ch # r))"
  | ch r where "dropWhile is_space s = ch # r"
      "lex_rest s = ((TokenError, ''unexpected character: '' @ rune_text ch), ch # r)"
proof (cases "dropWhile is_space s")
  case Nil
  then show thesis
    by (rule that(1)) (simp only: lex_rest_def Nil Let_def list.case)
next
  case (Cons ch r)
  note lex = lex_rest_Cons [OF Cons]
  show thesis
  proof (cases "punct_type ch")
    case (Some ty)
    with lex that(2) [OF Cons] show thesis by simp
  next
    case None
    consider "is_digit ch" | "\<not> is_digit ch" "is_letter ch \<or> ch = CHR ''_''"
      | "\<not> is_digit ch" "\<not> (is_letter ch \<or> ch = CHR ''_'')" by blast
    then show thesis
    proof cases
      case 1
      with None lex that(3) [OF Cons, of is_digit TokenNumber] show thesis by simp
    next
      case 2
      then have "ident_char ch" by (auto simp: ident_char_def)
      with 2 None lex that(3) [OF Cons, of ident_char TokenIdentifier] show thesis by simp
    next
      case 3
      with None lex that(4) [OF Cons] show thesis by simp
    qed
  qed
qed

lemma length_rest_le:
  "lex_rest s = (tok, r) \<Longrightarrow> length r \<le> length s"
proof (rule lex_rest_cases [of s])
  fix ch r' assume "dropWhile is_space s = ch # r'"
  then have len: "Suc (length r') \<le> length s"
    by (metis length_Cons length_dropWhile_le)
  show "length r \<le> length s" if "lex_rest s = (tok, r)" "lex_rest s = ((ty, [ch]), r')" for ty
    using that len by simp
  show "length r \<le> length s" if "lex_rest s = (tok, r)"
    "lex_rest s = ((ty, takeWhile P (ch # r')), dropWhile P (ch # r'))" for P ty
    using that len length_dropWhile_le [of P "ch # r'"] by auto
  show "length r \<le> length s" if "lex_rest s = (tok, r)"
    "lex_rest s = ((TokenError, ''unexpected character: '' @ rune_text ch), ch # r')"
    using that len by auto
qed simp

lemma length_rest_less:
  "lex_rest s = ((ty, val), r) \<Longrightarrow> ty \<noteq> TokenEOF \<Longrightarrow> ty \<noteq> TokenError \<Longrightarrow> length r < length s"
proof (rule lex_rest_cases [of s])
  fix ch r' assume "dropWhile is_space s = ch # r'"
  then have len: "Suc (length r') \<le> length s"
    by (metis length_Cons length_dropWhile_le)
  show "length r < length s" if "lex_rest s = ((ty, val), r)" "lex_rest s = ((ty', [ch]), r')" for ty'
    using that len by simp
  show "length r < length s" if "lex_rest s = ((ty, val), r)" "P ch"
    "lex_rest s = ((ty', takeWhile P (ch # r')), dropWhile P (ch # r'))" for P ty'
    using that len length_dropWhile_le [of P r'] by auto
qed auto

lemma lex_next_less:
  "lex_next l = (t, l') \<Longrightarrow> \<not> stops t \<Longrightarrow> length (rest l') < length (rest l)"
  using lex_next_rest [of l t l'] length_rest_less [of "rest l"] by (auto simp: stops_def)

lemma lex_next_le: "lex_next l = (t, l') \<Longrightarrow> length (rest l') \<le> length (rest l)"
  using lex_next_rest [of l t l'] length_rest_le [of "rest l"] by auto

section \<open>Tokenize\<close>

function tokens_from :: "lexer \<Rightarrow> token list" where
  "tokens_from l = (case lex_next l of (t, l') \<Rightarrow> if stops t then [t] else t # tokens_from l')"
  by pat_completeness auto
termination
  by (relation "measure (\<lambda>l. length (rest l))") (auto dest: lex_next_less [OF sym])

declare tokens_from.simps [simp del]

definition Tokenize :: "string \<Rightarrow> token list" where
  "Tokenize input = tokens_from (NewLexer input)"

lemma filter_dropWhile_space: "filter (\<lambda>ch. \<not> is_space ch) (dropWhile is_space s) = filter (\<lambda>ch. \<not> is_space ch) s"
  by (induction s) auto

lemma takeWhile_not_space:
  assumes "\<And>x. P x \<Longrightarrow> ident_char x"
  shows "filter (\<lambda>ch. \<not> is_space ch) s = takeWhile P s @ filter (\<lambda>ch. \<not> is_space ch) (dropWhile P s)"
proof -
  have "filter (\<lambda>ch. \<not> is_space ch) (takeWhile P s) = takeWhile P s"
    using assms ident_char_not_space by (auto simp: filter_id_conv dest: set_takeWhileD)
  then show ?thesis by (metis filter_append takeWhile_dropWhile_id)
qed

lemma lex_rest_eof: "lex_rest s = ((TokenEOF, val), r) \<Longrightarrow> val = [] \<and> r = []"
  by (rule lex_rest_cases [of s]) (auto simp: punct_type_def split: if_splits)

lemma lex_rest_text:
  assumes "lex_rest s = ((ty, val), r)" and "ty \<noteq> TokenError"
  shows "filter (\<lambda>ch. \<not> is_space ch) s = val @ filter (\<lambda>ch. \<not> is_space ch) r"
proof (rule lex_rest_cases [of s])
  assume "dropWhile is_space s = []" "lex_rest s = ((TokenEOF, []), [])"
  then show ?thesis using assms filter_dropWhile_space [of s] by simp
next
  fix ch r' ty'
  assume "dropWhile is_space s = ch # r'" "punct_type ch = Some ty'" "lex_rest s = ((ty', [ch]), r')"
  then show ?thesis
    using assms filter_dropWhile_space [of s] punct_not_space by auto
next
  fix ch r' P ty'
  assume s: "dropWhile is_space s = ch # r'" and P: "\<And>x. P x \<Longrightarrow> ident_char x"
    and "lex_rest s = ((ty', takeWhile P (ch # r')), dropWhile P (ch # r'))"
  then have "val = takeWhile P (ch # r')" "r = dropWhile P (ch # r')" using assms by auto
  then show ?thesis
    using takeWhile_not_space [OF P, of P "ch # r'"] filter_dropWhile_space [of s] s by simp
next
  fix ch r'
  assume "lex_rest s = ((TokenError, ''unexpected character: '' @ rune_text ch), ch # r')"
  with assms show ?thesis by auto
qed

text \<open>
  C18: reading tokens ends: at most one token more than the input has bytes, and the last one,
  and only that, is the end of the input or an error.
\<close>

theorem Tokenize_terminates:
  "length (Tokenize input) \<le> length input + 1
   \<and> (\<exists>ts t. Tokenize input = ts @ [t] \<and> stops t \<and> list_all (\<lambda>t. \<not> stops t) ts)"
proof -
  have "length (tokens_from l) \<le> length (rest l) + 1
      \<and> (\<exists>ts t. tokens_from l = ts @ [t] \<and> stops t \<and> list_all (\<lambda>t. \<not> stops t) ts)" for l
  proof (induction l rule: tokens_from.induct)
    case (1 l)
    obtain t l' where run: "lex_next l = (t, l')" by fastforce
    show ?case
    proof (cases "stops t")
      case False
      with 1 run obtain ts u where "length (tokens_from l') \<le> length (rest l') + 1"
        and "tokens_from l' = ts @ [u]" "stops u" "list_all (\<lambda>t. \<not> stops t) ts" by auto
      with False run lex_next_less [OF run False] show ?thesis
        by (auto simp: tokens_from.simps [of l] intro: exI [of _ "t # ts"])
    qed (simp add: tokens_from.simps [of l] run)
  qed
  from this [of "NewLexer input"] show ?thesis
    by (simp add: Tokenize_def rest_def NewLexer_def)
qed

text \<open>
  C19: the lexer loses nothing but white space. When it reaches the end of the input, the texts
  of the tokens put together are the input without its spaces.
\<close>

theorem Tokenize_lossless:
  assumes "tk_type (last (Tokenize input)) = TokenEOF"
  shows "concat (map tk_value (Tokenize input)) = filter (\<lambda>ch. \<not> is_space ch) input"
proof -
  have "concat (map tk_value (tokens_from l)) = filter (\<lambda>ch. \<not> is_space ch) (rest l)"
    if "tk_type (last (tokens_from l)) = TokenEOF" for l
    using that
  proof (induction l rule: tokens_from.induct)
    case (1 l)
    obtain t l' where run: "lex_next l = (t, l')" by (cases "lex_next l")
    note lex = lex_next_rest [OF run]
    show ?case
    proof (cases "stops t")
      case True
      with "1.prems" run have eof: "tk_type t = TokenEOF" by (simp add: tokens_from.simps [of l])
      with lex lex_rest_eof [of "rest l"] have "tk_value t = []" and "rest l' = []" by simp_all
      then show ?thesis
        using True run lex_rest_text [OF conjunct1 [OF lex]] eof by (simp add: tokens_from.simps [of l])
    next
      case False
      then have "tk_type t \<noteq> TokenError" by (simp add: stops_def)
      moreover have "tokens_from l' \<noteq> []" by (subst tokens_from.simps) (simp split: prod.splits)
      ultimately show ?thesis
        using False run "1.IH" [OF run [symmetric] False] "1.prems" lex_rest_text [OF conjunct1 [OF lex]]
        by (simp add: tokens_from.simps [of l])
    qed
  qed
  with assms show ?thesis by (simp add: Tokenize_def rest_def NewLexer_def)
qed

theorem Tokenize_lossless_witness:
  "concat (map tk_value (Tokenize ''a [ 12 ]. b_1'')) = ''a[12].b_1''"
proof -
  have "tk_type (last (Tokenize ''a [ 12 ]. b_1'')) = TokenEOF" by code_simp
  from Tokenize_lossless [OF this] show ?thesis by (simp add: is_space_def)
qed

end
