(* ===== verification/QueryParser.thy ===== *)
theory QueryParser
  imports QueryLexer
begin

text \<open>
  \<open>query/ast.go\<close> and \<open>query/parser.go\<close>: the syntax tree, the parser with its one token of
  lookahead, and the flattening of a tree to the path the executor walks. The loops of the
  parser end because each round consumes a token (\<open>tokens_left\<close>).
\<close>

section \<open>Syntax trees and paths\<close>

datatype node =
    IdentifierNode string
  | IndexNode int
  | DotNode node node
  | WildcardNode

datatype seg = SField string | SIndex int | SWild

text \<open>\<open>SimplifyNode\<close>.\<close>

fun SimplifyNode :: "node \<Rightarrow> seg list" where
  "SimplifyNode (IdentifierNode name) = [SField name]"
| "SimplifyNode (IndexNode i) = [SIndex i]"
| "SimplifyNode WildcardNode = [SWild]"
| "SimplifyNode (DotNode l r) = SimplifyNode l @ SimplifyNode r"

text \<open>
  \<open>string(rune(i))\<close>: the UTF-8 encoding of the code point \<open>i\<close> wrapped to 32 bits, and that of
  U+FFFD for what is no code point.
\<close>

definition rune_string :: "int \<Rightarrow> string" where
  "rune_string i = (let r = (i + 2 ^ 31) mod 2 ^ 32 - 2 ^ 31;
       n = (if r < 0 \<or> 0x10FFFF < r \<or> (0xD800 \<le> r \<and> r \<le> 0xDFFF) then 0xFFFD else nat r)
     in if n < 0x80 then [char_of n]
        else if n < 0x800 then [char_of (0xC0 + n div 64), char_of (0x80 + n mod 64)]
        else if n < 0x10000 then [char_of (0xE0 + n div 4096), char_of (0x80 + n div 64 mod 64),
               char_of (0x80 + n mod 64)]
        else [char_of (0xF0 + n div 262144), char_of (0x80 + n div 4096 mod 64),
              char_of (0x80 + n div 64 mod 64), char_of (0x80 + n mod 64)])"

text \<open>\<open>String\<close>: an index is printed as the character with the code \<open>'0'\<close> plus the index.\<close>

fun node_String :: "node \<Rightarrow> string" where
  "node_String (IdentifierNode name) = name"
| "node_String (IndexNode i) = ''['' @ rune_string (i + 48) @ '']''"
| "node_String WildcardNode = ''[*]''"
| "node_String (DotNode l r) = node_String l @ ''.'' @ node_String r"

section \<open>The parser\<close>

record parser =
  pr_lexer :: lexer
  pr_current :: token
  pr_peek :: token

definition advance :: "parser \<Rightarrow> parser" where
  "advance p = (case lex_next (pr_lexer p) of (t, l) \<Rightarrow>
     \<lparr>pr_lexer = l, pr_current = pr_peek p, pr_peek = t\<rparr>)"

definition zero_token :: token where
  "zero_token = \<lparr>tk_type = TokenEOF, tk_value = [], tk_pos = 0\<rparr>"

definition NewParser :: "string \<Rightarrow> parser" where
  "NewParser input = advance (advance
     \<lparr>pr_lexer = NewLexer input, pr_current = zero_token, pr_peek = zero_token\<rparr>)"

abbreviation cur :: "parser \<Rightarrow> token_type" where
  "cur p \<equiv> tk_type (pr_current p)"

abbreviation pos_text :: "parser \<Rightarrow> string" where
  "pos_text p \<equiv> show_nat (tk_pos (pr_current p))"

text \<open>A bound on the tokens that can still be consumed.\<close>

definition tokens_left :: "parser \<Rightarrow> nat" where
  "tokens_left p = length (rest (pr_lexer p))
     + (if stops (pr_peek p) then 0 else 1) + (if stops (pr_current p) then 0 else 1)"

lemma tokens_left_advance_le: "tokens_left (advance p) \<le> tokens_left p"
proof -
  obtain t l where run: "lex_next (pr_lexer p) = (t, l)" by (cases "lex_next (pr_lexer p)")
  then show ?thesis
    using lex_next_le [OF run] lex_next_less [OF run]
    by (auto simp: tokens_left_def advance_def)
qed

lemma tokens_left_advance_less:
  assumes "\<not> stops (pr_current p)"
  shows "tokens_left (advance p) < tokens_left p"
proof -
  obtain t l where run: "lex_next (pr_lexer p) = (t, l)" by (cases "lex_next (pr_lexer p)")
  then show ?thesis
    using assms lex_next_le [OF run] lex_next_less [OF run]
    by (auto simp: tokens_left_def advance_def)
qed

text \<open>The loop over \<open>[\<close> in \<open>parsePrimary\<close>.\<close>

function parse_brackets :: "parser \<Rightarrow> node \<Rightarrow> string + node \<times> parser" where
  "parse_brackets p node =
     (if cur p \<noteq> TokenLeftBracket then Inr (node, p)
      else let p1 = advance p in
        if cur p1 = TokenStar then
          (let p2 = advance p1 in
           if cur p2 \<noteq> TokenRightBracket
           then Inl (''expected ']' after '*' at position '' @ pos_text p2)
           else parse_brackets (advance p2) (DotNode node WildcardNode))
        else if cur p1 = TokenNumber then
          (case go_atoi (tk_value (pr_current p1)) of
             None \<Rightarrow> Inl (''invalid array index at position '' @ pos_text p1 @ '': ''
                       @ tk_value (pr_current p1))
           | Some i \<Rightarrow>
              (let p2 = advance p1 in
               if cur p2 \<noteq> TokenRightBracket then Inl (''expected ']' at position '' @ pos_text p2)
               else parse_brackets (advance p2) (DotNode node (IndexNode i))))
        else Inl (''expected number or '*' after '[' at position '' @ pos_text p1))"
  by pat_completeness auto

lemma tokens_left_brackets:
  assumes "cur p = TokenLeftBracket"
  shows "tokens_left (advance (advance (advance p))) < tokens_left p"
proof -
  have "tokens_left (advance (advance (advance p))) \<le> tokens_left (advance p)"
    using tokens_left_advance_le order_trans by blast
  also have "\<dots> < tokens_left p"
    by (rule tokens_left_advance_less) (simp add: stops_def assms)
  finally show ?thesis .
qed

termination parse_brackets
  by (relation "measure (\<lambda>(p, node). tokens_left p)") (simp_all add: tokens_left_brackets)

declare parse_brackets.simps [simp del]

definition parse_primary :: "parser \<Rightarrow> string + node \<times> parser" where
  "parse_primary p =
     (if cur p \<noteq> TokenIdentifier
      then Inl (''expected identifier at position '' @ pos_text p @ '', got '' @ TokenTypeName (cur p))
      else parse_brackets (advance p) (IdentifierNode (tk_value (pr_current p))))"

lemma parse_brackets_left:
  "parse_brackets p node = Inr (n, p') \<Longrightarrow> tokens_left p' \<le> tokens_left p"
proof (induction p node arbitrary: n p' rule: parse_brackets.induct)
  case (1 p node)
  have less: "cur p = TokenLeftBracket \<Longrightarrow> tokens_left (advance (advance (advance p))) \<le> tokens_left p"
    using tokens_left_brackets by (simp add: less_imp_le)
  have star: "tokens_left p' \<le> tokens_left p"
    if "cur p = TokenLeftBracket" "cur (advance p) = TokenStar"
      "cur (advance (advance p)) = TokenRightBracket"
      "parse_brackets (advance (advance (advance p))) (DotNode node WildcardNode) = Inr (n, p')"
    using that "1.IH" (1) [OF _ refl _ refl, of n p'] less by simp
  have index: "tokens_left p' \<le> tokens_left p"
    if "cur p = TokenLeftBracket" "cur (advance p) = TokenNumber"
      "go_atoi (tk_value (pr_current (advance p))) = Some i"
      "cur (advance (advance p)) = TokenRightBracket"
      "parse_brackets (advance (advance (advance p))) (DotNode node (IndexNode i)) = Inr (n, p')" for i
    using that "1.IH" (2) [OF _ refl _ _ _ refl, of i n p'] less by simp
  from "1.prems" show ?case
    by (subst (asm) parse_brackets.simps)
      (auto simp: Let_def split: if_splits option.splits intro: star index)
qed

lemma parse_primary_left:
  assumes "parse_primary p = Inr (n, p')"
  shows "tokens_left p' \<le> tokens_left p"
proof -
  from assms have "parse_brackets (advance p) (IdentifierNode (tk_value (pr_current p))) = Inr (n, p')"
    by (simp add: parse_primary_def split: if_splits)
  from parse_brackets_left [OF this] tokens_left_advance_le [of p] show ?thesis by simp
qed

text \<open>The loop over the dots in \<open>parseExpression\<close>.\<close>

function parse_dots :: "parser \<Rightarrow> node \<Rightarrow> string + node \<times> parser" where
  "parse_dots p left =
     (if cur p \<noteq> TokenDot then Inr (left, p)
      else case parse_primary (advance p) of
          Inl err \<Rightarrow> Inl err
        | Inr (right, p') \<Rightarrow> parse_dots p' (DotNode left right))"
  by pat_completeness auto

termination parse_dots
proof (relation "measure (\<lambda>(p, left). tokens_left p)", simp, clarsimp)
  fix p right p'
  assume "cur p = TokenDot" "parse_primary (advance p) = Inr (right, p')"
  then have "tokens_left p' \<le> tokens_left (advance p)" and "tokens_left (advance p) < tokens_left p"
    by (auto intro: parse_primary_left tokens_left_advance_less simp: stops_def)
  then show "tokens_left p' < tokens_left p" by simp
qed

declare parse_dots.simps [simp del]

definition parse_expression :: "parser \<Rightarrow> string + node \<times> parser" where
  "parse_expression p = (case parse_primary p of
     Inl err \<Rightarrow> Inl err | Inr (left, p) \<Rightarrow> parse_dots p left)"

definition Parse :: "parser \<Rightarrow> string + node" where
  "Parse p = (if cur p = TokenEOF then Inl ''empty query''
     else case parse_expression p of
         Inl err \<Rightarrow> Inl err
       | Inr (tree, p) \<Rightarrow>
           if cur p \<noteq> TokenEOF
           then Inl (''unexpected token at position '' @ pos_text p @ '': '' @ tk_value (pr_current p))
           else Inr tree)"

definition ParseQuery :: "string \<Rightarrow> string + node" where
  "ParseQuery input = Parse (NewParser input)"

definition PathFromQuery :: "string \<Rightarrow> string + seg list" where
  "PathFromQuery input = (case ParseQuery input of
     Inl err \<Rightarrow> Inl err | Inr tree \<Rightarrow> Inr (SimplifyNode tree))"

section \<open>Paths as text\<close>

text \<open>\<open>formatPath\<close> of \<open>query/executor.go\<close>.\<close>

fun format_seg :: "string \<Rightarrow> seg \<Rightarrow> string" where
  "format_seg result (SField name) = (if result = [] then name else result @ ''.'' @ name)"
| "format_seg result (SIndex i) = result @ ''['' @ show_int i @ '']''"
| "format_seg result SWild = result @ ''[*]''"

definition formatPath :: "seg list \<Rightarrow> string" where
  "formatPath path = (if length path = 0 then ''<root>'' else foldl format_seg [] path)"

text \<open>The names the lexer reads as one identifier, and the paths the parser can produce.\<close>

definition wf_ident :: "string \<Rightarrow> bool" where
  "wf_ident name = (case name of [] \<Rightarrow> False
     | ch # _ \<Rightarrow> (is_letter ch \<or> ch = CHR ''_'') \<and> list_all ident_char name)"

fun wf_seg :: "seg \<Rightarrow> bool" where
  "wf_seg (SField name) = wf_ident name"
| "wf_seg (SIndex i) = (0 \<le> i \<and> i < 2 ^ 63)"
| "wf_seg SWild = True"

definition wf_path :: "seg list \<Rightarrow> bool" where
  "wf_path path = (case path of SField name # _ \<Rightarrow> list_all wf_seg path | _ \<Rightarrow> False)"

fun seg_text :: "seg \<Rightarrow> string" where
  "seg_text (SField name) = ''.'' @ name"
| "seg_text (SIndex i) = ''['' @ show_int i @ '']''"
| "seg_text SWild = ''[*]''"

definition tail_text :: "seg list \<Rightarrow> string" where
  "tail_text segs = concat (map seg_text segs)"

lemma foldl_format_seg: "s \<noteq> [] \<Longrightarrow> foldl format_seg s segs = s @ tail_text segs"
proof (induction segs arbitrary: s)
  case (Cons x segs)
  then show ?case by (cases x) (simp_all add: tail_text_def)
qed (simp add: tail_text_def)

lemma wf_ident_nonempty: "wf_ident name \<Longrightarrow> name \<noteq> []"
  by (auto simp: wf_ident_def)

lemma formatPath_eq: "wf_ident name \<Longrightarrow> formatPath (SField name # segs) = name @ tail_text segs"
  by (simp add: formatPath_def foldl_format_seg wf_ident_nonempty)

section \<open>Reading the text back\<close>

lemma char_classes:
  "\<not> is_space CHR ''.''" "\<not> is_space CHR ''[''" "\<not> is_space CHR '']''" "\<not> is_space CHR ''*''"
  "\<not> ident_char CHR ''.''" "\<not> ident_char CHR ''[''" "\<not> ident_char CHR '']''"
  "\<not> is_digit CHR '']''"
  by (simp_all add: is_space_def ident_char_def is_letter_def is_digit_def)

lemma lex_rest_punct [simp]:
  "lex_rest (CHR ''.'' # s) = ((TokenDot, ''.''), s)"
  "lex_rest (CHR ''['' # s) = ((TokenLeftBracket, ''[''), s)"
  "lex_rest (CHR '']'' # s) = ((TokenRightBracket, '']''), s)"
  "lex_rest (CHR ''*'' # s) = ((TokenStar, ''*''), s)"
  "lex_rest [] = ((TokenEOF, []), [])"
  by (simp_all add: lex_rest_def char_classes punct_type_def)

lemma digit_class: "is_dec_digit ch \<Longrightarrow> is_digit ch"
  by (auto simp: is_dec_digit_def is_digit_def)

lemma ident_not_punct: "ident_char ch \<Longrightarrow> punct_type ch = None"
  by (auto simp: punct_type_def ident_char_def is_letter_def is_digit_def)

lemma takeWhile_stop: "list_all P w \<Longrightarrow> \<not> P x \<Longrightarrow> takeWhile P (w @ x # s) = w \<and> dropWhile P (w @ x # s) = x # s"
  by (induction w) auto

lemma takeWhile_tail:
  "list_all ident_char w \<Longrightarrow>
   takeWhile ident_char (w @ tail_text segs) = w \<and> dropWhile ident_char (w @ tail_text segs) = tail_text segs"
proof (cases segs)
  case Nil
  moreover assume "list_all ident_char w"
  ultimately show ?thesis by (simp add: tail_text_def list_all_iff)
next
  case (Cons x xs)
  assume "list_all ident_char w"
  moreover obtain ch r where "tail_text segs = ch # r" "\<not> ident_char ch"
    using Cons by (cases x) (auto simp: tail_text_def char_classes)
  ultimately show ?thesis using takeWhile_stop by metis
qed

lemma lex_rest_number: "lex_rest (show_nat n @ CHR '']'' # s) = ((TokenNumber, show_nat n), CHR '']'' # s)"
proof -
  obtain ch w where n: "show_nat n = ch # w" by (meson list.exhaust show_nat_nonempty)
  have digits: "list_all is_digit (show_nat n)"
    using show_nat_digits [of _ n] by (auto simp: list_all_iff intro: digit_class)
  then have ch: "is_digit ch" by (simp add: n)
  then have "\<not> is_space ch" "punct_type ch = None"
    by (simp_all add: ident_char_not_space ident_not_punct)
  then have "lex_rest (ch # w @ CHR '']'' # s) =
      ((TokenNumber, takeWhile is_digit (ch # w @ CHR '']'' # s)), dropWhile is_digit (ch # w @ CHR '']'' # s))"
    using lex_rest_Cons [of "ch # w @ CHR '']'' # s" ch "w @ CHR '']'' # s"] ch by simp
  with takeWhile_stop [OF digits char_classes(8), of s] show ?thesis
    by (simp add: n del: takeWhile.simps dropWhile.simps)
qed

lemma lex_rest_ident:
  assumes "wf_ident w"
  shows "lex_rest (w @ tail_text segs) = ((TokenIdentifier, w), tail_text segs)"
proof -
  obtain ch r where w: "w = ch # r" and letter: "is_letter ch \<or> ch = CHR ''_''"
    and all: "list_all ident_char w"
    using assms by (auto simp: wf_ident_def split: list.splits)
  have "ident_char ch" using all w by simp
  moreover have "\<not> is_digit ch"
    using letter by (auto simp: is_letter_def is_digit_def Let_def)
  ultimately have "lex_rest (ch # r @ tail_text segs) =
      ((TokenIdentifier, takeWhile ident_char (ch # r @ tail_text segs)),
       dropWhile ident_char (ch # r @ tail_text segs))"
    using lex_rest_Cons [of "ch # r @ tail_text segs" ch "r @ tail_text segs"] letter
    by (simp add: ident_char_not_space ident_not_punct)
  with takeWhile_tail [OF all, of segs] show ?thesis
    by (simp add: w del: takeWhile.simps dropWhile.simps)
qed

text \<open>The parser stands before the bytes \<open>s\<close>.\<close>

definition stands_at :: "parser \<Rightarrow> string \<Rightarrow> bool" where
  "stands_at p s = (\<exists>r. lex_rest s = ((cur p, tk_value (pr_current p)), r)
     \<and> lex_rest r = ((tk_type (pr_peek p), tk_value (pr_peek p)), rest (pr_lexer p)))"

lemma stands_at_advance:
  assumes "stands_at p s" and "lex_rest s = (tok, r)"
  shows "stands_at (advance p) r"
proof -
  obtain t l where run: "lex_next (pr_lexer p) = (t, l)" by (cases "lex_next (pr_lexer p)")
  from lex_next_rest [OF run] assms run show ?thesis
    by (auto simp: stands_at_def advance_def)
qed

lemma stands_at_cur:
  "stands_at p s \<Longrightarrow> lex_rest s = ((ty, val), r) \<Longrightarrow> cur p = ty \<and> tk_value (pr_current p) = val"
  by (auto simp: stands_at_def)

lemma stands_at_New: "stands_at (NewParser s) s"
proof -
  obtain t l where 1: "lex_next (NewLexer s) = (t, l)" by (cases "lex_next (NewLexer s)")
  obtain t' l' where 2: "lex_next l = (t', l')" by (cases "lex_next l")
  from lex_next_rest [OF 1] lex_next_rest [OF 2] 1 2 show ?thesis
    by (auto simp: stands_at_def NewParser_def advance_def rest_def NewLexer_def)
qed

text \<open>
  The rest of a path after a node: brackets of the node, then the parts after the dots. \<open>before\<close>
  is what stands to the left of the node.
\<close>

definition parse_after :: "parser \<Rightarrow> node option \<Rightarrow> node \<Rightarrow> string + node \<times> parser" where
  "parse_after p before node = (case parse_brackets p node of
     Inl err \<Rightarrow> Inl err
   | Inr (n, p) \<Rightarrow> parse_dots p (case before of None \<Rightarrow> n | Some l \<Rightarrow> DotNode l n))"

definition path_before :: "node option \<Rightarrow> seg list" where
  "path_before before = (case before of None \<Rightarrow> [] | Some l \<Rightarrow> SimplifyNode l)"

lemma parse_after_index:
  assumes "stands_at p (CHR ''['' # show_nat n @ CHR '']'' # s)" and "int n < 2 ^ 63"
  shows "\<exists>p'. stands_at p' s \<and> parse_after p before node = parse_after p' before (DotNode node (IndexNode (int n)))"
proof -
  note at1 = stands_at_advance [OF assms(1) lex_rest_punct(2)]
  note at2 = stands_at_advance [OF at1 lex_rest_number]
  note at3 = stands_at_advance [OF at2 lex_rest_punct(3)]
  have "parse_brackets p node = parse_brackets (advance (advance (advance p))) (DotNode node (IndexNode (int n)))"
    using stands_at_cur [OF assms(1) lex_rest_punct(2)] stands_at_cur [OF at1 lex_rest_number]
      stands_at_cur [OF at2 lex_rest_punct(3)] go_atoi_show_nat [OF assms(2)]
    by (subst parse_brackets.simps) (simp add: Let_def)
  with at3 show ?thesis by (auto simp: parse_after_def)
qed

lemma parse_after_wild:
  assumes "stands_at p (''[*]'' @ s)"
  shows "\<exists>p'. stands_at p' s \<and> parse_after p before node = parse_after p' before (DotNode node WildcardNode)"
proof -
  have at0: "stands_at p (CHR ''['' # CHR ''*'' # CHR '']'' # s)" using assms by simp
  note at1 = stands_at_advance [OF at0 lex_rest_punct(2)]
  note at2 = stands_at_advance [OF at1 lex_rest_punct(4)]
  note at3 = stands_at_advance [OF at2 lex_rest_punct(3)]
  have "parse_brackets p node = parse_brackets (advance (advance (advance p))) (DotNode node WildcardNode)"
    using stands_at_cur [OF at0 lex_rest_punct(2)] stands_at_cur [OF at1 lex_rest_punct(4)]
      stands_at_cur [OF at2 lex_rest_punct(3)]
    by (subst parse_brackets.simps) (simp add: Let_def)
  with at3 show ?thesis by (auto simp: parse_after_def)
qed

lemma parse_brackets_other: "cur p \<noteq> TokenLeftBracket \<Longrightarrow> parse_brackets p node = Inr (node, p)"
  by (simp add: parse_brackets.simps)

lemma parse_after_field:
  assumes "stands_at p (CHR ''.'' # name @ tail_text segs)" and "wf_ident name"
  shows "\<exists>p' l. stands_at p' (tail_text segs)
    \<and> parse_after p before node = parse_after p' (Some l) (IdentifierNode name)
    \<and> SimplifyNode l = path_before before @ SimplifyNode node"
proof -
  note at1 = stands_at_advance [OF assms(1) lex_rest_punct(1)]
  note at2 = stands_at_advance [OF at1 lex_rest_ident [OF assms(2)]]
  let ?l = "case before of None \<Rightarrow> node | Some l \<Rightarrow> DotNode l node"
  have dot: "cur p = TokenDot" using stands_at_cur [OF assms(1) lex_rest_punct(1)] by simp
  then have "parse_after p before node = parse_dots p ?l"
    by (simp add: parse_after_def parse_brackets_other)
  also have "\<dots> = parse_after (advance (advance p)) (Some ?l) (IdentifierNode name)"
    using dot stands_at_cur [OF at1 lex_rest_ident [OF assms(2)]]
    unfolding parse_after_def option.case
    by (subst parse_dots.simps) (simp add: parse_primary_def)
  finally have run: "parse_after p before node = parse_after (advance (advance p)) (Some ?l) (IdentifierNode name)" .
  have "SimplifyNode ?l = path_before before @ SimplifyNode node"
    by (simp add: path_before_def split: option.split)
  with at2 run show ?thesis by blast
qed

lemma parse_after_tail:
  assumes "stands_at p (tail_text segs)" and "list_all wf_seg segs"
  shows "\<exists>n p'. parse_after p before node = Inr (n, p') \<and> cur p' = TokenEOF
    \<and> SimplifyNode n = path_before before @ SimplifyNode node @ segs"
  using assms
proof (induction segs arbitrary: p before node)
  case Nil
  then have "cur p = TokenEOF"
    using stands_at_cur [OF _ lex_rest_punct(5)] by (simp add: tail_text_def)
  then show ?case
    by (auto simp: parse_after_def parse_brackets_other parse_dots.simps [of p] path_before_def
        split: option.splits)
next
  case (Cons x segs)
  then have wf: "wf_seg x" "list_all wf_seg segs" by simp_all
  show ?case
  proof (cases x)
    case (SField name)
    with Cons.prems wf obtain p' l where "stands_at p' (tail_text segs)"
      "parse_after p before node = parse_after p' (Some l) (IdentifierNode name)"
      and l: "SimplifyNode l = path_before before @ SimplifyNode node"
      using parse_after_field [of p name segs before node] by (auto simp: tail_text_def)
    with Cons.IH [of p' "Some l" "IdentifierNode name"] wf show ?thesis
      by (simp add: SField path_before_def)
  next
    case (SIndex i)
    define n where "n = nat i"
    with wf SIndex have i: "i = int n" "int n < 2 ^ 63" by auto
    with Cons.prems SIndex have "stands_at p (CHR ''['' # show_nat n @ CHR '']'' # tail_text segs)"
      by (simp add: tail_text_def show_int_of_nat)
    from parse_after_index [OF this i(2), of before node] obtain p' where "stands_at p' (tail_text segs)"
      "parse_after p before node = parse_after p' before (DotNode node (IndexNode i))"
      by (auto simp: i(1))
    with Cons.IH [of p' before "DotNode node (IndexNode i)"] wf show ?thesis
      by (simp add: SIndex)
  next
    case SWild
    with Cons.prems obtain p' where "stands_at p' (tail_text segs)"
      "parse_after p before node = parse_after p' before (DotNode node WildcardNode)"
      using parse_after_wild [of p "tail_text segs" before node] by (auto simp: tail_text_def)
    with Cons.IH [of p' before "DotNode node WildcardNode"] wf show ?thesis
      by (simp add: SWild)
  qed
qed

lemma PathFromQuery_formatPath:
  assumes "wf_path path"
  shows "PathFromQuery (formatPath path) = Inr path"
proof -
  obtain name segs where path: "path = SField name # segs" and wf: "wf_ident name" "list_all wf_seg segs"
    using assms by (auto simp: wf_path_def split: list.splits seg.splits)
  let ?p = "NewParser (formatPath path)"
  have at: "stands_at ?p (name @ tail_text segs)"
    using stands_at_New by (simp add: path formatPath_eq wf)
  note cur = stands_at_cur [OF at lex_rest_ident [OF wf(1)]]
  from parse_after_tail [OF stands_at_advance [OF at lex_rest_ident [OF wf(1)]] wf(2),
      of None "IdentifierNode name"]
  obtain n p' where "parse_after (advance ?p) None (IdentifierNode name) = Inr (n, p')" "cur p' = TokenEOF"
    and n: "SimplifyNode n = SField name # segs"
    by (auto simp: path_before_def)
  then have "Parse ?p = Inr n"
    using cur
    by (auto simp: Parse_def parse_expression_def parse_primary_def parse_after_def split: sum.splits)
  with n path show ?thesis by (simp add: PathFromQuery_def ParseQuery_def)
qed

text \<open>
  C20: parsing the text of a path gives the path back, for every path that starts with a field
  and has identifiers for names and \<open>int\<close> indices that are not negative.
\<close>

theorem parse_formatPath:
  "wf_path path \<Longrightarrow> PathFromQuery (formatPath path) = Inr path"
  by (rule PathFromQuery_formatPath)

theorem parse_formatPath_witness:
  "PathFromQuery ''items[12].price[*].x_1'' =
     Inr [SField ''items'', SIndex 12, SField ''price'', SWild, SField ''x_1'']"
proof -
  let ?path = "[SField ''items'', SIndex 12, SField ''price'', SWild, SField ''x_1'']"
  have "wf_path ?path"
    by (simp add: wf_path_def wf_ident_def is_letter_def ident_char_def is_digit_def)
  moreover have "formatPath ?path = ''items[12].price[*].x_1''" by code_simp
  ultimately show ?thesis using parse_formatPath [of ?path] by simp
qed

end
