(* ===== verification/QueryExec.thy ===== *)
theory QueryExec
  imports QueryParser GoValue
begin

text \<open>
  \<open>query/executor.go\<close>: walking a path through a value. A failure is an error or, where
  \<open>reflect\<close> refuses, a panic: reading an unexported struct field, or a map whose key type is
  a named string type. Fields that a struct promotes from an embedded one are not modelled.
\<close>

datatype qfail = QError string | QPanic

section \<open>Access\<close>

text \<open>
  The loop that follows pointers; None when one is nil. Behind a pointer to an interface
  variable \<open>reflect\<close> finds a value of kind interface.
\<close>

fun deref :: "gval \<Rightarrow> gval option" where
  "deref (VPtr ty a None) = None"
| "deref (VPtr ty a (Some v)) =
     (if ty = ''*interface {}'' then Some (VOther ''interface {}'' ''interface'' []) else deref v)"
| "deref v = Some v"

text \<open>Field names start with an ASCII letter here; it is exported when that is a capital.\<close>

definition exported :: "string \<Rightarrow> bool" where
  "exported name = (case name of [] \<Rightarrow> False
     | ch # _ \<Rightarrow> (let n = (of_char ch :: nat) in 65 \<le> n \<and> n \<le> 90))"

definition struct_field :: "(string \<times> gval) list \<Rightarrow> string \<Rightarrow> qfail + gval" where
  "struct_field fs name = (case map_of fs name of
       None \<Rightarrow> Inl (QError (''field '' @ go_quote name @ '' not found in struct''))
     | Some v \<Rightarrow> if exported name then Inr v else Inl QPanic)"

definition getField :: "gval \<Rightarrow> string \<Rightarrow> qfail + gval" where
  "getField obj name = (case deref obj of
       None \<Rightarrow> Inl (QError (''cannot access field '' @ go_quote name @ '' on nil pointer''))
     | Some v \<Rightarrow>
        (case v of
           VMap m \<Rightarrow> (case map_of m name of
               None \<Rightarrow> Inl (QError (''field '' @ go_quote name @ '' not found''))
             | Some w \<Rightarrow> Inr w)
         | VTMap k e m \<Rightarrow>
             (if k \<noteq> ''string'' then Inl QPanic
              else (case map_of m name of
                  None \<Rightarrow> Inl (QError (''field '' @ go_quote name @ '' not found''))
                | Some w \<Rightarrow> Inr w))
         | VOtherMap ty s \<Rightarrow>
             Inl (QError (''cannot access field '' @ go_quote name @ '' on non-string keyed map''))
         | VStruct ty fs \<Rightarrow> struct_field fs name
         | VTime t \<Rightarrow> struct_field [(''wall'', VNil), (''ext'', VNil), (''loc'', VNil)] name
         | _ \<Rightarrow> Inl (QError (''cannot access field '' @ go_quote name @ '' on '' @ go_kind v))))"

definition getIndex :: "gval \<Rightarrow> int \<Rightarrow> qfail + gval" where
  "getIndex arr i = (case deref arr of
       None \<Rightarrow> Inl (QError ''cannot index nil pointer'')
     | Some v \<Rightarrow>
        (case as_slice v of
           None \<Rightarrow> Inl (QError (''cannot index '' @ go_kind v))
         | Some xs \<Rightarrow>
             if i < 0 \<or> int (length xs) \<le> i
             then Inl (QError (''index '' @ show_int i @ '' out of bounds (length ''
                    @ show_int (int (length xs)) @ '')''))
             else Inr (xs ! nat i)))"

text \<open>The elements \<open>[*]\<close> ranges over.\<close>

definition wild_elems :: "gval \<Rightarrow> qfail + gval list" where
  "wild_elems arr = (case deref arr of
       None \<Rightarrow> Inl (QError ''cannot expand wildcard on nil pointer'')
     | Some v \<Rightarrow> (case as_slice v of
           None \<Rightarrow> Inl (QError (''cannot expand wildcard on '' @ go_kind v))
         | Some xs \<Rightarrow> Inr xs))"

definition containsWildcard :: "seg list \<Rightarrow> bool" where
  "containsWildcard path = list_ex (\<lambda>s. s = SWild) path"

section \<open>Walking a path\<close>

text \<open>\<open>%v\<close> of a segment.\<close>

definition seg_v :: "seg \<Rightarrow> string" where
  "seg_v s = (case s of SField name \<Rightarrow> name | SIndex i \<Rightarrow> show_int i | SWild \<Rightarrow> [CHR 0x7B, CHR 0x7D])"

definition fail_at :: "string \<Rightarrow> qfail \<Rightarrow> qfail" where
  "fail_at place f = (case f of QError err \<Rightarrow> QError (''at '' @ place @ '': '' @ err) | QPanic \<Rightarrow> QPanic)"

text \<open>What an element adds to the results of a wildcard.\<close>

definition expand :: "bool \<Rightarrow> gval \<Rightarrow> gval list" where
  "expand flat v = (case v of VSlice xs \<Rightarrow> if flat then xs else [v] | _ \<Rightarrow> [v])"

text \<open>The loop over the elements, with their results, from the \<open>i\<close>-th on.\<close>

fun gather :: "string \<Rightarrow> bool \<Rightarrow> nat \<Rightarrow> (qfail + gval) list \<Rightarrow> qfail + gval list" where
  "gather place flat i [] = Inr []"
| "gather place flat i (r # rs) = (case r of
       Inl f \<Rightarrow> Inl (fail_at (place @ ''['' @ show_nat i @ '']'') f)
     | Inr v \<Rightarrow> (case gather place flat (Suc i) rs of
           Inl f \<Rightarrow> Inl f
         | Inr ws \<Rightarrow> Inr (expand flat v @ ws)))"

text \<open>\<open>ExecutePath\<close> from the point where the segments \<open>pre\<close> are done.\<close>

function exec_path :: "seg list \<Rightarrow> gval \<Rightarrow> seg list \<Rightarrow> qfail + gval" where
  "exec_path pre v [] = Inr v"
| "exec_path pre v (s # ss) =
     (if v = VNil then Inl (QError (''cannot access '' @ seg_v s @ '' on nil value''))
      else case s of
        SField name \<Rightarrow> (case getField v name of
            Inl f \<Rightarrow> Inl (fail_at (formatPath (pre @ [s])) f)
          | Inr w \<Rightarrow> exec_path (pre @ [s]) w ss)
      | SIndex i \<Rightarrow> (case getIndex v i of
            Inl f \<Rightarrow> Inl (fail_at (formatPath (pre @ [s])) f)
          | Inr w \<Rightarrow> exec_path (pre @ [s]) w ss)
      | SWild \<Rightarrow> (case wild_elems v of
            Inl f \<Rightarrow> Inl f
          | Inr xs \<Rightarrow>
              if ss = [] then Inr (VSlice xs)
              else (case gather (formatPath (pre @ [s])) (containsWildcard ss) 0
                      (map (\<lambda>x. exec_path [] x ss) xs) of
                  Inl f \<Rightarrow> Inl f
                | Inr ws \<Rightarrow> Inr (VSlice ws))))"
  by pat_completeness auto
termination
  by (relation "measure (\<lambda>(pre, v, ss). length ss)") auto

definition ExecutePath :: "gval \<Rightarrow> seg list \<Rightarrow> qfail + gval" where
  "ExecutePath v path = exec_path [] v path"

definition Execute :: "gval \<Rightarrow> string \<Rightarrow> qfail + gval" where
  "Execute data query = (if query = [] then Inr data
     else case PathFromQuery query of
         Inl err \<Rightarrow> Inl (QError (''invalid query: '' @ err))
       | Inr path \<Rightarrow> ExecutePath data path)"

section \<open>The specification: what a path selects\<close>

text \<open>The matches of a path in order, None when a step fails.\<close>

definition step_to :: "seg \<Rightarrow> gval \<Rightarrow> gval list option" where
  "step_to s v = (if v = VNil then None else case s of
       SField name \<Rightarrow> (case getField v name of Inl _ \<Rightarrow> None | Inr w \<Rightarrow> Some [w])
     | SIndex i \<Rightarrow> (case getIndex v i of Inl _ \<Rightarrow> None | Inr w \<Rightarrow> Some [w])
     | SWild \<Rightarrow> (case wild_elems v of Inl _ \<Rightarrow> None | Inr xs \<Rightarrow> Some xs))"

fun concat_all :: "'a list option list \<Rightarrow> 'a list option" where
  "concat_all [] = Some []"
| "concat_all (r # rs) = (case r of None \<Rightarrow> None
     | Some xs \<Rightarrow> map_option (\<lambda>ys. xs @ ys) (concat_all rs))"

fun select :: "seg list \<Rightarrow> gval \<Rightarrow> gval list option" where
  "select [] v = Some [v]"
| "select (s # ss) v = (case step_to s v of None \<Rightarrow> None
     | Some ws \<Rightarrow> concat_all (map (select ss) ws))"

definition result_ok :: "'e + 'a \<Rightarrow> 'a option" where
  "result_ok r = (case r of Inl _ \<Rightarrow> None | Inr w \<Rightarrow> Some w)"

lemma result_ok_simps [simp]: "result_ok (Inl f) = None" "result_ok (Inr w) = Some w"
  by (simp_all add: result_ok_def)

definition present :: "seg list \<Rightarrow> gval list \<Rightarrow> gval" where
  "present path ws = (if containsWildcard path then VSlice ws else hd ws)"

lemma concat_all_single [simp]: "concat_all [r] = r"
  by (cases r) auto

lemma concat_all_singletons: "concat_all (map (select []) xs) = Some xs"
  by (induction xs) auto

declare concat_all.simps(2) [simp del]

lemma select_single:
  "\<not> containsWildcard path \<Longrightarrow> select path v = Some ws \<Longrightarrow> \<exists>w. ws = [w]"
proof (induction path arbitrary: v ws)
  case (Cons s ss)
  then show ?case
    by (cases s) (auto simp: containsWildcard_def step_to_def split: if_splits sum.splits)
qed auto

lemma expand_present:
  assumes "select ss v = Some ws"
  shows "expand (containsWildcard ss) (present ss ws) = ws"
  using select_single [OF _ assms] by (auto simp: expand_def present_def split: gval.splits)

lemma gather_concat:
  assumes "\<And>x. x \<in> set xs \<Longrightarrow> result_ok (f x) = map_option (present ss) (select ss x)"
  shows "result_ok (gather place (containsWildcard ss) i (map f xs)) = concat_all (map (select ss) xs)"
  using assms
proof (induction xs arbitrary: i)
  case (Cons x xs)
  then have x: "result_ok (f x) = map_option (present ss) (select ss x)"
    and xs: "result_ok (gather place (containsWildcard ss) (Suc i) (map f xs)) = concat_all (map (select ss) xs)"
    by auto
  show ?case
  proof (cases "select ss x")
    case None
    with x show ?thesis by (cases "f x") (auto simp: concat_all.simps(2))
  next
    case (Some ws)
    with x have "f x = Inr (present ss ws)" by (cases "f x") auto
    with xs show ?thesis
      by (cases "gather place (containsWildcard ss) (Suc i) (map f xs)")
        (simp_all add: Some expand_present [OF Some] concat_all.simps(2) eq_commute [of _ "concat_all _"])
  qed
qed simp

lemma present_Cons:
  "containsWildcard (SField name # ss) = containsWildcard ss"
  "containsWildcard (SIndex i # ss) = containsWildcard ss"
  "containsWildcard (SWild # ss)"
  by (simp_all add: containsWildcard_def)

lemma exec_path_select: "result_ok (exec_path pre v path) = map_option (present path) (select path v)"
proof (induction pre v path rule: exec_path.induct)
  case (1 pre v)
  then show ?case by (simp add: present_def containsWildcard_def)
next
  case (2 pre v s ss)
  show ?case
  proof (cases "v = VNil")
    case False
    show ?thesis
    proof (cases s)
      case (SField name)
      with 2 False show ?thesis
        by (cases "getField v name") (simp_all add: step_to_def present_def [abs_def] present_Cons)
    next
      case (SIndex i)
      with 2 False show ?thesis
        by (cases "getIndex v i") (simp_all add: step_to_def present_def [abs_def] present_Cons)
    next
      case SWild
      show ?thesis
      proof (cases "wild_elems v")
        case (Inr xs)
        show ?thesis
        proof (cases "ss = []")
          case True
          with SWild False Inr show ?thesis
            by (simp add: step_to_def present_def [abs_def] present_Cons concat_all_singletons)
        next
          case ss: False
          have "result_ok (gather (formatPath (pre @ [s])) (containsWildcard ss) 0
              (map (\<lambda>x. exec_path [] x ss) xs)) = concat_all (map (select ss) xs)"
            by (rule gather_concat) (use 2(3) False SWild Inr ss in auto)
          then show ?thesis
            using SWild False Inr ss
            by (auto simp: step_to_def present_def [abs_def] present_Cons result_ok_def
                eq_commute [of _ "concat_all _"] split: sum.splits)
        qed
      qed (use SWild False in \<open>simp add: step_to_def\<close>)
    qed
  qed (simp add: step_to_def)
qed

text \<open>
  C21: executing a path gives what the path selects: the one value it leads to or, when it has
  wildcards, one flat list of all matches in order; it fails exactly when a step of some match
  fails.
\<close>

theorem ExecutePath_selects:
  "result_ok (ExecutePath v path) =
     map_option (\<lambda>ws. if containsWildcard path then VSlice ws else hd ws) (select path v)"
  using exec_path_select [of "[]" v path] by (simp add: ExecutePath_def present_def [abs_def])

text \<open>
  A path can be walked in two parts: up to a point before the first wildcard, and from the
  value found there.
\<close>

theorem ExecutePath_append:
  assumes "\<not> containsWildcard p"
  shows "result_ok (ExecutePath v (p @ q)) =
    Option.bind (result_ok (ExecutePath v p)) (\<lambda>u. result_ok (ExecutePath u q))"
proof -
  have "result_ok (exec_path pre v (p @ q)) =
      Option.bind (result_ok (exec_path pre' v p)) (\<lambda>u. result_ok (exec_path [] u q))" for pre pre'
    using assms
  proof (induction p arbitrary: v pre pre')
    case Nil
    then show ?case by (simp add: exec_path_select)
  next
    case (Cons s ss)
    show ?case
    proof (cases s)
      case (SField name)
      with Cons show ?thesis
        by (cases "v = VNil"; cases "getField v name") (auto simp: present_Cons)
    next
      case (SIndex i)
      with Cons show ?thesis
        by (cases "v = VNil"; cases "getIndex v i") (auto simp: present_Cons)
    next
      case SWild
      with Cons.prems show ?thesis by (simp add: present_Cons)
    qed
  qed
  then show ?thesis by (simp add: ExecutePath_def)
qed

theorem ExecutePath_append_witness:
  "result_ok (ExecutePath (VMap [(''a'', VSlice [VStr ''x'', VStr ''y''])]) ([SField ''a''] @ [SIndex 1])) =
   Option.bind (result_ok (ExecutePath (VMap [(''a'', VSlice [VStr ''x'', VStr ''y''])]) [SField ''a'']))
     (\<lambda>u. result_ok (ExecutePath u [SIndex 1]))"
  by (rule ExecutePath_append) (simp add: containsWildcard_def)

text \<open>A query written for a path executes that path.\<close>

theorem Execute_formatPath:
  assumes "wf_path path"
  shows "Execute data (formatPath path) = ExecutePath data path"
proof -
  have "formatPath path \<noteq> []"
    using assms by (auto simp: wf_path_def formatPath_eq dest: wf_ident_nonempty split: list.splits seg.splits)
  then show ?thesis by (simp add: Execute_def PathFromQuery_formatPath [OF assms])
qed

theorem Execute_formatPath_witness:
  "Execute (VMap [(''a'', VSlice [VStr ''x'', VStr ''y''])]) ''a[1]'' = Inr (VStr ''y'')"
proof -
  have "wf_path [SField ''a'', SIndex 1]"
    by (simp add: wf_path_def wf_ident_def is_letter_def ident_char_def)
  moreover have "formatPath [SField ''a'', SIndex 1] = ''a[1]''" by code_simp
  ultimately have "Execute (VMap [(''a'', VSlice [VStr ''x'', VStr ''y''])]) ''a[1]'' =
      ExecutePath (VMap [(''a'', VSlice [VStr ''x'', VStr ''y''])]) [SField ''a'', SIndex 1]"
    using Execute_formatPath [of "[SField ''a'', SIndex 1]"] by metis
  then show ?thesis by (simp add: ExecutePath_def getField_def getIndex_def as_slice_def)
qed

end
