(* ===== verification/Iterate.thy ===== *)
theory Iterate
  imports Acceptance QueryExec
begin

text \<open>
  \<open>iterate.go\<close>: \<open>Each\<close>, \<open>Collect\<close> and \<open>ValidateEach\<close> over what a query matches. A callback is a
  function that also threads a state, for what it may do besides. A call ends with its error
  result, or panics where the query does.
\<close>

datatype 'r call_end = Panics | Returns 'r

definition toSlice :: "gval \<Rightarrow> gval list option" where
  "toSlice v = (if v = VNil then None else as_slice v)"

definition query_error :: "string \<Rightarrow> string \<Rightarrow> go_error" where
  "query_error query err = OtherError (''query '' @ go_quote query @ '': '' @ err)"

text \<open>\<open>queryfy.Query\<close>.\<close>

definition Query :: "gval \<Rightarrow> string \<Rightarrow> qfail + gval" where
  "Query data q = Execute data q"

section \<open>Each\<close>

type_synonym 'st each_fun = "nat \<Rightarrow> gval \<Rightarrow> 'st \<Rightarrow> 'st \<times> go_error option"

fun each_loop :: "'st each_fun \<Rightarrow> nat \<Rightarrow> gval list \<Rightarrow> 'st \<Rightarrow> 'st \<times> go_error option" where
  "each_loop fn i [] st = (st, None)"
| "each_loop fn i (x # xs) st = (case fn i x st of
       (st', Some e) \<Rightarrow> (st', Some e)
     | (st', None) \<Rightarrow> each_loop fn (Suc i) xs st')"

definition Each :: "gval \<Rightarrow> string \<Rightarrow> 'st each_fun \<Rightarrow> 'st \<Rightarrow> 'st \<times> go_error option call_end" where
  "Each data query fn st = (case Execute data query of
       Inl QPanic \<Rightarrow> (st, Panics)
     | Inl (QError err) \<Rightarrow> (st, Returns (Some (query_error query err)))
     | Inr res \<Rightarrow> (case (case toSlice res of None \<Rightarrow> fn 0 res st | Some items \<Rightarrow> each_loop fn 0 items st) of
           (st', e) \<Rightarrow> (st', Returns e)))"

section \<open>Collect\<close>

type_synonym 'st collect_fun = "gval \<Rightarrow> 'st \<Rightarrow> 'st \<times> (go_error + gval)"

fun collect_loop :: "'st collect_fun \<Rightarrow> gval list \<Rightarrow> gval list \<Rightarrow> 'st \<Rightarrow> 'st \<times> (go_error + gval list)" where
  "collect_loop fn results [] st = (st, Inr results)"
| "collect_loop fn results (x # xs) st = (case fn x st of
       (st', Inl e) \<Rightarrow> (st', Inl e)
     | (st', Inr w) \<Rightarrow> collect_loop fn (results @ [w]) xs st')"

definition Collect_query :: "gval \<Rightarrow> string \<Rightarrow> 'st collect_fun \<Rightarrow> 'st \<Rightarrow>
    'st \<times> (go_error + gval list) call_end" where
  "Collect_query data query fn st = (case Execute data query of
       Inl QPanic \<Rightarrow> (st, Panics)
     | Inl (QError err) \<Rightarrow> (st, Returns (Inl (query_error query err)))
     | Inr res \<Rightarrow> (case (case toSlice res of
             None \<Rightarrow> (case fn res st of (st', Inl e) \<Rightarrow> (st', Inl e) | (st', Inr w) \<Rightarrow> (st', Inr [w]))
           | Some items \<Rightarrow> collect_loop fn [] items st) of
           (st', r) \<Rightarrow> (st', Returns r)))"

section \<open>ValidateEach\<close>




section \<open>Properties\<close>

text \<open>A callback that writes down each call and stops when \<open>stop\<close> says so.\<close>

definition logged :: "(nat \<Rightarrow> gval \<Rightarrow> go_error option) \<Rightarrow> (nat \<times> gval) list each_fun" where
  "logged stop i x seen = (seen @ [(i, x)], stop i x)"

lemma each_loop_log:
  "each_loop (logged stop) i xs seen =
     (let goes = (\<lambda>(i, x). stop i x = None); ixs = enumerate i xs in
      (seen @ takeWhile goes ixs @ take 1 (dropWhile goes ixs),
       case dropWhile goes ixs of [] \<Rightarrow> None | (i, x) # _ \<Rightarrow> stop i x))"
proof (induction xs arbitrary: i seen)
  case (Cons x xs)
  then show ?case
    by (cases "stop i x") (simp_all add: logged_def Let_def)
qed (simp add: Let_def)

text \<open>
  \<open>Each\<close> calls the callback on the matches in order with their indices, up to and including
  the first call that returns an error, and returns that error. A value that is not a slice is
  one match.
\<close>

theorem Each_calls:
  "Each data query (logged stop) [] = (case Execute data query of
       Inl QPanic \<Rightarrow> ([], Panics)
     | Inl (QError err) \<Rightarrow> ([], Returns (Some (query_error query err)))
     | Inr res \<Rightarrow> (let matches = (case toSlice res of None \<Rightarrow> [res] | Some items \<Rightarrow> items);
           goes = (\<lambda>(i, x). stop i x = None); calls = enumerate 0 matches in
         (takeWhile goes calls @ take 1 (dropWhile goes calls),
          Returns (case dropWhile goes calls of [] \<Rightarrow> None | (i, x) # _ \<Rightarrow> stop i x))))"
  by (auto simp: Each_def each_loop_log Let_def logged_def split: sum.splits qfail.splits option.splits)

text \<open>A callback that has no state.\<close>

definition stateless :: "(gval \<Rightarrow> go_error + gval) \<Rightarrow> 'st collect_fun" where
  "stateless g x st = (st, g x)"

lemma collect_loop_map:
  "collect_loop (stateless g) results xs st =
     (st, case dropWhile (\<lambda>x. \<exists>w. g x = Inr w) xs of
        [] \<Rightarrow> Inr (results @ map (\<lambda>x. projr (g x)) xs)
      | x # _ \<Rightarrow> Inl (projl (g x)))"
proof (induction xs arbitrary: results)
  case (Cons x xs)
  then show ?case
    by (cases "g x"; cases "dropWhile (\<lambda>x. \<exists>w. g x = Inr w) xs")
      (simp_all add: stateless_def del: dropWhile_eq_Nil_conv)
qed simp

text \<open>
  \<open>Collect\<close> returns the images of all matches in order, or the first error of the callback.
\<close>

theorem Collect_maps:
  "Collect_query data query (stateless g) st = (st, case Execute data query of
       Inl QPanic \<Rightarrow> Panics
     | Inl (QError err) \<Rightarrow> Returns (Inl (query_error query err))
     | Inr res \<Rightarrow> (let matches = (case toSlice res of None \<Rightarrow> [res] | Some items \<Rightarrow> items) in
         Returns (case dropWhile (\<lambda>x. \<exists>w. g x = Inr w) matches of
             [] \<Rightarrow> Inr (map (\<lambda>x. projr (g x)) matches)
           | x # _ \<Rightarrow> Inl (projl (g x)))))"
proof (cases "Execute data query")
  case (Inl e)
  then show ?thesis by (cases e) (simp_all add: Collect_query_def)
next
  case (Inr res)
  then show ?thesis
    by (cases "toSlice res"; cases "g res")
      (simp_all add: Collect_query_def Let_def collect_loop_map stateless_def [of g res] cong: list.case_cong)
qed





end
