(* ===== verification/CompileObject.thy ===== *)
theory CompileObject
  imports CompileProps Iterate
begin

text \<open>
  The two compilers of \<open>compile.go\<close> that \<open>Compile\<close> does not reach for a schema of the library:
  \<open>compileObject\<close> and \<open>compileArray\<close>. A compiled object or array is the list of its checks, each
  a function on the value and the context as \<open>checkFunc\<close> is in the code. \<open>compiled_object_report\<close>
  and \<open>compiled_array_report\<close> say what they report; the theorems compare what they accept with
  what the schema accepts, and the last ones show where they differ.
\<close>

type_synonym check_func = "gval \<Rightarrow> validation_context \<Rightarrow> validation_context"

section \<open>The interfaces the compilers look for\<close>

text \<open>The schema types that implement \<open>objectIntrospection\<close> and \<open>arrayIntrospection\<close>.\<close>

fun object_introspection :: "schema \<Rightarrow> schema object_schema option" where
  "object_introspection (ObjectS s) = Some s"
| "object_introspection (DepObjectS s) = Some (do_object s)"
| "object_introspection _ = None"

fun array_introspection :: "schema \<Rightarrow> schema array_schema option" where
  "array_introspection (ArrayS s) = Some s"
| "array_introspection _ = None"

definition isSchemaRequired :: "schema \<Rightarrow> bool" where
  "isSchemaRequired s = IsRequired s"

text \<open>\<open>toMap\<close>: a \<open>map[string]interface{}\<close>, or by reflection a map with string keys.\<close>

fun toMap :: "gval \<Rightarrow> gval gmap option" where
  "toMap (VMap m) = Some m"
| "toMap (VTMap k e m) = Some m"
| "toMap _ = None"

lemma toMap_convertToMap: "toMap v = convertToMap v"
  by (cases v) (simp_all add: convertToMap_def)

section \<open>Objects\<close>

record compiled_field =
  cf_name :: string
  cf_schema :: schema
  cf_required :: bool

definition compiled_fields :: "schema object_schema \<Rightarrow> compiled_field list" where
  "compiled_fields s =
     (let reqSet = Object_RequiredFieldNames IsRequired s in
      map (\<lambda>name. let fieldSchema = the (Object_GetField s name) in
            \<lparr>cf_name = name, cf_schema = compile_schema fieldSchema,
             cf_required = name \<in> set reqSet \<or> isSchemaRequired fieldSchema\<rparr>)
        (Object_FieldNames s))"

definition check_compiled_field :: "env \<Rightarrow> gval gmap \<Rightarrow> compiled_field \<Rightarrow>
    validation_context \<Rightarrow> validation_context" where
  "check_compiled_field E objMap f = WithPath (cf_name f) (\<lambda>c.
     case map_of objMap (cf_name f) of
       Some fieldValue \<Rightarrow> validate E (cf_schema f) fieldValue c
     | None \<Rightarrow> if cf_required f then AddError ''field is required'' VNil c else c)"

definition check_unexpected :: "string list \<Rightarrow> gval gmap \<Rightarrow> string \<Rightarrow>
    validation_context \<Rightarrow> validation_context" where
  "check_unexpected fieldSet objMap key =
     (if key \<notin> set fieldSet
      then WithPath key (AddError ''unexpected field'' (the (map_of objMap key))) else (\<lambda>c. c))"

definition compiled_rejectsExtra :: "schema object_schema \<Rightarrow> vmode \<Rightarrow> bool" where
  "compiled_rejectsExtra s m = (case Object_AllowsAdditional s of (allow, explicit) \<Rightarrow>
     if explicit then \<not> allow else m = Strict)"

definition object_check :: "env \<Rightarrow> schema object_schema \<Rightarrow> check_func" where
  "object_check E s v c = (case toMap v of
       None \<Rightarrow> AddError (''cannot convert '' @ type_name v @ '' to map'') v c
     | Some objMap \<Rightarrow>
         (let c = fold (check_compiled_field E objMap) (compiled_fields s) c
          in if compiled_rejectsExtra s (c_mode c)
             then fold (check_unexpected (Object_FieldNames s) objMap) (range_keys E c objMap) c
             else c))"

definition type_check :: "go_lib \<Rightarrow> schema_type \<Rightarrow> check_func" where
  "type_check L t v c = fst (ValidateValue L v t c)"

definition compileObject :: "env \<Rightarrow> schema \<Rightarrow> check_func list" where
  "compileObject E schema = [type_check (e_lib E) TypeObject]
     @ (case object_introspection schema of
          None \<Rightarrow> [validate E schema]
        | Some s \<Rightarrow> [object_check E s]
            @ map (\<lambda>validator v. run_validator v v validator) (ob_validators s))"

section \<open>Arrays\<close>

definition array_check :: "env \<Rightarrow> schema array_schema \<Rightarrow> check_func" where
  "array_check E s v c = (case toSlice v of
       None \<Rightarrow> c
     | Some arr \<Rightarrow>
         (let len = length arr;
              c = (case ar_minItems s of None \<Rightarrow> c
                | Some n \<Rightarrow> if int len < n then AddError (min_items_msg n len) v c else c);
              c = (case ar_maxItems s of None \<Rightarrow> c
                | Some n \<Rightarrow> if n < int len then AddError (max_items_msg n len) v c else c);
              c = (if ar_uniqueItems s \<and> 1 < len
                then if repeats [] (map (sprint_v (e_lib E)) arr)
                     then AddError ''items must be unique'' v c else c
                else c)
          in (case map_option compile_schema (ar_elementSchema s) of None \<Rightarrow> c
            | Some compiledElem \<Rightarrow>
                fold (\<lambda>(i, item). WithPath (index_segment (int i)) (validate E compiledElem item))
                  (enumerate 0 arr) c)))"

definition compileArray :: "env \<Rightarrow> schema \<Rightarrow> check_func list" where
  "compileArray E schema = [type_check (e_lib E) TypeArray]
     @ (case array_introspection schema of
          None \<Rightarrow> [validate E schema]
        | Some s \<Rightarrow> [array_check E s]
            @ map (\<lambda>validator v. run_validator v v validator) (ar_validators s))"

text \<open>\<open>Validate\<close> of a compiled schema with these checks.\<close>

definition run_checks :: "schema \<Rightarrow> check_func list \<Rightarrow> check_func" where
  "run_checks s checks = guarded (extractBase (schema_Type s) (IsRequired s) (IsNullable s))
     (\<lambda>v c. fold (\<lambda>check. check v) checks c)"

section \<open>What the checks accept\<close>

text \<open>
  \<open>judges f P\<close>: in mode \<open>m\<close> the step \<open>f\<close> adds an error unless \<open>P m\<close>, at every path and
  whatever the context holds.
\<close>

definition judges :: "(validation_context \<Rightarrow> validation_context) \<Rightarrow> (vmode \<Rightarrow> bool) \<Rightarrow> bool" where
  "judges f P = (\<exists>R. steps f R \<and> (\<forall>p m. clean (R p m) = P m))"

named_theorems judges_intros "rules that compose what steps judge"

lemma judgesI: "steps f R \<Longrightarrow> (\<And>p m. clean (R p m) = P m) \<Longrightarrow> judges f P"
  unfolding judges_def by blast

lemma judges_cong: "judges f P \<Longrightarrow> (\<And>m. P m = Q m) \<Longrightarrow> judges f Q"
  unfolding judges_def by auto

lemma judges_fresh:
  "judges f P \<Longrightarrow> HasErrors (f (NewValidationContext m)) \<longleftrightarrow> \<not> P m"
  unfolding judges_def using steps_fresh by blast

lemma judges_id [judges_intros]: "judges (\<lambda>c. c) (\<lambda>m. True)"
  by (rule judgesI [OF steps_id]) simp

lemma judges_AddError [judges_intros]: "judges (AddError msg v) (\<lambda>m. False)"
  by (rule judgesI [OF steps_AddError]) simp

lemma judges_validate [judges_intros]:
  "judges (validate E s v) (\<lambda>m. accepts E s v m)"
proof (rule judgesI)
  show "steps (validate E s v) (r_report (sface_of (e_lib E) s) v)"
    using implementsD(4) [OF schema_implements, of E s v] by (simp add: validate_def [abs_def])
  show "clean (r_report (sface_of (e_lib E) s) v p m) = accepts E s v m" for p m
    by (simp add: clean_ok accepts_ok)
qed

lemma judges_comp:
  assumes "judges f P" and "judges g Q"
  shows "judges (\<lambda>c. g (f c)) (\<lambda>m. P m \<and> Q m)"
proof -
  obtain R S where "steps f R" "steps g S" "\<And>p m. clean (R p m) = P m" "\<And>p m. clean (S p m) = Q m"
    using assms unfolding judges_def by blast
  then show ?thesis by (intro judgesI [OF steps_comp [where f = f and g = g]]) auto
qed

lemma judges_if [judges_intros]:
  "(b \<Longrightarrow> judges f P) \<Longrightarrow> (\<not> b \<Longrightarrow> judges g Q) \<Longrightarrow>
   judges (\<lambda>c. if b then f c else g c) (\<lambda>m. if b then P m else Q m)"
  by (cases b) simp_all

lemma judges_mode:
  assumes "\<And>m. judges (f m) (P m)"
  shows "judges (\<lambda>c. f (c_mode c) c) (\<lambda>m. P m m)"
proof -
  have "\<forall>m. \<exists>R. steps (f m) R \<and> (\<forall>p md. clean (R p md) = P m md)"
    using assms unfolding judges_def by blast
  then obtain R where "\<And>m. steps (f m) (R m)" "\<And>m p md. clean (R m p md) = P m md" by metis
  then show ?thesis by (intro judgesI [OF steps_mode [where f = f and R = R]]) simp_all
qed

lemma judges_option [judges_intros]:
  "(x = None \<Longrightarrow> judges f P) \<Longrightarrow> (\<And>y. x = Some y \<Longrightarrow> judges (g y) (Q y)) \<Longrightarrow>
   judges (\<lambda>c. case x of None \<Rightarrow> f c | Some y \<Rightarrow> g y c)
     (\<lambda>m. case x of None \<Rightarrow> P m | Some y \<Rightarrow> Q y m)"
  by (cases x) auto

lemma judges_WithPath [judges_intros]:
  assumes "judges f P"
  shows "judges (WithPath s f) P"
proof -
  obtain R where "steps f R" "\<And>p m. clean (R p m) = P m"
    using assms unfolding judges_def by blast
  then show ?thesis by (intro judgesI [OF steps_WithPath]) simp_all
qed

lemma judges_all:
  assumes "\<And>x. x \<in> set xs \<Longrightarrow> judges (f x) (P x)"
  obtains R where "\<And>x. x \<in> set xs \<Longrightarrow> steps (f x) (R x)"
    and "\<And>x p m. x \<in> set xs \<Longrightarrow> clean (R x p m) = P x m"
proof -
  have "\<forall>x \<in> set xs. \<exists>R. steps (f x) R \<and> (\<forall>p m. clean (R p m) = P x m)"
    using assms unfolding judges_def by blast
  then show ?thesis using that by metis
qed

lemma judges_fold [judges_intros]:
  assumes "\<And>x. x \<in> set xs \<Longrightarrow> judges (f x) (P x)"
  shows "judges (fold f xs) (\<lambda>m. \<forall>x \<in> set xs. P x m)"
proof -
  obtain R where R: "\<And>x. x \<in> set xs \<Longrightarrow> steps (f x) (R x)"
    "\<And>x p m. x \<in> set xs \<Longrightarrow> clean (R x p m) = P x m"
    using judges_all [of xs f P, OF assms] by blast
  show ?thesis by (rule judgesI [OF steps_fold [OF R(1)]]) (simp_all add: R(2))
qed

lemma judges_range [judges_intros]:
  assumes "\<And>k. k \<in> set (map_keys mp) \<Longrightarrow> judges (f k) (P k)"
  shows "judges (\<lambda>c. fold f (range_keys E c mp) c) (\<lambda>m. \<forall>k \<in> set (map_keys mp). P k m)"
proof -
  obtain R where R: "\<And>x. x \<in> set (map_keys mp) \<Longrightarrow> steps (f x) (R x)"
    "\<And>x p m. x \<in> set (map_keys mp) \<Longrightarrow> clean (R x p m) = P x m"
    using judges_all [of "map_keys mp" f P, OF assms] by blast
  show ?thesis by (rule judgesI [OF steps_range [OF R(1)]]) (simp_all add: R(2))
qed

lemma judges_run_validator [judges_intros]:
  "judges (run_validator arg shown f) (\<lambda>m. f arg = None)"
  by (cases "f arg") (auto simp: run_validator_def [abs_def] intro: judges_intros)

lemma judges_type_check [judges_intros]: "judges (type_check L t v) (type_ok L t v)"
proof -
  have "judges (\<lambda>c. (\<lambda>m c. if type_ok L t v m then c else AddError (type_msg t v) v c) (c_mode c) c)
      (\<lambda>m. (\<lambda>m md. if type_ok L t v m then True else False) m m)"
    by (rule judges_mode) (intro judges_intros)
  from judges_cong [OF this, of "type_ok L t v"] show ?thesis
    by (simp add: type_check_def [abs_def] ValidateValue_eq if_distrib cong: if_cong)
qed

lemma judges_guarded:
  fixes rest :: check_func
  assumes "judges (rest v) P"
  shows "judges (guarded b rest v) (\<lambda>m. if v = VNil then nil_ok b else P m)"
proof (cases "v = VNil")
  case True
  then show ?thesis
    by (auto simp: guarded_nil nil_ok_def intro: judges_intros)
next
  case False
  then have "guarded b rest v = rest v" by (simp add: fun_eq_iff)
  with False assms show ?thesis by simp
qed

section \<open>Compiled objects\<close>

definition checks_accept :: "schema \<Rightarrow> check_func list \<Rightarrow> gval \<Rightarrow> vmode \<Rightarrow> bool" where
  "checks_accept s checks v m = (\<not> HasErrors (run_checks s checks v (NewValidationContext m)))"

text \<open>Running the checks one after the other judges them all.\<close>

lemma checks_accept_Cons:
  assumes "judges (k v) P" and "judges (k' v) Q" and "\<And>f. f \<in> set fs \<Longrightarrow> judges (g f v) (R f)"
  shows "checks_accept s (k # k' # map g fs) v m \<longleftrightarrow>
    (if v = VNil then \<not> IsRequired s \<and> IsNullable s else P m \<and> Q m \<and> (\<forall>f \<in> set fs. R f m))"
proof -
  have "judges (\<lambda>c. fold (\<lambda>f. g f v) fs (k' v (k v c))) (\<lambda>m. (P m \<and> Q m) \<and> (\<forall>f \<in> set fs. R f m))"
    by (intro judges_comp [where f = "\<lambda>c. k' v (k v c)"] judges_comp assms judges_fold)
  moreover have "fold (\<lambda>check. check v) (map g fs) c = fold (\<lambda>f. g f v) fs c" for c
    by (simp add: fold_map comp_def)
  ultimately have "judges (\<lambda>c. fold (\<lambda>check. check v) (k # k' # map g fs) c)
      (\<lambda>m. P m \<and> Q m \<and> (\<forall>f \<in> set fs. R f m))"
    by simp
  from judges_fresh [OF judges_guarded [where rest = "\<lambda>v c. fold (\<lambda>check. check v) (k # k' # map g fs) c",
        OF this], of "extractBase (schema_Type s) (IsRequired s) (IsNullable s)" m]
  show ?thesis by (simp add: checks_accept_def run_checks_def nil_ok_def)
qed

lemma set_FieldNames: "name \<in> set (Object_FieldNames s) \<longleftrightarrow> Object_GetField s name \<noteq> None"
  by (auto simp: Object_FieldNames_def Object_GetField_def map_of_eq_None_iff)

lemma judges_compiled_field:
  "judges (check_compiled_field E objMap f) (\<lambda>m. case map_of objMap (cf_name f) of
     None \<Rightarrow> \<not> cf_required f | Some w \<Rightarrow> accepts E (cf_schema f) w m)"
proof -
  have "judges (\<lambda>c. case map_of objMap (cf_name f) of
        None \<Rightarrow> if cf_required f then AddError ''field is required'' VNil c else c
      | Some w \<Rightarrow> validate E (cf_schema f) w c)
    (\<lambda>m. case map_of objMap (cf_name f) of None \<Rightarrow> if cf_required f then False else True
      | Some w \<Rightarrow> accepts E (cf_schema f) w m)"
    by (intro judges_intros)
  from judges_WithPath [OF this, of "cf_name f"] show ?thesis
    unfolding check_compiled_field_def by (rule judges_cong) (simp split: option.split)
qed

definition object_checked :: "env \<Rightarrow> schema object_schema \<Rightarrow> gval gmap \<Rightarrow> vmode \<Rightarrow> bool" where
  "object_checked E s mp m = (
     (\<forall>f \<in> set (compiled_fields s). case map_of mp (cf_name f) of
        None \<Rightarrow> \<not> cf_required f | Some w \<Rightarrow> accepts E (cf_schema f) w m)
     \<and> (compiled_rejectsExtra s m \<longrightarrow> (\<forall>key \<in> set (map_keys mp). key \<in> set (Object_FieldNames s))))"

lemma judges_object_check:
  "judges (object_check E s v)
    (\<lambda>m. case toMap v of None \<Rightarrow> False | Some mp \<Rightarrow> object_checked E s mp m)"
proof (cases "toMap v")
  case None
  then show ?thesis by (simp add: object_check_def [abs_def] judges_AddError)
next
  case (Some mp)
  have key: "judges (check_unexpected names mp key) (\<lambda>m. key \<in> set names)" for names key
    by (cases "key \<in> set names") (auto simp: check_unexpected_def intro: judges_intros)
  have "judges (\<lambda>c. (\<lambda>m c. if compiled_rejectsExtra s m
        then fold (check_unexpected (Object_FieldNames s) mp) (range_keys E c mp) c else c) (c_mode c) c)
      (\<lambda>m. (\<lambda>m md. if compiled_rejectsExtra s m
        then \<forall>key \<in> set (map_keys mp). key \<in> set (Object_FieldNames s) else True) m m)"
    by (rule judges_mode) (intro judges_intros key)
  from judges_comp [OF judges_fold [OF judges_compiled_field [of E mp], where xs = "compiled_fields s"] this]
  have "judges (\<lambda>c. let c = fold (check_compiled_field E mp) (compiled_fields s) c
      in if compiled_rejectsExtra s (c_mode c)
         then fold (check_unexpected (Object_FieldNames s) mp) (range_keys E c mp) c else c)
    (object_checked E s mp)"
    unfolding Let_def by (rule judges_cong) (simp add: object_checked_def)
  then show ?thesis by (simp add: object_check_def [abs_def] Some)
qed

lemma compiled_rejectsExtra: "compiled_rejectsExtra s m = rejectsExtra s m"
  by (simp add: compiled_rejectsExtra_def rejectsExtra_def Object_AllowsAdditional_def
      split: option.split)

lemma mem_RequiredFieldNames:
  "name \<in> set (Object_RequiredFieldNames IsRequired s) \<longleftrightarrow>
     (name, True) \<in> set (ob_requiredFields s)
     \<or> (\<exists>f. (name, f) \<in> set (ob_fields s) \<and> \<not> in_requiredFields s name \<and> IsRequired f)"
  by (force simp: Object_RequiredFieldNames_def)

text \<open>
  The maps \<open>fields\<close> and \<open>requiredFields\<close> of an object, as association lists with one entry for
  each key.
\<close>

definition object_maps :: "schema object_schema \<Rightarrow> bool" where
  "object_maps s = (distinct (map fst (ob_fields s)) \<and> distinct (map fst (ob_requiredFields s)))"

lemma cf_required_iff:
  assumes "object_maps s" and "Object_GetField s name = Some f"
  shows "name \<in> set (Object_RequiredFieldNames IsRequired s) \<or> isSchemaRequired f \<longleftrightarrow>
    object_requires s name"
proof -
  have "(name, True) \<in> set (ob_requiredFields s) \<longleftrightarrow> in_requiredFields s name"
    using assms(1) by (auto simp: object_maps_def in_requiredFields_def)
  moreover have "(name, g) \<in> set (ob_fields s) \<longleftrightarrow> g = f" for g
    using assms
    by (auto simp: object_maps_def Object_GetField_def dest: map_of_SomeD eq_key_imp_eq_value)
  ultimately show ?thesis
    by (auto simp: mem_RequiredFieldNames object_requires_def assms(2) isSchemaRequired_def)
qed

lemma object_checked_iff:
  assumes maps: "object_maps s"
    and same: "\<And>name f w. Object_GetField s name = Some f \<Longrightarrow>
      accepts E (compile_schema f) w m = accepts E f w m"
    and declared: "\<And>name. in_requiredFields s name \<Longrightarrow> Object_GetField s name \<noteq> None"
  shows "object_checked E s mp m \<longleftrightarrow> (\<forall>name. case map_of mp name of
       None \<Rightarrow> \<not> object_requires s name
     | Some fv \<Rightarrow> (case Object_GetField s name of
           Some f \<Rightarrow> accepts E f fv m | None \<Rightarrow> \<not> rejectsExtra s m))"
proof -
  have "(\<forall>f \<in> set (compiled_fields s). case map_of mp (cf_name f) of
        None \<Rightarrow> \<not> cf_required f | Some w \<Rightarrow> accepts E (cf_schema f) w m) \<longleftrightarrow>
      (\<forall>name. Object_GetField s name \<noteq> None \<longrightarrow> (case map_of mp name of
          None \<Rightarrow> \<not> object_requires s name
        | Some w \<Rightarrow> accepts E (the (Object_GetField s name)) w m))"
    using same cf_required_iff [OF maps]
    by (auto simp: compiled_fields_def Let_def set_FieldNames split: option.split)
  moreover have needs: "object_requires s name \<Longrightarrow> Object_GetField s name \<noteq> None" for name
    using declared [of name] by (auto simp: object_requires_def split: option.splits)
  ultimately have "object_checked E s mp m \<longleftrightarrow> (\<forall>name.
      (Object_GetField s name \<noteq> None \<longrightarrow> (case map_of mp name of
          None \<Rightarrow> \<not> object_requires s name
        | Some w \<Rightarrow> accepts E (the (Object_GetField s name)) w m))
      \<and> (rejectsExtra s m \<longrightarrow> map_of mp name \<noteq> None \<longrightarrow> Object_GetField s name \<noteq> None)
      \<and> (object_requires s name \<longrightarrow> Object_GetField s name \<noteq> None))"
    unfolding object_checked_def compiled_rejectsExtra ball_map_keys set_FieldNames by blast
  moreover have "(Object_GetField s name \<noteq> None \<longrightarrow> (case map_of mp name of
          None \<Rightarrow> \<not> object_requires s name
        | Some w \<Rightarrow> accepts E (the (Object_GetField s name)) w m))
      \<and> (rejectsExtra s m \<longrightarrow> map_of mp name \<noteq> None \<longrightarrow> Object_GetField s name \<noteq> None)
      \<and> (object_requires s name \<longrightarrow> Object_GetField s name \<noteq> None) \<longleftrightarrow>
    (case map_of mp name of
       None \<Rightarrow> \<not> object_requires s name
     | Some fv \<Rightarrow> (case Object_GetField s name of
           Some f \<Rightarrow> accepts E f fv m | None \<Rightarrow> \<not> rejectsExtra s m))" for name
    using needs [of name] by (cases "map_of mp name"; cases "Object_GetField s name") auto
  ultimately show ?thesis by simp
qed

text \<open>
  C17: the checks compiled for an object accept what its schema accepts, if the compiled schemas
  of its fields do, every required name is declared, and its validators, which the
  compiled schema gives the value itself, see the map that the schema gives them.
\<close>

theorem compileObject_accepts:
  assumes "object_maps s"
    and "\<And>name f w. Object_GetField s name = Some f \<Longrightarrow>
      accepts E (compile_schema f) w m = accepts E f w m"
    and "\<And>name. in_requiredFields s name \<Longrightarrow> Object_GetField s name \<noteq> None"
    and "\<And>f mp. f \<in> set (ob_validators s) \<Longrightarrow> toMap v = Some mp \<Longrightarrow> f v = None \<longleftrightarrow> f (VMap mp) = None"
  shows "checks_accept (ObjectS s) (compileObject E (ObjectS s)) v m = accepts E (ObjectS s) v m"
proof -
  have "checks_accept (ObjectS s) (compileObject E (ObjectS s)) v m \<longleftrightarrow>
    (if v = VNil then \<not> IsRequired (ObjectS s) \<and> IsNullable (ObjectS s)
     else type_ok (e_lib E) TypeObject v m
       \<and> (case toMap v of None \<Rightarrow> False | Some mp \<Rightarrow> object_checked E s mp m)
       \<and> (\<forall>f \<in> set (ob_validators s). f v = None))"
    unfolding compileObject_def object_introspection.simps option.case append.simps
    by (rule checks_accept_Cons) (rule judges_intros judges_object_check)+
  then show ?thesis
    using assms(4)
    by (auto simp: object_accepts nil_ok_def IsNullable_def type_ok_object_map toMap_convertToMap
        object_checked_iff [OF assms(1-3)] list_all_iff split: option.splits)
qed

section \<open>Compiled arrays\<close>

lemma judges_elements:
  "judges (fold (\<lambda>(i, item). WithPath (index_segment (int i)) (validate E s item)) (enumerate 0 xs))
    (\<lambda>m. list_all (\<lambda>x. accepts E s x m) xs)"
proof -
  have "judges (fold (\<lambda>(i, item). WithPath (index_segment (int i)) (validate E s item)) (enumerate 0 xs))
      (\<lambda>m. \<forall>p \<in> set (enumerate 0 xs). accepts E s (snd p) m)"
    by (rule judges_fold) (auto intro!: judges_WithPath judges_validate)
  then show ?thesis
    by (rule judges_cong) (simp add: ball_enumerate [where n = 0, symmetric] case_prod_beta)
qed

lemma array_check_eq:
  assumes "toSlice v = Some xs"
  shows "array_check E s v c = (case ar_elementSchema s of
       None \<Rightarrow> array_checks (e_lib E) s v xs c
     | Some f \<Rightarrow> fold (\<lambda>(i, item). WithPath (index_segment (int i)) (validate E (compile_schema f) item))
         (enumerate 0 xs) (array_checks (e_lib E) s v xs c))"
  by (simp add: array_check_def array_checks_def assms Let_def split: option.split)

lemma judges_array_check:
  "judges (array_check E s v) (\<lambda>m. case toSlice v of None \<Rightarrow> True
     | Some xs \<Rightarrow> array_violations (e_lib E) s xs = []
         \<and> (case ar_elementSchema s of None \<Rightarrow> True
            | Some f \<Rightarrow> list_all (\<lambda>x. accepts E (compile_schema f) x m) xs))"
proof (cases "toSlice v")
  case None
  then show ?thesis by (simp add: array_check_def [abs_def] judges_id)
next
  case (Some xs)
  have whole: "judges (array_checks (e_lib E) s v xs) (\<lambda>m. array_violations (e_lib E) s xs = [])"
    by (rule judgesI [OF steps_array_checks]) simp
  have "judges (\<lambda>c. case ar_elementSchema s of None \<Rightarrow> c
      | Some f \<Rightarrow> fold (\<lambda>(i, item). WithPath (index_segment (int i)) (validate E (compile_schema f) item))
          (enumerate 0 xs) c)
    (\<lambda>m. case ar_elementSchema s of None \<Rightarrow> True
      | Some f \<Rightarrow> list_all (\<lambda>x. accepts E (compile_schema f) x m) xs)"
    by (intro judges_intros judges_elements)
  from judges_comp [OF whole this] show ?thesis
    by (simp add: array_check_eq [OF Some, abs_def] Some)
qed

text \<open>
  The checks compiled for an array accept what its schema accepts, if the compiled element
  schema does.
\<close>

theorem compileArray_accepts:
  assumes "\<And>f w. ar_elementSchema s = Some f \<Longrightarrow> accepts E (compile_schema f) w m = accepts E f w m"
  shows "checks_accept (ArrayS s) (compileArray E (ArrayS s)) v m = accepts E (ArrayS s) v m"
proof -
  have "checks_accept (ArrayS s) (compileArray E (ArrayS s)) v m \<longleftrightarrow>
    (if v = VNil then \<not> IsRequired (ArrayS s) \<and> IsNullable (ArrayS s)
     else type_ok (e_lib E) TypeArray v m
       \<and> (case toSlice v of None \<Rightarrow> True
          | Some xs \<Rightarrow> array_violations (e_lib E) s xs = []
              \<and> (case ar_elementSchema s of None \<Rightarrow> True
                 | Some f \<Rightarrow> list_all (\<lambda>x. accepts E (compile_schema f) x m) xs))
       \<and> (\<forall>f \<in> set (ar_validators s). f v = None))"
    unfolding compileArray_def array_introspection.simps option.case append.simps
    by (rule checks_accept_Cons) (rule judges_intros judges_array_check)+
  then show ?thesis
    using assms
    by (auto simp: array_accepts nil_ok_def IsNullable_def type_ok_array toSlice_def
        array_violations_def list_all_iff split: option.splits if_splits)
qed

section \<open>Where the compiled checks differ\<close>

text \<open>
  A name that is required but not declared, which \<open>RequiredFields\<close> allows: the schema misses it,
  the compiled checks, which go through the declared fields, do not.
\<close>

definition undeclared :: "schema object_schema" where
  "undeclared = Object_RequiredFields [''a''] Object_new"

lemma undeclared_maps:
  "object_maps undeclared" "ob_fields undeclared = []" "ob_validators undeclared = []"
  "ob_requiredFields undeclared = [(''a'', True)]" "rejectsExtra undeclared m = (m = Strict)"
  by (simp_all add: undeclared_def Object_RequiredFields_def ob_RequiredFields_def Object_new_def
      object_maps_def rejectsExtra_def)

theorem compileObject_undeclared:
  "\<not> accepts E (ObjectS undeclared) (VMap []) Strict
   \<and> checks_accept (ObjectS undeclared) (compileObject E (ObjectS undeclared)) (VMap []) Strict"
proof
  show "\<not> accepts E (ObjectS undeclared) (VMap []) Strict"
    by (simp add: object_accepts object_requires_def in_requiredFields_def undeclared_maps
        convertToMap_def) (auto intro!: exI [of _ "''a''"])
  have "checks_accept (ObjectS undeclared) (compileObject E (ObjectS undeclared)) (VMap []) Strict \<longleftrightarrow>
      object_checked E undeclared [] Strict"
    unfolding compileObject_def object_introspection.simps option.case append.simps
    by (subst checks_accept_Cons [OF judges_type_check judges_object_check judges_run_validator])
      (simp_all add: type_ok_object undeclared_maps)
  then show "checks_accept (ObjectS undeclared) (compileObject E (ObjectS undeclared)) (VMap []) Strict"
    by (simp add: object_checked_def compiled_fields_def Object_FieldNames_def undeclared_maps)
qed

text \<open>An object with one field, and a value its compiled checks reject as the schema does.\<close>

definition named_two :: "schema object_schema" where
  "named_two = ObjectSchema (new_base TypeObject) [(''a'', StringS two_letters)] [(''a'', True)] None [] []"

lemma two_letters_compiled:
  "accepts E (compile_schema (StringS two_letters)) v m = accepts E (StringS two_letters) v m"
  by (rule string_accepts_compiled)
    (simp add: two_letters_def String_MinLength_def String_new_def String_PatternMatch_def)

theorem compileObject_accepts_witness:
  "\<not> checks_accept (ObjectS named_two) (compileObject sample_env (ObjectS named_two))
     (VMap [(''a'', VStr ''b'')]) Strict"
proof -
  have "checks_accept (ObjectS named_two) (compileObject sample_env (ObjectS named_two))
      (VMap [(''a'', VStr ''b'')]) Strict
    = accepts sample_env (ObjectS named_two) (VMap [(''a'', VStr ''b'')]) Strict"
    by (rule compileObject_accepts)
      (auto simp: named_two_def object_maps_def Object_GetField_def in_requiredFields_def
        two_letters_compiled simp del: compile_schema.simps split: if_splits)
  moreover have "\<not> accepts sample_env (StringS two_letters) (VStr ''b'') Strict"
    by (simp add: accepts_StringS string_violations_Nil string_reading_def as_string_def
        two_letters_def String_MinLength_def String_new_def)
  ultimately show ?thesis
    by (auto simp: object_accepts convertToMap_def named_two_def Object_GetField_def
        dest!: spec [of _ "''a''"])
qed

definition letters_array :: "schema array_schema" where
  "letters_array = Array_Of (StringS two_letters) Array_new"

theorem compileArray_accepts_witness:
  "\<not> checks_accept (ArrayS letters_array) (compileArray sample_env (ArrayS letters_array))
     (VSlice [VStr ''b'']) Strict"
proof -
  have "checks_accept (ArrayS letters_array) (compileArray sample_env (ArrayS letters_array))
      (VSlice [VStr ''b'']) Strict
    = accepts sample_env (ArrayS letters_array) (VSlice [VStr ''b'']) Strict"
    by (rule compileArray_accepts)
      (auto simp: letters_array_def Array_new_def two_letters_compiled simp del: compile_schema.simps)
  then show ?thesis
    by (simp add: array_accepts as_slice_def letters_array_def Array_new_def accepts_StringS
        string_violations_Nil string_reading_def as_string_def two_letters_def String_MinLength_def
        String_new_def)
qed

end
