(* ===== verification/QueryCache.thy ===== *)
theory QueryCache
  imports QueryExec
begin

text \<open>
  \<open>query/query.go\<close>: the cache of parsed queries and \<open>ExecuteCached\<close>. The cache is a package
  variable; its operations hold its lock, so calls that run at the same time interleave between
  them. The step relation \<open>cache_step\<close> has the steps of concurrent calls: a call that misses
  parses the query (it is then pending) and stores it in a later step.
\<close>

section \<open>The cache\<close>

type_synonym query_cache = "node gmap"

definition cache_get :: "query_cache \<Rightarrow> string \<Rightarrow> node option" where
  "cache_get c key = map_of c key"

definition cache_set :: "string \<Rightarrow> node \<Rightarrow> query_cache \<Rightarrow> query_cache" where
  "cache_set key q c = map_put key q (if 1000 < length c then [] else c)"

definition ExecuteCached :: "gval \<Rightarrow> string \<Rightarrow> query_cache \<Rightarrow> query_cache \<times> (qfail + gval)" where
  "ExecuteCached data query c = (case cache_get c query of
       Some tree \<Rightarrow> (c, ExecutePath data (SimplifyNode tree))
     | None \<Rightarrow> (case ParseQuery query of
           Inl err \<Rightarrow> (c, Inl (QError err))
         | Inr tree \<Rightarrow> (cache_set query tree c, ExecutePath data (SimplifyNode tree))))"

definition ClearCache :: "query_cache \<Rightarrow> query_cache" where
  "ClearCache c = []"

section \<open>Concurrent calls\<close>

record cache_state =
  ca_queries :: query_cache
  ca_pending :: "(string \<times> node) list"     \<comment> \<open>parsed by calls that have not stored yet\<close>

definition cache_init :: cache_state where
  "cache_init = \<lparr>ca_queries = [], ca_pending = []\<rparr>"

inductive cache_step :: "cache_state \<Rightarrow> cache_state \<Rightarrow> bool" where
  miss: "cache_get (ca_queries s) query = None \<Longrightarrow> ParseQuery query = Inr tree \<Longrightarrow>
    cache_step s (s\<lparr>ca_pending := ca_pending s @ [(query, tree)]\<rparr>)"
| store: "ca_pending s = ps @ (query, tree) # qs \<Longrightarrow>
    cache_step s (s\<lparr>ca_queries := cache_set query tree (ca_queries s), ca_pending := ps @ qs\<rparr>)"
| clear: "cache_step s (s\<lparr>ca_queries := ClearCache (ca_queries s)\<rparr>)"

inductive_cases cache_stepE: "cache_step s s'"

text \<open>Every stored or pending query is the parse of its key; the cache is a map of bounded size.\<close>

definition cache_inv :: "cache_state \<Rightarrow> bool" where
  "cache_inv s = (wf_map (ca_queries s) \<and> length (ca_queries s) \<le> 1001
     \<and> list_all (\<lambda>(key, tree). ParseQuery key = Inr tree) (ca_queries s @ ca_pending s))"

lemma length_map_put: "length (map_put k v m) \<le> Suc (length m)"
  by (induction k v m rule: map_put.induct) auto

lemma map_put_pairs: "x \<in> set (map_put k v m) \<Longrightarrow> x = (k, v) \<or> x \<in> set m"
  by (induction k v m rule: map_put.induct) (auto split: if_splits)

lemma cache_set_keeps:
  assumes "wf_map c" and "length c \<le> 1001" and "list_all (\<lambda>(key, tree). ParseQuery key = Inr tree) c"
    and "ParseQuery query = Inr tree"
  shows "wf_map (cache_set query tree c)" and "length (cache_set query tree c) \<le> 1001"
    and "list_all (\<lambda>(key, tree). ParseQuery key = Inr tree) (cache_set query tree c)"
proof -
  show "wf_map (cache_set query tree c)"
    using assms(1) by (simp add: cache_set_def wf_map_put)
  show "length (cache_set query tree c) \<le> 1001"
    using length_map_put [of query tree c] by (auto simp: cache_set_def)
  show "list_all (\<lambda>(key, tree). ParseQuery key = Inr tree) (cache_set query tree c)"
    using assms(3,4) by (auto simp: cache_set_def list_all_iff dest!: map_put_pairs)
qed

lemma cache_inv_step: "cache_step s s' \<Longrightarrow> cache_inv s \<Longrightarrow> cache_inv s'"
proof (erule cache_stepE)
  fix query tree
  assume "s' = s\<lparr>ca_pending := ca_pending s @ [(query, tree)]\<rparr>" "ParseQuery query = Inr tree" "cache_inv s"
  then show "cache_inv s'" by (simp add: cache_inv_def)
next
  fix ps query tree qs
  assume s': "s' = s\<lparr>ca_queries := cache_set query tree (ca_queries s), ca_pending := ps @ qs\<rparr>"
    and pending: "ca_pending s = ps @ (query, tree) # qs" and "cache_inv s"
  then have "ParseQuery query = Inr tree" and all: "list_all (\<lambda>(key, tree). ParseQuery key = Inr tree) (ps @ qs)"
    and inv: "wf_map (ca_queries s)" "length (ca_queries s) \<le> 1001"
      "list_all (\<lambda>(key, tree). ParseQuery key = Inr tree) (ca_queries s)"
    by (simp_all add: cache_inv_def)
  with cache_set_keeps [OF inv] show "cache_inv s'"
    by (simp add: s' cache_inv_def)
next
  assume "s' = s\<lparr>ca_queries := ClearCache (ca_queries s)\<rparr>" "cache_inv s"
  then show "cache_inv s'" by (simp add: cache_inv_def ClearCache_def)
qed

lemma reachable_inv:
  assumes "cache_step\<^sup>*\<^sup>* cache_init s"
  shows "cache_inv s"
  using assms
proof induction
  case base
  show ?case by (simp add: cache_inv_def cache_init_def)
next
  case (step s s')
  then show ?case by (blast intro: cache_inv_step)
qed

text \<open>The effect of a call that is not interrupted is that of its steps.\<close>

lemma ExecuteCached_steps:
  "cache_step\<^sup>*\<^sup>* s (s\<lparr>ca_queries := fst (ExecuteCached data query (ca_queries s))\<rparr>)"
proof (cases "cache_get (ca_queries s) query")
  case (Some tree)
  then show ?thesis by (simp add: ExecuteCached_def)
next
  case None
  show ?thesis
  proof (cases "ParseQuery query")
    case (Inl err)
    with None show ?thesis by (simp add: ExecuteCached_def)
  next
    case (Inr tree)
    let ?s = "s\<lparr>ca_pending := ca_pending s @ [(query, tree)]\<rparr>"
    have "cache_step s ?s" using None Inr by (rule miss)
    moreover have "cache_step ?s (s\<lparr>ca_queries := cache_set query tree (ca_queries s)\<rparr>)"
      using store [of ?s "ca_pending s" query tree "[]"] by simp
    ultimately show ?thesis
      using None Inr by (simp add: ExecuteCached_def converse_rtranclp_into_rtranclp)
  qed
qed

text \<open>
  C22: however calls interleave, the cache holds at most 1001 queries, each the parse of its key.
\<close>

theorem cache_invariant:
  "cache_step\<^sup>*\<^sup>* cache_init s \<Longrightarrow> cache_inv s"
  by (rule reachable_inv)

theorem cache_invariant_witness:
  "cache_inv \<lparr>ca_queries = [(''a'', IdentifierNode ''a'')], ca_pending = []\<rparr>"
proof (rule cache_invariant)
  have parse: "ParseQuery ''a'' = Inr (IdentifierNode ''a'')" by code_simp
  have "cache_step cache_init (cache_init\<lparr>ca_pending := [(''a'', IdentifierNode ''a'')]\<rparr>)"
    using miss [of cache_init "''a''" "IdentifierNode ''a''"] parse
    by (simp add: cache_init_def cache_get_def)
  moreover have "cache_step (cache_init\<lparr>ca_pending := [(''a'', IdentifierNode ''a'')]\<rparr>)
      \<lparr>ca_queries = [(''a'', IdentifierNode ''a'')], ca_pending = []\<rparr>"
    using store [of "cache_init\<lparr>ca_pending := [(''a'', IdentifierNode ''a'')]\<rparr>" "[]" "''a''"
        "IdentifierNode ''a''" "[]"]
    by (simp add: cache_init_def cache_set_def)
  ultimately show "cache_step\<^sup>*\<^sup>* cache_init \<lparr>ca_queries = [(''a'', IdentifierNode ''a'')], ca_pending = []\<rparr>"
    by (meson converse_rtranclp_into_rtranclp r_into_rtranclp)
qed

text \<open>
  C23: from a cache that the program can have reached, \<open>ExecuteCached\<close> returns what parsing and
  executing the query afresh returns, \<open>Execute\<close> returns the same value for every query that
  is not empty, and the cache it leaves can be reached again.
\<close>

theorem cache_is_transparent:
  assumes "cache_step\<^sup>*\<^sup>* cache_init s"
  shows "snd (ExecuteCached data query (ca_queries s)) =
      (case ParseQuery query of Inl err \<Rightarrow> Inl (QError err)
       | Inr tree \<Rightarrow> ExecutePath data (SimplifyNode tree))
    \<and> (if query = [] then True else
        result_ok (snd (ExecuteCached data query (ca_queries s))) = result_ok (Execute data query))
    \<and> cache_step\<^sup>*\<^sup>* cache_init (s\<lparr>ca_queries := fst (ExecuteCached data query (ca_queries s))\<rparr>)"
proof -
  have "cache_inv s" by (rule reachable_inv [OF assms])
  then have "ParseQuery query = Inr tree" if "cache_get (ca_queries s) query = Some tree" for tree
    using that by (auto simp: cache_inv_def cache_get_def list_all_iff dest: map_of_SomeD)
  then have "snd (ExecuteCached data query (ca_queries s)) =
      (case ParseQuery query of Inl err \<Rightarrow> Inl (QError err)
       | Inr tree \<Rightarrow> ExecutePath data (SimplifyNode tree))"
    by (auto simp: ExecuteCached_def split: option.splits sum.splits)
  then show ?thesis
    using rtranclp_trans [OF assms ExecuteCached_steps]
    by (auto simp: Execute_def PathFromQuery_def split: sum.splits)
qed

theorem cache_is_transparent_witness:
  "snd (ExecuteCached (VMap [(''a'', VBool True)]) ''a'' (ca_queries cache_init)) = Inr (VBool True)"
proof -
  have "ParseQuery ''a'' = Inr (IdentifierNode ''a'')" by code_simp
  with cache_is_transparent [of cache_init "VMap [(''a'', VBool True)]" "''a''"]
  show ?thesis by (simp add: ExecutePath_def getField_def)
qed

text \<open>
  The empty query is where the two ways of executing differ: \<open>Execute\<close> returns the data, and
  \<open>ExecuteCached\<close> reports an error.
\<close>

theorem empty_query_differs:
  "Execute data [] = Inr data \<and> snd (ExecuteCached data [] []) = Inl (QError ''empty query'')"
proof -
  have "ParseQuery [] = Inl ''empty query''" by code_simp
  then show ?thesis by (simp add: Execute_def ExecuteCached_def cache_get_def)
qed

end
