(* ===== verification/QuerySchema.thy ===== *)
theory QuerySchema
  imports Acceptance QueryExec
begin

text \<open>
  Schemas and queries together: a path leads through a schema as it leads through a value, and
  what a query finds in an accepted value has been checked by the schema at its path. Client code
  that validates first and queries afterwards relies on this.
\<close>

definition child_schema :: "schema \<Rightarrow> seg \<Rightarrow> schema option" where
  "child_schema s g = (case s of
       ObjectS o1 \<Rightarrow> (case g of SField name \<Rightarrow> Object_GetField o1 name | _ \<Rightarrow> None)
     | ArrayS a \<Rightarrow> (case g of SField _ \<Rightarrow> None | _ \<Rightarrow> ar_elementSchema a)
     | _ \<Rightarrow> None)"

fun schema_at :: "schema \<Rightarrow> seg list \<Rightarrow> schema option" where
  "schema_at s [] = Some s"
| "schema_at s (g # path) = (case child_schema s g of None \<Rightarrow> None | Some f \<Rightarrow> schema_at f path)"

lemma accepts_object_field:
  assumes "accepts E (ObjectS t) v m" and "Object_GetField t name = Some f"
    and "getField v name = Inr w" and "v \<noteq> VNil"
  shows "accepts E f w m"
proof -
  obtain mp where mp: "convertToMap v = Some mp"
    and all: "\<And>name. case map_of mp name of None \<Rightarrow> \<not> object_requires t name
       | Some fv \<Rightarrow> (case Object_GetField t name of
             Some f \<Rightarrow> accepts E f fv m | None \<Rightarrow> \<not> rejectsExtra t m)"
    using assms(1,4) unfolding accepts_ok by (auto simp: object_ok split: option.splits)
  have "map_of mp name = Some w"
    using mp assms(3) by (cases v) (auto simp: convertToMap_def getField_def split: option.splits if_splits)
  with all [of name] assms(2) show ?thesis by simp
qed

lemma accepts_array_element:
  assumes "accepts E (ArrayS a) v m" and "ar_elementSchema a = Some f" and "as_slice v = Some xs"
    and "w \<in> set xs"
  shows "accepts E f w m"
proof -
  have "v \<noteq> VNil" using assms(3) by (auto simp: as_slice_def)
  with assms show ?thesis
    unfolding accepts_ok by (auto simp: array_ok list_all_iff split: option.splits)
qed

lemma accepts_step:
  assumes "accepts E s v m" and "child_schema s g = Some f" and "step_to g v = Some ws" and "w \<in> set ws"
  shows "accepts E f w m"
proof (cases s)
  case (ObjectS t)
  with assms(2) obtain name where "g = SField name" "Object_GetField t name = Some f"
    by (cases g) (auto simp: child_schema_def)
  with ObjectS assms accepts_object_field show ?thesis
    by (auto simp: step_to_def split: if_splits sum.splits)
next
  case (ArrayS a)
  with assms have el: "ar_elementSchema a = Some f" by (cases g) (auto simp: child_schema_def)
  have "\<exists>xs. as_slice v = Some xs"
    using assms(1,3) ArrayS unfolding accepts_ok
    by (auto simp: array_ok step_to_def split: option.splits if_splits)
  then obtain xs where xs: "as_slice v = Some xs" ..
  then have "deref v = Some v" by (cases v) (auto simp: as_slice_def)
  with xs ArrayS assms(2-4) have "w \<in> set xs"
    by (cases g) (auto simp: child_schema_def step_to_def getIndex_def wild_elems_def split: if_splits)
  with accepts_array_element [OF _ el xs] assms(1) ArrayS show ?thesis by simp
qed (use assms(2) in \<open>simp_all add: child_schema_def\<close>)

lemma concat_all_set: "concat_all rs = Some ws \<Longrightarrow> w \<in> set ws \<Longrightarrow> \<exists>xs. Some xs \<in> set rs \<and> w \<in> set xs"
proof (induction rs arbitrary: ws)
  case (Cons r rs)
  then obtain xs ys where "r = Some xs" "concat_all rs = Some ys" "ws = xs @ ys"
    by (auto simp: concat_all.simps(2) split: option.splits)
  with Cons show ?case by (cases "w \<in> set xs") auto
qed simp

lemma selected_accepted:
  "accepts E s v m \<Longrightarrow> schema_at s path = Some f \<Longrightarrow> select path v = Some ws \<Longrightarrow> w \<in> set ws
   \<Longrightarrow> accepts E f w m"
proof (induction path arbitrary: s v ws w)
  case (Cons g path)
  then obtain h where h: "child_schema s g = Some h" "schema_at h path = Some f"
    by (auto split: option.splits)
  obtain us where us: "step_to g v = Some us" "concat_all (map (select path) us) = Some ws"
    using Cons.prems(3) by (auto split: option.splits)
  obtain xs where "Some xs \<in> select path ` set us" and w: "w \<in> set xs"
    using concat_all_set [OF us(2) Cons.prems(4)] by auto
  then obtain u where u: "u \<in> set us" "select path u = Some xs" by (metis imageE)
  from Cons.IH [OF accepts_step [OF Cons.prems(1) h(1) us(1) u(1)] h(2) u(2) w] show ?case .
qed auto

text \<open>
  C13: every value that a path finds in an accepted value is accepted by the schema that the same
  path leads to: the one value of a path without wildcards, all of the list of one with.
\<close>

theorem query_result_accepted:
  assumes "accepts E s v m" and "schema_at s path = Some f" and "ExecutePath v path = Inr w"
  shows "if containsWildcard path then \<exists>ws. w = VSlice ws \<and> list_all (\<lambda>x. accepts E f x m) ws
         else accepts E f w m"
proof -
  obtain ws where ws: "select path v = Some ws" and w: "w = present path ws"
    using exec_path_select [of "[]" v path] assms(3)
    by (cases "select path v") (auto simp: ExecutePath_def)
  note all = selected_accepted [OF assms(1,2) ws]
  show ?thesis
  proof (cases "containsWildcard path")
    case True
    with all w show ?thesis by (auto simp: present_def list_all_iff)
  next
    case False
    with select_single [OF False ws] all w show ?thesis by (auto simp: present_def)
  qed
qed

definition names_schema :: schema where
  "names_schema = ObjectS (ObjectSchema (new_base TypeObject)
     [(''names'', ArrayS (ArraySchema (new_base TypeArray) (Some (StringS String_new)) None None False [] []))]
     [] None [] [])"

definition names_data :: gval where
  "names_data = VMap [(''names'', VSlice [VStr ''ann'', VStr ''bob''])]"

theorem query_result_accepted_witness:
  "\<exists>ws. VSlice [VStr ''ann'', VStr ''bob''] = VSlice ws
     \<and> list_all (\<lambda>x. accepts sample_env (StringS String_new) x Strict) ws"
proof -
  have string: "accepts sample_env (StringS String_new) (VStr t) Strict" for t
    by (simp add: accepts_StringS string_reading_def as_string_def string_violations_Nil String_new_def
        String_PatternMatch_def)
  have "accepts sample_env names_schema names_data Strict"
    using string unfolding accepts_ok
    by (auto simp: names_schema_def names_data_def object_ok array_ok convertToMap_def as_slice_def
        object_requires_def in_requiredFields_def Object_GetField_def array_violations_def)
  moreover have "schema_at names_schema [SField ''names'', SWild] = Some (StringS String_new)"
    by (simp add: names_schema_def child_schema_def Object_GetField_def)
  moreover have "ExecutePath names_data [SField ''names'', SWild] = Inr (VSlice [VStr ''ann'', VStr ''bob''])"
    by (simp add: ExecutePath_def names_data_def getField_def wild_elems_def as_slice_def)
  ultimately show ?thesis
    using query_result_accepted [of sample_env names_schema names_data Strict]
    by (fastforce simp: containsWildcard_def)
qed

end
