(* ===== verification/Walk.thy ===== *)
theory Walk
  imports Acceptance
begin

text \<open>
  \<open>builders/walk.go\<close>: the depth-first traversal of a schema. A visitor is a function that also
  threads a state and may stop the walk with an error. The specification is \<open>nodes\<close>, the list of
  the nodes of a schema with their paths in preorder; the walk is the visit of that list.
\<close>

section \<open>The code\<close>

type_synonym 'st walker = "string \<Rightarrow> 'st \<Rightarrow> 'st \<times> go_error option"

type_synonym 'st field_visitor = "string \<Rightarrow> schema \<Rightarrow> 'st \<Rightarrow> 'st \<times> go_error option"

definition appendPath :: "string \<Rightarrow> string \<Rightarrow> string" where
  "appendPath base segment =
     (if base = [] then segment
      else if 0 < length segment \<and> segment ! 0 = CHR ''['' then base @ segment
      else base @ ''.'' @ segment)"

text \<open>The loops over the children: each at its path, until one stops the walk.\<close>

fun walk_children :: "(string \<times> 'st walker) list \<Rightarrow> 'st \<Rightarrow> 'st \<times> go_error option" where
  "walk_children [] st = (st, None)"
| "walk_children ((path, w) # ws) st = (case w path st of
       (st', Some e) \<Rightarrow> (st', Some e)
     | (st', None) \<Rightarrow> walk_children ws st')"

definition field_children :: "string \<Rightarrow> 'w object_schema \<Rightarrow> (string \<times> 'w) list" where
  "field_children path s =
     map (\<lambda>name. (appendPath path name, the (Object_GetField s name))) (Object_FieldNames s)"

definition walkObject :: "string \<Rightarrow> 'st walker object_schema \<Rightarrow> 'st \<Rightarrow> 'st \<times> go_error option" where
  "walkObject path s = walk_children (field_children path s)"

definition element_children :: "string \<Rightarrow> 'w array_schema \<Rightarrow> (string \<times> 'w) list" where
  "element_children path s = (case ar_elementSchema s of
     None \<Rightarrow> [] | Some w \<Rightarrow> [(appendPath path ''[*]'', w)])"

definition sub_children :: "string \<Rightarrow> string \<Rightarrow> 'w list \<Rightarrow> (string \<times> 'w) list" where
  "sub_children path op ws =
     map (\<lambda>(i, w). (path @ ''<'' @ op @ ''['' @ show_nat i @ '']>'', w)) (enumerate 0 ws)"

definition visit_then :: "'st field_visitor \<Rightarrow> string \<Rightarrow> schema \<Rightarrow> ('st \<Rightarrow> 'st \<times> go_error option) \<Rightarrow>
    'st \<Rightarrow> 'st \<times> go_error option" where
  "visit_then visitor path s rest st = (case visitor path s st of
       (st', Some e) \<Rightarrow> (st', Some e)
     | (st', None) \<Rightarrow> rest st')"

primrec walkNode :: "'st field_visitor \<Rightarrow> schema \<Rightarrow> 'st walker" where
  "walkNode visitor (ObjectS s) = (\<lambda>path. visit_then visitor path (ObjectS s)
     (walkObject path (map_object_schema (walkNode visitor) s)))"
| "walkNode visitor (DepObjectS s) = (\<lambda>path. visit_then visitor path (DepObjectS s)
     (walkObject path (do_object (map_dep_object_schema (walkNode visitor) s))))"
| "walkNode visitor (ArrayS s) = (\<lambda>path. visit_then visitor path (ArrayS s)
     (walk_children (element_children path (map_array_schema (walkNode visitor) s))))"
| "walkNode visitor (TransformS s) = (\<lambda>path. visit_then visitor path (TransformS s)
     (walk_children [(path, tf_inner (map_transform_schema (walkNode visitor) s))]))"
| "walkNode visitor (AndS s) = (\<lambda>path. visit_then visitor path (AndS s)
     (walk_children (sub_children path ''and'' (an_schemas (map_and_schema (walkNode visitor) s)))))"
| "walkNode visitor (OrS s) = (\<lambda>path. visit_then visitor path (OrS s)
     (walk_children (sub_children path ''or'' (or_schemas (map_or_schema (walkNode visitor) s)))))"
| "walkNode visitor (NotS s) = (\<lambda>path. visit_then visitor path (NotS s)
     (walk_children [(path @ ''<not>'', no_schema (map_not_schema (walkNode visitor) s))]))"
| "walkNode visitor (StringS s) = (\<lambda>path. visit_then visitor path (StringS s) (\<lambda>st. (st, None)))"
| "walkNode visitor (NumberS s) = (\<lambda>path. visit_then visitor path (NumberS s) (\<lambda>st. (st, None)))"
| "walkNode visitor (BoolS s) = (\<lambda>path. visit_then visitor path (BoolS s) (\<lambda>st. (st, None)))"
| "walkNode visitor (CustomS s) = (\<lambda>path. visit_then visitor path (CustomS s) (\<lambda>st. (st, None)))"
| "walkNode visitor (DateTimeS s) = (\<lambda>path. visit_then visitor path (DateTimeS s) (\<lambda>st. (st, None)))"
| "walkNode visitor (DependentS s) = (\<lambda>path. visit_then visitor path (DependentS s) (\<lambda>st. (st, None)))"
| "walkNode visitor (CompiledS s) = (\<lambda>path. visit_then visitor path (CompiledS s) (\<lambda>st. (st, None)))"

definition Walk :: "schema \<Rightarrow> 'st field_visitor \<Rightarrow> 'st \<Rightarrow> 'st \<times> go_error option" where
  "Walk s visitor = walkNode visitor s []"

section \<open>The nodes of a schema\<close>

text \<open>The children of a node with their paths, in the order the walk takes them.\<close>

fun schema_children :: "string \<Rightarrow> schema \<Rightarrow> (string \<times> schema) list" where
  "schema_children path (ObjectS s) = field_children path s"
| "schema_children path (DepObjectS s) = field_children path (do_object s)"
| "schema_children path (ArrayS s) = element_children path s"
| "schema_children path (TransformS s) = [(path, tf_inner s)]"
| "schema_children path (AndS s) = sub_children path ''and'' (an_schemas s)"
| "schema_children path (OrS s) = sub_children path ''or'' (or_schemas s)"
| "schema_children path (NotS s) = [(path @ ''<not>'', no_schema s)]"
| "schema_children path _ = []"

lemma field_found: "name \<in> set (Object_FieldNames s) \<longleftrightarrow> Object_GetField s name \<noteq> None"
  by (auto simp: Object_FieldNames_def Object_GetField_def dom_map_of_conv_image_fst [symmetric])

lemma field_children_in_set: "(q, t) \<in> set (field_children path s) \<Longrightarrow> t \<in> set_object_schema s"
  by (auto simp: field_children_def field_found Object_GetField_def intro: fields_in_set)

lemma element_children_in_set: "(q, t) \<in> set (element_children path s) \<Longrightarrow> t \<in> set_array_schema s"
  by (cases s) (auto simp: element_children_def split: option.splits)

lemma sub_children_in_set: "(q, t) \<in> set (sub_children path op ts) \<Longrightarrow> t \<in> set ts"
  by (auto simp: sub_children_def in_set_enumerate_eq)

lemma size_held_object: "x \<in> set_object_schema ob \<Longrightarrow> f x < Suc (size_object_schema f ob)"
proof (cases ob)
  case (ObjectSchema b fs rs al vs as)
  assume "x \<in> set_object_schema ob"
  then obtain name where "(name, x) \<in> set fs" by (auto simp: ObjectSchema)
  then have "f x \<le> size_list (size_prod (\<lambda>_. 0) f) fs"
    by (auto intro: size_list_estimation')
  then show ?thesis by (simp add: ObjectSchema)
qed

lemma size_held_array: "x \<in> set_array_schema ar \<Longrightarrow> f x < Suc (size_array_schema f ar)"
  by (cases ar) auto

lemma size_held_list: "x \<in> set xs \<Longrightarrow> f x \<le> Suc (size_list f xs)"
  by (simp add: le_SucI size_list_estimation')

lemma size_schema_children: "(q, t) \<in> set (schema_children path s) \<Longrightarrow> size t < size s"
proof (cases s)
  case (ObjectS ob)
  assume "(q, t) \<in> set (schema_children path s)"
  with ObjectS have "t \<in> set_object_schema ob" by (auto dest: field_children_in_set)
  then show ?thesis using ObjectS size_held_object [of t ob size] by simp
next
  case (DepObjectS d)
  assume "(q, t) \<in> set (schema_children path s)"
  with DepObjectS have "t \<in> set_object_schema (do_object d)" by (auto dest: field_children_in_set)
  then show ?thesis using DepObjectS size_held_object [of t "do_object d" size] by (cases d) simp
next
  case (ArrayS a)
  assume "(q, t) \<in> set (schema_children path s)"
  with ArrayS have "t \<in> set_array_schema a" by (auto dest: element_children_in_set)
  then show ?thesis using ArrayS size_held_array [of t a size] by simp
next
  case (AndS a)
  assume "(q, t) \<in> set (schema_children path s)"
  with AndS have "t \<in> set (an_schemas a)" by (auto dest: sub_children_in_set)
  then show ?thesis using AndS by (cases a) (auto simp: less_Suc_eq_le size_held_list)
next
  case (OrS a)
  assume "(q, t) \<in> set (schema_children path s)"
  with OrS have "t \<in> set (or_schemas a)" by (auto dest: sub_children_in_set)
  then show ?thesis using OrS by (cases a) (auto simp: less_Suc_eq_le size_held_list)
next
  case (NotS a)
  assume "(q, t) \<in> set (schema_children path s)"
  then show ?thesis using NotS by (cases a) simp
next
  case (TransformS a)
  assume "(q, t) \<in> set (schema_children path s)"
  then show ?thesis using TransformS by (cases a) simp
qed simp_all

function nodes :: "string \<Rightarrow> schema \<Rightarrow> (string \<times> schema) list" where
  "nodes path s = (path, s) # concat (map (\<lambda>(q, t). nodes q t) (schema_children path s))"
  by pat_completeness auto

termination nodes
  by (relation "measure (\<lambda>(path, s). size s)") (auto intro: size_schema_children)

declare nodes.simps [simp del]

section \<open>The walk visits the nodes\<close>

fun visit_all :: "'st field_visitor \<Rightarrow> (string \<times> schema) list \<Rightarrow> 'st \<Rightarrow> 'st \<times> go_error option" where
  "visit_all visitor [] st = (st, None)"
| "visit_all visitor ((path, s) # ns) st = (case visitor path s st of
       (st', Some e) \<Rightarrow> (st', Some e)
     | (st', None) \<Rightarrow> visit_all visitor ns st')"

lemma visit_all_append:
  "visit_all visitor (xs @ ys) st = (case visit_all visitor xs st of
       (st', Some e) \<Rightarrow> (st', Some e)
     | (st', None) \<Rightarrow> visit_all visitor ys st')"
  by (induction visitor xs st rule: visit_all.induct) (auto split: prod.splits option.splits)

lemma walk_children_visit:
  assumes "\<And>q t. (q, t) \<in> set cs \<Longrightarrow> g t q = visit_all visitor (nodes q t)"
  shows "walk_children (map (apsnd g) cs) = visit_all visitor (concat (map (\<lambda>(q, t). nodes q t) cs))"
  using assms
proof (induction cs)
  case (Cons c cs)
  then show ?case
    by (cases c) (auto simp: fun_eq_iff visit_all_append split: prod.splits option.splits)
qed (simp add: fun_eq_iff)

lemma children_map:
  "field_children path (map_object_schema g s) = map (apsnd g) (field_children path s)"
  "element_children path (map_array_schema g a) = map (apsnd g) (element_children path a)"
  "sub_children path op (map g ts) = map (apsnd g) (sub_children path op ts)"
proof -
  have "Object_FieldNames (map_object_schema g s) = Object_FieldNames s"
    by (simp add: Object_FieldNames_def)
  then show "field_children path (map_object_schema g s) = map (apsnd g) (field_children path s)"
    by (auto simp: field_children_def field_found)
      (auto simp: Object_GetField_def object_fields_map)
  show "element_children path (map_array_schema g a) = map (apsnd g) (element_children path a)"
    by (simp add: element_children_def array_schema.map_sel split: option.split)
  show "sub_children path op (map g ts) = map (apsnd g) (sub_children path op ts)"
    by (simp add: sub_children_def enumerate_map_upt comp_def)
      (simp add: enumerate_eq_zip zip_map2 case_prod_unfold)
qed

lemma visit_then_nodes:
  assumes "\<And>q t. (q, t) \<in> set (schema_children path s) \<Longrightarrow> g t q = visit_all visitor (nodes q t)"
  shows "visit_then visitor path s (walk_children (map (apsnd g) (schema_children path s))) =
    visit_all visitor (nodes path s)"
  by (rule ext) (simp add: visit_then_def nodes.simps [of path s] walk_children_visit [OF assms]
      split: prod.splits option.splits)

lemma nodes_leaf: "schema_children path s = [] \<Longrightarrow> nodes path s = [(path, s)]"
  by (simp add: nodes.simps [of path s])

lemma walkNode_nodes: "walkNode visitor s path = visit_all visitor (nodes path s)"
proof (induction s arbitrary: path)
  case (ObjectS s)
  then show ?case
    using visit_then_nodes [of path "ObjectS s" "walkNode visitor" visitor]
    by (auto simp: walkObject_def children_map dest: field_children_in_set)
next
  case (DepObjectS d)
  have "t \<in> set_dep_object_schema d" if "t \<in> set_object_schema (do_object d)" for t
    using that by (cases d) auto
  then show ?case
    using visit_then_nodes [of path "DepObjectS d" "walkNode visitor" visitor] DepObjectS
    by (auto simp: walkObject_def children_map dep_object_schema.map_sel dest: field_children_in_set)
next
  case (ArrayS s)
  then show ?case
    using visit_then_nodes [of path "ArrayS s" "walkNode visitor" visitor]
    by (auto simp: children_map dest: element_children_in_set)
next
  case (AndS s)
  then show ?case
    using visit_then_nodes [of path "AndS s" "walkNode visitor" visitor]
    by (cases s) (auto simp: children_map dest: sub_children_in_set)
next
  case (OrS s)
  then show ?case
    using visit_then_nodes [of path "OrS s" "walkNode visitor" visitor]
    by (cases s) (auto simp: children_map dest: sub_children_in_set)
next
  case (NotS s)
  then show ?case
    using visit_then_nodes [of path "NotS s" "walkNode visitor" visitor]
    by (cases s) auto
next
  case (TransformS s)
  then show ?case
    using visit_then_nodes [of path "TransformS s" "walkNode visitor" visitor]
    by (cases s) auto
qed (simp_all add: fun_eq_iff visit_then_def nodes_leaf split: prod.splits option.splits)

text \<open>A visitor that writes down each call and stops when \<open>stop\<close> says so.\<close>

definition noting :: "(string \<Rightarrow> schema \<Rightarrow> go_error option) \<Rightarrow> (string \<times> schema) list field_visitor" where
  "noting stop path s seen = (seen @ [(path, s)], stop path s)"

lemma visit_all_noting:
  "visit_all (noting stop) ns seen =
     (let goes = (\<lambda>(path, s). stop path s = None) in
      (seen @ takeWhile goes ns @ take 1 (dropWhile goes ns),
       case dropWhile goes ns of [] \<Rightarrow> None | (path, s) # _ \<Rightarrow> stop path s))"
proof (induction ns arbitrary: seen)
  case (Cons n ns)
  obtain path s where n: "n = (path, s)" by (cases n)
  have call: "noting stop path s seen = (seen @ [(path, s)], stop path s)"
    by (simp add: noting_def)
  show ?case
    by (cases "stop path s") (simp_all add: n Cons call Let_def)
qed (simp add: Let_def)

text \<open>
  \<open>Walk\<close> calls the visitor on the nodes of the schema in preorder with their paths, up to and
  including the first call that returns an error, and returns that error.
\<close>

theorem Walk_visits_nodes:
  "Walk s (noting stop) [] = (let goes = (\<lambda>(path, t). stop path t = None) in
     (takeWhile goes (nodes [] s) @ take 1 (dropWhile goes (nodes [] s)),
      case dropWhile goes (nodes [] s) of [] \<Rightarrow> None | (path, t) # _ \<Rightarrow> stop path t))"
  by (simp add: Walk_def walkNode_nodes visit_all_noting)

end
