(* ===== verification/Equality.thy ===== *)
theory Equality
  imports Acceptance
begin

text \<open>
  \<open>builders/equality.go\<close>: the canonical text of a schema, and equality and hashing by it. The
  text is a function of the schema here where the code writes it to a buffer. The SHA-256 digest
  in hexadecimal is a parameter of \<open>Hash\<close>.
\<close>

section \<open>The code\<close>

definition canonicaliseMeta :: "go_lib \<Rightarrow> gval gmap \<Rightarrow> string" where
  "canonicaliseMeta L meta = '';meta{'' @
     str_join '','' (map (\<lambda>k. k @ ''='' @ sprint_v L (the (map_of meta k))) (sort (map_keys meta))) @ ''}''"

definition canonicaliseBase :: "go_lib \<Rightarrow> base_schema \<Rightarrow> string" where
  "canonicaliseBase L b =
     (if bs_required b then '';req'' else []) @
     (if bs_nullable b then '';null'' else []) @
     (if 0 < length (bs_metadata b) then canonicaliseMeta L (bs_metadata b) else [])"

definition canonicaliseString :: "go_lib \<Rightarrow> string_schema \<Rightarrow> string" where
  "canonicaliseString L s = ''string'' @ canonicaliseBase L (ss_base s) @
     (if ss_formatType s \<noteq> [] then '';fmt='' @ ss_formatType s else []) @
     (case ss_minLength s of None \<Rightarrow> [] | Some n \<Rightarrow> '';minLen='' @ show_int n) @
     (case ss_maxLength s of None \<Rightarrow> [] | Some n \<Rightarrow> '';maxLen='' @ show_int n) @
     (if ss_patternStr s \<noteq> [] then '';pat='' @ ss_patternStr s else []) @
     (if 0 < length (ss_enum s) then '';enum=['' @ str_join '','' (ss_enum s) @ '']'' else [])"

definition canonicaliseNumber :: "go_lib \<Rightarrow> number_schema \<Rightarrow> string" where
  "canonicaliseNumber L s = ''number'' @ canonicaliseBase L (ns_base s) @
     (if ns_isInteger s then '';int'' else []) @
     (case ns_min s of None \<Rightarrow> [] | Some x \<Rightarrow> '';min='' @ fmt_float double_fmt x) @
     (case ns_max s of None \<Rightarrow> [] | Some x \<Rightarrow> '';max='' @ fmt_float double_fmt x) @
     (case ns_multipleOf s of None \<Rightarrow> [] | Some x \<Rightarrow> '';mul='' @ fmt_float double_fmt x)"

definition canonicaliseBool :: "go_lib \<Rightarrow> bool_schema \<Rightarrow> string" where
  "canonicaliseBool L s = ''bool'' @ canonicaliseBase L (bo_base s)"

text \<open>\<open>t.UTC().Format(\<dots>)\<close> keeps the instant and formats it without offset.\<close>

definition canonicaliseTime :: "go_lib \<Rightarrow> gtime \<Rightarrow> string" where
  "canonicaliseTime L t = lib_time_format L (t\<lparr>t_offset := 0\<rparr>) ''2006-01-02T15:04:05Z''"

definition canonicaliseDateTime :: "go_lib \<Rightarrow> datetime_schema \<Rightarrow> string" where
  "canonicaliseDateTime L s = ''datetime'' @ canonicaliseBase L (dt_base s) @
     '';fmt='' @ dt_format s @
     (if dt_strict s then '';strict'' else []) @
     (case dt_min s of None \<Rightarrow> [] | Some t \<Rightarrow> '';min='' @ canonicaliseTime L t) @
     (case dt_max s of None \<Rightarrow> [] | Some t \<Rightarrow> '';max='' @ canonicaliseTime L t)"

definition canonicaliseObject :: "go_lib \<Rightarrow> string object_schema \<Rightarrow> string" where
  "canonicaliseObject L s = ''object'' @ canonicaliseBase L (ob_base s) @
     (case Object_AllowsAdditional s of (allow, explicit) \<Rightarrow>
        if explicit then '';additional='' @ (if allow then ''true'' else ''false'') else []) @
     ''{'' @ str_join '','' (map (\<lambda>name. name @ '':'' @ the (Object_GetField s name))
               (Object_FieldNames s)) @ ''}''"

definition canonicaliseArray :: "go_lib \<Rightarrow> string array_schema \<Rightarrow> string" where
  "canonicaliseArray L s = ''array'' @ canonicaliseBase L (ar_base s) @
     (case ar_minItems s of None \<Rightarrow> [] | Some n \<Rightarrow> '';minItems='' @ show_int n) @
     (case ar_maxItems s of None \<Rightarrow> [] | Some n \<Rightarrow> '';maxItems='' @ show_int n) @
     (case ar_elementSchema s of None \<Rightarrow> [] | Some e \<Rightarrow> '';of='' @ e)"

text \<open>The field and element schemas are replaced by their texts.\<close>

primrec canonicaliseNode :: "go_lib \<Rightarrow> schema \<Rightarrow> string" where
  "canonicaliseNode L (StringS s) = canonicaliseString L s"
| "canonicaliseNode L (NumberS s) = canonicaliseNumber L s"
| "canonicaliseNode L (BoolS s) = canonicaliseBool L s"
| "canonicaliseNode L (DateTimeS s) = canonicaliseDateTime L s"
| "canonicaliseNode L (ObjectS s) = canonicaliseObject L (map_object_schema (canonicaliseNode L) s)"
| "canonicaliseNode L (DepObjectS s) =
     canonicaliseObject L (do_object (map_dep_object_schema (canonicaliseNode L) s)) @ '';deps''"
| "canonicaliseNode L (ArrayS s) = canonicaliseArray L (map_array_schema (canonicaliseNode L) s)"
| "canonicaliseNode L (CustomS s) = ''custom'' @ canonicaliseBase L (cu_base s)"
| "canonicaliseNode L (TransformS s) =
     ''transform('' @ tf_inner (map_transform_schema (canonicaliseNode L) s) @ '')'' @
     canonicaliseBase L (tf_base s)"
| "canonicaliseNode L (AndS s) =
     ''and('' @ str_join '','' (an_schemas (map_and_schema (canonicaliseNode L) s)) @ '')''"
| "canonicaliseNode L (OrS s) =
     ''or('' @ str_join '','' (or_schemas (map_or_schema (canonicaliseNode L) s)) @ '')''"
| "canonicaliseNode L (NotS s) =
     ''not('' @ no_schema (map_not_schema (canonicaliseNode L) s) @ '')''"
| "canonicaliseNode L (DependentS s) =
     ''unknown<*builders.DependentSchema>;type='' @ SchemaType_String TypeDependent"
| "canonicaliseNode L (CompiledS s) =
     ''unknown<*queryfy.CompiledSchema>;type='' @ SchemaType_String (cs_schemaType s)"

definition canonicalise :: "go_lib \<Rightarrow> schema \<Rightarrow> string" where
  "canonicalise L s = canonicaliseNode L s"

definition Equal :: "go_lib \<Rightarrow> schema \<Rightarrow> schema \<Rightarrow> bool" where
  "Equal L a b = (canonicalise L a = canonicalise L b)"

definition Hash :: "(string \<Rightarrow> string) \<Rightarrow> go_lib \<Rightarrow> schema \<Rightarrow> string" where
  "Hash sha256_hex L s = sha256_hex (canonicalise L s)"

section \<open>Functions do not count\<close>

text \<open>
  A schema without the functions of its client: validators, asynchronous validators and
  transformers, here and in every schema it holds.
\<close>

fun forget_object :: "'s object_schema \<Rightarrow> 's object_schema" where
  "forget_object (ObjectSchema b fs rs al vs as) = ObjectSchema b fs rs al [] []"

fun forget_array :: "'s array_schema \<Rightarrow> 's array_schema" where
  "forget_array (ArraySchema b el lo hi u vs as) = ArraySchema b el lo hi u [] []"

fun forget_dep_object :: "'s dep_object_schema \<Rightarrow> 's dep_object_schema" where
  "forget_dep_object (DepObjectSchema ob ds) = DepObjectSchema (forget_object ob) []"

fun forget_transform :: "'s transform_schema \<Rightarrow> 's transform_schema" where
  "forget_transform (TransformSchema b i ts as) = TransformSchema b i [] []"

primrec forget_functions :: "schema \<Rightarrow> schema" where
  "forget_functions (StringS s) = StringS (s\<lparr>ss_validators := [], ss_pattern := None\<rparr>)"
| "forget_functions (NumberS s) = NumberS (s\<lparr>ns_validators := []\<rparr>)"
| "forget_functions (BoolS s) = BoolS (s\<lparr>bo_validators := []\<rparr>)"
| "forget_functions (CustomS s) = CustomS (s\<lparr>cu_validator := None\<rparr>)"
| "forget_functions (DateTimeS s) = DateTimeS (s\<lparr>dt_validators := []\<rparr>)"
| "forget_functions (ObjectS s) = ObjectS (forget_object (map_object_schema forget_functions s))"
| "forget_functions (DepObjectS s) =
     DepObjectS (forget_dep_object (map_dep_object_schema forget_functions s))"
| "forget_functions (ArrayS s) = ArrayS (forget_array (map_array_schema forget_functions s))"
| "forget_functions (AndS s) = AndS (map_and_schema forget_functions s)"
| "forget_functions (OrS s) = OrS (map_or_schema forget_functions s)"
| "forget_functions (NotS s) = NotS (map_not_schema forget_functions s)"
| "forget_functions (TransformS s) =
     TransformS (forget_transform (map_transform_schema forget_functions s))"
| "forget_functions (DependentS s) = DependentS s"
| "forget_functions (CompiledS s) = CompiledS s"

lemma forget_sel [simp]:
  "ob_base (forget_object ob) = ob_base ob" "ob_fields (forget_object ob) = ob_fields ob"
  "ob_allowAdditional (forget_object ob) = ob_allowAdditional ob"
  "do_object (forget_dep_object d) = forget_object (do_object d)"
  "tf_base (forget_transform t) = tf_base t" "tf_inner (forget_transform t) = tf_inner t"
  by (cases ob; cases d; cases t; simp)+

lemma map_forget:
  "map_object_schema g (forget_object ob) = forget_object (map_object_schema g ob)"
  "map_array_schema g (forget_array ar) = forget_array (map_array_schema g ar)"
  by (cases ob; simp) (cases ar; simp)

lemma canonicaliseObject_forget: "canonicaliseObject L (forget_object ob) = canonicaliseObject L ob"
  by (simp add: canonicaliseObject_def Object_AllowsAdditional_def Object_FieldNames_def
      Object_GetField_def)

lemma canonicaliseArray_forget: "canonicaliseArray L (forget_array ar) = canonicaliseArray L ar"
  by (cases ar) (simp add: canonicaliseArray_def)

lemma canonicaliseNode_forget: "canonicaliseNode L (forget_functions s) = canonicaliseNode L s"
proof (induction s)
  case (ObjectS s)
  then have "map_object_schema (canonicaliseNode L \<circ> forget_functions) s =
      map_object_schema (canonicaliseNode L) s"
    by (auto intro: object_schema.map_cong0)
  then show ?case
    by (simp add: map_forget canonicaliseObject_forget object_schema.map_comp)
next
  case (DepObjectS d)
  then have "map_object_schema (canonicaliseNode L \<circ> forget_functions) (do_object d) =
      map_object_schema (canonicaliseNode L) (do_object d)"
    by (cases d) (auto intro: object_schema.map_cong0)
  then show ?case
    by (simp add: dep_object_schema.map_sel map_forget canonicaliseObject_forget
        object_schema.map_comp)
next
  case (ArrayS s)
  then have "map_array_schema (canonicaliseNode L \<circ> forget_functions) s =
      map_array_schema (canonicaliseNode L) s"
    by (auto intro: array_schema.map_cong0)
  then show ?case
    by (simp add: map_forget canonicaliseArray_forget array_schema.map_comp)
next
  case (AndS s) then show ?case by (cases s) (auto intro: arg_cong)
next
  case (OrS s) then show ?case by (cases s) (auto intro: arg_cong)
next
  case (NotS s) then show ?case by (cases s) auto
next
  case (TransformS s) then show ?case by (cases s) auto
qed (simp_all add: canonicaliseString_def canonicaliseNumber_def canonicaliseBool_def
      canonicaliseDateTime_def)

text \<open>
  Schemas that differ only in the functions of the client, validators and transformers, are
  equal and have the same hash.
\<close>

theorem Equal_forget_functions:
  "Equal L (forget_functions s) s \<and> Hash sha256_hex L (forget_functions s) = Hash sha256_hex L s"
  by (simp add: Equal_def Hash_def canonicalise_def canonicaliseNode_forget)

section \<open>What the text determines\<close>

text \<open>A plain schema: its text starts with its kind and its base, and goes on with constraints.\<close>

fun plain :: "schema \<Rightarrow> bool" where
  "plain (StringS s) = True" | "plain (NumberS s) = True" | "plain (BoolS s) = True"
| "plain (CustomS s) = True" | "plain (DateTimeS s) = True" | "plain (ObjectS s) = True"
| "plain (ArrayS s) = True" | "plain _ = False"

definition no_flag :: "string \<Rightarrow> bool" where
  "no_flag r = (take 4 r \<noteq> '';req'' \<and> take 4 r \<noteq> '';nul'')"

definition kind_text :: "schema_type \<Rightarrow> string" where
  "kind_text t = (if t = TypeBool then ''bool'' else SchemaType_String t)"

lemma plain_text:
  assumes "plain s"
  obtains r where "canonicaliseNode L s = kind_text (schema_Type s) @ canonicaliseBase L (base_of s) @ r"
    and "no_flag r"
  using assms
  by (cases s)
    (auto simp: canonicaliseString_def canonicaliseNumber_def canonicaliseBool_def
      canonicaliseDateTime_def canonicaliseObject_def canonicaliseArray_def kind_text_def
      SchemaType_String_def no_flag_def Object_AllowsAdditional_def object_schema.map_sel
      array_schema.map_sel split: option.splits)

lemma base_text_flags:
  assumes "canonicaliseBase L b @ r = canonicaliseBase L c @ r'" and "no_flag r" and "no_flag r'"
  shows "bs_required b = bs_required c \<and> bs_nullable b = bs_nullable c"
  using assms
  by (auto simp: canonicaliseBase_def canonicaliseMeta_def no_flag_def split: if_splits)

lemma plain_type: "plain s \<Longrightarrow> schema_Type s \<in>
    {TypeString, TypeNumber, TypeBool, TypeCustom, TypeDateTime, TypeObject, TypeArray}"
  by (cases s) auto

lemma kind_text_inject:
  "kind_text t @ x = kind_text u @ y \<Longrightarrow> t \<in> K \<Longrightarrow> u \<in> K \<Longrightarrow>
   K = {TypeString, TypeNumber, TypeBool, TypeCustom, TypeDateTime, TypeObject, TypeArray} \<Longrightarrow> t = u"
  by (auto simp: kind_text_def SchemaType_String_def)

lemma plain_IsRequired: "plain s \<Longrightarrow> IsRequired s = bs_required (base_of s)"
  by (cases s) auto

text \<open>
  Two equal schemas that are not composite, transformed, dependent or compiled have the same
  type and the same required and nullable flags.
\<close>

theorem Equal_same_flags:
  assumes "Equal L a b" and "plain a" and "plain b"
  shows "schema_Type a = schema_Type b \<and> IsRequired a = IsRequired b \<and> IsNullable a = IsNullable b"
proof -
  obtain r where a: "canonicaliseNode L a = kind_text (schema_Type a) @ canonicaliseBase L (base_of a) @ r"
    and r: "no_flag r" using plain_text [OF assms(2)] .
  obtain q where b: "canonicaliseNode L b = kind_text (schema_Type b) @ canonicaliseBase L (base_of b) @ q"
    and q: "no_flag q" using plain_text [OF assms(3)] .
  have eq: "canonicaliseNode L a = canonicaliseNode L b"
    using assms(1) by (simp add: Equal_def canonicalise_def)
  then have type: "schema_Type a = schema_Type b"
    using kind_text_inject [OF _ plain_type plain_type refl] a b assms(2,3) by metis
  moreover have "canonicaliseBase L (base_of a) @ r = canonicaliseBase L (base_of b) @ q"
    using eq type by (simp add: a b)
  ultimately show ?thesis
    using base_text_flags [OF _ r q] assms(2,3) by (simp add: plain_IsRequired IsNullable_def)
qed

theorem Equal_same_flags_witness:
  "IsNullable (StringS (String_Nullable String_new)) = IsNullable (StringS (String_Custom (\<lambda>_. None) (String_Nullable String_new)))"
  using Equal_same_flags [of sample_lib "StringS (String_Nullable String_new)"
      "StringS (String_Custom (\<lambda>_. None) (String_Nullable String_new))"]
  by (simp add: Equal_def canonicalise_def canonicaliseString_def String_Custom_def)

section \<open>What it does not\<close>

definition set_array :: "schema array_schema" where
  "set_array = Array_UniqueItems Array_new"

definition letters_enum :: "string list \<Rightarrow> schema" where
  "letters_enum vals = StringS (String_Enum vals String_new)"

text \<open>
  Equality overlooks \<open>UniqueItems\<close>, and does not tell an enumeration of \<open>a\<close> and \<open>b\<close> from one
  whose only value is \<open>a,b\<close>, although these schemas accept different values.
\<close>

theorem Equal_accepts_differs:
  "Equal (e_lib E) (ArrayS set_array) (ArrayS Array_new)
   \<and> \<not> accepts E (ArrayS set_array) (VSlice [VBool True, VBool True]) m
   \<and> accepts E (ArrayS Array_new) (VSlice [VBool True, VBool True]) m
   \<and> Equal (e_lib E) (letters_enum [''a'', ''b'']) (letters_enum [''a,b''])
   \<and> accepts E (letters_enum [''a'', ''b'']) (VStr ''a'') m
   \<and> \<not> accepts E (letters_enum [''a,b'']) (VStr ''a'') m"
  by (simp add: Equal_def canonicalise_def canonicaliseArray_def canonicaliseString_def
      set_array_def Array_new_def letters_enum_def String_new_def String_Enum_def
      accepts_ok array_ok as_slice_def accepts_StringS [unfolded accepts_ok] string_violations_Nil
      string_reading_def ConvertToString_def as_string_def String_PatternMatch_def)

end
