(* ===== verification/SchemaDiff.thy ===== *)
theory SchemaDiff
  imports Walk Equality
begin

text \<open>
  \<open>builders/diff.go\<close>: the structural difference of two schemas, field by field. The maps from
  paths to schemas are partial functions. \<open>Diff\<close> panics where a type assertion of
  \<open>describeChange\<close> fails; this is the value None. Its error result is always nil and left out.
\<close>

record field_change =
  fc_path :: string
  fc_oldType :: schema_type
  fc_newType :: schema_type
  fc_details :: string

record schema_diff =
  sd_added :: "string list"
  sd_removed :: "string list"
  sd_changed :: "field_change list"

definition HasChanges :: "schema_diff \<Rightarrow> bool" where
  "HasChanges d = (0 < length (sd_added d) \<or> 0 < length (sd_removed d) \<or> 0 < length (sd_changed d))"

section \<open>Collecting the fields\<close>

text \<open>The visitor that skips the root and the containers.\<close>

definition keep_field :: "(string \<times> schema) list field_visitor" where
  "keep_field path s kept =
     (if path = [] then kept
      else case s of ObjectS _ \<Rightarrow> kept | DepObjectS _ \<Rightarrow> kept
        | ArrayS a \<Rightarrow> (if ar_elementSchema a \<noteq> None then kept else kept @ [(path, s)])
        | _ \<Rightarrow> kept @ [(path, s)], None)"

definition collectFields :: "schema \<Rightarrow> (string \<times> schema) list" where
  "collectFields s = fst (Walk s keep_field [])"

section \<open>Describing a change\<close>

definition ptrEqInt :: "int option \<Rightarrow> int option \<Rightarrow> bool" where
  "ptrEqInt a b = (case (a, b) of (None, None) \<Rightarrow> True | (Some x, Some y) \<Rightarrow> x = y | _ \<Rightarrow> False)"

definition ptrEqFloat :: "f64 option \<Rightarrow> f64 option \<Rightarrow> bool" where
  "ptrEqFloat a b = (case (a, b) of (None, None) \<Rightarrow> True | (Some x, Some y) \<Rightarrow> f_eq x y | _ \<Rightarrow> False)"

definition fmtPtrInt :: "int option \<Rightarrow> string" where
  "fmtPtrInt p = (case p of None \<Rightarrow> ''none'' | Some n \<Rightarrow> show_int n)"

definition fmtPtrFloat :: "f64 option \<Rightarrow> string" where
  "fmtPtrFloat p = (case p of None \<Rightarrow> ''none'' | Some x \<Rightarrow> fmt_float double_fmt x)"

definition show_bool :: "bool \<Rightarrow> string" where
  "show_bool b = (if b then ''true'' else ''false'')"

definition describeStringChange :: "string_schema \<Rightarrow> string_schema \<Rightarrow> string list \<Rightarrow> string list" where
  "describeStringChange old new details = details @
     (if ss_formatType old \<noteq> ss_formatType new
      then [''format: '' @ go_quote (ss_formatType old) @ '' -> '' @ go_quote (ss_formatType new)] else []) @
     (if \<not> ptrEqInt (ss_minLength old) (ss_minLength new)
      then [''minLength: '' @ fmtPtrInt (ss_minLength old) @ '' -> '' @ fmtPtrInt (ss_minLength new)] else []) @
     (if \<not> ptrEqInt (ss_maxLength old) (ss_maxLength new)
      then [''maxLength: '' @ fmtPtrInt (ss_maxLength old) @ '' -> '' @ fmtPtrInt (ss_maxLength new)] else []) @
     (if ss_patternStr old \<noteq> ss_patternStr new
      then [''pattern: '' @ go_quote (ss_patternStr old) @ '' -> '' @ go_quote (ss_patternStr new)] else [])"

definition describeNumberChange :: "number_schema \<Rightarrow> number_schema \<Rightarrow> string list \<Rightarrow> string list" where
  "describeNumberChange old new details = details @
     (if ns_isInteger old \<noteq> ns_isInteger new
      then [''integer: '' @ show_bool (ns_isInteger old) @ '' -> '' @ show_bool (ns_isInteger new)] else []) @
     (if \<not> ptrEqFloat (ns_min old) (ns_min new)
      then [''min: '' @ fmtPtrFloat (ns_min old) @ '' -> '' @ fmtPtrFloat (ns_min new)] else []) @
     (if \<not> ptrEqFloat (ns_max old) (ns_max new)
      then [''max: '' @ fmtPtrFloat (ns_max old) @ '' -> '' @ fmtPtrFloat (ns_max new)] else [])"

definition describeChange :: "schema \<Rightarrow> schema \<Rightarrow> string option" where
  "describeChange old new =
     (if schema_Type old \<noteq> schema_Type new
      then Some (''type changed from '' @ SchemaType_String (schema_Type old) @ '' to '' @
        SchemaType_String (schema_Type new))
      else
        (let details =
           (if IsRequired old \<noteq> IsRequired new
            then [if IsRequired new then ''became required'' else ''became optional''] else []) @
           (if IsNullable old \<noteq> IsNullable new
            then [if IsNullable new then ''became nullable'' else ''became non-nullable''] else []);
           all = (case old of
               StringS os \<Rightarrow> (case new of StringS ns \<Rightarrow> Some (describeStringChange os ns details) | _ \<Rightarrow> None)
             | NumberS os \<Rightarrow> (case new of NumberS ns \<Rightarrow> Some (describeNumberChange os ns details) | _ \<Rightarrow> None)
             | _ \<Rightarrow> Some details)
         in map_option (\<lambda>ds. if length ds = 0 then ''constraints changed'' else str_join ''; '' ds) all))"

section \<open>Diff\<close>

text \<open>The map of the fields: of two at one path the last stays.\<close>

definition field_map :: "(string \<times> schema) list \<Rightarrow> string \<Rightarrow> schema option" where
  "field_map entries = fold (\<lambda>(path, s) m. m(path \<mapsto> s)) entries Map.empty"

fun changed_fields :: "go_lib \<Rightarrow> (string \<Rightarrow> schema option) \<Rightarrow> (string \<times> schema) list \<Rightarrow>
    field_change list \<Rightarrow> field_change list option" where
  "changed_fields L oldMap [] acc = Some acc"
| "changed_fields L oldMap ((path, s) # fs) acc = (case oldMap path of
       None \<Rightarrow> changed_fields L oldMap fs acc
     | Some old \<Rightarrow>
         if \<not> Equal L old s then
           (case describeChange old s of None \<Rightarrow> None
            | Some details \<Rightarrow> changed_fields L oldMap fs (acc @
                [\<lparr>fc_path = path, fc_oldType = schema_Type old, fc_newType = schema_Type s,
                  fc_details = details\<rparr>]))
         else changed_fields L oldMap fs acc)"

definition Diff :: "go_lib \<Rightarrow> schema \<Rightarrow> schema \<Rightarrow> schema_diff option" where
  "Diff L old new =
     (let oldFields = collectFields old; newFields = collectFields new in
      if length oldFields = 0 \<and> length newFields = 0 then
        Some \<lparr>sd_added = [], sd_removed = [], sd_changed =
          (if \<not> Equal L old new
           then [\<lparr>fc_path = [], fc_oldType = schema_Type old, fc_newType = schema_Type new,
                  fc_details = ''schema changed''\<rparr>] else [])\<rparr>
      else
        (let oldMap = field_map oldFields; newMap = field_map newFields;
             removed = filter (\<lambda>path. newMap path = None) (map fst oldFields);
             added = filter (\<lambda>path. oldMap path = None) (map fst newFields)
         in map_option (\<lambda>changed. \<lparr>sd_added = added, sd_removed = removed, sd_changed = changed\<rparr>)
              (changed_fields L oldMap newFields [])))"

section \<open>Properties\<close>

definition leaf :: "string \<times> schema \<Rightarrow> bool" where
  "leaf n = (case n of (path, s) \<Rightarrow> path \<noteq> [] \<and> (case s of
       ObjectS _ \<Rightarrow> False | DepObjectS _ \<Rightarrow> False | ArrayS a \<Rightarrow> ar_elementSchema a = None
     | _ \<Rightarrow> True))"

lemma visit_keep_field: "visit_all keep_field ns kept = (kept @ filter leaf ns, None)"
proof (induction ns arbitrary: kept)
  case (Cons n ns)
  obtain path s where n: "n = (path, s)" by (cases n)
  have call: "keep_field path s kept = (kept @ (if leaf n then [n] else []), None)"
    by (cases s) (auto simp: keep_field_def leaf_def n)
  then show ?case using Cons by (simp add: n)
qed simp

lemma collectFields_nodes: "collectFields s = filter leaf (nodes [] s)"
  by (simp add: collectFields_def Walk_def walkNode_nodes visit_keep_field)

lemma field_map_eq: "field_map fs = map_of (rev fs)"
proof -
  have "fold (\<lambda>(path, s) m. m(path \<mapsto> s)) fs m = m ++ map_of (rev fs)" for m
    by (induction fs arbitrary: m) (auto simp: map_add_def fun_eq_iff split: option.splits)
  then show ?thesis by (simp add: field_map_def)
qed

lemma field_map_None: "field_map fs path = None \<longleftrightarrow> path \<notin> fst ` set fs"
  by (simp add: field_map_eq map_of_eq_None_iff)

lemma changed_fields_acc:
  "changed_fields L oldMap fs acc = map_option ((@) acc) (changed_fields L oldMap fs [])"
proof (induction fs arbitrary: acc)
  case (Cons f fs)
  obtain path s where f: "f = (path, s)" by (cases f)
  have acc: "changed_fields L oldMap fs (acc @ [x]) = map_option ((@) acc) (changed_fields L oldMap fs [x])" for x
    by (subst (1 2) Cons) (cases "changed_fields L oldMap fs []"; simp)
  show ?case
    by (auto simp: f acc Cons [of acc] split: option.splits)
qed (simp add: comp_def)

text \<open>One step less: no change is found exactly when every field both have is equal.\<close>

lemma changed_fields_Nil:
  "changed_fields L oldMap fs [] = Some [] \<longleftrightarrow>
    list_all (\<lambda>(path, s). case oldMap path of None \<Rightarrow> True | Some old \<Rightarrow> Equal L old s) fs"
proof (induction fs)
  case (Cons f fs)
  obtain path s where f: "f = (path, s)" by (cases f)
  have "changed_fields L oldMap fs [x] \<noteq> Some []" for x
    by (subst changed_fields_acc) auto
  with Cons show ?case
    by (auto simp: f split: option.splits)
qed simp

text \<open>
  \<open>Diff\<close> finds no changes exactly when the two schemas have fields at the same paths and
  each field of the new one equals the last one the old one has at its path; schemas without
  fields are compared as a whole.
\<close>

theorem Diff_no_changes:
  "map_option HasChanges (Diff L old new) = Some False \<longleftrightarrow>
    (if collectFields old = [] \<and> collectFields new = [] then Equal L old new
     else fst ` set (collectFields old) = fst ` set (collectFields new) \<and>
       list_all (\<lambda>(path, s). case field_map (collectFields old) path of
           None \<Rightarrow> False | Some t \<Rightarrow> Equal L t s) (collectFields new))"
proof (cases "collectFields old = [] \<and> collectFields new = []")
  case True
  then show ?thesis by (simp add: Diff_def HasChanges_def)
next
  case False
  let ?old = "collectFields old" and ?new = "collectFields new"
  let ?removed = "filter (\<lambda>path. field_map ?new path = None) (map fst ?old)"
  let ?added = "filter (\<lambda>path. field_map ?old path = None) (map fst ?new)"
  have paths: "?removed = [] \<and> ?added = [] \<longleftrightarrow> fst ` set ?old = fst ` set ?new"
    by (auto simp: filter_empty_conv field_map_None)
  have "map_option HasChanges (Diff L old new) = Some False \<longleftrightarrow>
      ?removed = [] \<and> ?added = [] \<and> changed_fields L (field_map ?old) ?new [] = Some []"
    using False by (auto simp: Diff_def Let_def HasChanges_def)
  also have "\<dots> \<longleftrightarrow> fst ` set ?old = fst ` set ?new \<and>
      list_all (\<lambda>(path, s). case field_map ?old path of None \<Rightarrow> True | Some t \<Rightarrow> Equal L t s) ?new"
    unfolding changed_fields_Nil using paths by blast
  also have "\<dots> \<longleftrightarrow> fst ` set ?old = fst ` set ?new \<and>
      list_all (\<lambda>(path, s). case field_map ?old path of None \<Rightarrow> False | Some t \<Rightarrow> Equal L t s) ?new"
    by (force simp: list_all_iff field_map_None split: option.splits)
  finally show ?thesis unfolding if_not_P [OF False] .
qed

text \<open>
  Comparing two schemas in the other direction swaps what was added and what was removed.
\<close>

theorem Diff_swap:
  assumes "Diff L old new = Some d" and "Diff L new old = Some d'"
  shows "sd_added d' = sd_removed d \<and> sd_removed d' = sd_added d"
  using assms by (auto simp: Diff_def Let_def split: if_splits)

text \<open>An object with one field.\<close>

definition one_field :: "schema \<Rightarrow> schema" where
  "one_field s = ObjectS (ObjectSchema (new_base TypeObject) [(''a'', s)] [] None [] [])"

lemma collectFields_one_field: "collectFields (one_field s) = filter leaf (nodes ''a'' s)"
  by (simp add: collectFields_nodes nodes.simps [of "[]"] one_field_def leaf_def field_children_def
      Object_FieldNames_def Object_GetField_def appendPath_def)

theorem Diff_swap_witness:
  "map_option sd_removed (Diff sample_lib (one_field (BoolS Bool_new)) (BoolS Bool_new)) = Some [''a'']
   \<and> map_option sd_added (Diff sample_lib (BoolS Bool_new) (one_field (BoolS Bool_new))) = Some [''a'']"
proof -
  have old: "collectFields (one_field (BoolS Bool_new)) = [(''a'', BoolS Bool_new)]"
    by (simp add: collectFields_one_field nodes_leaf leaf_def)
  have new: "collectFields (BoolS Bool_new) = []"
    by (simp add: collectFields_nodes nodes_leaf leaf_def)
  obtain d where d: "Diff sample_lib (one_field (BoolS Bool_new)) (BoolS Bool_new) = Some d"
    and "sd_removed d = [''a'']"
    by (simp add: Diff_def Let_def old new field_map_def)
  moreover obtain d' where d': "Diff sample_lib (BoolS Bool_new) (one_field (BoolS Bool_new)) = Some d'"
    by (simp add: Diff_def Let_def old new field_map_def)
  ultimately show ?thesis using Diff_swap [OF d d'] by simp
qed

text \<open>
  An object whose field is a transformed string cannot be compared with itself: \<open>Diff\<close>
  panics. With a transformed bool it reports that the field changed.
\<close>

theorem Diff_itself_transform:
  "Diff L (one_field (TransformS (with_transform (StringS String_new) t)))
     (one_field (TransformS (with_transform (StringS String_new) t))) = None
   \<and> map_option (map fc_path \<circ> sd_changed)
       (Diff L (one_field (TransformS (with_transform (BoolS Bool_new) t)))
         (one_field (TransformS (with_transform (BoolS Bool_new) t)))) = Some [''a'']"
proof -
  have collect: "collectFields (one_field (TransformS (with_transform s t))) =
      [(''a'', TransformS (with_transform s t)), (''a'', s)]"
    if "s = StringS String_new \<or> s = BoolS Bool_new" for s
    using that
    by (auto simp: collectFields_one_field nodes.simps [of "''a''" "TransformS _"] nodes_leaf leaf_def
        with_transform_def Transform_new_def)
  have equal: "\<not> Equal L (StringS String_new) (TransformS (with_transform (StringS String_new) t))"
      "\<not> Equal L (BoolS Bool_new) (TransformS (with_transform (BoolS Bool_new) t))"
      "Equal L s s" for s
    by (simp_all add: Equal_def canonicalise_def canonicaliseString_def canonicaliseBool_def
        with_transform_def Transform_new_def)
  have describe: "describeChange (StringS String_new) (TransformS (with_transform (StringS String_new) t)) = None"
      "describeChange (BoolS Bool_new) (TransformS (with_transform (BoolS Bool_new) t)) = Some ''constraints changed''"
    by (simp_all add: describeChange_def with_transform_def Transform_new_def IsNullable_def
        String_new_def Bool_new_def new_base_def)
  show ?thesis
    by (simp add: Diff_def collect Let_def field_map_def equal describe)
qed

end
