(* ===== verification/JsonImport.thy ===== *)
theory JsonImport
  imports Acceptance
begin

text \<open>
  \<open>builders/jsonschema/jsonschema.go\<close>: the conversion of a JSON Schema document into a schema. The
  converter's list of errors is threaded through; the options, the format registry, the library
  engines and the order in which Go visits maps are gathered in \<open>converter_env\<close>. A nullable type
  array makes \<open>resolveType\<close> write a marker into the document under the key \<open>_nullable\<close>; here the
  marker is a flag that is passed on, next to a key of that name in the document itself.
\<close>

record conversion_error =
  ce_path :: string
  ce_keyword :: string
  ce_message :: string
  ce_isWarning :: bool

record json_options =
  jo_strictMode :: bool
  jo_storeUnknown :: bool

record converter_env =
  cv_lib :: go_lib
  cv_opts :: json_options
  cv_formats :: format_registry
  cv_formatsLater :: format_registry
  cv_order :: "string \<Rightarrow> string list \<Rightarrow> string list"

definition ConversionError_Error :: "conversion_error \<Rightarrow> string" where
  "ConversionError_Error e =
     (let prefix = (if ce_isWarning e then ''warning'' else ''error'') in
      if ce_path e = [] then prefix @ '': '' @ ce_keyword e @ '': '' @ ce_message e
      else prefix @ '' at '' @ ce_path e @ '': '' @ ce_keyword e @ '': '' @ ce_message e)"

definition unsupportedKeywords :: "string gmap" where
  "unsupportedKeywords = map_from
     [(''$ref'', ''schema references are not supported''),
      (''$defs'', ''schema definitions are not supported''),
      (''definitions'', ''schema definitions are not supported''),
      (''oneOf'', ''composite schemas are not supported; use queryfy builders directly''),
      (''anyOf'', ''composite schemas are not supported; use queryfy builders directly''),
      (''allOf'', ''composite schemas are not supported; use queryfy builders directly''),
      (''not'', ''composite schemas are not supported; use queryfy builders directly''),
      (''if'', ''conditional schemas are not supported''),
      (''then'', ''conditional schemas are not supported''),
      (''else'', ''conditional schemas are not supported''),
      (''dependentRequired'', ''dependent schemas are not supported; use queryfy builders directly''),
      (''dependentSchemas'', ''dependent schemas are not supported; use queryfy builders directly''),
      (''patternProperties'', ''pattern properties are not supported''),
      (''unevaluatedProperties'', ''unevaluated properties are not supported''),
      (''unevaluatedItems'', ''unevaluated items are not supported''),
      (''prefixItems'', ''tuple validation is not supported''),
      (''contains'', ''contains is not supported''),
      (''additionalItems'', ''additionalItems is not supported; use items'')]"

definition recognisedKeywords :: "string list" where
  "recognisedKeywords = [''type'', ''properties'', ''required'', ''additionalProperties'', ''items'',
     ''minLength'', ''maxLength'', ''pattern'', ''minimum'', ''maximum'', ''exclusiveMinimum'',
     ''exclusiveMaximum'', ''multipleOf'', ''enum'', ''format'', ''nullable'', ''minItems'',
     ''maxItems'', ''uniqueItems'', ''title'', ''description'', ''default'', ''examples'', ''const'',
     ''$schema'', ''$id'', ''$comment'']"

section \<open>Errors and unsupported keywords\<close>

type_synonym conversion_errors = "conversion_error list"

definition addError :: "string \<Rightarrow> string \<Rightarrow> string \<Rightarrow> conversion_errors \<Rightarrow> conversion_errors" where
  "addError path keyword msg errs = errs @
     [\<lparr>ce_path = path, ce_keyword = keyword, ce_message = msg, ce_isWarning = False\<rparr>]"

definition addWarning :: "string \<Rightarrow> string \<Rightarrow> string \<Rightarrow> conversion_errors \<Rightarrow> conversion_errors" where
  "addWarning path keyword msg errs = errs @
     [\<lparr>ce_path = path, ce_keyword = keyword, ce_message = msg, ce_isWarning = True\<rparr>]"

text \<open>The keys of a map in the order \<open>range\<close> visits them at a place of the document.\<close>

definition visit_order :: "converter_env \<Rightarrow> string \<Rightarrow> 'v gmap \<Rightarrow> string list" where
  "visit_order C path m = (let ks = map_keys m; o' = cv_order C path ks in
     if mset o' = mset ks then o' else ks)"

text \<open>\<open>checkUnsupported\<close>; the caller makes no use of its result.\<close>

definition check_keyword :: "converter_env \<Rightarrow> gval gmap \<Rightarrow> string \<Rightarrow> string \<Rightarrow>
    conversion_errors \<Rightarrow> conversion_errors" where
  "check_keyword C raw path key errs =
     (if map_of raw key \<noteq> None then
        (let reason = the (map_of unsupportedKeywords key) in
         if jo_strictMode (cv_opts C) then addError path key reason errs
         else addWarning path key (reason @ '' (skipped)'') errs)
      else errs)"

definition checkUnsupported :: "converter_env \<Rightarrow> gval gmap \<Rightarrow> string \<Rightarrow>
    conversion_errors \<Rightarrow> conversion_errors" where
  "checkUnsupported C raw path errs =
     fold (check_keyword C raw path) (visit_order C path unsupportedKeywords) errs"

section \<open>Reading keywords\<close>

definition getString :: "gval gmap \<Rightarrow> string \<Rightarrow> string option" where
  "getString raw key = (case map_of raw key of Some (VStr s) \<Rightarrow> Some s | _ \<Rightarrow> None)"

definition getFloat :: "gval gmap \<Rightarrow> string \<Rightarrow> f64 option" where
  "getFloat raw key = (case map_of raw key of Some (VFloat64 x) \<Rightarrow> Some x | _ \<Rightarrow> None)"

definition getBool :: "gval gmap \<Rightarrow> string \<Rightarrow> bool option" where
  "getBool raw key = (case map_of raw key of Some (VBool b) \<Rightarrow> Some b | _ \<Rightarrow> None)"

fun all_strings :: "gval list \<Rightarrow> string list option" where
  "all_strings [] = Some []"
| "all_strings (VStr s # vs) = map_option ((#) s) (all_strings vs)"
| "all_strings (_ # vs) = None"

definition getStringSlice :: "gval gmap \<Rightarrow> string \<Rightarrow> string list option" where
  "getStringSlice raw key = (case map_of raw key of Some (VSlice vs) \<Rightarrow> all_strings vs | _ \<Rightarrow> None)"

definition json_appendPath :: "string \<Rightarrow> string \<Rightarrow> string" where
  "json_appendPath base suffix = (if base = [] then suffix else base @ ''.'' @ suffix)"

text \<open>The type name, whether \<open>null\<close> is among the types of an array, and the errors.\<close>

fun type_names :: "gval list \<Rightarrow> string \<Rightarrow> bool \<Rightarrow> string \<times> bool" where
  "type_names [] nonNull nul = (nonNull, nul)"
| "type_names (VStr s # vs) nonNull nul =
     (if s = ''null'' then type_names vs nonNull True else type_names vs s nul)"
| "type_names (_ # vs) nonNull nul = type_names vs nonNull nul"

definition resolveType :: "gval gmap \<Rightarrow> string \<Rightarrow> conversion_errors \<Rightarrow>
    (string \<times> bool) \<times> conversion_errors" where
  "resolveType raw path errs = (case map_of raw ''type'' of
       None \<Rightarrow> ((if map_of raw ''properties'' \<noteq> None then ''object''
                else if map_of raw ''items'' \<noteq> None then ''array'' else [], False), errs)
     | Some (VStr s) \<Rightarrow> ((s, False), errs)
     | Some (VSlice vs) \<Rightarrow> (type_names vs [] False, errs)
     | Some t \<Rightarrow> (([], False), addError path ''type'' (''unexpected type value: '' @ type_name t) errs))"

section \<open>The leaves\<close>

definition wants_null :: "bool \<Rightarrow> gval gmap \<Rightarrow> bool" where
  "wants_null nul raw = (nul \<or> map_of raw ''_nullable'' \<noteq> None \<or> getBool raw ''nullable'' = Some True)"

definition applyNullable :: "bool \<Rightarrow> gval gmap \<Rightarrow> schema \<Rightarrow> schema" where
  "applyNullable nul raw s =
     (if \<not> wants_null nul raw then s
      else case s of
          StringS t \<Rightarrow> StringS (String_Nullable t) | NumberS t \<Rightarrow> NumberS (Number_Nullable t)
        | BoolS t \<Rightarrow> BoolS (Bool_Nullable t) | ObjectS t \<Rightarrow> ObjectS (Object_Nullable t)
        | ArrayS t \<Rightarrow> ArrayS (Array_Nullable t) | _ \<Rightarrow> s)"

definition set_meta :: "string \<Rightarrow> gval \<Rightarrow> schema \<Rightarrow> schema" where
  "set_meta k v s = (case s of
       StringS t \<Rightarrow> StringS (String_Meta k v t) | NumberS t \<Rightarrow> NumberS (Number_Meta k v t)
     | BoolS t \<Rightarrow> BoolS (Bool_Meta k v t) | ObjectS t \<Rightarrow> ObjectS (Object_Meta k v t)
     | ArrayS t \<Rightarrow> ArrayS (Array_Meta k v t) | _ \<Rightarrow> s)"

definition storeUnknown :: "converter_env \<Rightarrow> gval gmap \<Rightarrow> string \<Rightarrow> schema \<Rightarrow> schema" where
  "storeUnknown C raw path s =
     (if \<not> jo_storeUnknown (cv_opts C) then s
      else fold (\<lambda>key s.
          if key \<in> set recognisedKeywords then s
          else if map_of unsupportedKeywords key \<noteq> None then s
          else if key = ''_nullable'' then s
          else set_meta key (the (map_of raw key)) s)
        (visit_order C path raw) s)"

definition finish :: "converter_env \<Rightarrow> bool \<Rightarrow> gval gmap \<Rightarrow> string \<Rightarrow> schema \<Rightarrow> schema" where
  "finish C nul raw path s = storeUnknown C raw path (applyNullable nul raw s)"

definition applyStringFormat :: "converter_env \<Rightarrow> string \<Rightarrow> string \<Rightarrow> string_schema \<Rightarrow>
    conversion_errors \<Rightarrow> string_schema \<times> conversion_errors" where
  "applyStringFormat C format path s errs =
     (if format = ''email'' then (String_Email (cv_lib C) s, errs)
      else if format = ''uri'' \<or> format = ''url'' then (String_URL (cv_lib C) s, errs)
      else if format = ''uuid'' then (String_UUID (cv_lib C) s, errs)
      else if format = ''date-time'' \<or> format = ''date'' \<or> format = ''time''
      then (String_Meta ''format'' (VStr format) s, errs)
      else if LookupFormat format (cv_formats C) \<noteq> None
      then (String_FormatString (cv_formats C) (cv_formatsLater C) format s, errs)
      else (String_Meta ''format'' (VStr format) s,
            addWarning path ''format'' (''unknown format '' @ go_quote format @ '' stored as metadata'') errs))"

definition convertString :: "converter_env \<Rightarrow> bool \<Rightarrow> gval gmap \<Rightarrow> string \<Rightarrow>
    conversion_errors \<Rightarrow> schema \<times> conversion_errors" where
  "convertString C nul raw path errs =
     (let s = String_new;
          s = (case getFloat raw ''minLength'' of None \<Rightarrow> s | Some x \<Rightarrow> String_MinLength (f_to_int64 x) s);
          s = (case getFloat raw ''maxLength'' of None \<Rightarrow> s | Some x \<Rightarrow> String_MaxLength (f_to_int64 x) s);
          (s, errs) = (case getString raw ''pattern'' of None \<Rightarrow> (s, errs)
             | Some pat \<Rightarrow> (case lib_regexp_compile (cv_lib C) pat of
                   Inl err \<Rightarrow> (s, addError path ''pattern'' (''invalid regex: '' @ err) errs)
                 | Inr _ \<Rightarrow> (String_Pattern (cv_lib C) pat s, errs)));
          s = (case getStringSlice raw ''enum'' of None \<Rightarrow> s | Some vals \<Rightarrow> String_Enum vals s);
          (s, errs) = (case getString raw ''format'' of None \<Rightarrow> (s, errs)
             | Some fmt \<Rightarrow> applyStringFormat C fmt path s errs)
      in (finish C nul raw path (StringS s), errs))"

definition convertNumber :: "converter_env \<Rightarrow> bool \<Rightarrow> gval gmap \<Rightarrow> string \<Rightarrow> bool \<Rightarrow> schema" where
  "convertNumber C nul raw path integer =
     (let s = Number_new;
          s = (if integer then Number_Integer s else s);
          s = (case getFloat raw ''minimum'' of None \<Rightarrow> s | Some x \<Rightarrow> Number_Min x s);
          s = (case getFloat raw ''maximum'' of None \<Rightarrow> s | Some x \<Rightarrow> Number_Max x s);
          s = (case getFloat raw ''exclusiveMinimum'' of None \<Rightarrow> s
             | Some x \<Rightarrow> Number_Meta ''exclusiveMinimum'' (VFloat64 x) (Number_Min x s));
          s = (case getFloat raw ''exclusiveMaximum'' of None \<Rightarrow> s
             | Some x \<Rightarrow> Number_Meta ''exclusiveMaximum'' (VFloat64 x) (Number_Max x s));
          s = (case getFloat raw ''multipleOf'' of None \<Rightarrow> s | Some x \<Rightarrow> Number_MultipleOf x s)
      in finish C nul raw path (NumberS s))"

definition convertBool :: "converter_env \<Rightarrow> bool \<Rightarrow> gval gmap \<Rightarrow> string \<Rightarrow> schema" where
  "convertBool C nul raw path = finish C nul raw path (BoolS Bool_new)"

section \<open>Objects, arrays and the recursion\<close>

text \<open>\<open>conv\<close> is \<open>convertNode\<close>, for the documents of the fields and of the elements.\<close>

type_synonym node_conv = "gval gmap \<Rightarrow> string \<Rightarrow> conversion_errors \<Rightarrow> schema \<times> conversion_errors"

definition markRequired :: "schema \<Rightarrow> schema" where
  "markRequired s = (case s of
       StringS t \<Rightarrow> StringS (String_Required t) | NumberS t \<Rightarrow> NumberS (Number_Required t)
     | BoolS t \<Rightarrow> BoolS (Bool_Required t) | ObjectS t \<Rightarrow> ObjectS (Object_Required t)
     | ArrayS t \<Rightarrow> ArrayS (Array_Required t) | DateTimeS t \<Rightarrow> DateTimeS (DateTime_Required t)
     | CustomS t \<Rightarrow> CustomS (Custom_Required t) | _ \<Rightarrow> s)"

text \<open>The strings among the elements of \<open>required\<close>, and whether a name is one of them.\<close>

definition required_names :: "gval gmap \<Rightarrow> string list" where
  "required_names raw = (case map_of raw ''required'' of
       Some (VSlice vs) \<Rightarrow> List.map_filter as_string vs | _ \<Rightarrow> [])"

definition convert_property :: "node_conv \<Rightarrow> string list \<Rightarrow> string \<Rightarrow> string \<times> gval \<Rightarrow>
    schema object_schema \<times> conversion_errors \<Rightarrow> schema object_schema \<times> conversion_errors" where
  "convert_property conv reqs path pr acc =
     (case (pr, acc) of ((fieldName, fieldDef), (s, errs)) \<Rightarrow>
       (let fieldPath = json_appendPath path (''properties.'' @ fieldName) in
        case fieldDef of
          VMap fieldRaw \<Rightarrow>
            (case conv fieldRaw fieldPath errs of (f, errs) \<Rightarrow>
               (let f = (if fieldName \<in> set reqs then markRequired f else f) in
                ((case Object_Field fieldName f s of Some s \<Rightarrow> s | None \<Rightarrow> s), errs)))
        | _ \<Rightarrow> (s, addError fieldPath ''properties'' ''expected object for field definition'' errs)))"

definition convertObject :: "converter_env \<Rightarrow> node_conv \<Rightarrow> bool \<Rightarrow> gval gmap \<Rightarrow> string \<Rightarrow>
    conversion_errors \<Rightarrow> schema \<times> conversion_errors" where
  "convertObject C conv nul raw path errs =
     (let reqs = required_names raw;
          (s, errs) = (case map_of raw ''properties'' of
               None \<Rightarrow> (Object_new, errs)
             | Some (VMap props) \<Rightarrow>
                 fold (convert_property conv reqs path) (sort_key fst props) (Object_new, errs)
             | Some _ \<Rightarrow> (Object_new, addError path ''properties'' ''expected object'' errs));
          (s, errs) = (case map_of raw ''additionalProperties'' of
               Some (VBool b) \<Rightarrow> (Object_AllowAdditional b s, errs)
             | Some (VMap m) \<Rightarrow>
                 (Object_Meta ''additionalPropertiesSchema'' (VMap m) (Object_AllowAdditional True s),
                  addWarning path ''additionalProperties''
                    ''schema-valued additionalProperties stored as metadata; validation not enforced'' errs)
             | _ \<Rightarrow> (s, errs))
      in (finish C nul raw path (ObjectS s), errs))"

definition convertArray :: "converter_env \<Rightarrow> node_conv \<Rightarrow> bool \<Rightarrow> gval gmap \<Rightarrow> string \<Rightarrow>
    conversion_errors \<Rightarrow> schema \<times> conversion_errors" where
  "convertArray C conv nul raw path errs =
     (let s = Array_new;
          s = (case getFloat raw ''minItems'' of None \<Rightarrow> s | Some x \<Rightarrow> Array_MinItems (f_to_int64 x) s);
          s = (case getFloat raw ''maxItems'' of None \<Rightarrow> s | Some x \<Rightarrow> Array_MaxItems (f_to_int64 x) s);
          s = (if getBool raw ''uniqueItems'' = Some True then Array_UniqueItems s else s);
          (s, errs) = (case map_of raw ''items'' of
               None \<Rightarrow> (s, errs)
             | Some (VMap itemsRaw) \<Rightarrow>
                 (case conv itemsRaw (json_appendPath path ''items'') errs of (e, errs) \<Rightarrow> (Array_Of e s, errs))
             | Some _ \<Rightarrow> (s, addError (json_appendPath path ''items'') ''items'' ''expected object'' errs))
      in (finish C nul raw path (ArrayS s), errs))"

lemma size_map_value: "map_of m k = Some v \<Longrightarrow> size v < size (VMap m)"
  by (drule map_of_SomeD) simp

lemma size_property: "(k, v) \<in> set m \<Longrightarrow> size v < size (VMap m)"
  by simp

lemma convertObject_cong [fundef_cong]:
  assumes "raw = raw'" and "\<And>m p e. size (VMap m) < size (VMap raw') \<Longrightarrow> conv m p e = conv' m p e"
  shows "convertObject C conv nul raw path errs = convertObject C conv' nul raw' path errs"
proof -
  have pr: "convert_property conv reqs path pr acc = convert_property conv' reqs path pr acc"
    if "map_of raw' ''properties'' = Some (VMap props)" "pr \<in> set props" for reqs path pr acc props
  proof -
    obtain name v where p: "pr = (name, v)" by (cases pr)
    have "size v < size (VMap raw')"
      using size_map_value [OF that(1)] size_property [of name v props] that(2)
      by (simp only: p) (meson less_trans)
    then show ?thesis
      using assms(2) by (cases v; cases acc) (simp_all add: p convert_property_def)
  qed
  have "fold (convert_property conv reqs path) (sort_key fst props) acc =
      fold (convert_property conv' reqs path) (sort_key fst props) acc"
    if "map_of raw' ''properties'' = Some (VMap props)" for reqs props acc
    by (rule fold_cong) (use pr [OF that] in \<open>auto simp: fun_eq_iff\<close>)
  then show ?thesis
    unfolding convertObject_def assms(1) Let_def
    by (cases "map_of raw' ''properties''"; cases "the (map_of raw' ''properties'')") simp_all
qed

lemma convertArray_cong [fundef_cong]:
  assumes "raw = raw'" and "\<And>m p e. size (VMap m) < size (VMap raw') \<Longrightarrow> conv m p e = conv' m p e"
  shows "convertArray C conv nul raw path errs = convertArray C conv' nul raw' path errs"
proof -
  have "conv m p e = conv' m p e" if "map_of raw' ''items'' = Some (VMap m)" for m p e
    by (rule assms(2)) (rule size_map_value [OF that])
  then show ?thesis
    unfolding convertArray_def assms(1) Let_def
    by (cases "map_of raw' ''items''"; cases "the (map_of raw' ''items'')") simp_all
qed

function convertNode :: "converter_env \<Rightarrow> node_conv" where
  "convertNode C raw path errs =
     (let errs = checkUnsupported C raw path errs;
          ((typeName, nul), errs) = resolveType raw path errs
      in if typeName = ''string'' then convertString C nul raw path errs
         else if typeName = ''number'' then (convertNumber C nul raw path False, errs)
         else if typeName = ''integer'' then (convertNumber C nul raw path True, errs)
         else if typeName = ''boolean'' then (convertBool C nul raw path, errs)
         else if typeName = ''object'' then convertObject C (convertNode C) nul raw path errs
         else if typeName = ''array'' then convertArray C (convertNode C) nul raw path errs
         else (StringS String_new,
               addError path ''type'' (''unsupported or missing type: '' @ go_quote typeName) errs))"
  by pat_completeness auto

termination convertNode
  by (relation "measure (\<lambda>(C, raw, path, errs). size (VMap raw))") simp_all

declare convertNode.simps [simp del]

text \<open>\<open>unmarshal\<close> is \<open>json.Unmarshal\<close> into a map: the text of its error, or the document.\<close>

definition FromJSON :: "(string \<Rightarrow> string + gval gmap) \<Rightarrow> converter_env \<Rightarrow> string \<Rightarrow>
    schema option \<times> conversion_errors" where
  "FromJSON unmarshal C data = (case unmarshal data of
       Inl err \<Rightarrow> (None, [\<lparr>ce_path = [], ce_keyword = ''json'',
         ce_message = ''invalid JSON: '' @ err, ce_isWarning = False\<rparr>])
     | Inr raw \<Rightarrow> (case convertNode C raw [] [] of (s, errs) \<Rightarrow> (Some s, errs)))"

end
