(* ===== verification/JsonExport.thy ===== *)
theory JsonExport
  imports JsonImport
begin

text \<open>
  \<open>builders/jsonschema/export.go\<close>: a schema as a JSON Schema document, and the round trip: a schema
  of the exportable kind is what importing its exported document gives.
\<close>

record export_options =
  eo_schemaURI :: string
  eo_id :: string
  eo_includeMeta :: bool

section \<open>The code\<close>

text \<open>The statement \<open>if p != nil { out[key] = *p }\<close>.\<close>

definition put_opt :: "string \<Rightarrow> 'v option \<Rightarrow> 'v gmap \<Rightarrow> 'v gmap" where
  "put_opt k x m = (case x of None \<Rightarrow> m | Some v \<Rightarrow> map_put k v m)"

definition makeBase :: "schema \<Rightarrow> string \<Rightarrow> gval gmap" where
  "makeBase s typeName = map_put ''type''
     (if IsNullable s then VSlice [VStr typeName, VStr ''null''] else VStr typeName) []"

text \<open>No round of the loop over the metadata depends on what another wrote.\<close>

definition includeMeta :: "export_options \<Rightarrow> schema \<Rightarrow> gval gmap \<Rightarrow> gval gmap" where
  "includeMeta opts s out =
     (if \<not> eo_includeMeta opts then out
      else fold (\<lambda>(key, v) out.
          if key = ''exclusiveMinimum'' \<or> key = ''exclusiveMaximum'' then out
          else if map_of out key \<noteq> None then out
          else map_put key v out) (bs_metadata (base_of s)) out)"

definition exportString :: "export_options \<Rightarrow> string_schema \<Rightarrow> gval gmap" where
  "exportString opts s =
     (let out = makeBase (StringS s) ''string'';
          out = put_opt ''minLength'' (map_option (VInt KInt) (ss_minLength s)) out;
          out = put_opt ''maxLength'' (map_option (VInt KInt) (ss_maxLength s)) out;
          out = (if ss_patternStr s \<noteq> [] then map_put ''pattern'' (VStr (ss_patternStr s)) out else out);
          out = (if 0 < length (ss_enum s) then map_put ''enum'' (VSlice (map VStr (ss_enum s))) out else out);
          out = (if ss_formatType s \<noteq> [] then map_put ''format'' (VStr (ss_formatType s)) out else out)
      in includeMeta opts (StringS s) out)"

definition exportNumber :: "export_options \<Rightarrow> number_schema \<Rightarrow> gval gmap" where
  "exportNumber opts s =
     (let out = makeBase (NumberS s) (if ns_isInteger s then ''integer'' else ''number'');
          out = (case GetMeta (ns_base s) ''exclusiveMinimum'' of
              Some meta \<Rightarrow> map_put ''exclusiveMinimum'' meta out
            | None \<Rightarrow> put_opt ''minimum'' (map_option VFloat64 (ns_min s)) out);
          out = (case GetMeta (ns_base s) ''exclusiveMaximum'' of
              Some meta \<Rightarrow> map_put ''exclusiveMaximum'' meta out
            | None \<Rightarrow> put_opt ''maximum'' (map_option VFloat64 (ns_max s)) out);
          out = put_opt ''multipleOf'' (map_option VFloat64 (ns_multipleOf s)) out
      in includeMeta opts (NumberS s) out)"

definition exportBool :: "export_options \<Rightarrow> bool_schema \<Rightarrow> gval gmap" where
  "exportBool opts s = includeMeta opts (BoolS s) (makeBase (BoolS s) ''boolean'')"

text \<open>The list of required names: the required fields, then the other required names, sorted.\<close>

definition merge_required :: "string list \<Rightarrow> string list \<Rightarrow> string list" where
  "merge_required required reqNames = sort
     (fold (\<lambda>name merged. if name \<in> set merged then merged else merged @ [name]) reqNames required)"

definition exportObject :: "export_options \<Rightarrow> schema object_schema \<Rightarrow> gval gmap object_schema \<Rightarrow> gval gmap" where
  "exportObject opts s exported =
     (let out = makeBase (ObjectS s) ''object'';
          fieldNames = sort (Object_FieldNames s);
          required = filter (\<lambda>name. IsRequired (the (Object_GetField s name))) fieldNames;
          out = (if 0 < length fieldNames then
              (let properties = fold (\<lambda>name. map_put name (VMap (the (Object_GetField exported name)))) fieldNames [];
                   out = map_put ''properties'' (VMap properties) out
               in if 0 < length required then map_put ''required'' (VSlice (map VStr required)) out else out)
            else out);
          reqNames = RequiredFieldNames s;
          out = (if 0 < length reqNames
            then map_put ''required'' (VSlice (map VStr (merge_required required reqNames))) out else out);
          out = (case Object_AllowsAdditional s of (allow, explicit) \<Rightarrow>
            if explicit then map_put ''additionalProperties'' (VBool allow) out else out)
      in includeMeta opts (ObjectS s) out)"

definition exportArray :: "export_options \<Rightarrow> schema array_schema \<Rightarrow> gval gmap array_schema \<Rightarrow> gval gmap" where
  "exportArray opts s exported =
     (let out = makeBase (ArrayS s) ''array'';
          out = put_opt ''minItems'' (map_option (VInt KInt) (ar_minItems s)) out;
          out = put_opt ''maxItems'' (map_option (VInt KInt) (ar_maxItems s)) out;
          out = (if ar_uniqueItems s then map_put ''uniqueItems'' (VBool True) out else out);
          out = put_opt ''items'' (map_option VMap (ar_elementSchema exported)) out
      in includeMeta opts (ArrayS s) out)"

primrec exportNode :: "export_options \<Rightarrow> schema \<Rightarrow> gval gmap" where
  "exportNode opts (StringS s) = exportString opts s"
| "exportNode opts (NumberS s) = exportNumber opts s"
| "exportNode opts (BoolS s) = exportBool opts s"
| "exportNode opts (ObjectS s) = exportObject opts s (map_object_schema (exportNode opts) s)"
| "exportNode opts (ArrayS s) = exportArray opts s (map_array_schema (exportNode opts) s)"
| "exportNode opts (TransformS s) = tf_inner (map_transform_schema (exportNode opts) s)"
| "exportNode opts (CustomS s) = []"
| "exportNode opts (DateTimeS s) = []"
| "exportNode opts (DepObjectS s) = []"
| "exportNode opts (AndS s) = []"
| "exportNode opts (OrS s) = []"
| "exportNode opts (NotS s) = []"
| "exportNode opts (DependentS s) = []"
| "exportNode opts (CompiledS s) = []"

definition ToMap :: "export_options \<Rightarrow> schema \<Rightarrow> gval gmap" where
  "ToMap opts s =
     (let raw = exportNode opts s;
          raw = (if eo_schemaURI opts \<noteq> [] then map_put ''$schema'' (VStr (eo_schemaURI opts)) raw else raw)
      in if eo_id opts \<noteq> [] then map_put ''$id'' (VStr (eo_id opts)) raw else raw)"

text \<open>\<open>marshal\<close> is \<open>json.MarshalIndent\<close>: its error, or the text.\<close>

definition ToJSON :: "(gval gmap \<Rightarrow> string + string) \<Rightarrow> export_options \<Rightarrow> schema \<Rightarrow> string + string" where
  "ToJSON marshal opts s = marshal (ToMap opts s)"

section \<open>What comes back from JSON\<close>

text \<open>
  A document as \<open>encoding/json\<close> decodes it after encoding it: every number becomes a
  \<open>float64\<close>. It is only used for documents of null, booleans, numbers, strings, slices and maps.
\<close>

fun json_value :: "gval \<Rightarrow> gval" where
  "json_value (VInt k i) = VFloat64 (f_of_int i)"
| "json_value (VSlice vs) = VSlice (map json_value vs)"
| "json_value (VMap m) = VMap (map (\<lambda>(k, v). (k, json_value v)) m)"
| "json_value v = v"

definition json_map :: "gval gmap \<Rightarrow> gval gmap" where
  "json_map m = map (\<lambda>(k, v). (k, json_value v)) m"

section \<open>Documents of recognised keywords\<close>

definition recognised :: "gval gmap \<Rightarrow> bool" where
  "recognised raw = list_all (\<lambda>k. k \<in> set recognisedKeywords) (map_keys raw)"

lemma recognised_supported:
  assumes "k \<in> set recognisedKeywords"
  shows "map_of unsupportedKeywords k = None"
proof -
  have "list_all (\<lambda>k. map_of unsupportedKeywords k = None) recognisedKeywords" by code_simp
  with assms show ?thesis by (simp only: list_all_iff)
qed

lemma set_visit_order [simp]: "set (visit_order C path m) = set (map_keys m)"
proof (cases "mset (cv_order C path (map_keys m)) = mset (map_keys m)")
  case True
  from mset_eq_setD [OF True] True show ?thesis by (simp add: visit_order_def Let_def)
next
  case False
  then show ?thesis by (simp add: visit_order_def Let_def)
qed

lemma checkUnsupported_recognised:
  assumes "recognised raw"
  shows "checkUnsupported C raw path errs = errs"
proof -
  have "map_of raw key = None" if "key \<in> set (map_keys unsupportedKeywords)" for key
    using that assms recognised_supported [of key]
    by (auto simp: recognised_def list_all_iff map_of_eq_None_iff image_iff)
  then show ?thesis
    unfolding checkUnsupported_def
    by (intro fold_invariant_all [where P = "\<lambda>e. e = errs"]) (auto simp: check_keyword_def)
qed

lemma finish_recognised:
  assumes "recognised raw"
  shows "finish C nul raw path s = applyNullable nul raw s"
proof -
  have "fold (\<lambda>key s.
          if key \<in> set recognisedKeywords then s
          else if map_of unsupportedKeywords key \<noteq> None then s
          else if key = ''_nullable'' then s
          else set_meta key (the (map_of raw key)) s) (visit_order C path raw) t = t" for t
    by (rule fold_invariant_all [where P = "\<lambda>e. e = t"])
      (use assms in \<open>auto simp: recognised_def list_all_iff\<close>)
  then show ?thesis by (simp add: finish_def storeUnknown_def)
qed

lemma recognised_map_put [simp]:
  "recognised (map_put k v m) \<longleftrightarrow> k \<in> set recognisedKeywords \<and> recognised m"
  unfolding recognised_def list_all_iff set_keys_map_put by auto

lemma recognised_put_opt [simp]:
  "recognised (put_opt k x m) \<longleftrightarrow> (x \<noteq> None \<longrightarrow> k \<in> set recognisedKeywords) \<and> recognised m"
  by (cases x) (simp_all add: put_opt_def)

lemma recognised_json_map [simp]: "recognised (json_map m) = recognised m"
  by (simp add: json_map_def recognised_def list_all_iff case_prod_unfold)

lemma recognised_makeBase [simp]: "recognised (makeBase s t)"
  by (simp add: makeBase_def recognised_def) (simp add: recognisedKeywords_def)

lemma put_opt_simps [simp]: "put_opt k None m = m" "put_opt k (Some v) m = map_put k v m"
  by (simp_all add: put_opt_def)

lemma map_of_put_opt [simp]:
  "map_of (put_opt k x m) j = (if j = k \<and> x \<noteq> None then x else map_of m j)"
  by (auto simp: put_opt_def split: option.split)

lemma map_of_json_map [simp]: "map_of (json_map m) k = map_option json_value (map_of m k)"
  by (simp add: json_map_def map_of_map_snd)

lemma map_of_makeBase [simp]:
  "map_of (makeBase s t) k = (if k = ''type''
     then Some (if IsNullable s then VSlice [VStr t, VStr ''null''] else VStr t) else None)"
  by (simp add: makeBase_def)

lemma includeMeta_none: "bs_metadata (base_of s) = [] \<Longrightarrow> includeMeta opts s out = out"
  by (simp add: includeMeta_def)

lemma resolveType_base:
  assumes "map_of raw ''type'' = Some (json_value (if n then VSlice [VStr t, VStr ''null''] else VStr t))"
    and "t \<noteq> ''null''"
  shows "resolveType raw path errs = ((t, n), errs)"
  using assms by (simp add: resolveType_def split: if_splits)

lemma f_to_int64_of_int: "\<bar>n\<bar> \<le> 2 ^ 53 \<Longrightarrow> f_to_int64 (f_of_int n) = n"
  by (simp add: f_of_int_def Let_def abs_le_iff)

lemma all_strings_VStr [simp]: "all_strings (map VStr ss) = Some ss"
  by (induction ss) simp_all

lemma json_value_strings [simp]: "map (json_value \<circ> VStr) ss = map VStr ss"
  by simp

section \<open>Exportable schemas\<close>

definition exact_int :: "int option \<Rightarrow> bool" where
  "exact_int x = (case x of None \<Rightarrow> True | Some n \<Rightarrow> \<bar>n\<bar> \<le> 2 ^ 53)"

definition exact_float :: "f64 option \<Rightarrow> bool" where
  "exact_float x = (case x of None \<Rightarrow> True | Some y \<Rightarrow> (case y of FFin q \<Rightarrow> f_round double_fmt q = FFin q
     | FNegZero \<Rightarrow> True | _ \<Rightarrow> False))"

definition plain_base :: "schema_type \<Rightarrow> base_schema \<Rightarrow> bool" where
  "plain_base t b = (bs_type b = t \<and> bs_metadata b = [])"

text \<open>The pattern of a string schema is the one its format or its pattern text stands for.\<close>

definition exportable_pattern :: "go_lib \<Rightarrow> string_schema \<Rightarrow> bool" where
  "exportable_pattern L s =
     (if ss_formatType s = [] \<and> ss_patternStr s = [] then ss_pattern s = None
      else Inr (the (ss_pattern s)) = lib_regexp_compile L (ss_patternStr s) \<and> ss_pattern s \<noteq> None \<and>
        (if ss_formatType s = [] then True
         else (ss_formatType s, ss_patternStr s) \<in>
           {(''email'', email_pattern), (''url'', url_pattern), (''uuid'', uuid_pattern)}))"

definition exportable_string :: "go_lib \<Rightarrow> string_schema \<Rightarrow> bool" where
  "exportable_string L s = (plain_base TypeString (ss_base s) \<and> exact_int (ss_minLength s)
     \<and> exact_int (ss_maxLength s) \<and> exportable_pattern L s \<and> ss_validators s = [])"

definition exportable_number :: "number_schema \<Rightarrow> bool" where
  "exportable_number s = (plain_base TypeNumber (ns_base s) \<and> exact_float (ns_min s)
     \<and> exact_float (ns_max s) \<and> exact_float (ns_multipleOf s)
     \<and> ns_validators s = (if ns_isInteger s then [integer_validator] else []))"

definition exportable_object :: "schema object_schema \<Rightarrow> bool object_schema \<Rightarrow> bool" where
  "exportable_object s good = (plain_base TypeObject (ob_base s) \<and> wf_map (ob_fields s)
     \<and> list_all (\<lambda>(name, g). g) (ob_fields good)
     \<and> ob_requiredFields s = map (\<lambda>(name, f). (name, True)) (filter (\<lambda>(name, f). IsRequired f) (ob_fields s))
     \<and> ob_validators s = [] \<and> ob_asyncValidators s = [])"

definition exportable_array :: "schema array_schema \<Rightarrow> bool array_schema \<Rightarrow> bool" where
  "exportable_array s good = (plain_base TypeArray (ar_base s) \<and> exact_int (ar_minItems s)
     \<and> exact_int (ar_maxItems s)
     \<and> (case ar_elementSchema s of None \<Rightarrow> True | Some e \<Rightarrow> \<not> IsRequired e)
     \<and> (case ar_elementSchema good of None \<Rightarrow> True | Some g \<Rightarrow> g)
     \<and> ar_validators s = [] \<and> ar_asyncValidators s = [])"

primrec exportable :: "go_lib \<Rightarrow> schema \<Rightarrow> bool" where
  "exportable L (StringS s) = exportable_string L s"
| "exportable L (NumberS s) = exportable_number s"
| "exportable L (BoolS s) = (plain_base TypeBool (bo_base s) \<and> bo_validators s = [])"
| "exportable L (ObjectS s) = exportable_object s (map_object_schema (exportable L) s)"
| "exportable L (ArrayS s) = exportable_array s (map_array_schema (exportable L) s)"
| "exportable L (TransformS s) = False"
| "exportable L (CustomS s) = False"
| "exportable L (DateTimeS s) = False"
| "exportable L (DepObjectS s) = False"
| "exportable L (AndS s) = False"
| "exportable L (OrS s) = False"
| "exportable L (NotS s) = False"
| "exportable L (DependentS s) = False"
| "exportable L (CompiledS s) = False"

section \<open>The leaves come back\<close>

text \<open>What a base schema is once its required flag is dropped and it is built anew.\<close>

lemma plain_base_rebuilt:
  assumes "plain_base t b"
  shows "SetRequired False b = (if bs_nullable b then SetNullable True (new_base t) else new_base t)"
  using assms by (cases b) (simp add: plain_base_def SetRequired_def SetNullable_def new_base_def)

lemma recognised_names [simp]:
  "''properties'' \<in> set recognisedKeywords" "''required'' \<in> set recognisedKeywords"
  "''additionalProperties'' \<in> set recognisedKeywords" "''items'' \<in> set recognisedKeywords"
  "''minLength'' \<in> set recognisedKeywords" "''maxLength'' \<in> set recognisedKeywords"
  "''pattern'' \<in> set recognisedKeywords" "''minimum'' \<in> set recognisedKeywords"
  "''maximum'' \<in> set recognisedKeywords" "''multipleOf'' \<in> set recognisedKeywords"
  "''enum'' \<in> set recognisedKeywords" "''format'' \<in> set recognisedKeywords"
  "''minItems'' \<in> set recognisedKeywords" "''maxItems'' \<in> set recognisedKeywords"
  "''uniqueItems'' \<in> set recognisedKeywords" "''$schema'' \<in> set recognisedKeywords"
  "''$id'' \<in> set recognisedKeywords"
  by (simp_all add: recognisedKeywords_def)

lemma not_keyword: "''_nullable'' \<notin> set recognisedKeywords"
  by (simp add: recognisedKeywords_def)

lemma wants_null_recognised:
  assumes "recognised raw" and "map_of raw ''nullable'' = None"
  shows "wants_null n raw = n"
proof -
  have "map_of raw ''_nullable'' = None"
    using assms(1) not_keyword by (auto simp: recognised_def list_all_iff map_of_eq_None_iff)
  with assms(2) show ?thesis by (simp add: wants_null_def getBool_def)
qed

lemma convertBool_export:
  assumes "plain_base TypeBool (bo_base s)" and "bo_validators s = []"
  shows "convertBool C (bs_nullable (bo_base s)) (json_map (exportBool opts s)) path =
    schema_SetRequired False (BoolS s)"
proof -
  have "exportBool opts s = makeBase (BoolS s) ''boolean''"
    using assms by (simp add: exportBool_def includeMeta_none plain_base_def)
  then show ?thesis
    using assms
    by (simp add: convertBool_def finish_recognised applyNullable_def wants_null_recognised
        Bool_Nullable_def Bool_new_def schema_SetRequired_def plain_base_rebuilt)
qed

lemma convertNumber_export:
  assumes "exportable_number s"
  shows "convertNumber C (bs_nullable (ns_base s)) (json_map (exportNumber opts s)) path (ns_isInteger s) =
    schema_SetRequired False (NumberS s)"
proof -
  let ?out = "put_opt ''multipleOf'' (map_option VFloat64 (ns_multipleOf s))
     (put_opt ''maximum'' (map_option VFloat64 (ns_max s))
       (put_opt ''minimum'' (map_option VFloat64 (ns_min s))
         (makeBase (NumberS s) (if ns_isInteger s then ''integer'' else ''number''))))"
  have out: "exportNumber opts s = ?out"
    using assms
    by (simp add: exportNumber_def includeMeta_none exportable_number_def plain_base_def GetMeta_def Let_def)
  have raw: "recognised ?out" by simp
  have get: "getFloat (json_map ?out) ''minimum'' = ns_min s" "getFloat (json_map ?out) ''maximum'' = ns_max s"
    "getFloat (json_map ?out) ''multipleOf'' = ns_multipleOf s"
    "getFloat (json_map ?out) ''exclusiveMinimum'' = None" "getFloat (json_map ?out) ''exclusiveMaximum'' = None"
    by (auto simp: getFloat_def option.map_comp comp_def split: option.splits)
  have null: "wants_null n (json_map ?out) = n" for n
    by (rule wants_null_recognised) (use raw in simp_all)
  have fin: "finish C n (json_map ?out) path t = applyNullable n (json_map ?out) t" for n t
    by (rule finish_recognised) (use raw in simp)
  have base: "plain_base TypeNumber (ns_base s)" and vals: "ns_validators s = (if ns_isInteger s then [integer_validator] else [])"
    using assms by (simp_all add: exportable_number_def)
  show ?thesis
    unfolding out convertNumber_def Let_def get fin applyNullable_def null
    using base vals
    by (cases s) (auto simp: schema_SetRequired_def Number_new_def Number_Integer_def Number_Min_def
        Number_Max_def Number_MultipleOf_def Number_Nullable_def plain_base_rebuilt split: option.splits)
qed

lemma convertString_export:
  assumes "exportable_string (cv_lib C) s"
  shows "convertString C (bs_nullable (ss_base s)) (json_map (exportString opts s)) path errs =
    (schema_SetRequired False (StringS s), errs)"
proof -
  define out where "out = put_opt ''format'' (if ss_formatType s = [] then None else Some (VStr (ss_formatType s)))
     (put_opt ''enum'' (if ss_enum s = [] then None else Some (VSlice (map VStr (ss_enum s))))
       (put_opt ''pattern'' (if ss_patternStr s = [] then None else Some (VStr (ss_patternStr s)))
         (put_opt ''maxLength'' (map_option (VInt KInt) (ss_maxLength s))
           (put_opt ''minLength'' (map_option (VInt KInt) (ss_minLength s))
             (makeBase (StringS s) ''string'')))))"
  have base: "plain_base TypeString (ss_base s)" and vals: "ss_validators s = []"
    and exact: "exact_int (ss_minLength s)" "exact_int (ss_maxLength s)"
    and pat: "exportable_pattern (cv_lib C) s"
    using assms by (simp_all add: exportable_string_def)
  have out: "exportString opts s = out"
    using base by (simp add: exportString_def includeMeta_none plain_base_def out_def Let_def put_opt_def)
  have raw: "recognised out" by (simp add: out_def)
  have get: "getFloat (json_map out) ''minLength'' = map_option f_of_int (ss_minLength s)"
    "getFloat (json_map out) ''maxLength'' = map_option f_of_int (ss_maxLength s)"
    "getString (json_map out) ''pattern'' = (if ss_patternStr s = [] then None else Some (ss_patternStr s))"
    "getString (json_map out) ''format'' = (if ss_formatType s = [] then None else Some (ss_formatType s))"
    "getStringSlice (json_map out) ''enum'' = (if ss_enum s = [] then None else Some (ss_enum s))"
    by (auto simp: out_def getFloat_def getString_def getStringSlice_def split: option.splits)
  have null: "wants_null n (json_map out) = n" for n
    by (rule wants_null_recognised) (use raw in \<open>simp_all add: out_def\<close>)
  have fin: "finish C n (json_map out) path t = applyNullable n (json_map out) t" for n t
    by (rule finish_recognised) (use raw in simp)
  let ?n = "bs_nullable (ss_base s)"
  define s1 where "s1 = String_new\<lparr>ss_minLength := ss_minLength s, ss_maxLength := ss_maxLength s\<rparr>"
  have lens: "(case map_option f_of_int (ss_maxLength s) of None \<Rightarrow> t | Some x \<Rightarrow> String_MaxLength (f_to_int64 x) t) = s1"
    if "t = (case map_option f_of_int (ss_minLength s) of None \<Rightarrow> String_new
      | Some x \<Rightarrow> String_MinLength (f_to_int64 x) String_new)" for t
    using exact that
    by (auto simp: s1_def exact_int_def f_to_int64_of_int String_MinLength_def String_MaxLength_def
        String_new_def split: option.splits)
  have last: "applyNullable ?n (json_map out) (StringS (s1\<lparr>ss_pattern := ss_pattern s,
      ss_patternStr := ss_patternStr s, ss_enum := ss_enum s, ss_formatType := ss_formatType s\<rparr>)) =
      schema_SetRequired False (StringS s)"
    using base vals
    by (cases s) (auto simp: s1_def applyNullable_def null schema_SetRequired_def String_new_def
        String_Nullable_def plain_base_rebuilt)
  consider (none) "ss_formatType s = []" "ss_patternStr s = []" "ss_pattern s = None"
    | (some) re where "ss_patternStr s \<noteq> []" "ss_pattern s = Some re"
        "lib_regexp_compile (cv_lib C) (ss_patternStr s) = Inr re"
        "ss_formatType s = [] \<or> (ss_formatType s, ss_patternStr s) \<in>
           {(''email'', email_pattern), (''url'', url_pattern), (''uuid'', uuid_pattern)}"
    using pat
    by (auto simp: exportable_pattern_def email_pattern_def url_pattern_def uuid_pattern_def
        split: if_splits)
  then show ?thesis
  proof cases
    case none
    with last show ?thesis
      unfolding out convertString_def Let_def get lens [OF refl] fin
      by (auto simp: String_Enum_def s1_def String_new_def)
  next
    case some
    have step: "String_Pattern (cv_lib C) (ss_patternStr s) t =
        t\<lparr>ss_pattern := ss_pattern s, ss_patternStr := ss_patternStr s\<rparr>" for t
      using some by (simp add: String_Pattern_def)
    have format: "applyStringFormat C (ss_formatType s) path t errs =
        (t\<lparr>ss_formatType := ss_formatType s, ss_pattern := ss_pattern s, ss_patternStr := ss_patternStr s\<rparr>, errs)"
      if "ss_formatType s \<noteq> []" for t errs
      using that some step
      by (auto simp: applyStringFormat_def String_Email_def String_URL_def String_UUID_def)
    have enum: "(case if ss_enum s = [] then None else Some (ss_enum s) of None \<Rightarrow> t
        | Some vals \<Rightarrow> String_Enum vals t) = t\<lparr>ss_enum := ss_enum s\<rparr>" if "ss_enum t = []" for t
      using that by (cases t) (simp add: String_Enum_def)
    have new: "ss_enum s1 = []" "ss_formatType s1 = []" by (simp_all add: s1_def String_new_def)
    show ?thesis
    proof (cases "ss_formatType s = []")
      case True
      then have "applyNullable ?n (json_map out) (StringS (s1\<lparr>ss_pattern := ss_pattern s,
          ss_patternStr := ss_patternStr s, ss_enum := ss_enum s\<rparr>)) = schema_SetRequired False (StringS s)"
        using new last by (cases s1) simp
      with True some show ?thesis
        unfolding out convertString_def Let_def get lens [OF refl] fin
        by (simp add: step enum new)
    next
      case False
      have "applyNullable ?n (json_map out) (StringS (s1\<lparr>ss_enum := ss_enum s,
          ss_formatType := ss_formatType s, ss_pattern := ss_pattern s, ss_patternStr := ss_patternStr s\<rparr>)) =
          schema_SetRequired False (StringS s)"
        using last by (cases s1) simp
      with False some show ?thesis
        unfolding out convertString_def Let_def get lens [OF refl] fin
        by (simp add: step enum new format)
    qed
  qed
qed

section \<open>Arrays and objects come back\<close>

lemma convertArray_export:
  assumes base: "plain_base TypeArray b" and exact: "exact_int lo" "exact_int hi"
    and conv: "\<And>e p errs. el = Some e \<Longrightarrow> conv (json_map (exportNode opts e)) p errs = (e, errs)"
  shows "convertArray C conv (bs_nullable b)
      (json_map (exportArray opts (ArraySchema b el lo hi u [] [])
         (map_array_schema (exportNode opts) (ArraySchema b el lo hi u [] [])))) path errs =
    (schema_SetRequired False (ArrayS (ArraySchema b el lo hi u [] [])), errs)"
proof -
  define out where "out = put_opt ''items'' (map_option (VMap \<circ> exportNode opts) el)
     (put_opt ''uniqueItems'' (if u then Some (VBool True) else None)
       (put_opt ''maxItems'' (map_option (VInt KInt) hi)
         (put_opt ''minItems'' (map_option (VInt KInt) lo)
           (makeBase (ArrayS (ArraySchema b el lo hi u [] [])) ''array''))))"
  have out: "exportArray opts (ArraySchema b el lo hi u [] [])
      (map_array_schema (exportNode opts) (ArraySchema b el lo hi u [] [])) = out"
    using base
    by (cases u) (simp_all add: exportArray_def includeMeta_none plain_base_def out_def Let_def
        option.map_comp)
  have raw: "recognised out" by (simp add: out_def)
  have get: "getFloat (json_map out) ''minItems'' = map_option f_of_int lo"
    "getFloat (json_map out) ''maxItems'' = map_option f_of_int hi"
    "getBool (json_map out) ''uniqueItems'' = (if u then Some True else None)"
    "map_of (json_map out) ''items'' = map_option (\<lambda>e. VMap (json_map (exportNode opts e))) el"
    by (auto simp: out_def getFloat_def getBool_def json_map_def [symmetric] split: option.splits)
  have null: "wants_null n (json_map out) = n" for n
    by (rule wants_null_recognised) (use raw in \<open>simp_all add: out_def\<close>)
  have fin: "finish C n (json_map out) path t = applyNullable n (json_map out) t" for n t
    by (rule finish_recognised) (use raw in simp)
  show ?thesis
    unfolding out convertArray_def Let_def get fin
    using base exact
    by (auto simp: applyNullable_def null schema_SetRequired_def plain_base_rebuilt Array_new_def
        Array_Nullable_def exact_int_def f_to_int64_of_int conv split: option.splits)
qed

lemma map_from_wf:
  assumes "wf_map m"
  shows "map_from m = m"
proof (rule wf_map_eqI [OF wf_map_from assms])
  have "set (rev m) = set m" by simp
  then have "map_of (rev m) = map_of m"
    using wf_map_distinct [OF assms] by (intro map_of_inject_set [THEN iffD2]) (simp_all flip: rev_map)
  then show "map_of (map_from m) = map_of m" by simp
qed

lemma wf_map_values: "wf_map (map (\<lambda>(k, v). (k, g v)) m) = wf_map m"
  by (simp add: wf_map_def comp_def case_prod_unfold)

lemma wf_map_filter: "wf_map m \<Longrightarrow> wf_map (filter P m)"
  by (induction m) auto

lemma mark_exportable:
  assumes "exportable L f"
  shows "(if IsRequired f then markRequired (schema_SetRequired False f) else schema_SetRequired False f) = f"
proof -
  have base: "if bs_required b then SetRequired True (SetRequired False b) = b else SetRequired False b = b"
    for b by (simp add: SetRequired_def)
  show ?thesis
  proof (cases f)
    case (ObjectS t)
    then show ?thesis using base [of "base_of f"]
      by (cases t) (auto simp: schema_SetRequired_def markRequired_def Object_Required_def)
  next
    case (ArrayS t)
    then show ?thesis using base [of "base_of f"]
      by (cases t) (auto simp: schema_SetRequired_def markRequired_def Array_Required_def)
  qed (use assms base [of "base_of f"] in \<open>auto simp: schema_SetRequired_def markRequired_def String_Required_def
        Number_Required_def Bool_Required_def\<close>)
qed

lemma Object_Field_exportable:
  "exportable L f \<Longrightarrow> Object_Field n f t = Some (ob_put_field n f (IsRequired f) t)"
  by (cases f) (auto simp: Object_Field_def)

lemma convert_properties:
  assumes "list_all (\<lambda>(n, f). exportable L f \<and> (n \<in> set reqs \<longleftrightarrow> IsRequired f) \<and>
      (\<forall>p errs. conv (json_map (exportNode opts f)) p errs = (schema_SetRequired False f, errs))) fs"
  shows "fold (convert_property conv reqs path) (map (\<lambda>(n, f). (n, VMap (json_map (exportNode opts f)))) fs)
      (ObjectSchema b fs0 rs0 al vs as, errs) =
    (ObjectSchema b (fold (\<lambda>(n, f). map_put n f) fs fs0)
      (fold (\<lambda>(n, f). map_put n f) (map (\<lambda>(n, f). (n, True)) (filter (\<lambda>(n, f). IsRequired f) fs)) rs0)
      al vs as, errs)"
  using assms
proof (induction fs arbitrary: fs0 rs0)
  case (Cons x fs)
  obtain n f where x: "x = (n, f)" by (cases x)
  have f: "exportable L f" and req: "n \<in> set reqs \<longleftrightarrow> IsRequired f"
    and conv: "conv (json_map (exportNode opts f)) p e = (schema_SetRequired False f, e)" for p e
    using Cons.prems by (simp_all add: x)
  have "convert_property conv reqs path (n, VMap (json_map (exportNode opts f))) (ObjectSchema b fs0 rs0 al vs as, errs) =
      (ob_put_field n f (IsRequired f) (ObjectSchema b fs0 rs0 al vs as), errs)"
    using mark_exportable [OF f] Object_Field_exportable [OF f]
    by (simp add: convert_property_def conv req Let_def)
  then show ?case
    using Cons by (simp add: x)
qed simp

lemma set_merge_required: "set (merge_required required names) = set required \<union> set names"
proof -
  have "set (fold (\<lambda>name merged. if name \<in> set merged then merged else merged @ [name]) names acc) =
      set acc \<union> set names" for acc
    by (induction names arbitrary: acc) auto
  then show ?thesis by (simp add: merge_required_def)
qed

lemma fold_put_names:
  assumes "wf_map fs"
  shows "fold (\<lambda>name. map_put name (g (the (map_of fs name)))) (map_keys fs) [] = map (\<lambda>(n, f). (n, g f)) fs"
proof -
  have "fold (\<lambda>name. map_put name (g (the (map_of fs name)))) (map_keys fs) m =
      fold (\<lambda>(k, v). map_put k v) (map (\<lambda>(n, f). (n, g f)) fs) m" for m
  proof -
    have "fold (\<lambda>name. map_put name (g (the (map_of fs name)))) (map_keys ps) m =
        fold (\<lambda>(k, v). map_put k v) (map (\<lambda>(n, f). (n, g f)) ps) m"
      if "set ps \<subseteq> set fs" for ps m
      using that wf_map_distinct [OF assms]
      by (induction ps arbitrary: m) (auto simp: map_of_is_SomeI)
    then show ?thesis by simp
  qed
  then show ?thesis
    using map_from_wf [of "map (\<lambda>(n, f). (n, g f)) fs"] assms
    by (simp add: wf_map_values flip: map_from_def)
qed

text \<open>The names an exportable object requires.\<close>

definition required_fields :: "(string \<times> schema) list \<Rightarrow> (string \<times> schema) list" where
  "required_fields fs = filter (\<lambda>(n, f). IsRequired f) fs"

lemma filter_required_names:
  assumes "wf_map fs"
  shows "filter (\<lambda>name. IsRequired (the (map_of fs name))) (map_keys fs) = map_keys (required_fields fs)"
proof -
  have "filter (\<lambda>name. IsRequired (the (map_of fs name))) (map_keys ps) = map_keys (required_fields ps)"
    if "set ps \<subseteq> set fs" for ps
    using that wf_map_distinct [OF assms]
    by (induction ps) (auto simp: required_fields_def map_of_is_SomeI)
  then show ?thesis by simp
qed

lemma set_RequiredFieldNames:
  assumes "wf_map fs"
  shows "set (RequiredFieldNames (ObjectSchema b fs (map (\<lambda>(n, f). (n, True)) (required_fields fs)) al vs as)) =
    set (map_keys (required_fields fs))"
  by (auto simp: RequiredFieldNames_def Object_RequiredFieldNames_def required_fields_def
      in_requiredFields_def image_iff map_of_map_snd)

lemma exportObject_lookup:
  assumes base: "plain_base TypeObject b" and wf: "wf_map fs"
    and s: "s = ObjectSchema b fs (map (\<lambda>(n, f). (n, True)) (required_fields fs)) al [] []"
    and out: "out = exportObject opts s (map_object_schema (exportNode opts) s)"
  shows "recognised out" and "map_of out ''nullable'' = None"
    and "map_of out ''properties'' = (if fs = [] then None
      else Some (VMap (map (\<lambda>(n, f). (n, VMap (exportNode opts f))) fs)))"
    and "map_of out ''required'' = (if required_fields fs = [] then None
      else Some (VSlice (map VStr (merge_required (map_keys (required_fields fs)) (RequiredFieldNames s)))))"
    and "map_of out ''additionalProperties'' = map_option VBool al"
    and "map_of out ''type'' = map_of (makeBase (ObjectS s) ''object'') ''type''"
proof -
  have names: "sort (Object_FieldNames s) = map_keys fs"
    using wf by (simp add: Object_FieldNames_def s sort_wf_keys)
  have get: "Object_GetField s = map_of fs"
    "Object_GetField (map_object_schema (exportNode opts) s) name = map_option (exportNode opts) (map_of fs name)" for name
    by (simp_all add: Object_GetField_def object_fields_map fun_eq_iff) (simp_all add: s Object_GetField_def)
  have props: "fold (\<lambda>name. map_put name (VMap (the (map_option (exportNode opts) (map_of fs name))))) (map_keys fs) [] =
      map (\<lambda>(n, f). (n, VMap (exportNode opts f))) fs"
  proof -
    have "fold (\<lambda>name. map_put name (VMap (the (map_option (exportNode opts) (map_of fs name))))) (map_keys fs) [] =
        fold (\<lambda>name. map_put name (VMap (exportNode opts (the (map_of fs name))))) (map_keys fs) []"
      by (rule fold_cong) (auto simp: fun_eq_iff map_of_eq_None_iff option.map_sel)
    then show ?thesis
      using fold_put_names [OF wf, where g = "\<lambda>f. VMap (exportNode opts f)"] by simp
  qed
  have none: "RequiredFieldNames s = [] \<longleftrightarrow> required_fields fs = []"
    using set_RequiredFieldNames [OF wf, of b al "[]" "[]"] by (simp add: s flip: set_empty)
  have meta: "includeMeta opts (ObjectS s) m = m" for m
    using base by (simp add: includeMeta_none s plain_base_def)
  define P where "P = (if fs = [] then None else Some (VMap (map (\<lambda>(n, f). (n, VMap (exportNode opts f))) fs)))"
  define R where "R = (if required_fields fs = [] then None
    else Some (VSlice (map VStr (merge_required (map_keys (required_fields fs)) (RequiredFieldNames s)))))"
  define R' where "R' = (if required_fields fs = [] then None
    else Some (VSlice (map VStr (map_keys (required_fields fs)))))"
  have allow: "Object_AllowsAdditional s = (case al of None \<Rightarrow> (False, False) | Some x \<Rightarrow> (x, True))"
    by (simp add: Object_AllowsAdditional_def s)
  have form: "out = put_opt ''additionalProperties'' (map_option VBool al)
     (put_opt ''required'' R (put_opt ''required'' R'
       (put_opt ''properties'' P (makeBase (ObjectS s) ''object''))))"
  proof (cases "fs = []")
    case True
    then have "required_fields fs = []" by (simp add: required_fields_def)
    with True none show ?thesis
      unfolding out exportObject_def Let_def names meta allow
      by (cases al) (simp_all add: P_def R_def R'_def)
  next
    case False
    then show ?thesis
      using none
      unfolding out exportObject_def Let_def names meta allow get props filter_required_names [OF wf]
      by (cases al; cases "required_fields fs = []") (simp_all add: P_def R_def R'_def)
  qed
  show "recognised out" and "map_of out ''nullable'' = None" by (simp_all add: form)
  show "map_of out ''properties'' = (if fs = [] then None
      else Some (VMap (map (\<lambda>(n, f). (n, VMap (exportNode opts f))) fs)))"
    by (simp add: form P_def)
  show "map_of out ''required'' = (if required_fields fs = [] then None
      else Some (VSlice (map VStr (merge_required (map_keys (required_fields fs)) (RequiredFieldNames s)))))"
    by (simp add: form R_def R'_def)
  show "map_of out ''additionalProperties'' = map_option VBool al"
    and "map_of out ''type'' = map_of (makeBase (ObjectS s) ''object'') ''type''"
    by (simp_all add: form)
qed

lemma map_filter_strings [simp]: "List.map_filter as_string (map VStr ss) = ss"
  by (induction ss) (simp_all add: List.map_filter_def as_string_def)

lemma convertObject_export:
  assumes base: "plain_base TypeObject b" and wf: "wf_map fs"
    and s: "s = ObjectSchema b fs (map (\<lambda>(n, f). (n, True)) (required_fields fs)) al [] []"
    and fields: "\<And>n f. (n, f) \<in> set fs \<Longrightarrow> exportable L f"
    and conv: "\<And>n f p errs. (n, f) \<in> set fs \<Longrightarrow>
      conv (json_map (exportNode opts f)) p errs = (schema_SetRequired False f, errs)"
  shows "convertObject C conv (bs_nullable b)
      (json_map (exportObject opts s (map_object_schema (exportNode opts) s))) path errs =
    (schema_SetRequired False (ObjectS s), errs)"
proof -
  define out where "out = exportObject opts s (map_object_schema (exportNode opts) s)"
  note lookup = exportObject_lookup [OF base wf s out_def]
  have null: "wants_null n (json_map out) = n" for n
    by (rule wants_null_recognised) (use lookup(1,2) in simp_all)
  have fin: "finish C n (json_map out) path t = applyNullable n (json_map out) t" for n t
    by (rule finish_recognised) (use lookup(1) in simp)
  let ?docs = "map (\<lambda>(n, f). (n, VMap (json_map (exportNode opts f)))) fs"
  let ?reqs = "required_names (json_map out)"
  have props: "map_of (json_map out) ''properties'' = (if fs = [] then None else Some (VMap ?docs))"
    by (simp add: lookup(3) comp_def case_prod_unfold json_map_def [of "exportNode opts _"])
  have "set ?reqs = set (map_keys (required_fields fs))"
    using set_RequiredFieldNames [OF wf, of b al "[]" "[]"]
    by (auto simp: required_names_def lookup(4) set_merge_required s)
  then have reqs: "n \<in> set ?reqs \<longleftrightarrow> IsRequired f" if "(n, f) \<in> set fs" for n f
    using that wf_map_distinct [OF wf]
    by (auto simp: required_fields_def image_iff) (metis eq_key_imp_eq_value)
  have sorted: "sort_key fst ?docs = ?docs"
    using wf by (intro sort_key_id_if_sorted) (simp add: comp_def case_prod_unfold wf_map_def strict_sorted_iff)
  have loop: "fold (convert_property conv ?reqs path) ?docs (Object_new, errs) =
      (ObjectSchema (new_base TypeObject) fs (map (\<lambda>(n, f). (n, True)) (required_fields fs)) None [] [], errs)"
  proof -
    have "fold (convert_property conv ?reqs path) ?docs (ObjectSchema (new_base TypeObject) [] [] None [] [], errs) =
        (ObjectSchema (new_base TypeObject) (map_from fs)
          (map_from (map (\<lambda>(n, f). (n, True)) (required_fields fs))) None [] [], errs)"
      unfolding map_from_def required_fields_def
      by (rule convert_properties [where L = L]) (use fields reqs conv in \<open>auto simp: list_all_iff\<close>)
    moreover have "map_from (map (\<lambda>(n, f). (n, True)) (required_fields fs)) = map (\<lambda>(n, f). (n, True)) (required_fields fs)"
      using wf by (intro map_from_wf) (simp add: wf_map_values wf_map_filter required_fields_def)
    ultimately show ?thesis by (simp add: Object_new_def map_from_wf [OF wf])
  qed
  have body: "(case map_of (json_map out) ''properties'' of
        None \<Rightarrow> (Object_new, errs)
      | Some (VMap props) \<Rightarrow> fold (convert_property conv ?reqs path) (sort_key fst props) (Object_new, errs)
      | Some _ \<Rightarrow> (Object_new, addError path ''properties'' ''expected object'' errs)) =
      (ObjectSchema (new_base TypeObject) fs (map (\<lambda>(n, f). (n, True)) (required_fields fs)) None [] [], errs)"
    unfolding props using loop sorted by (cases "fs = []") simp_all
  show ?thesis
    unfolding out_def [symmetric] convertObject_def Let_def body fin
    using base
    by (cases al) (auto simp: lookup(5) applyNullable_def null schema_SetRequired_def
        plain_base_rebuilt Object_Nullable_def s)
qed

section \<open>The round trip\<close>

fun json_type :: "schema \<Rightarrow> string" where
  "json_type (StringS s) = ''string''"
| "json_type (NumberS s) = (if ns_isInteger s then ''integer'' else ''number'')"
| "json_type (BoolS s) = ''boolean''"
| "json_type (ArrayS s) = ''array''"
| "json_type _ = ''object''"

lemma exportable_objectE:
  assumes "exportable L (ObjectS s)"
  obtains b fs al where "s = ObjectSchema b fs (map (\<lambda>(n, f). (n, True)) (required_fields fs)) al [] []"
    and "plain_base TypeObject b" "wf_map fs" "\<And>n f. (n, f) \<in> set fs \<Longrightarrow> exportable L f"
  using assms
  by (cases s) (force simp: exportable_object_def required_fields_def list_all_iff)

lemma exported_doc:
  assumes "exportable L s"
  shows "recognised (exportNode opts s)"
    and "map_of (exportNode opts s) ''type'' = map_of (makeBase s (json_type s)) ''type''"
proof -
  have "recognised (exportNode opts s) \<and>
      map_of (exportNode opts s) ''type'' = map_of (makeBase s (json_type s)) ''type''"
  proof (cases s)
    case (StringS t)
    then show ?thesis using assms
      by (simp add: exportString_def exportable_string_def plain_base_def includeMeta_none Let_def)
  next
    case (NumberS t)
    then show ?thesis using assms
      by (simp add: exportNumber_def exportable_number_def plain_base_def includeMeta_none Let_def GetMeta_def)
  next
    case (BoolS t)
    then show ?thesis using assms
      by (simp add: exportBool_def plain_base_def includeMeta_none)
  next
    case (ArrayS t)
    then show ?thesis using assms
      by (simp add: exportArray_def exportable_array_def plain_base_def includeMeta_none Let_def)
  next
    case (ObjectS t)
    with assms obtain b fs al where t: "t = ObjectSchema b fs (map (\<lambda>(n, f). (n, True)) (required_fields fs)) al [] []"
      and "plain_base TypeObject b" "wf_map fs"
      using exportable_objectE by metis
    from exportObject_lookup [OF this(2,3) t refl] show ?thesis by (simp add: ObjectS)
  qed (use assms in simp_all)
  then show "recognised (exportNode opts s)"
    and "map_of (exportNode opts s) ''type'' = map_of (makeBase s (json_type s)) ''type''" by simp_all
qed

lemma json_type_not_null: "json_type s \<noteq> ''null''"
  by (cases s) simp_all

lemma convertNode_exported:
  assumes "exportable L s"
  shows "checkUnsupported C (json_map (exportNode opts s)) path errs = errs"
    and "resolveType (json_map (exportNode opts s)) path errs = ((json_type s, IsNullable s), errs)"
proof -
  show "checkUnsupported C (json_map (exportNode opts s)) path errs = errs"
    using exported_doc(1) [OF assms] by (simp add: checkUnsupported_recognised)
  show "resolveType (json_map (exportNode opts s)) path errs = ((json_type s, IsNullable s), errs)"
    by (rule resolveType_base) (use exported_doc(2) [OF assms] json_type_not_null in simp_all)
qed

lemma convertNode_export:
  assumes "exportable (cv_lib C) s"
  shows "convertNode C (json_map (exportNode opts s)) path errs = (schema_SetRequired False s, errs)"
  using assms
proof (induction s arbitrary: path errs)
  case (StringS s)
  then show ?case
    using convertNode_exported [OF StringS] convertString_export [of C s]
    by (simp add: convertNode.simps [of C "json_map (exportString opts s)"] IsNullable_def)
next
  case (NumberS s)
  then show ?case
    using convertNode_exported [OF NumberS] convertNumber_export [of s C]
    by (auto simp: convertNode.simps [of C "json_map (exportNumber opts s)"] IsNullable_def
        schema_SetRequired_def split: if_splits)
next
  case (BoolS s)
  then show ?case
    using convertNode_exported [OF BoolS] convertBool_export [of s C]
    by (simp add: convertNode.simps [of C "json_map (exportBool opts s)"] IsNullable_def)
next
  case (ArrayS s)
  obtain b el lo hi u where s: "s = ArraySchema b el lo hi u [] []" and base: "plain_base TypeArray b"
    and exact: "exact_int lo" "exact_int hi"
    using ArrayS.prems by (cases s) (auto simp: exportable_array_def)
  have "convertNode C (json_map (exportNode opts e)) p er = (e, er)" if "el = Some e" for e p er
  proof -
    have "exportable (cv_lib C) e" "\<not> IsRequired e"
      using ArrayS.prems that by (simp_all add: s exportable_array_def)
    moreover have "e \<in> set_array_schema s" using that by (simp add: s)
    ultimately show ?thesis using ArrayS.IH mark_exportable [of "cv_lib C" e] by simp
  qed
  from convertArray_export [OF base exact, of el "convertNode C" opts, OF this]
  show ?case
    using convertNode_exported [OF ArrayS.prems]
    by (simp add: convertNode.simps [of C _ path errs] IsNullable_def s)
next
  case (ObjectS s)
  obtain b fs al where s: "s = ObjectSchema b fs (map (\<lambda>(n, f). (n, True)) (required_fields fs)) al [] []"
    and base: "plain_base TypeObject b" and wf: "wf_map fs"
    and fields: "\<And>n f. (n, f) \<in> set fs \<Longrightarrow> exportable (cv_lib C) f"
    using exportable_objectE [OF ObjectS.prems] by metis
  have "convertNode C (json_map (exportNode opts f)) p er = (schema_SetRequired False f, er)"
    if "(n, f) \<in> set fs" for n f p er
    by (rule ObjectS.IH) (use that fields in \<open>force simp: s\<close>)+
  then have "convertObject C (convertNode C) (bs_nullable b) (json_map (exportNode opts (ObjectS s))) path errs =
      (schema_SetRequired False (ObjectS s), errs)"
    unfolding exportNode.simps by (intro convertObject_export [OF base wf s fields])
  then show ?case
    using convertNode_exported [OF ObjectS.prems]
    by (simp add: convertNode.simps [of C _ path errs] IsNullable_def) (simp add: s)
qed (auto)

text \<open>The keywords \<open>$schema\<close> and \<open>$id\<close> do not matter to the import.\<close>

lemma convertNode_same:
  assumes rec: "recognised raw" "recognised raw'"
    and same: "\<And>k. k \<noteq> ''$schema'' \<Longrightarrow> k \<noteq> ''$id'' \<Longrightarrow> map_of raw k = map_of raw' k"
  shows "convertNode C raw path errs = convertNode C raw' path errs"
proof -
  have get: "getFloat raw k = getFloat raw' k" "getString raw k = getString raw' k"
    "getBool raw k = getBool raw' k" "getStringSlice raw k = getStringSlice raw' k"
    if "k \<noteq> ''$schema''" "k \<noteq> ''$id''" for k
    using same [OF that] by (simp_all add: getFloat_def getString_def getBool_def getStringSlice_def)
  have null: "applyNullable n raw t = applyNullable n raw' t" for n t
    by (simp add: applyNullable_def wants_null_def get same)
  have fin: "finish C n raw path t = finish C n raw' path t" for n t
    by (simp add: finish_recognised rec null)
  have "convertString C n raw path errs = convertString C n raw' path errs"
    and "convertNumber C n raw path i = convertNumber C n raw' path i"
    and "convertBool C n raw path = convertBool C n raw' path"
    and "convertObject C conv n raw path errs = convertObject C conv n raw' path errs"
    and "convertArray C conv n raw path errs = convertArray C conv n raw' path errs" for n i conv errs
    by (simp_all add: convertString_def convertNumber_def convertBool_def convertObject_def
        convertArray_def required_names_def get fin same cong: if_cong)
  moreover have "map_of raw ''type'' = map_of raw' ''type''"
    and "map_of raw ''properties'' = map_of raw' ''properties''"
    and "map_of raw ''items'' = map_of raw' ''items''"
    by (simp_all add: same)
  then have "resolveType raw path errs = resolveType raw' path errs" for errs
    unfolding resolveType_def by (simp only:)
  ultimately show ?thesis
    by (simp add: convertNode.simps [of C _ path errs] checkUnsupported_recognised rec
        split: prod.split cong: if_cong)
qed

lemma ToMap_lookup:
  assumes "exportable L s"
  shows "recognised (ToMap opts s)"
    and "k \<noteq> ''$schema'' \<Longrightarrow> k \<noteq> ''$id'' \<Longrightarrow> map_of (ToMap opts s) k = map_of (exportNode opts s) k"
  using exported_doc(1) [OF assms] by (simp_all add: ToMap_def Let_def)

text \<open>
  C34: importing the document that was exported for an exportable schema gives the schema back,
  without errors, but for the required flag of the schema itself, which a document does not have.
  The hypothesis about \<open>unmarshal\<close> is what \<open>encoding/json\<close> does: numbers come back as \<open>float64\<close>.
\<close>

theorem FromJSON_ToJSON:
  assumes "exportable (cv_lib C) s"
    and "ToJSON marshal opts s = Inr text" and "unmarshal text = Inr (json_map (ToMap opts s))"
  shows "FromJSON unmarshal C text = (Some (schema_SetRequired False s), [])"
proof -
  have "convertNode C (json_map (ToMap opts s)) [] [] = convertNode C (json_map (exportNode opts s)) [] []"
    by (rule convertNode_same) (use ToMap_lookup [OF assms(1)] exported_doc(1) [OF assms(1)] in simp_all)
  with assms(3) convertNode_export [OF assms(1)] show ?thesis
    by (simp add: FromJSON_def)
qed

definition sample_converter :: converter_env where
  "sample_converter = \<lparr>cv_lib = sample_lib, cv_opts = \<lparr>jo_strictMode = True, jo_storeUnknown = False\<rparr>,
     cv_formats = [], cv_formatsLater = [], cv_order = \<lambda>_ ks. ks\<rparr>"

definition sample_export :: export_options where
  "sample_export = \<lparr>eo_schemaURI = [], eo_id = [], eo_includeMeta = False\<rparr>"

text \<open>An object with a required integer \<open>n\<close>, and its document.\<close>

definition counter_schema :: schema where
  "counter_schema = ObjectS (ObjectSchema (new_base TypeObject)
     [(''n'', NumberS (Number_Integer (Number_Required Number_new)))] [(''n'', True)] None [] [])"

definition counter_text :: string where
  "counter_text = ''{'' @ go_quote ''type'' @ '':'' @ go_quote ''object'' @ '','' @
     go_quote ''properties'' @ '':{'' @ go_quote ''n'' @ '':{'' @ go_quote ''type'' @ '':'' @ go_quote ''integer'' @
     ''}},'' @ go_quote ''required'' @ '':['' @ go_quote ''n'' @ '']}''"

theorem FromJSON_ToJSON_witness:
  "FromJSON (\<lambda>text. if text = counter_text then Inr (json_map (ToMap sample_export counter_schema))
       else Inl ''unexpected end of JSON input'') sample_converter counter_text =
     (Some counter_schema, [])"
proof -
  have "exportable (cv_lib sample_converter) counter_schema"
    by (simp add: counter_schema_def exportable_object_def exportable_number_def plain_base_def
        new_base_def Number_Integer_def Number_Required_def Number_new_def exact_float_def
        SetRequired_def)
  from FromJSON_ToJSON [OF this, of "\<lambda>_. Inr counter_text" sample_export counter_text
      "\<lambda>text. if text = counter_text then Inr (json_map (ToMap sample_export counter_schema))
         else Inl ''unexpected end of JSON input''"]
  show ?thesis
    by (simp add: ToJSON_def) (simp add: counter_schema_def schema_SetRequired_def SetRequired_def new_base_def)
qed

section \<open>What the import drops\<close>

definition required_only :: "gval gmap" where
  "required_only = [(''required'', VSlice [VStr ''a'']), (''type'', VStr ''object'')]"

definition integer_enum :: "gval gmap" where
  "integer_enum = [(''enum'', VSlice [VFloat64 (FFin 1)]), (''type'', VStr ''integer'')]"

lemma recognised_dropping: "recognised required_only" "recognised integer_enum"
  by (simp_all add: recognised_def required_only_def integer_enum_def) (simp_all add: recognisedKeywords_def)

lemma convert_required_only:
  "convertNode C required_only [] [] = (ObjectS Object_new, [])"
  by (simp add: convertNode.simps [of C required_only] checkUnsupported_recognised recognised_dropping)
    (simp add: resolveType_def required_only_def convertObject_def finish_recognised
      recognised_dropping [unfolded required_only_def] applyNullable_def wants_null_def getBool_def)

lemma convert_integer_enum:
  "convertNode C integer_enum [] [] = (NumberS (Number_Integer Number_new), [])"
  by (simp add: convertNode.simps [of C integer_enum] checkUnsupported_recognised recognised_dropping)
    (simp add: resolveType_def integer_enum_def convertNumber_def finish_recognised
      recognised_dropping [unfolded integer_enum_def] applyNullable_def wants_null_def getBool_def getFloat_def)

text \<open>
  The import silently drops a required name that has no entry in \<open>properties\<close>, and the
  enumeration of an integer schema: no error or warning is reported, even in strict mode, and
  the schemas accept an object without the name and another integer.
\<close>

theorem import_drops_silently:
  "(case convertNode C required_only [] [] of (s, errs) \<Rightarrow> errs = [] \<and> accepts E s (VMap []) m)
   \<and> (case convertNode C integer_enum [] [] of (s, errs) \<Rightarrow> errs = [] \<and> accepts E s (VFloat64 (FFin 2)) m)"
proof
  show "case convertNode C required_only [] [] of (s, errs) \<Rightarrow> errs = [] \<and> accepts E s (VMap []) m"
    by (simp add: convert_required_only accepts_ok object_ok object_requires_def Object_new_def
        convertToMap_def in_requiredFields_def Object_GetField_def)
  show "case convertNode C integer_enum [] [] of (s, errs) \<Rightarrow> errs = [] \<and> accepts E s (VFloat64 (FFin 2)) m"
    by (simp add: convert_integer_enum accepts_NumberS number_violations_Nil Number_Integer_def Number_new_def
        toFloat64WithMode_def integer_validator_def toFloat64_def)
qed

end
