(* ===== verification/GoText.thy ===== *)
theory GoText
  imports GoValue
begin

text \<open>
  The parts of \<open>unicode/utf8\<close>, \<open>unicode\<close> and \<open>strings\<close> that the transformers use on the
  characters of a string: decoding and encoding of UTF-8, \<open>strings.Map\<close>, the changes of case,
  \<open>strings.Title\<close>, \<open>strings.ReplaceAll\<close> and \<open>strings.Repeat\<close>. The tables of \<open>unicode\<close> for the
  characters above U+007F are the record \<open>unicode_tables\<close>.
\<close>

section \<open>UTF-8\<close>

abbreviation byte :: "char \<Rightarrow> nat" where
  "byte ch \<equiv> of_char ch"

definition rune_error :: nat where
  "rune_error = 0xFFFD"

text \<open>Is \<open>ch\<close> a byte from \<open>lo\<close> to \<open>hi\<close>?\<close>

definition byte_in :: "nat \<Rightarrow> nat \<Rightarrow> char \<Rightarrow> bool" where
  "byte_in lo hi ch = (lo \<le> byte ch \<and> byte ch \<le> hi)"

definition cont_byte :: "char \<Rightarrow> bool" where
  "cont_byte ch = byte_in 0x80 0xBF ch"

text \<open>
  The first character of a string that is not empty, with its width: an invalid sequence is one
  byte wide and reads as U+FFFD. The bounds of the second byte exclude overlong forms,
  surrogates and what is above U+10FFFF.
\<close>

definition decode_rune :: "string \<Rightarrow> nat \<times> nat" where
  "decode_rune s = (case s of [] \<Rightarrow> (rune_error, 0) | a # r \<Rightarrow>
     if byte a < 0x80 then (byte a, 1)
     else if byte_in 0xC2 0xDF a then (case r of
         b # _ \<Rightarrow> if cont_byte b then ((byte a - 0xC0) * 64 + (byte b - 0x80), 2) else (rune_error, 1)
       | _ \<Rightarrow> (rune_error, 1))
     else if byte_in 0xE0 0xEF a then (case r of
         b # c # _ \<Rightarrow>
           if byte_in (if byte a = 0xE0 then 0xA0 else 0x80) (if byte a = 0xED then 0x9F else 0xBF) b
              \<and> cont_byte c
           then ((byte a - 0xE0) * 4096 + (byte b - 0x80) * 64 + (byte c - 0x80), 3)
           else (rune_error, 1)
       | _ \<Rightarrow> (rune_error, 1))
     else if byte_in 0xF0 0xF4 a then (case r of
         b # c # d # _ \<Rightarrow>
           if byte_in (if byte a = 0xF0 then 0x90 else 0x80) (if byte a = 0xF4 then 0x8F else 0xBF) b
              \<and> cont_byte c \<and> cont_byte d
           then ((byte a - 0xF0) * 262144 + (byte b - 0x80) * 4096 + (byte c - 0x80) * 64 + (byte d - 0x80), 4)
           else (rune_error, 1)
       | _ \<Rightarrow> (rune_error, 1))
     else (rune_error, 1))"

lemma decode_rune_width:
  assumes "s \<noteq> []"
  shows "0 < snd (decode_rune s)" and "snd (decode_rune s) \<le> length s"
  using assms by (auto simp: decode_rune_def split: list.splits if_splits)

text \<open>The loop \<open>for i, c := range s\<close>: the characters, each with its bytes.\<close>

function rune_chunks :: "string \<Rightarrow> (nat \<times> string) list" where
  "rune_chunks s = (if s = [] then []
     else case decode_rune s of (r, w) \<Rightarrow> (r, take w s) # rune_chunks (drop w s))"
  by pat_completeness auto
termination rune_chunks
  by (relation "measure length", simp)
    (metis decode_rune_width(1) diff_less in_measure length_drop length_greater_0_conv snd_conv)

declare rune_chunks.simps [simp del]

lemma concat_rune_chunks: "concat (map snd (rune_chunks s)) = s"
proof (induction s rule: rune_chunks.induct)
  case (1 s)
  obtain r w where "decode_rune s = (r, w)" by fastforce
  with 1 show ?case by (cases "s = []") (simp_all add: rune_chunks.simps [of s] rune_chunks.simps [of "[]"])
qed

text \<open>\<open>utf8.AppendRune\<close>: what is not a character is written as U+FFFD.\<close>

definition encode_rune :: "nat \<Rightarrow> string" where
  "encode_rune r = map char_of
     (if r < 0x80 then [r]
      else if r < 0x800 then [0xC0 + r div 64, 0x80 + r mod 64]
      else if 0xD800 \<le> r \<and> r \<le> 0xDFFF \<or> 0x10FFFF < r then [0xEF, 0xBF, 0xBD]
      else if r < 0x10000 then [0xE0 + r div 4096, 0x80 + r div 64 mod 64, 0x80 + r mod 64]
      else [0xF0 + r div 262144, 0x80 + r div 4096 mod 64, 0x80 + r div 64 mod 64, 0x80 + r mod 64])"

section \<open>ASCII\<close>

definition is_ascii :: "char \<Rightarrow> bool" where
  "is_ascii ch = (byte ch < 0x80)"

lemma rune_chunks_ascii: "list_all is_ascii s \<Longrightarrow> rune_chunks s = map (\<lambda>ch. (byte ch, [ch])) s"
  by (induction s) (simp_all add: rune_chunks.simps [of "_ # _"] rune_chunks.simps [of "[]"]
      decode_rune_def is_ascii_def)

lemma encode_rune_ascii: "is_ascii ch \<Longrightarrow> encode_rune (byte ch) = [ch]"
  by (simp add: encode_rune_def is_ascii_def)

section \<open>Classes of characters\<close>

record unicode_tables =
  un_letter :: "nat \<Rightarrow> bool"
  un_digit :: "nat \<Rightarrow> bool"
  un_lower :: "nat \<Rightarrow> nat"
  un_upper :: "nat \<Rightarrow> nat"
  un_title :: "nat \<Rightarrow> nat"

definition rune_letter :: "unicode_tables \<Rightarrow> nat \<Rightarrow> bool" where
  "rune_letter U r = (if r < 0x80 then 65 \<le> r \<and> r \<le> 90 \<or> 97 \<le> r \<and> r \<le> 122 else un_letter U r)"

definition rune_digit :: "unicode_tables \<Rightarrow> nat \<Rightarrow> bool" where
  "rune_digit U r = (if r < 0x80 then 48 \<le> r \<and> r \<le> 57 else un_digit U r)"

definition rune_lower :: "unicode_tables \<Rightarrow> nat \<Rightarrow> nat" where
  "rune_lower U r = (if r < 0x80 then (if 65 \<le> r \<and> r \<le> 90 then r + 32 else r) else un_lower U r)"

definition rune_upper :: "unicode_tables \<Rightarrow> nat \<Rightarrow> nat" where
  "rune_upper U r = (if r < 0x80 then (if 97 \<le> r \<and> r \<le> 122 then r - 32 else r) else un_upper U r)"

definition rune_title :: "unicode_tables \<Rightarrow> nat \<Rightarrow> nat" where
  "rune_title U r = (if r < 0x80 then rune_upper U r else un_title U r)"

definition space_runes :: "nat list" where
  "space_runes = ascii_spaces @ [0x85, 0xA0, 0x1680] @ [0x2000..<0x200B] @ [0x2028, 0x2029, 0x202F, 0x205F, 0x3000]"

section \<open>Mapping over the characters\<close>

text \<open>\<open>strings.Map\<close>; None drops the character.\<close>

definition str_map :: "(nat \<Rightarrow> nat option) \<Rightarrow> string \<Rightarrow> string" where
  "str_map f s = concat (map (\<lambda>(r, _). case f r of None \<Rightarrow> [] | Some r' \<Rightarrow> encode_rune r') (rune_chunks s))"

definition str_keep :: "(nat \<Rightarrow> bool) \<Rightarrow> string \<Rightarrow> string" where
  "str_keep P s = str_map (\<lambda>r. if P r then Some r else None) s"

definition ToLower :: "unicode_tables \<Rightarrow> string \<Rightarrow> string" where
  "ToLower U s = str_map (\<lambda>r. Some (rune_lower U r)) s"

definition ToUpper :: "unicode_tables \<Rightarrow> string \<Rightarrow> string" where
  "ToUpper U s = str_map (\<lambda>r. Some (rune_upper U r)) s"

text \<open>\<open>isSeparator\<close> and \<open>Title\<close> of package \<open>strings\<close>.\<close>

definition is_separator :: "unicode_tables \<Rightarrow> nat \<Rightarrow> bool" where
  "is_separator U r =
     (if r < 0x80 then \<not> (rune_letter U r \<or> rune_digit U r \<or> r = 95)
      else \<not> (rune_letter U r \<or> rune_digit U r) \<and> r \<in> set space_runes)"

fun title_from :: "unicode_tables \<Rightarrow> nat \<Rightarrow> nat list \<Rightarrow> string" where
  "title_from U prev [] = []"
| "title_from U prev (r # rs) =
     encode_rune (if is_separator U prev then rune_title U r else r) @ title_from U r rs"

definition Title :: "unicode_tables \<Rightarrow> string \<Rightarrow> string" where
  "Title U s = title_from U 32 (map fst (rune_chunks s))"

lemma str_keep_ascii:
  "list_all is_ascii s \<Longrightarrow> str_keep P s = filter (\<lambda>ch. P (byte ch)) s"
  by (induction s)
    (simp_all add: str_keep_def str_map_def rune_chunks_ascii encode_rune_ascii)

section \<open>Replacing\<close>

text \<open>
  \<open>strings.ReplaceAll\<close>: an empty \<open>old\<close> matches at the start and after each character, another
  one at its occurrences from the left that do not overlap.
\<close>

function replace_from :: "string \<Rightarrow> string \<Rightarrow> string \<Rightarrow> string" where
  "replace_from old new s =
     (if old = [] \<or> s = [] then s
      else case strip_prefix old s of
          Some t \<Rightarrow> new @ replace_from old new t
        | None \<Rightarrow> hd s # replace_from old new (tl s))"
  by pat_completeness auto
termination replace_from
  by (relation "measure (\<lambda>(_, _, s). length s)") (auto simp: strip_prefix_iff)

declare replace_from.simps [simp del]

definition ReplaceAll :: "string \<Rightarrow> string \<Rightarrow> string \<Rightarrow> string" where
  "ReplaceAll s old new =
     (if old = [] then new @ concat (map (\<lambda>(_, w). w @ new) (rune_chunks s))
      else replace_from old new s)"

definition str_repeat :: "string \<Rightarrow> nat \<Rightarrow> string" where
  "str_repeat s n = concat (replicate n s)"

lemma ReplaceAll_char:
  "ReplaceAll s [ch] [] = filter (\<lambda>c. c \<noteq> ch) s"
proof -
  have "replace_from [ch] [] s = filter (\<lambda>c. c \<noteq> ch) s"
    by (induction s) (simp_all add: replace_from.simps [of _ _ "[]"] replace_from.simps [of _ _ "_ # _"])
  then show ?thesis by (simp add: ReplaceAll_def)
qed

end
