(* ===== verification/Transformers.thy ===== *)
theory Transformers
  imports GoText DateTimeSchema Composite
begin

text \<open>
  \<open>builders/transformers\<close>: the transformers of \<open>common.go\<close>, \<open>string.go\<close>, \<open>number.go\<close> and
  \<open>date.go\<close>. A transformer returns an error text or the new value; the few that can panic
  return None when they do. The calls into package \<open>time\<close> that \<open>go_lib\<close> does not have are the
  record \<open>date_lib\<close>: \<open>LoadLocation\<close> with \<open>In\<close>, and \<open>time.Date\<close> in the location of a given time.
\<close>

type_synonym panicking_transformer = "gval \<Rightarrow> (string + gval) option"

definition with_string :: "(string \<Rightarrow> string + gval) \<Rightarrow> transformer" where
  "with_string f v = (case v of VStr s \<Rightarrow> f s | _ \<Rightarrow> Inl (''expected string, got '' @ type_name v))"

section \<open>\<open>strconv\<close>\<close>

text \<open>\<open>FormatFloat\<close> with format \<open>f\<close> and the shortest precision.\<close>

definition plain_layout :: "string \<Rightarrow> int \<Rightarrow> string" where
  "plain_layout digs dp =
     (if dp \<le> 0 then ''0.'' @ zeros (nat (- dp)) @ digs
      else if length digs \<le> nat dp then digs @ zeros (nat dp - length digs)
      else take (nat dp) digs @ ''.'' @ drop (nat dp) digs)"

definition plain_pos_rat :: "float_fmt \<Rightarrow> rat \<Rightarrow> string" where
  "plain_pos_rat fmt q = (let
       k = dec_point q;
       (d, e) = shortest_digits fmt 16 q k 1;
       ds = show_nat d
     in plain_layout (drop_zeros ds) (e + int (length ds)))"

definition plain_float :: "float_fmt \<Rightarrow> f64 \<Rightarrow> string" where
  "plain_float fmt x = (case x of
       FNaN \<Rightarrow> ''NaN''
     | FInf s \<Rightarrow> if s then ''-Inf'' else ''+Inf''
     | FNegZero \<Rightarrow> ''-0''
     | FFin q \<Rightarrow> if q = 0 then ''0'' else if q < 0 then CHR ''-'' # plain_pos_rat fmt (- q)
                else plain_pos_rat fmt q)"

text \<open>
  The error texts of \<open>ParseFloat\<close> and \<open>Atoi\<close>. A literal \<open>parse_float\<close> refuses is out of range
  when it is accepted with all its digits set to zero.
\<close>

definition num_error :: "string \<Rightarrow> string \<Rightarrow> bool \<Rightarrow> string" where
  "num_error fn s outside = ''strconv.'' @ fn @ '': parsing '' @ go_quote s
     @ (if outside then '': value out of range'' else '': invalid syntax'')"

definition zero_digits :: "string \<Rightarrow> string" where
  "zero_digits s = map (\<lambda>ch. if is_dec_digit ch \<or> is_hex_literal s \<and> is_hex_digit ch then CHR ''0'' else ch) s"

definition ParseFloat_error :: "string \<Rightarrow> string" where
  "ParseFloat_error s = num_error ''ParseFloat'' s (parse_float (zero_digits s) \<noteq> None)"

definition Atoi_error :: "string \<Rightarrow> string" where
  "Atoi_error s = num_error ''Atoi'' s (go_atoi (zero_digits s) \<noteq> None)"

section \<open>\<open>common.go\<close>\<close>

text \<open>A nil pointer of a type with a \<open>String\<close> method is outside the model.\<close>

definition Stringer_String :: "go_lib \<Rightarrow> gval \<Rightarrow> string option" where
  "Stringer_String L v = (case (case v of VPtr _ _ (Some w) \<Rightarrow> w | _ \<Rightarrow> v) of
       VTime t \<Rightarrow> Some (lib_time_string L t) | VStringer _ _ s \<Rightarrow> Some s | _ \<Rightarrow> None)"

definition ToString :: "go_lib \<Rightarrow> transformer" where
  "ToString L v = Inr (VStr (case v of
       VStr s \<Rightarrow> s
     | _ \<Rightarrow> (case Stringer_String L v of
         Some s \<Rightarrow> s
       | None \<Rightarrow> (case v of
           VBool b \<Rightarrow> if b then ''true'' else ''false''
         | VInt KInt i \<Rightarrow> show_int i
         | VInt KInt64 i \<Rightarrow> show_int i
         | VFloat64 x \<Rightarrow> plain_float double_fmt x
         | VFloat32 x \<Rightarrow> plain_float single_fmt x
         | _ \<Rightarrow> sprint_v L v))))"

definition true_words :: "string list" where
  "true_words = [''true'', ''yes'', ''1'', ''on'']"

definition false_words :: "string list" where
  "false_words = [''false'', ''no'', ''0'', ''off'']"

definition ToBoolean :: "unicode_tables \<Rightarrow> transformer" where
  "ToBoolean U v = (case v of
       VBool b \<Rightarrow> Inr (VBool b)
     | VStr s \<Rightarrow> (let w = ToLower U (trim_space s) in
         if w \<in> set true_words then Inr (VBool True)
         else if w \<in> set false_words then Inr (VBool False)
         else Inl (''cannot convert string '' @ go_quote s @ '' to boolean''))
     | VInt KInt i \<Rightarrow> Inr (VBool (i \<noteq> 0))
     | VFloat64 x \<Rightarrow> Inr (VBool (\<not> f_eq x f_zero))
     | _ \<Rightarrow> Inl (''cannot convert '' @ type_name v @ '' to boolean''))"

definition Default :: "gval \<Rightarrow> transformer" where
  "Default d v = (if v = VNil then Inr d else if v = VStr [] then Inr d else Inr v)"

definition currency_symbols :: "string list" where
  "currency_symbols = map encode_rune [0x24, 0x20AC, 0xA3, 0xA5, 0x20B9, 0x20BD, 0xA2, 0x20A9,
     0x20AA, 0x20A6, 0x20A8, 0x20B1, 0x20A1, 0x20B5, 0x20B4, 0x20B8]"

definition RemoveCurrencySymbols :: transformer where
  "RemoveCurrencySymbols = with_string (\<lambda>str.
     let result = fold (\<lambda>symbol r. ReplaceAll r symbol []) currency_symbols str;
         result = ReplaceAll result '','' []
     in Inr (VStr (trim_space result)))"

text \<open>The loop of \<open>Chain\<close> from the \<open>i\<close>-th transformer on.\<close>

fun chain_from :: "nat \<Rightarrow> transformer list \<Rightarrow> transformer" where
  "chain_from i [] v = Inr v"
| "chain_from i (t # ts) v = (case t v of
       Inl err \<Rightarrow> Inl (''transformation '' @ show_nat (i + 1) @ '' failed: '' @ err)
     | Inr w \<Rightarrow> chain_from (Suc i) ts w)"

definition Chain :: "transformer list \<Rightarrow> transformer" where
  "Chain ts v = chain_from 0 ts v"

definition Conditional :: "(gval \<Rightarrow> bool) \<Rightarrow> transformer \<Rightarrow> transformer" where
  "Conditional condition t v = (if condition v then t v else Inr v)"

section \<open>\<open>string.go\<close>\<close>

definition Trim :: transformer where
  "Trim = with_string (\<lambda>s. Inr (VStr (trim_space s)))"

definition Lowercase :: "unicode_tables \<Rightarrow> transformer" where
  "Lowercase U = with_string (\<lambda>s. Inr (VStr (ToLower U s)))"

definition Uppercase :: "unicode_tables \<Rightarrow> transformer" where
  "Uppercase U = with_string (\<lambda>s. Inr (VStr (ToUpper U s)))"

definition TitleCase :: "unicode_tables \<Rightarrow> transformer" where
  "TitleCase U = with_string (\<lambda>s. Inr (VStr (Title U (ToLower U s))))"

definition RemoveSpaces :: transformer where
  "RemoveSpaces = with_string (\<lambda>s. Inr (VStr (ReplaceAll s '' '' [])))"

text \<open>The regular expression \<open>\s+\<close>: its class has the ASCII spaces but the vertical tab.\<close>

definition regexp_space :: "char \<Rightarrow> bool" where
  "regexp_space ch = (byte ch \<in> {9, 10, 12, 13, 32})"

function collapse_spaces :: "string \<Rightarrow> string" where
  "collapse_spaces s = (case s of [] \<Rightarrow> []
     | ch # r \<Rightarrow> if regexp_space ch then CHR '' '' # collapse_spaces (dropWhile regexp_space r)
         else ch # collapse_spaces r)"
  by pat_completeness auto
termination collapse_spaces
  by (relation "measure length") (auto simp: less_Suc_eq_le length_dropWhile_le)

declare collapse_spaces.simps [simp del]

definition NormalizeWhitespace :: transformer where
  "NormalizeWhitespace = with_string (\<lambda>s. Inr (VStr (trim_space (collapse_spaces s))))"

definition Replace :: "string \<Rightarrow> string \<Rightarrow> transformer" where
  "Replace old new = with_string (\<lambda>s. Inr (VStr (ReplaceAll s old new)))"

definition RemoveNonAlphanumeric :: "unicode_tables \<Rightarrow> transformer" where
  "RemoveNonAlphanumeric U = with_string (\<lambda>s.
     Inr (VStr (str_keep (\<lambda>r. rune_letter U r \<or> rune_digit U r) s)))"

definition Truncate :: "int \<Rightarrow> panicking_transformer" where
  "Truncate maxLength v = (case v of
       VStr s \<Rightarrow>
         if int (length s) \<le> maxLength then Some (Inr v)
         else if maxLength < 0 then None
         else Some (Inr (VStr (take (nat maxLength) s)))
     | _ \<Rightarrow> Some (Inl (''expected string, got '' @ type_name v)))"

definition PadLeft :: "int \<Rightarrow> nat \<Rightarrow> transformer" where
  "PadLeft minLength padChar = with_string (\<lambda>s.
     if minLength \<le> int (length s) then Inr (VStr s)
     else Inr (VStr (str_repeat (encode_rune padChar) (nat (minLength - int (length s))) @ s)))"

section \<open>\<open>number.go\<close>\<close>

definition ToFloat64 :: transformer where
  "ToFloat64 v = (case v of
       VFloat64 x \<Rightarrow> Inr (VFloat64 x)
     | VFloat32 x \<Rightarrow> Inr (VFloat64 x)
     | VInt k i \<Rightarrow> Inr (VFloat64 (f_of_int i))
     | VStr s \<Rightarrow> (case parse_float s of
           None \<Rightarrow> Inl (''cannot convert string '' @ go_quote s @ '' to float64: '' @ ParseFloat_error s)
         | Some x \<Rightarrow> Inr (VFloat64 x))
     | _ \<Rightarrow> Inl (''cannot convert '' @ type_name v @ '' to float64''))"

definition ToInt :: transformer where
  "ToInt v = (case v of
       VInt k i \<Rightarrow> if k \<in> {KInt, KInt64, KInt32} then Inr (VInt KInt i)
         else Inl (''cannot convert '' @ type_name v @ '' to int'')
     | VFloat64 x \<Rightarrow> Inr (VInt KInt (f_to_int64 x))
     | VFloat32 x \<Rightarrow> Inr (VInt KInt (f_to_int64 x))
     | VStr s \<Rightarrow> (case go_atoi s of
           Some i \<Rightarrow> Inr (VInt KInt i)
         | None \<Rightarrow> (case parse_float s of
               None \<Rightarrow> Inl (''cannot convert string '' @ go_quote s @ '' to int: '' @ Atoi_error s)
             | Some x \<Rightarrow> Inr (VInt KInt (f_to_int64 x))))
     | _ \<Rightarrow> Inl (''cannot convert '' @ type_name v @ '' to int''))"

text \<open>The transformers that start with \<open>ToFloat64\<close>; \<open>f\<close> is what they do with the number.\<close>

definition on_float :: "(f64 \<Rightarrow> f64) \<Rightarrow> transformer" where
  "on_float f v = (case ToFloat64 v of
       Inl err \<Rightarrow> Inl err
     | Inr w \<Rightarrow> Inr (VFloat64 (f (case w of VFloat64 x \<Rightarrow> x | _ \<Rightarrow> f_zero))))"

text \<open>\<open>pow\<close> is \<open>math.Pow\<close>.\<close>

definition Round :: "(f64 \<Rightarrow> f64 \<Rightarrow> f64) \<Rightarrow> int \<Rightarrow> transformer" where
  "Round pow decimals =
     (let multiplier = pow (FFin 10) (f_of_int decimals)
      in on_float (\<lambda>num. f_div (f_round_away (f_mul num multiplier)) multiplier))"

definition Clamp :: "f64 \<Rightarrow> f64 \<Rightarrow> transformer" where
  "Clamp lo hi = on_float (\<lambda>num. if num < lo then lo else if hi < num then hi else num)"

definition Percentage :: transformer where
  "Percentage = on_float (\<lambda>num. f_mul num (FFin 100))"

definition FromPercentage :: transformer where
  "FromPercentage = on_float (\<lambda>num. f_div num (FFin 100))"

section \<open>\<open>date.go\<close>\<close>

record date_lib =
  dl_in :: "string \<Rightarrow> string + (gtime \<Rightarrow> gtime)"
  dl_date :: "gtime \<Rightarrow> int \<times> int \<times> int \<times> int \<Rightarrow> gtime"

text \<open>
  \<open>dl_in D name\<close> is \<open>LoadLocation\<close> and then \<open>In\<close>; \<open>dl_date D t clock\<close> is \<open>time.Date\<close> with the date
  and the location of \<open>t\<close> and the hour, minute, second and nanosecond of \<open>clock\<close>.
\<close>

definition ParseDate :: "go_lib \<Rightarrow> string \<Rightarrow> transformer" where
  "ParseDate L format = with_string (\<lambda>str. case lib_time_parse L format str of
       Inl err \<Rightarrow> Inl (''cannot parse date: '' @ err)
     | Inr t \<Rightarrow> Inr (VTime t))"

definition date_formats :: "string list" where
  "date_formats = [''2006-01-02'', ''01/02/2006'', ''02/01/2006'', ''2006-01-02 15:04:05'', ''Jan 2, 2006'']"

fun parse_first :: "go_lib \<Rightarrow> string list \<Rightarrow> string \<Rightarrow> gtime option" where
  "parse_first L [] s = None"
| "parse_first L (f # fs) s = (case lib_time_parse L f s of Inr t \<Rightarrow> Some t | Inl _ \<Rightarrow> parse_first L fs s)"

definition ToISO8601 :: "go_lib \<Rightarrow> transformer" where
  "ToISO8601 L v = (case v of
       VTime t \<Rightarrow> Inr (VStr (lib_time_format L t rfc3339))
     | VStr s \<Rightarrow> (case parse_first L date_formats s of
           Some t \<Rightarrow> Inr (VStr (lib_time_format L t rfc3339))
         | None \<Rightarrow> Inl (''cannot parse date string: '' @ s))
     | _ \<Rightarrow> Inl (''expected time.Time or string, got '' @ type_name v))"

definition DateFormat :: "go_lib \<Rightarrow> string \<Rightarrow> string \<Rightarrow> transformer" where
  "DateFormat L fromFormat toFormat = with_string (\<lambda>str. case lib_time_parse L fromFormat str of
       Inl err \<Rightarrow> Inl (''cannot parse date with format '' @ fromFormat @ '': '' @ err)
     | Inr t \<Rightarrow> Inr (VStr (lib_time_format L t toFormat)))"

definition ToTimezone :: "go_lib \<Rightarrow> date_lib \<Rightarrow> string \<Rightarrow> transformer" where
  "ToTimezone L D location v =
     (case (case v of
           VTime t \<Rightarrow> Inr t
         | VStr s \<Rightarrow> (case lib_time_parse L rfc3339 s of
               Inl err \<Rightarrow> Inl (''cannot parse time string: '' @ err) | Inr t \<Rightarrow> Inr t)
         | _ \<Rightarrow> Inl (''expected time.Time or string, got '' @ type_name v)) of
       Inl err \<Rightarrow> Inl err
     | Inr t \<Rightarrow> (case dl_in D location of
           Inl err \<Rightarrow> Inl (''invalid timezone: '' @ err)
         | Inr convert \<Rightarrow> Inr (VTime (convert t))))"

text \<open>
  \<open>StartOfDay\<close> and \<open>EndOfDay\<close> differ in the clock only; they slice the first ten bytes of a
  string without a check of its length.
\<close>

definition at_clock :: "int \<times> int \<times> int \<times> int \<Rightarrow> go_lib \<Rightarrow> date_lib \<Rightarrow> panicking_transformer" where
  "at_clock clock L D v = (case v of
       VTime t \<Rightarrow> Some (Inr (VTime (dl_date D t clock)))
     | VStr s \<Rightarrow>
         if length s < 10 then None
         else Some (case lib_time_parse L ''2006-01-02'' (take 10 s) of
             Inl err \<Rightarrow> Inl (''cannot parse date: '' @ err)
           | Inr t \<Rightarrow> Inr (VTime (dl_date D t clock)))
     | _ \<Rightarrow> Some (Inl (''expected time.Time or string, got '' @ type_name v)))"

definition StartOfDay :: "go_lib \<Rightarrow> date_lib \<Rightarrow> panicking_transformer" where
  "StartOfDay = at_clock (0, 0, 0, 0)"

definition EndOfDay :: "go_lib \<Rightarrow> date_lib \<Rightarrow> panicking_transformer" where
  "EndOfDay = at_clock (23, 59, 59, 999999999)"

end
