(* ===== verification/TransformProps.thy ===== *)
theory TransformProps
  imports Transformers Acceptance
begin

text \<open>
  What the transformers guarantee to the schemas they feed: a chain is the same as its parts in
  a \<open>TransformSchema\<close>, what is clamped or truncated passes the bound, and printing an integer
  loses nothing.
\<close>

section \<open>Chains\<close>

lemma chain_pipeline:
  "(case chain_from i ts v of Inl _ \<Rightarrow> None | Inr w \<Rightarrow> Some w) = pipeline ts v"
  by (induction i ts v rule: chain_from.induct) (auto split: sum.splits)

lemma pipeline_append:
  "pipeline (ts @ us) v = (case pipeline ts v of None \<Rightarrow> None | Some w \<Rightarrow> pipeline us w)"
  by (induction ts v rule: pipeline.induct) (auto split: sum.splits)

lemma pipeline_Chain: "pipeline (us @ Chain ts # ws) v = pipeline (us @ ts @ ws) v"
proof -
  have "pipeline (Chain ts # ws) u = pipeline (ts @ ws) u" for u
    unfolding pipeline_append chain_pipeline [of 0 ts u, symmetric] by (simp add: Chain_def split: sum.splits)
  then show ?thesis by (simp only: pipeline_append [of us])
qed

text \<open>
  A chain among the transformers of a schema can be replaced by its parts: transformation
  succeeds with the same values.
\<close>

theorem Chain_flatten:
  "ValidateAndTransform E data (TransformS (TransformSchema b inner (us @ Chain ts # ws) as)) m = (w, None) \<longleftrightarrow>
   ValidateAndTransform E data (TransformS (TransformSchema b inner (us @ ts @ ws) as)) m = (w, None)"
  unfolding ValidateAndTransform_success
  by (simp add: outcome_def transform_sface_def transform_result_def pipeline_Chain
      cong: option.case_cong if_cong)

section \<open>Bounds\<close>

lemma f_lt_eq: "f_lt x y \<Longrightarrow> \<not> f_eq x y \<and> \<not> f_eq y x"
  by (cases x; cases y; simp)

lemma f_lt_NaN [simp]: "\<not> f_lt x FNaN"
  by (cases x) simp_all

lemma on_float_inv: "on_float f v = Inr w \<Longrightarrow> \<exists>x. w = VFloat64 (f x)"
  by (auto simp: on_float_def split: sum.splits)

text \<open>
  A number between two bounds, clamped, is within them or NaN, so that a number schema with
  this range accepts every result.
\<close>

theorem Clamp_accepted:
  assumes "Clamp lo hi v = Inr w" and "lo \<le> hi"
  shows "accepts E (NumberS (Number_Range lo hi Number_new)) w m
     \<and> (\<exists>x. w = VFloat64 x \<and> (x = FNaN \<or> lo \<le> x \<and> x \<le> hi))"
proof -
  obtain num where w: "w = VFloat64 (if num < lo then lo else if hi < num then hi else num)"
    using on_float_inv assms(1) unfolding Clamp_def by blast
  define x where "x = (if num < lo then lo else if hi < num then hi else num)"
  have nan: "lo \<noteq> FNaN" "hi \<noteq> FNaN" "f_eq lo lo" "f_eq hi hi"
    using assms(2) by (cases lo; cases hi; simp add: less_eq_f64_def)+
  have "x = FNaN \<or> lo \<le> x \<and> x \<le> hi"
    using assms(2) nan f_trichotomy [of num lo] f_trichotomy [of num hi]
    by (auto simp: x_def less_eq_f64_def less_f64_def f_eq_sym)
  moreover from this have "\<not> x < lo" "\<not> hi < x"
    by (auto simp: less_eq_f64_def less_f64_def dest: f_lt_asym f_lt_eq)
  ultimately show ?thesis
    by (simp add: w x_def [symmetric] accepts_NumberS number_violations_Nil Number_Range_def
        Number_new_def toFloat64WithMode_def)
qed

theorem Clamp_accepted_witness:
  "accepts sample_env (NumberS (Number_Range f_zero (FFin 1) Number_new)) (VFloat64 (FFin 1)) Strict"
proof -
  have "Clamp f_zero (FFin 1) (VFloat64 (FFin 2)) = Inr (VFloat64 (FFin 1))"
    by (simp add: Clamp_def on_float_def ToFloat64_def f_zero_def less_f64_def)
  from Clamp_accepted [OF this, of sample_env Strict] show ?thesis
    by (simp add: f_zero_def less_eq_f64_def)
qed

text \<open>
  \<open>Truncate\<close> panics exactly for a negative length; else its result is a prefix of the string
  that a string schema with this maximal length accepts.
\<close>

theorem Truncate_accepted:
  "case Truncate n (VStr s) of
     None \<Rightarrow> n < 0
   | Some r \<Rightarrow> 0 \<le> n \<and> (\<exists>t u. r = Inr (VStr t) \<and> s = t @ u
       \<and> accepts E (StringS (String_MaxLength n String_new)) (VStr t) m)"
proof (cases "n < 0")
  case False
  have "accepts E (StringS (String_MaxLength n String_new)) (VStr t) m" if "int (length t) \<le> n" for t
    using that by (simp add: accepts_StringS string_violations_Nil String_MaxLength_def String_new_def
        string_reading_def String_PatternMatch_def ConvertToString_def as_string_def)
  moreover have "s = take (nat n) s @ drop (nat n) s" "s = s @ []" by simp_all
  ultimately show ?thesis
    using False unfolding Truncate_def
    by (auto simp del: append_take_drop_id append_Nil2)
qed (simp add: Truncate_def)

section \<open>Printing and reading integers\<close>

lemma go_atoi_show_int:
  assumes "- (2 ^ 63) \<le> i" and "i < 2 ^ 63"
  shows "go_atoi (show_int i) = Some i"
proof (cases "i < 0")
  case True
  have "list_all is_dec_digit (show_nat (nat (- i)))"
    by (auto simp: list_all_iff dest: show_nat_digits)
  with True assms read_show_nat [of "nat (- i)"] show ?thesis
    by (simp add: go_atoi_def show_int_def)
next
  case False
  with assms go_atoi_show_nat [of "nat i"] show ?thesis
    by (simp add: show_int_def)
qed

text \<open>An \<open>int\<close> printed by \<open>ToString\<close> is read back by \<open>ToInt\<close>.\<close>

theorem ToInt_ToString:
  assumes "- (2 ^ 63) \<le> i" and "i < 2 ^ 63"
  shows "Chain [ToString L, ToInt] (VInt KInt i) = Inr (VInt KInt i)"
  using go_atoi_show_int [OF assms]
  by (simp add: Chain_def ToString_def Stringer_String_def ToInt_def)

theorem ToInt_ToString_witness:
  "Chain [ToString sample_lib, ToInt] (VInt KInt (- 42)) = Inr (VInt KInt (- 42))"
  by (rule ToInt_ToString) simp_all

end
