(* ===== verification/Phone.thy ===== *)
theory Phone
  imports Transformers
begin

text \<open>
  \<open>builders/transformers/phone.go\<close>: the table of phone formats, the detection of the country and
  the normalisation. The regular expressions of the table are all of the form \<open>^items$\<close>, an item
  being a class of ASCII characters with a quantifier; groups only capture, and what they capture
  is not used. For this fragment the compiler and the matcher of \<open>regexp\<close> are defined here.
\<close>

section \<open>Regular expressions\<close>

text \<open>A class is a list of ranges; an item repeats it from \<open>lo\<close> to \<open>hi\<close> times (None: no bound).\<close>

type_synonym rx_class = "(nat \<times> nat) list"

type_synonym rx_item = "rx_class \<times> nat \<times> nat option"

definition in_class :: "char \<Rightarrow> rx_class \<Rightarrow> bool" where
  "in_class ch cls = list_ex (\<lambda>(lo, hi). byte_in lo hi ch) cls"

function rx_match :: "rx_item list \<Rightarrow> string \<Rightarrow> bool" where
  "rx_match [] s = (s = [])"
| "rx_match ((cls, lo, hi) # items) s =
     (if (if hi \<noteq> Some 0 \<and> s \<noteq> [] \<and> in_class (hd s) cls
          then rx_match ((cls, lo - 1, map_option (\<lambda>n. n - 1) hi) # items) (tl s) else False)
      then True
      else if lo = 0 then rx_match items s else False)"
  by pat_completeness auto
termination rx_match
  by (relation "measures [\<lambda>(items, s). length s, \<lambda>(items, s). length items]") auto

text \<open>
  The compiler. String literals of HOL cannot hold a backslash: in the patterns below \<open>!\<close> stands
  for it, and \<open>rx\<close> puts it in.
\<close>

definition backslash :: char where
  "backslash = CHR 0x5C"

definition rx :: "string \<Rightarrow> string" where
  "rx s = map (\<lambda>ch. if ch = CHR ''!'' then backslash else ch) s"

definition rx_escape :: "char \<Rightarrow> rx_class" where
  "rx_escape ch = (if ch = CHR ''d'' then [(48, 57)]
     else if ch = CHR ''s'' then [(9, 10), (12, 13), (32, 32)] else [(byte ch, byte ch)])"

text \<open>The members of a bracketed class, and what follows the closing bracket.\<close>

fun rx_members :: "string \<Rightarrow> rx_class \<times> string" where
  "rx_members [] = ([], [])"
| "rx_members [a] = (if a = CHR '']'' then ([], []) else ([(byte a, byte a)], []))"
| "rx_members (a # b # s) =
     (if a = CHR '']'' then ([], b # s)
      else if a = backslash then (case rx_members s of (cls, r) \<Rightarrow> (rx_escape b @ cls, r))
      else case s of
          c # t \<Rightarrow> if b = CHR ''-'' \<and> c \<noteq> CHR '']''
            then (case rx_members t of (cls, r) \<Rightarrow> ((byte a, byte c) # cls, r))
            else (case rx_members (b # s) of (cls, r) \<Rightarrow> ((byte a, byte a) # cls, r))
        | [] \<Rightarrow> (case rx_members [b] of (cls, r) \<Rightarrow> ((byte a, byte a) # cls, r)))"

text \<open>The quantifiers \<open>?\<close>, \<open>+\<close>, \<open>{n}\<close> and \<open>{n,m}\<close>.\<close>

definition rx_counts :: "string \<Rightarrow> nat \<times> nat option" where
  "rx_counts s = (let (lo, r) = split_while (\<lambda>ch. ch \<noteq> CHR '','') s
     in (read_nat lo, Some (if r = [] then read_nat lo else read_nat (tl r))))"

definition rx_quantifier :: "string \<Rightarrow> (nat \<times> nat option) \<times> string" where
  "rx_quantifier s = (case s of [] \<Rightarrow> ((1, Some 1), [])
     | ch # r \<Rightarrow>
         if ch = CHR ''?'' then ((0, Some 1), r)
         else if ch = CHR ''+'' then ((1, None), r)
         else if ch = CHR 0x7B then (let (counts, t) = split_while (\<lambda>ch. ch \<noteq> CHR 0x7D) r
           in (rx_counts counts, tl t))
         else ((1, Some 1), s))"

text \<open>The items of a pattern. Each step consumes input, so its length bounds their number.\<close>

fun rx_items :: "nat \<Rightarrow> string \<Rightarrow> rx_item list" where
  "rx_items 0 s = []"
| "rx_items (Suc n) s = (case s of [] \<Rightarrow> []
     | ch # r \<Rightarrow>
         if ch \<in> set ''^$()'' then rx_items n r
         else (let (cls, r) = (if ch = CHR ''['' then rx_members r
                 else if ch = backslash then (case r of [] \<Rightarrow> ([], []) | e # t \<Rightarrow> (rx_escape e, t))
                 else ([(byte ch, byte ch)], r));
               (counts, r) = rx_quantifier r
             in (cls, counts) # rx_items n r))"

definition MatchString :: "string \<Rightarrow> string \<Rightarrow> bool" where
  "MatchString pattern s = rx_match (rx_items (length pattern) pattern) s"

section \<open>The table\<close>

record phone_format =
  pf_countryCode :: string
  pf_countryPrefix :: string
  pf_formats :: "string list"
  pf_normalizedLen :: nat
  pf_outputFormat :: string

definition phoneFormats :: "phone_format gmap" where
  "phoneFormats = [
   (''AR'', \<lparr>pf_countryCode = ''AR'', pf_countryPrefix = ''+54'', pf_formats = map rx
      [''^!+?54[-.!s]?9[-.!s]?(!d{2,4})[-.!s]?(!d{4})[-.!s]?(!d{4})$'',
       ''^!+?54[-.!s]?9[-.!s]?(!d{2})[-.!s]?(!d{4})[-.!s]?(!d{4})$'',
       ''^!+?54[-.!s]?9[-.!s]?(!d{2,4})[-.!s]?(!d{6,8})$'',
       ''^!+?54!s+9!s+(!d{2})!s+(!d{4})!s+(!d{4})$'',
       ''^0?(!d{2,4})[-.!s]?15[-.!s]?(!d{3,4})[-.!s]?(!d{3,4})$'',
       ''^(!d{2,4})[-.!s]?15[-.!s]?(!d{3,4})[-.!s]?(!d{3,4})$'',
       ''^15[-.!s]?(!d{3,4})[-.!s]?(!d{3,4})$'',
       ''^0?(!d{2,4})15(!d{6,8})$'',
       ''^(!d{10,11})$''],
      pf_normalizedLen = 10, pf_outputFormat = ''+54 9 AAA BBBBBBBB''\<rparr>),
   (''BO'', \<lparr>pf_countryCode = ''BO'', pf_countryPrefix = ''+591'', pf_formats = map rx
      [''^!+?591?[-.!s]?([67]!d{7})$'',
       ''^([67]!d{7})$'',
       ''^!+?591?[-.!s]?([2-4]!d{6})$''],
      pf_normalizedLen = 8, pf_outputFormat = ''+591 NNNNNNNN''\<rparr>),
   (''BR'', \<lparr>pf_countryCode = ''BR'', pf_countryPrefix = ''+55'', pf_formats = map rx
      [''^!+?55?[-.!s]?!(?0?(!d{2})!)?[-.!s]?9?(!d{4,5})[-.!s]?(!d{4})$'',
       ''^!(?0?(!d{2})!)?[-.!s]?9?(!d{4,5})[-.!s]?(!d{4})$'',
       ''^0(!d{2})[-.!s]?9?(!d{4,5})[-.!s]?(!d{4})$''],
      pf_normalizedLen = 11, pf_outputFormat = ''+55 AA 9NNNN-NNNN''\<rparr>),
   (''CL'', \<lparr>pf_countryCode = ''CL'', pf_countryPrefix = ''+56'', pf_formats = map rx
      [''^!+?56[-.!s]?9[-.!s]?(!d{4})[-.!s]?(!d{4})$'',
       ''^!+?56[-.!s]?9(!d{8})$'',
       ''^0?9[-.!s]?(!d{4})[-.!s]?(!d{4})$'',
       ''^9[-.!s]?(!d{4})[-.!s]?(!d{4})$'',
       ''^0?9(!d{8})$'',
       ''^9(!d{8})$''],
      pf_normalizedLen = 9, pf_outputFormat = ''+56 9 NNNNNNNN''\<rparr>),
   (''CO'', \<lparr>pf_countryCode = ''CO'', pf_countryPrefix = ''+57'', pf_formats = map rx
      [''^!+?57[-.!s]?3(!d{2})[-.!s]?(!d{3})[-.!s]?(!d{4})$'',
       ''^!+?57[-.!s]?3(!d{9})$'',
       ''^3(!d{2})[-.!s]?(!d{3})[-.!s]?(!d{4})$'',
       ''^3(!d{9})$''],
      pf_normalizedLen = 10, pf_outputFormat = ''+57 3NNNNNNNNN''\<rparr>),
   (''EC'', \<lparr>pf_countryCode = ''EC'', pf_countryPrefix = ''+593'', pf_formats = map rx
      [''^!+?593?[-.!s]?9(!d{8})$'',
       ''^0?9(!d{8})$'',
       ''^!+?593?[-.!s]?(!d{8,9})$''],
      pf_normalizedLen = 9, pf_outputFormat = ''+593 9NNNNNNNN''\<rparr>),
   (''GF'', \<lparr>pf_countryCode = ''GF'', pf_countryPrefix = ''+594'', pf_formats = map rx
      [''^!+?594?[-.!s]?694(!d{6})$'',
       ''^0?694(!d{6})$'',
       ''^!+?594?[-.!s]?594(!d{6})$''],
      pf_normalizedLen = 9, pf_outputFormat = ''+594 694NNNNNN''\<rparr>),
   (''GY'', \<lparr>pf_countryCode = ''GY'', pf_countryPrefix = ''+592'', pf_formats = map rx
      [''^!+?592?[-.!s]?6(!d{6})$'',
       ''^6(!d{6})$'',
       ''^!+?592?[-.!s]?(!d{7})$''],
      pf_normalizedLen = 7, pf_outputFormat = ''+592 NNNNNNN''\<rparr>),
   (''MX'', \<lparr>pf_countryCode = ''MX'', pf_countryPrefix = ''+52'', pf_formats = map rx
      [''^!+?52?[-.!s]?1?[-.!s]?(!d{3})[-.!s]?(!d{3})[-.!s]?(!d{4})$'',
       ''^(!d{3})[-.!s]?(!d{3})[-.!s]?(!d{4})$''],
      pf_normalizedLen = 10, pf_outputFormat = ''+52 1 AAA BBB CCCC''\<rparr>),
   (''PE'', \<lparr>pf_countryCode = ''PE'', pf_countryPrefix = ''+51'', pf_formats = map rx
      [''^!+?51?[-.!s]?9(!d{8})$'',
       ''^9(!d{8})$'',
       ''^!+?51?[-.!s]?(!d{9})$''],
      pf_normalizedLen = 9, pf_outputFormat = ''+51 9NNNNNNNN''\<rparr>),
   (''PY'', \<lparr>pf_countryCode = ''PY'', pf_countryPrefix = ''+595'', pf_formats = map rx
      [''^!+?595?[-.!s]?9(!d{8})$'',
       ''^0?9(!d{8})$'',
       ''^!+?595?[-.!s]?(!d{8,9})$''],
      pf_normalizedLen = 9, pf_outputFormat = ''+595 9NNNNNNNN''\<rparr>),
   (''SR'', \<lparr>pf_countryCode = ''SR'', pf_countryPrefix = ''+597'', pf_formats = map rx
      [''^!+?597?[-.!s]?[78](!d{6})$'',
       ''^[78](!d{6})$'',
       ''^!+?597?[-.!s]?(!d{6,7})$''],
      pf_normalizedLen = 7, pf_outputFormat = ''+597 NNNNNNN''\<rparr>),
   (''UK'', \<lparr>pf_countryCode = ''UK'', pf_countryPrefix = ''+44'', pf_formats = map rx
      [''^!+?44?[-.!s]?0?7(!d{9})$'',
       ''^0?7(!d{9})$'',
       ''^!+?44?[-.!s]?!(?0?(!d{3,4})!)?[-.!s]?(!d{6,7})$''],
      pf_normalizedLen = 10, pf_outputFormat = ''+44 7NNNNNNNNN''\<rparr>),
   (''US'', \<lparr>pf_countryCode = ''US'', pf_countryPrefix = ''+1'', pf_formats = map rx
      [''^!+?1?[-.!s]?!(?(!d{3})!)?[-.!s]?(!d{3})[-.!s]?(!d{4})$'',
       ''^(!d{3})[-.!s]?(!d{3})[-.!s]?(!d{4})$''],
      pf_normalizedLen = 10, pf_outputFormat = ''+1AAABBBCCCC''\<rparr>),
   (''UY'', \<lparr>pf_countryCode = ''UY'', pf_countryPrefix = ''+598'', pf_formats = map rx
      [''^!+?598[-.!s]?9?(!d{1})[-.!s]?(!d{3})[-.!s]?(!d{3})$'',
       ''^!+?598[-.!s]?0?9(!d{7})$'',
       ''^0?9(!d{1})[-.!s]?(!d{3})[-.!s]?(!d{3})$'',
       ''^9(!d{1})[-.!s]?(!d{3})[-.!s]?(!d{3})$'',
       ''^0?9(!d{7})$'',
       ''^0?9(!d{8})$''],
      pf_normalizedLen = 8, pf_outputFormat = ''+598 9NNNNNNN''\<rparr>),
   (''VE'', \<lparr>pf_countryCode = ''VE'', pf_countryPrefix = ''+58'', pf_formats = map rx
      [''^!+?58?[-.!s]?4(!d{9})$'',
       ''^0?4(!d{9})$'',
       ''^!+?58?[-.!s]?(!d{10})$''],
      pf_normalizedLen = 10, pf_outputFormat = ''+58 4NNNNNNNNN''\<rparr>)]"

section \<open>Normalising\<close>

definition trim_prefix :: "string \<Rightarrow> string \<Rightarrow> string" where
  "trim_prefix s p = (case strip_prefix p s of Some r \<Rightarrow> r | None \<Rightarrow> s)"

text \<open>\<open>strings.Index\<close>.\<close>

fun str_index :: "string \<Rightarrow> string \<Rightarrow> nat option" where
  "str_index [] w = (if w = [] then Some 0 else None)"
| "str_index (ch # s) w = (if has_prefix (ch # s) w then Some 0 else map_option Suc (str_index s w))"

definition digits_of :: "unicode_tables \<Rightarrow> string \<Rightarrow> string" where
  "digits_of U s = str_keep (rune_digit U) s"

text \<open>
  The body of the loop over the patterns once one has matched, from the digits without the
  country code on: None when control falls through to the next pattern.
\<close>

definition country_case :: "string \<Rightarrow> phone_format \<Rightarrow> string \<Rightarrow> string option" where
  "country_case country f digits =
     (let p = pf_countryPrefix f in
      if country = ''AR'' then
        (let digits = trim_prefix digits ''0'';
             digits = (if 10 < length digits then (case str_index (drop 2 digits) ''15'' of
                  Some i \<Rightarrow> take (i + 2) digits @ drop (i + 4) digits | None \<Rightarrow> digits) else digits)
         in if length digits = 10 then Some (p @ ''9'' @ digits) else None)
      else if country = ''BR'' then
        (let digits = trim_prefix digits ''0'';
             digits = (if length digits = 10 then take 2 digits @ ''9'' @ drop 2 digits else digits)
         in if length digits = 11 then Some (p @ digits) else None)
      else if country = ''CL'' then
        (let digits = trim_prefix digits ''0'' in if length digits = 9 then Some (p @ digits) else None)
      else if country = ''CO'' then
        (if length digits = 10 then Some (p @ digits) else None)
      else if country = ''UY'' then
        (let digits = trim_prefix digits ''0'' in
         if length digits = 8 \<and> has_prefix digits ''9'' then Some (p @ digits)
         else if length digits = 7 then Some (p @ ''9'' @ digits)
         else if length digits = 9 \<and> has_prefix digits ''99'' then Some (p @ tl digits)
         else None)
      else if pf_normalizedLen f \<le> length digits
        then Some (p @ drop (length digits - pf_normalizedLen f) digits) else None)"

definition after_match :: "unicode_tables \<Rightarrow> string \<Rightarrow> phone_format \<Rightarrow> string \<Rightarrow> string option" where
  "after_match U country f cleaned =
     (let digits = digits_of U cleaned;
          international = trim_prefix digits ''54'' in
      if country = ''AR'' \<and> has_prefix cleaned ''+54 9 ''
         \<and> length international = 11 \<and> has_prefix international ''9''
      then Some (pf_countryPrefix f @ international)
      else country_case country f (trim_prefix digits (trim_prefix (pf_countryPrefix f) ''+'')))"

fun try_patterns :: "unicode_tables \<Rightarrow> string \<Rightarrow> phone_format \<Rightarrow> string list \<Rightarrow> string \<Rightarrow> string option" where
  "try_patterns U country f [] cleaned = None"
| "try_patterns U country f (p # ps) cleaned =
     (if MatchString p cleaned then (case after_match U country f cleaned of
          Some out \<Rightarrow> Some out | None \<Rightarrow> try_patterns U country f ps cleaned)
      else try_patterns U country f ps cleaned)"

definition normalizeForCountry :: "unicode_tables \<Rightarrow> string \<Rightarrow> string \<Rightarrow> string + string" where
  "normalizeForCountry U phone country = (case map_of phoneFormats (ToUpper U country) of
       None \<Rightarrow> Inl (''unsupported country code: '' @ country)
     | Some f \<Rightarrow> (case try_patterns U country f (pf_formats f) (trim_space phone) of
           Some out \<Rightarrow> Inr out
         | None \<Rightarrow> Inl (''phone number does not match any format for country '' @ country)))"

section \<open>Detecting the country\<close>

definition countryPrefixes :: "(string \<times> string) list" where
  "countryPrefixes = [(''+1'', ''US''), (''+44'', ''UK''), (''+52'', ''MX''), (''+54'', ''AR''),
     (''+55'', ''BR''), (''+56'', ''CL''), (''+57'', ''CO''), (''+51'', ''PE''), (''+58'', ''VE''),
     (''+591'', ''BO''), (''+592'', ''GY''), (''+593'', ''EC''), (''+594'', ''GF''), (''+595'', ''PY''),
     (''+597'', ''SR''), (''+598'', ''UY'')]"

definition brazilAreaCodes :: "nat list" where
  "brazilAreaCodes = [11, 12, 13, 14, 15, 16, 17, 18, 19, 21, 22, 24, 27, 28, 31, 32, 33, 34, 35,
     37, 38, 41, 42, 43, 44, 45, 46, 47, 48, 49, 51, 53, 54, 55, 61, 62, 63, 64, 65, 66, 67, 68, 69,
     71, 73, 74, 75, 77, 79, 81, 82, 83, 84, 85, 86, 87, 88, 89, 91, 92, 93, 94, 95, 96, 97, 98, 99]"

text \<open>\<open>order\<close> is the order in which Go visits the map of prefixes.\<close>

definition detectCountry :: "(string \<times> string) list \<Rightarrow> string \<Rightarrow> string \<Rightarrow> string" where
  "detectCountry order phone defaultCountry =
     (case find (\<lambda>(prefix, _). has_prefix phone prefix) order of
        Some (_, country) \<Rightarrow> country
      | None \<Rightarrow>
          if phone \<noteq> [] \<and> defaultCountry = ''AR'' \<and> has_prefix phone ''15'' then ''AR''
          else if phone \<noteq> [] \<and> defaultCountry = ''BO'' \<and> hd phone \<in> set ''67'' then ''BO''
          else if phone \<noteq> [] \<and> defaultCountry = ''VE'' \<and> hd phone = CHR ''4'' then ''VE''
          else if phone \<noteq> [] \<and> defaultCountry = ''CO'' \<and> hd phone = CHR ''3'' then ''CO''
          else if phone \<noteq> [] \<and> hd phone = CHR ''9''
               \<and> defaultCountry \<in> set [''BR'', ''CL'', ''EC'', ''PY'', ''PE'', ''UY''] then defaultCountry
          else if defaultCountry = ''BR'' \<and> 2 \<le> length phone
               \<and> take 2 phone \<in> show_nat ` set brazilAreaCodes then ''BR''
          else defaultCountry)"

definition phone_chars :: "unicode_tables \<Rightarrow> string \<Rightarrow> string" where
  "phone_chars U s = str_keep (\<lambda>r. rune_digit U r \<or> r = 43) s"

definition NormalizePhone :: "unicode_tables \<Rightarrow> (string \<times> string) list \<Rightarrow> string \<Rightarrow> transformer" where
  "NormalizePhone U order defaultCountry = with_string (\<lambda>str.
     case normalizeForCountry U str defaultCountry of
       Inr normalized \<Rightarrow> Inr (VStr normalized)
     | Inl _ \<Rightarrow>
         (let country = detectCountry order (phone_chars U str) defaultCountry in
          case normalizeForCountry U str country of
            Inl err \<Rightarrow> Inl err | Inr normalized \<Rightarrow> Inr (VStr normalized)))"

definition NormalizePhoneWithCountry :: "unicode_tables \<Rightarrow> string \<Rightarrow> transformer" where
  "NormalizePhoneWithCountry U country = with_string (\<lambda>str.
     case normalizeForCountry U str country of
       Inl err \<Rightarrow> Inl err | Inr normalized \<Rightarrow> Inr (VStr normalized))"

definition FormatPhone :: "unicode_tables \<Rightarrow> string \<Rightarrow> transformer" where
  "FormatPhone U country = with_string (\<lambda>str.
     if map_of phoneFormats (ToUpper U country) = None then Inr (VStr str) else Inr (VStr str))"

section \<open>What matches is ASCII\<close>

lemma rx_match_classes:
  "rx_match items s \<Longrightarrow> ch \<in> set s \<Longrightarrow> \<exists>cls q. (cls, q) \<in> set items \<and> in_class ch cls"
proof (induction items s rule: rx_match.induct)
  case (2 cls lo hi items s)
  let ?more = "(cls, lo - 1, map_option (\<lambda>n. n - 1) hi) # items"
  show ?case
  proof (cases "(hi \<noteq> Some 0 \<and> s \<noteq> [] \<and> in_class (hd s) cls) \<and> rx_match ?more (tl s)")
    case True
    then show ?thesis
    proof (cases "ch = hd s")
      case False
      with True "2.prems"(2) have "ch \<in> set (tl s)" by (cases s) auto
      with True "2.IH"(1) show ?thesis by fastforce
    qed auto
  next
    case False
    then have "\<not> (if hi \<noteq> Some 0 \<and> s \<noteq> [] \<and> in_class (hd s) cls then rx_match ?more (tl s) else False)"
      by argo
    with "2.prems" "2.IH"(2) show ?thesis
      unfolding rx_match.simps(2) [of cls lo hi items s] by (auto simp del: rx_match.simps split: if_split_asm)
  qed
qed simp

definition ascii_classes :: "rx_item list \<Rightarrow> bool" where
  "ascii_classes items = list_all (\<lambda>(cls, _). list_all (\<lambda>(_, hi). hi < 0x80) cls) items"

lemma rx_escape_ascii: "is_ascii ch \<Longrightarrow> list_all (\<lambda>(_, hi). hi < 0x80) (rx_escape ch)"
  by (simp add: rx_escape_def is_ascii_def)

lemma rx_members_ascii:
  "list_all is_ascii s \<Longrightarrow>
     list_all (\<lambda>(_, hi). hi < 0x80) (fst (rx_members s)) \<and> list_all is_ascii (snd (rx_members s))"
proof (induction s rule: rx_members.induct)
  case (3 a b s)
  note escape = rx_escape_ascii [of b]
  have "byte a < 0x80" using 3(5) by (simp add: is_ascii_def)
  with 3 escape show ?case
    unfolding rx_members.simps(3) [of a b s]
    by (cases s) (auto simp: case_prod_unfold is_ascii_def simp del: rx_members.simps)
qed (simp_all add: is_ascii_def)

lemma rx_quantifier_ascii:
  assumes "list_all is_ascii s"
  shows "list_all is_ascii (snd (rx_quantifier s))"
proof -
  have "set (tl (dropWhile P t)) \<subseteq> set t" for P :: "char \<Rightarrow> bool" and t
    by (metis dropWhile_eq_drop list.set_sel(2) set_drop_subset subset_iff tl_Nil)
  with assms show ?thesis
    by (cases s) (auto simp: rx_quantifier_def split_while_def list_all_iff Let_def)
qed

lemma rx_items_ascii: "list_all is_ascii s \<Longrightarrow> ascii_classes (rx_items n s)"
proof (induction n arbitrary: s)
  case (Suc n)
  show ?case
  proof (cases s)
    case (Cons ch t)
    define item where "item = (if ch = CHR ''['' then rx_members t
        else if ch = backslash then (case t of [] \<Rightarrow> ([], []) | e # t \<Rightarrow> (rx_escape e, t))
        else ([(byte ch, byte ch)], t))"
    have t: "list_all is_ascii t" and ch: "is_ascii ch" using Suc.prems Cons by simp_all
    have item: "list_all (\<lambda>(_, hi). hi < 0x80) (fst item)" "list_all is_ascii (snd item)"
      using t ch rx_members_ascii [OF t]
      by (auto simp: item_def rx_escape_ascii is_ascii_def split: list.splits)
    show ?thesis
      using Suc.IH t ch Suc.IH [OF rx_quantifier_ascii [OF item(2)]] item(1)
      unfolding Cons rx_items.simps list.case item_def [symmetric]
      by (simp add: ascii_classes_def case_prod_unfold Let_def)
  qed (simp add: ascii_classes_def)
qed (simp add: ascii_classes_def)

lemma table_ascii:
  "list_all (\<lambda>(_, f). list_all (list_all is_ascii) (pf_formats f)) phoneFormats"
  by (simp add: phoneFormats_def rx_def is_ascii_def backslash_def)

lemma MatchString_ascii:
  assumes "list_all is_ascii p" and "MatchString p s"
  shows "list_all is_ascii s"
proof -
  have "is_ascii ch" if "ch \<in> set s" for ch
  proof -
    obtain cls q where "(cls, q) \<in> set (rx_items (length p) p)" "in_class ch cls"
      using rx_match_classes assms(2) \<open>ch \<in> set s\<close> unfolding MatchString_def by metis
    with rx_items_ascii [OF assms(1), of "length p"] show ?thesis
      by (fastforce simp: ascii_classes_def list_all_iff in_class_def list_ex_iff byte_in_def is_ascii_def)
  qed
  then show ?thesis by (simp add: list_all_iff)
qed

lemma digits_of_ascii: "list_all is_ascii s \<Longrightarrow> digits_of U s = filter is_dec_digit s"
  unfolding digits_of_def
  by (subst str_keep_ascii)
    (auto simp: rune_digit_def is_ascii_def is_dec_digit_def list_all_iff intro: filter_cong)

lemma try_patterns_Some:
  assumes "try_patterns U country f ps cleaned = Some out"
    and "list_all (list_all is_ascii) ps"
  shows "list_all is_ascii cleaned" and "after_match U country f cleaned = Some out"
  using assms by (induction ps) (auto dest: MatchString_ascii split: if_splits option.splits)

lemma normalize_matched:
  assumes "normalizeForCountry U phone country = Inr out"
  obtains f where "map_of phoneFormats (ToUpper U country) = Some f"
    and "list_all is_ascii (trim_space phone)" and "after_match U country f (trim_space phone) = Some out"
proof -
  obtain f where f: "map_of phoneFormats (ToUpper U country) = Some f"
    and "try_patterns U country f (pf_formats f) (trim_space phone) = Some out"
    using assms by (auto simp: normalizeForCountry_def split: option.splits)
  moreover have "list_all (list_all is_ascii) (pf_formats f)"
    using table_ascii map_of_SomeD [OF f] by (auto simp: list_all_iff)
  ultimately show ?thesis using that try_patterns_Some by metis
qed

section \<open>The shape of a normalised number\<close>

text \<open>The digits after the prefix: Argentina gets a 9 in front of its ten.\<close>

definition phone_length :: "string \<Rightarrow> phone_format \<Rightarrow> nat" where
  "phone_length country f = (if country = ''AR'' then 11 else pf_normalizedLen f)"

lemma ToUpper_codes:
  "ToUpper U ''BR'' = ''BR''" "ToUpper U ''CL'' = ''CL''" "ToUpper U ''CO'' = ''CO''" "ToUpper U ''UY'' = ''UY''"
  by code_simp+

lemma table_lengths:
  "map_option pf_normalizedLen (map_of phoneFormats ''BR'') = Some 11"
  "map_option pf_normalizedLen (map_of phoneFormats ''CL'') = Some 9"
  "map_option pf_normalizedLen (map_of phoneFormats ''CO'') = Some 10"
  "map_option pf_normalizedLen (map_of phoneFormats ''UY'') = Some 8"
  by (simp_all add: phoneFormats_def)

lemma trim_prefix_digits: "list_all P s \<Longrightarrow> list_all P (trim_prefix s p)"
  by (auto simp: trim_prefix_def strip_prefix_iff split: option.splits)

lemma take_drop_all: "list_all P s \<Longrightarrow> list_all P (take n s) \<and> list_all P (drop n s)"
  by (auto simp: list_all_iff dest: in_set_takeD in_set_dropD)

lemma list_all_parts:
  "list_all P (u @ v) \<longleftrightarrow> list_all P u \<and> list_all P v"
  "list_all P s \<Longrightarrow> list_all P (tl s)"
  by (simp, cases s) simp_all

lemma country_case_shape:
  assumes "country_case country f digits = Some out" and "list_all is_dec_digit digits"
    and "map_of phoneFormats (ToUpper U country) = Some f"
  shows "\<exists>ds. out = pf_countryPrefix f @ ds \<and> list_all is_dec_digit ds \<and> length ds = phone_length country f"
proof -
  have nine: "is_dec_digit (CHR ''9'')" by (simp add: is_dec_digit_def)
  note cut = trim_prefix_digits [OF assms(2)] take_drop_all [OF trim_prefix_digits [OF assms(2)]]
    take_drop_all [OF assms(2)] list_all_parts(1) list_all_parts(2) [OF trim_prefix_digits [OF assms(2)]] nine
  consider "country = ''AR''" | "country = ''BR''" | "country = ''CL''" | "country = ''CO''" | "country = ''UY''"
    | (other) "country \<notin> {''AR'', ''BR'', ''CL'', ''CO'', ''UY''}" by auto
  then show ?thesis
  proof cases
    case 1
    with assms(1) cut show ?thesis
      by (auto simp: country_case_def Let_def phone_length_def split: if_splits option.splits)
  next
    case 2
    with assms(3) table_lengths(1) have "pf_normalizedLen f = 11" by (simp add: ToUpper_codes)
    with 2 assms(1) cut show ?thesis
      by (auto simp: country_case_def Let_def phone_length_def split: if_splits)
  next
    case 3
    with assms(3) table_lengths(2) have "pf_normalizedLen f = 9" by (simp add: ToUpper_codes)
    with 3 assms(1) cut show ?thesis
      by (auto simp: country_case_def Let_def phone_length_def split: if_splits)
  next
    case 4
    with assms(3) table_lengths(3) have "pf_normalizedLen f = 10" by (simp add: ToUpper_codes)
    with 4 assms(1,2) show ?thesis
      by (auto simp: country_case_def Let_def phone_length_def split: if_splits)
  next
    case 5
    with assms(3) table_lengths(4) have "pf_normalizedLen f = 8" by (simp add: ToUpper_codes)
    with 5 assms(1) cut show ?thesis
      by (auto simp: country_case_def Let_def phone_length_def split: if_splits)
  next
    case other
    with assms(1) cut show ?thesis
      by (auto simp: country_case_def Let_def phone_length_def split: if_splits)
  qed
qed

lemma after_match_shape:
  assumes "after_match U country f cleaned = Some out" and "list_all is_ascii cleaned"
    and "map_of phoneFormats (ToUpper U country) = Some f"
  shows "\<exists>ds. out = pf_countryPrefix f @ ds \<and> list_all is_dec_digit ds \<and> length ds = phone_length country f"
proof -
  have digits: "list_all is_dec_digit (digits_of U cleaned)"
    using assms(2) by (simp add: digits_of_ascii list_all_iff)
  show ?thesis
  proof (cases "country = ''AR'' \<and> has_prefix cleaned ''+54 9 ''
      \<and> length (trim_prefix (digits_of U cleaned) ''54'') = 11
      \<and> has_prefix (trim_prefix (digits_of U cleaned) ''54'') ''9''")
    case True
    then have "out = pf_countryPrefix f @ trim_prefix (digits_of U cleaned) ''54''"
      using assms(1) by (simp add: after_match_def)
    with True trim_prefix_digits [OF digits] show ?thesis
      by (simp add: phone_length_def)
  next
    case False
    with assms(1) have "country_case country f
        (trim_prefix (digits_of U cleaned) (trim_prefix (pf_countryPrefix f) ''+'')) = Some out"
      unfolding after_match_def Let_def by (simp only: if_False)
    from country_case_shape [OF this trim_prefix_digits [OF digits] assms(3)] show ?thesis .
  qed
qed

lemma normalizeForCountry_shape:
  assumes "normalizeForCountry U phone country = Inr out"
  shows "\<exists>f ds. map_of phoneFormats (ToUpper U country) = Some f \<and> out = pf_countryPrefix f @ ds
     \<and> list_all is_dec_digit ds \<and> length ds = phone_length country f"
  using normalize_matched [OF assms] after_match_shape by metis

section \<open>Separators do not matter\<close>

lemma trim_left_by_filter:
  assumes "list_all (list_all (\<lambda>ch. \<not> P ch)) seqs"
  shows "filter P (trim_left_by seqs s) = filter P s"
  using assms
proof (induction seqs s rule: trim_left_by.induct)
  case (1 seqs s)
  show ?case
  proof (cases "s = [] \<or> space_len seqs s = 0")
    case False
    then obtain w where w: "find (\<lambda>w. strip_prefix w s \<noteq> None) seqs = Some w" "space_len seqs s = length w"
      by (auto simp: space_len_def split: option.splits)
    then obtain r where s: "s = w @ r" and "w \<in> set seqs"
      by (auto simp: find_Some_iff strip_prefix_iff)
    with 1(2) have "filter P w = []"
      unfolding filter_empty_conv list_all_iff by blast
    with 1 False show ?thesis
      by (simp add: trim_left_by.simps [of seqs s] w(2)) (simp add: s)
  qed (simp add: trim_left_by.simps [of seqs s])
qed

lemma filter_trim_space: "filter is_dec_digit (trim_space s) = filter is_dec_digit s"
proof -
  have digits: "list_all (list_all (\<lambda>ch. \<not> is_dec_digit ch)) space_seqs"
    "list_all (list_all (\<lambda>ch. \<not> is_dec_digit ch)) (map rev space_seqs)"
    by (simp_all add: space_seqs_def ascii_spaces_def wide_spaces_def is_dec_digit_def)
  show ?thesis
    using trim_left_by_filter [OF digits(1)] trim_left_by_filter [OF digits(2)]
    by (simp add: trim_space_def trim_left_def trim_right_def rev_filter [symmetric])
qed

lemma after_match_digits:
  "country \<noteq> ''AR'' \<Longrightarrow> list_all is_ascii cleaned \<Longrightarrow> after_match U country f cleaned =
     country_case country f (trim_prefix (filter is_dec_digit cleaned) (trim_prefix (pf_countryPrefix f) ''+''))"
  by (simp add: after_match_def digits_of_ascii)

section \<open>Input without white space around it\<close>

definition graphic :: "char \<Rightarrow> bool" where
  "graphic ch = byte_in 33 126 ch"

definition visible :: "string \<Rightarrow> bool" where
  "visible s = (s \<noteq> [] \<and> graphic (hd s) \<and> graphic (last s))"

lemma trim_left_by_graphic:
  assumes "list_all (\<lambda>w. w \<noteq> [] \<and> \<not> graphic (hd w)) seqs" and "graphic (hd s)"
  shows "trim_left_by seqs s = s"
proof (cases "s = []")
  case False
  have "strip_prefix w s = None" if "w \<in> set seqs" for w
    using assms that False by (cases w; cases s) (auto simp: list_all_iff)
  then have "find (\<lambda>w. strip_prefix w s \<noteq> None) seqs = None"
    unfolding find_None_iff by simp
  then show ?thesis by (simp add: trim_left_by.simps [of seqs s] space_len_def)
qed (simp add: trim_left_by.simps [of seqs "[]"])

lemma trim_space_visible: "visible s \<Longrightarrow> trim_space s = s"
proof -
  assume s: "visible s"
  have "list_all (\<lambda>w. w \<noteq> [] \<and> \<not> graphic (hd w)) space_seqs"
    "list_all (\<lambda>w. w \<noteq> [] \<and> \<not> graphic (hd w)) (map rev space_seqs)"
    by (simp_all add: space_seqs_def ascii_spaces_def wide_spaces_def graphic_def byte_in_def)
  with s show ?thesis
    by (simp add: trim_space_def trim_left_def trim_right_def trim_left_by_graphic visible_def hd_rev)
qed

lemma normalize_visible:
  "visible s \<Longrightarrow> normalizeForCountry U s c = (case map_of phoneFormats (ToUpper U c) of
       None \<Rightarrow> Inl (''unsupported country code: '' @ c)
     | Some f \<Rightarrow> (case try_patterns U c f (pf_formats f) s of
           Some out \<Rightarrow> Inr out
         | None \<Rightarrow> Inl (''phone number does not match any format for country '' @ c)))"
  unfolding normalizeForCountry_def by (simp only: trim_space_visible)

lemma sample_numbers:
  "normalizeForCountry U ''(555) 123-4567'' ''US'' = Inr ''+15551234567''"
  "normalizeForCountry U ''555.123.4567'' ''US'' = Inr ''+15551234567''"
  "normalizeForCountry U ''11 99999-1234'' ''BR'' = Inr ''+5511999991234''"
  "normalizeForCountry U ''55 99999-1234'' ''BR'' =
     Inl ''phone number does not match any format for country BR''"
  "normalizeForCountry U ''11 15 1234-5678'' ''AR'' = Inr ''+5491112345678''"
  "normalizeForCountry U ''+5491112345678'' ''AR'' =
     Inl ''phone number does not match any format for country AR''"
  by (subst normalize_visible; code_simp)+

section \<open>Properties\<close>

definition sample_unicode :: unicode_tables where
  "sample_unicode = \<lparr>un_letter = \<lambda>_. False, un_digit = \<lambda>_. False, un_lower = id, un_upper = id, un_title = id\<rparr>"

text \<open>
  C35: when \<open>NormalizePhone\<close> succeeds, its result is the prefix of the default country or of the
  detected one, followed by exactly as many decimal digits as numbers of that country have.
\<close>

theorem NormalizePhone_shape:
  assumes "NormalizePhone U order c v = Inr w"
  shows "\<exists>s country f ds. v = VStr s \<and> country \<in> {c, detectCountry order (phone_chars U s) c}
     \<and> map_of phoneFormats (ToUpper U country) = Some f \<and> w = VStr (pf_countryPrefix f @ ds)
     \<and> list_all is_dec_digit ds \<and> length ds = phone_length country f"
proof -
  obtain s where v: "v = VStr s"
    using assms by (cases v) (simp_all add: NormalizePhone_def with_string_def)
  with assms obtain out country where w: "w = VStr out"
    and c: "country \<in> {c, detectCountry order (phone_chars U s) c}"
    and out: "normalizeForCountry U s country = Inr out"
    by (auto simp: NormalizePhone_def with_string_def Let_def split: sum.splits)
  from normalizeForCountry_shape [OF out] v w c show ?thesis by blast
qed

lemma sample_number:
  "NormalizePhone sample_unicode countryPrefixes ''US'' (VStr ''(555) 123-4567'') = Inr (VStr ''+15551234567'')"
  by (simp add: NormalizePhone_def with_string_def sample_numbers)

theorem NormalizePhone_shape_witness:
  "\<exists>country f ds. map_of phoneFormats (ToUpper sample_unicode country) = Some f
     \<and> ''+15551234567'' = pf_countryPrefix f @ ds \<and> length ds = phone_length country f"
  using NormalizePhone_shape [OF sample_number] by auto

text \<open>
  But for Argentina, the result depends on the digits of the input alone: two inputs that
  differ in separators only and are both accepted are normalised to the same number.
\<close>

theorem NormalizePhone_separators:
  assumes "NormalizePhoneWithCountry U c (VStr s) = Inr a" and "NormalizePhoneWithCountry U c (VStr t) = Inr b"
    and "filter is_dec_digit s = filter is_dec_digit t" and "c \<noteq> ''AR''"
  shows "a = b"
proof -
  obtain x y where x: "a = VStr x" "normalizeForCountry U s c = Inr x"
    and y: "b = VStr y" "normalizeForCountry U t c = Inr y"
    using assms(1,2) by (auto simp: NormalizePhoneWithCountry_def with_string_def split: sum.splits)
  obtain f where f: "map_of phoneFormats (ToUpper U c) = Some f"
    and s: "list_all is_ascii (trim_space s)" "after_match U c f (trim_space s) = Some x"
    using normalize_matched [OF x(2)] .
  obtain g where "map_of phoneFormats (ToUpper U c) = Some g"
    and t: "list_all is_ascii (trim_space t)" "after_match U c g (trim_space t) = Some y"
    using normalize_matched [OF y(2)] .
  with f s t assms(3,4) show ?thesis
    by (simp add: x(1) y(1) after_match_digits filter_trim_space)
qed

lemma sample_separators:
  "NormalizePhoneWithCountry sample_unicode ''US'' (VStr ''555.123.4567'') = Inr (VStr ''+15551234567'')"
  "NormalizePhoneWithCountry sample_unicode ''US'' (VStr ''(555) 123-4567'') = Inr (VStr ''+15551234567'')"
  by (simp_all add: NormalizePhoneWithCountry_def with_string_def sample_numbers)

theorem NormalizePhone_separators_witness:
  "VStr ''+15551234567'' = VStr (''+1'' @ ''5551234567'')
   \<and> filter is_dec_digit ''555.123.4567'' = filter is_dec_digit ''(555) 123-4567''"
  using NormalizePhone_separators [OF sample_separators] by (simp add: is_dec_digit_def)

text \<open>
  Some numbers are rejected that are not malformed. A Brazilian number without country code
  whose area code is 55, one the code lists as Brazilian, loses its area code as if it were the
  country code; and the normal form of an Argentinian number is not accepted as input.
\<close>

theorem NormalizePhone_rejects:
  "NormalizePhoneWithCountry U ''BR'' (VStr ''11 99999-1234'') = Inr (VStr ''+5511999991234'')
   \<and> NormalizePhoneWithCountry U ''BR'' (VStr ''55 99999-1234'') =
       Inl ''phone number does not match any format for country BR''
   \<and> NormalizePhoneWithCountry U ''AR'' (VStr ''11 15 1234-5678'') = Inr (VStr ''+5491112345678'')
   \<and> NormalizePhoneWithCountry U ''AR'' (VStr ''+5491112345678'') =
       Inl ''phone number does not match any format for country AR''"
  by (simp add: NormalizePhoneWithCountry_def with_string_def sample_numbers)

end
