(* ===== verification/Async.thy ===== *)
theory Async
  imports Acceptance
begin

text \<open>
  The asynchronous passes: \<open>ValidateAndTransformAsync\<close> of \<open>queryfy.go\<close> and the methods of this name
  and \<open>HasAsyncValidators\<close> in \<open>builders/object.go\<close>, \<open>array.go\<close> and \<open>transform.go\<close>. Asynchronous
  validators run one after the other. What they answer, and whether the Go context has been
  cancelled, may change from one question to the next; the questions are numbered, and the number
  of the next one is part of the state. A run that panics returns None. An asynchronous run adds to
  the context only, comes after the synchronous pass and keeps its value; over the elements of an
  array it repeats this pass on what it returned.
\<close>

section \<open>State\<close>

text \<open>\<open>gc_Err G n\<close>: what \<open>goCtx.Err()\<close> says when it is asked as the \<open>n\<close>-th question.\<close>

record go_context =
  gc_Err :: "nat \<Rightarrow> string option"

type_synonym async_state = "validation_context \<times> nat"

type_synonym async_fun = "gval \<Rightarrow> async_state \<Rightarrow> (async_state \<times> gval \<times> go_error option) option"

text \<open>The methods of an \<open>AsyncTransformableSchema\<close> that its holders call.\<close>

record async_methods =
  am_has :: bool
  am_run :: async_fun

definition cancel_error :: "string \<Rightarrow> gval \<Rightarrow> validation_context \<Rightarrow> validation_context" where
  "cancel_error err v c = AddError (''validation cancelled: '' @ err) v c"

text \<open>The final loop over the asynchronous validators of a schema.\<close>

fun run_async :: "go_context \<Rightarrow> async_validator list \<Rightarrow> gval \<Rightarrow> async_state \<Rightarrow> async_state" where
  "run_async G [] v cn = cn"
| "run_async G (f # fs) v (c, n) = (case gc_Err G n of
       Some err \<Rightarrow> (cancel_error err v c, Suc n)
     | None \<Rightarrow> run_async G fs v
         (case f (Suc n) v of None \<Rightarrow> c | Some e \<Rightarrow> AddError e v c, Suc (Suc n)))"

definition async_return :: "gval \<Rightarrow> async_state \<Rightarrow> (async_state \<times> gval \<times> go_error option) option" where
  "async_return w cn = Some (cn, w, ctx_Error (fst cn))"

section \<open>Transform\<close>

fun Transform_AsyncCustom :: "async_validator \<Rightarrow> 's transform_schema \<Rightarrow> 's transform_schema" where
  "Transform_AsyncCustom f (TransformSchema b s ts as) = TransformSchema b s ts (as @ [f])"

definition Transform_Meta :: "string \<Rightarrow> gval \<Rightarrow> 's transform_schema \<Rightarrow> 's transform_schema" where
  "Transform_Meta k v s = tf_map_base (SetMeta k v) s"

definition Transform_HasAsync :: "'s transform_schema \<Rightarrow> bool" where
  "Transform_HasAsync s = (0 < length (tf_asyncValidators s))"

definition transform_async :: "go_context \<Rightarrow> iface transform_schema \<Rightarrow> async_fun" where
  "transform_async G s v cn = (case cn of (c, n) \<Rightarrow> (case transform_vat s v c of (c, w, e) \<Rightarrow>
     if e \<noteq> None then Some ((c, n), w, e)
     else async_return w (run_async G (tf_asyncValidators s) w (c, n))))"

section \<open>Array\<close>

definition array_HasAsync :: "async_methods option array_schema \<Rightarrow> bool" where
  "array_HasAsync a = (ar_asyncValidators a \<noteq> []
     \<or> (case ar_elementSchema a of Some (Some am) \<Rightarrow> am_has am | _ \<Rightarrow> False))"

text \<open>The loop over the elements; the flag is True when the context was cancelled.\<close>

fun async_elems :: "go_context \<Rightarrow> async_fun \<Rightarrow> gval \<Rightarrow> nat \<Rightarrow> gval list \<Rightarrow> async_state \<Rightarrow>
    (async_state \<times> bool) option" where
  "async_elems G run w i [] cn = Some (cn, False)"
| "async_elems G run w i (x # xs) (c, n) = (case gc_Err G n of
       Some err \<Rightarrow> Some ((cancel_error err w c, Suc n), True)
     | None \<Rightarrow> (case run x (PushIndex (int i) c, Suc n) of
           None \<Rightarrow> None
         | Some ((c, n), _) \<Rightarrow> async_elems G run w (Suc i) xs (PopPath c, n)))"

definition array_async :: "env \<Rightarrow> go_context \<Rightarrow> iface array_schema \<Rightarrow> async_methods option array_schema \<Rightarrow>
    async_fun" where
  "array_async E G s a v cn = (case cn of (c, n) \<Rightarrow> (case array_vat E s v c of (c, w, e) \<Rightarrow>
     if e \<noteq> None then Some ((c, n), w, e)
     else (case gc_Err G n of
         Some err \<Rightarrow> async_return w (cancel_error err w c, Suc n)
       | None \<Rightarrow>
           (case (case ar_elementSchema a of
               Some (Some am) \<Rightarrow> (case w of
                   VSlice items \<Rightarrow> async_elems G (am_run am) w 0 items (c, Suc n)
                 | _ \<Rightarrow> None)
             | _ \<Rightarrow> Some ((c, Suc n), False)) of
               None \<Rightarrow> None
             | Some (cn, True) \<Rightarrow> async_return w cn
             | Some (cn, False) \<Rightarrow> async_return w (run_async G (ar_asyncValidators a) w cn)))))"

section \<open>Object\<close>

definition object_HasAsync :: "async_methods option object_schema \<Rightarrow> bool" where
  "object_HasAsync a = (ob_asyncValidators a \<noteq> []
     \<or> list_ex (\<lambda>(_, f). case f of Some am \<Rightarrow> am_has am | None \<Rightarrow> False) (ob_fields a))"

text \<open>The loop over the fields that the result has.\<close>

fun async_fields :: "go_context \<Rightarrow> async_methods option object_schema \<Rightarrow> gval gmap \<Rightarrow> string list \<Rightarrow>
    async_state \<Rightarrow> (async_state \<times> bool) option" where
  "async_fields G a result [] cn = Some (cn, False)"
| "async_fields G a result (name # names) (c, n) = (case map_of result name of
       None \<Rightarrow> async_fields G a result names (c, n)
     | Some fv \<Rightarrow> (case gc_Err G n of
         Some err \<Rightarrow> Some ((cancel_error err (VMap result) c, Suc n), True)
       | None \<Rightarrow> (case map_of (ob_fields a) name of
           Some (Some am) \<Rightarrow> (case am_run am fv (PushPath name c, Suc n) of
               None \<Rightarrow> None
             | Some ((c, n), _) \<Rightarrow> async_fields G a result names (PopPath c, n))
         | _ \<Rightarrow> async_fields G a result names (c, Suc n))))"

text \<open>After the synchronous pass, which is the code of \<open>ValidateAndTransform\<close> once more.\<close>

definition object_async_phase :: "env \<Rightarrow> go_context \<Rightarrow> async_methods option object_schema \<Rightarrow> gval gmap \<Rightarrow>
    async_state \<Rightarrow> (async_state \<times> gval \<times> go_error option) option" where
  "object_async_phase E G a result cn = (let w = VMap result in case cn of (c, n) \<Rightarrow>
     (case gc_Err G n of
        Some err \<Rightarrow> async_return w (cancel_error err w c, Suc n)
      | None \<Rightarrow> (case async_fields G a result (range_keys E c (ob_fields a)) (c, Suc n) of
            None \<Rightarrow> None
          | Some (cn, True) \<Rightarrow> async_return w cn
          | Some (cn, False) \<Rightarrow> async_return w (run_async G (ob_asyncValidators a) w cn))))"

definition object_async :: "env \<Rightarrow> go_context \<Rightarrow> iface object_schema \<Rightarrow> async_methods option object_schema \<Rightarrow>
    async_fun" where
  "object_async E G s a v cn = (case cn of (c, n) \<Rightarrow> (case CheckRequired (ob_base s) v c of (c, go) \<Rightarrow>
     if \<not> go then async_return v (c, n)
     else (case ValidateValue (e_lib E) v TypeObject c of (c, valid) \<Rightarrow>
       if \<not> valid then async_return v (c, n)
       else (case convertToMap v of
           None \<Rightarrow> async_return v (AddError (''cannot convert '' @ type_name v @ '' to map'') v c, n)
         | Some objMap \<Rightarrow> (case object_map_vat E s objMap c of (c, w, _) \<Rightarrow>
             if HasErrors c then async_return w (c, n)
             else object_async_phase E G a (case w of VMap result \<Rightarrow> result | _ \<Rightarrow> []) (c, n))))))"

section \<open>All schemas\<close>

text \<open>
  The schemas with the methods; \<open>ObjectSchemaWithDependencies\<close> has those of the object it embeds.
\<close>

primrec async_of :: "env \<Rightarrow> go_context \<Rightarrow> schema \<Rightarrow> async_methods option" where
  "async_of E G (StringS s) = None"
| "async_of E G (NumberS s) = None"
| "async_of E G (BoolS s) = None"
| "async_of E G (CustomS s) = None"
| "async_of E G (DateTimeS s) = None"
| "async_of E G (ObjectS s) = (let a = map_object_schema (async_of E G) s in
     Some \<lparr>am_has = object_HasAsync a, am_run = object_async E G (map_object_schema (iface_of E) s) a\<rparr>)"
| "async_of E G (DepObjectS s) = (let a = do_object (map_dep_object_schema (async_of E G) s) in
     Some \<lparr>am_has = object_HasAsync a,
       am_run = object_async E G (do_object (map_dep_object_schema (iface_of E) s)) a\<rparr>)"
| "async_of E G (ArrayS s) = (let a = map_array_schema (async_of E G) s in
     Some \<lparr>am_has = array_HasAsync a, am_run = array_async E G (map_array_schema (iface_of E) s) a\<rparr>)"
| "async_of E G (AndS s) = None"
| "async_of E G (OrS s) = None"
| "async_of E G (NotS s) = None"
| "async_of E G (TransformS s) =
     Some \<lparr>am_has = Transform_HasAsync s,
       am_run = transform_async G (map_transform_schema (iface_of E) s)\<rparr>"
| "async_of E G (DependentS s) = None"
| "async_of E G (CompiledS s) = None"

definition HasAsyncValidators :: "env \<Rightarrow> go_context \<Rightarrow> schema \<Rightarrow> bool" where
  "HasAsyncValidators E G s = (case async_of E G s of None \<Rightarrow> False | Some am \<Rightarrow> am_has am)"

definition ValidateAndTransformAsync :: "env \<Rightarrow> go_context \<Rightarrow> gval \<Rightarrow> schema \<Rightarrow> vmode \<Rightarrow>
    (gval \<times> go_error option) option" where
  "ValidateAndTransformAsync E G data s m =
     (case (case async_of E G s of
         None \<Rightarrow> None | Some am \<Rightarrow> if am_has am then Some am else None) of
       Some am \<Rightarrow> map_option snd (am_run am data (NewValidationContext m, 0))
     | None \<Rightarrow> Some (ValidateAndTransform E data s m))"

section \<open>The synchronous pass comes first\<close>

text \<open>
  An asynchronous run after a synchronous one that returned \<open>w\<close> and the error \<open>e\<close>: with an error,
  it is this result and no question has been asked; else it has the same value.
\<close>

definition after_sync :: "gval \<Rightarrow> go_error option \<Rightarrow> validation_context \<Rightarrow> nat \<Rightarrow>
    (async_state \<times> gval \<times> go_error option) option \<Rightarrow> bool" where
  "after_sync w e c n r =
     (if e \<noteq> None then r = Some ((c, n), w, e) else case r of None \<Rightarrow> True | Some (_, w', _) \<Rightarrow> w' = w)"

lemma transform_after_sync:
  "transform_vat s v c = (c', w, e) \<Longrightarrow> after_sync w e c' n (transform_async G s v (c, n))"
  by (simp add: after_sync_def transform_async_def async_return_def)

lemma array_after_sync:
  "array_vat E s v c = (c', w, e) \<Longrightarrow> after_sync w e c' n (array_async E G s a v (c, n))"
  by (auto simp: after_sync_def array_async_def async_return_def split: option.split bool.split prod.split)

lemma object_map_vat_returns:
  "object_map_vat E s objMap c = (c', w, e) \<Longrightarrow> e = ctx_Error c' \<and> (\<exists>result. w = VMap result)"
  by (auto simp: object_map_vat_def Let_def split: prod.splits)

lemma object_async_phase_value:
  "case object_async_phase E G a result cn of None \<Rightarrow> True | Some (_, w, _) \<Rightarrow> w = VMap result"
  by (auto simp: object_async_phase_def Let_def async_return_def split: option.split bool.split prod.split)

lemma ctx_Error_None: "ctx_Error c = None \<longleftrightarrow> \<not> HasErrors c"
  by (simp add: ctx_Error_def)

lemma object_after_sync:
  assumes "object_vat E s v c = (c', w, e)"
  shows "after_sync w e c' n (object_async E G s a v (c, n))"
proof -
  obtain c1 go where required: "CheckRequired (ob_base s) v c = (c1, go)" by fastforce
  obtain c2 valid where type: "ValidateValue (e_lib E) v TypeObject c1 = (c2, valid)" by fastforce
  have phase: "after_sync w e c' n (object_async E G s a v (c, n))"
    if "go" "valid" "convertToMap v = Some objMap" for objMap
  proof -
    obtain c3 u f where run: "object_map_vat E s objMap c2 = (c3, u, f)" by (cases "object_map_vat E s objMap c2")
    with object_map_vat_returns obtain result where u: "f = ctx_Error c3" "u = VMap result" by blast
    have "c' = c3" "w = u" "e = f"
      using assms required type that run by (simp_all add: object_vat_def checked_vat_def)
    with required type that run u object_async_phase_value [of result E G a "(c3, n)"] show ?thesis
      by (auto simp: after_sync_def object_async_def async_return_def ctx_Error_None)
  qed
  show ?thesis
  proof (cases "go \<and> valid \<and> convertToMap v \<noteq> None")
    case True
    with phase show ?thesis by blast
  next
    case False
    with assms required type show ?thesis
      by (auto simp: after_sync_def object_async_def object_vat_def checked_vat_def async_return_def
          Let_def split: option.splits if_splits)
  qed
qed

lemma async_of_methods:
  assumes "async_of E G s = Some am"
  obtains g where "i_vat (iface_of E s) = Some g"
    and "\<And>v c c' w e n. g v c = (c', w, e) \<Longrightarrow> after_sync w e c' n (am_run am v (c, n))"
proof (cases s)
  case (ObjectS o1)
  show thesis
    by (rule that [of "object_vat E (map_object_schema (iface_of E) o1)"])
      (use assms ObjectS object_after_sync in \<open>auto simp: object_iface_def base_iface_def Let_def\<close>)
next
  case (DepObjectS d)
  show thesis
    by (rule that [of "object_vat E (do_object (map_dep_object_schema (iface_of E) d))"])
      (use assms DepObjectS object_after_sync in
        \<open>auto simp: dep_object_iface_def object_iface_def base_iface_def Let_def\<close>)
next
  case (ArrayS a)
  show thesis
    by (rule that [of "array_vat E (map_array_schema (iface_of E) a)"])
      (use assms ArrayS array_after_sync in \<open>auto simp: base_iface_def Let_def\<close>)
next
  case (TransformS t)
  show thesis
    by (rule that [of "transform_vat (map_transform_schema (iface_of E) t)"])
      (use assms TransformS transform_after_sync in \<open>auto simp: transform_iface_def\<close>)
qed (use assms in auto)

text \<open>
  C5: \<open>ValidateAndTransformAsync\<close> never changes what the synchronous pass decided against: when
  \<open>ValidateAndTransform\<close> fails, the result is the same value and the same error. When it succeeds,
  the asynchronous run returns its value, possibly with an error, unless it panics; without
  asynchronous validators the two are the same.
\<close>

theorem async_after_sync:
  "case ValidateAndTransform E data s m of (w, e) \<Rightarrow>
     (case ValidateAndTransformAsync E G data s m of
        None \<Rightarrow> e = None
      | Some (w', e') \<Rightarrow> w' = w \<and> (e \<noteq> None \<longrightarrow> e' = e))
     \<and> (\<not> HasAsyncValidators E G s \<longrightarrow> ValidateAndTransformAsync E G data s m = Some (w, e))"
proof (cases "case async_of E G s of None \<Rightarrow> None | Some am \<Rightarrow> if am_has am then Some am else None")
  case None
  then show ?thesis
    by (auto simp: ValidateAndTransformAsync_def split: prod.split option.splits)
next
  case (Some am)
  then have am: "async_of E G s = Some am" "am_has am"
    by (auto split: option.splits if_splits)
  obtain g where g: "i_vat (iface_of E s) = Some g"
    and sync: "\<And>v c c' w e n. g v c = (c', w, e) \<Longrightarrow> after_sync w e c' n (am_run am v (c, n))"
    using async_of_methods [OF am(1)] by metis
  obtain c' w e where run: "g data (NewValidationContext m) = (c', w, e)"
    by (cases "g data (NewValidationContext m)")
  from sync [OF run, of 0] am g run show ?thesis
    by (auto simp: ValidateAndTransform_def ValidateAndTransformAsync_def HasAsyncValidators_def
        after_sync_def Let_def split: option.splits if_splits)
qed

section \<open>An array of flags\<close>

text \<open>A transformer that reads a string as a flag, and refuses what is not a string.\<close>

definition read_flag :: transformer where
  "read_flag v = (case v of VStr s \<Rightarrow> Inr (VBool (s = ''on'')) | _ \<Rightarrow> Inl ''expected string'')"

definition flag_schema :: schema where
  "flag_schema = TransformS (TransformSchema (new_base TypeTransform) (BoolS Bool_new) [read_flag] [\<lambda>_ _. None])"

definition flags_array :: schema where
  "flags_array = ArrayS (Array_Nullable (ArraySchema (new_base TypeArray) (Some flag_schema) None None False [] []))"

definition never_cancelled :: go_context where
  "never_cancelled = \<lparr>gc_Err = \<lambda>_. None\<rparr>"

lemmas flag_run = flags_array_def flag_schema_def never_cancelled_def new_base_def Array_Nullable_def
  SetNullable_def Bool_new_def base_iface_def transform_iface_def array_vat_def checked_vat_def
  CheckRequired_def array_slice_vat_def array_checks_def as_slice_def ValidateValue_eq type_ok_array
  type_ok_bool transform_vat_def read_flag_def bool_Validate_def guarded_def typed_eq vat_elem_def
  run_validators_def PushIndex_def PopPath_def PushPath_def AddError_def RecordTransformation_def NewValidationContext_def ctx_Error_def HasErrors_def Let_def

theorem async_after_sync_witness:
  "\<not> HasAsyncValidators sample_env never_cancelled (BoolS Bool_new)
   \<and> ValidateAndTransformAsync sample_env never_cancelled (VBool True) (BoolS Bool_new) Strict
       = Some (VBool True, None)
   \<and> snd (ValidateAndTransform sample_env VNil flag_schema Strict) \<noteq> None
   \<and> ValidateAndTransformAsync sample_env never_cancelled VNil flag_schema Strict
       = Some (ValidateAndTransform sample_env VNil flag_schema Strict)"
proof -
  have "\<not> HasAsyncValidators sample_env never_cancelled (BoolS Bool_new)"
    by (simp add: HasAsyncValidators_def)
  moreover have "ValidateAndTransform sample_env (VBool True) (BoolS Bool_new) Strict = (VBool True, None)"
    by (simp add: ValidateAndTransform_def validate_def flag_run, rule exI [of _ True], simp)
  moreover have "snd (ValidateAndTransform sample_env VNil flag_schema Strict) \<noteq> None"
    by (simp add: ValidateAndTransform_def flag_run)
  moreover have "ValidateAndTransformAsync sample_env never_cancelled VNil flag_schema Strict \<noteq> None"
    by (simp add: ValidateAndTransformAsync_def transform_async_def async_return_def
        Transform_HasAsync_def flag_run)
  ultimately show ?thesis
    using async_after_sync [where E = sample_env and G = never_cancelled and data = "VBool True" and s = "BoolS Bool_new" and m = Strict]
      async_after_sync [where E = sample_env and G = never_cancelled and data = VNil and s = flag_schema and m = Strict]
    by (auto split: prod.splits option.splits)
qed

section \<open>Asynchronous runs only append\<close>

definition run_extends :: "async_methods option \<Rightarrow> bool" where
  "run_extends m = (case m of None \<Rightarrow> True
     | Some am \<Rightarrow> \<forall>v c n. case am_run am v (c, n) of None \<Rightarrow> True | Some ((c', _), _) \<Rightarrow> extends c c')"

lemma run_extendsD: "run_extends (Some am) \<Longrightarrow> am_run am v (c, n) = Some ((c', n'), r) \<Longrightarrow> extends c c'"
  by (auto simp: run_extends_def dest!: spec [of _ v] spec [of _ c] spec [of _ n])

lemma extends_path: "extends (PushPath k c) c' \<Longrightarrow> extends c (PopPath c')"
  by (auto simp: extends_def PopPath_PushPath)

lemma PushIndex_PushPath: "PushIndex i c = PushPath (index_segment i) c"
  by (simp add: PushIndex_def PushPath_def)

lemma cancel_error_extends [simp]: "extends c (cancel_error err v c)" "c_errors (cancel_error err v c) \<noteq> []"
  by (simp_all add: cancel_error_def)

lemma run_async_extends: "run_async G fs v (c, n) = (c', n') \<Longrightarrow> extends c c'"
proof (induction fs arbitrary: c n)
  case (Cons f fs)
  show ?case
  proof (cases "gc_Err G n")
    case None
    let ?d = "case f (Suc n) v of None \<Rightarrow> c | Some e \<Rightarrow> AddError e v c"
    have "extends c ?d" by (simp split: option.split)
    moreover have "extends ?d c'" using Cons None by simp
    ultimately show ?thesis by (rule extends_trans)
  qed (use Cons in auto)
qed simp

lemma async_elems_extends:
  assumes "run_extends (Some am)" and "async_elems G (am_run am) w i xs (c, n) = Some ((c', n'), b)"
  shows "extends c c'"
  using assms(2)
proof (induction xs arbitrary: i c n)
  case (Cons x xs)
  then obtain d k r where "gc_Err G n = None \<Longrightarrow> am_run am x (PushIndex (int i) c, Suc n) = Some ((d, k), r)"
    and rest: "gc_Err G n = None \<Longrightarrow> async_elems G (am_run am) w (Suc i) xs (PopPath d, k) = Some ((c', n'), b)"
    by (auto split: option.splits)
  then have "gc_Err G n = None \<Longrightarrow> extends c (PopPath d)"
    using run_extendsD [OF assms(1)] extends_path by (metis PushIndex_PushPath)
  with Cons rest show ?case
    by (cases "gc_Err G n") (auto intro: extends_trans)
qed simp

lemma async_fields_extends:
  assumes "\<And>name am. map_of (ob_fields a) name = Some am \<Longrightarrow> run_extends am"
    and "async_fields G a result names (c, n) = Some ((c', n'), b)"
  shows "extends c c'"
  using assms(2)
proof (induction names arbitrary: c n)
  case (Cons name names)
  show ?case
  proof (cases "\<exists>fv am. map_of result name = Some fv \<and> gc_Err G n = None \<and> map_of (ob_fields a) name = Some (Some am)")
    case True
    then obtain fv am where f: "map_of result name = Some fv" "gc_Err G n = None"
      "map_of (ob_fields a) name = Some (Some am)" by blast
    with Cons.prems obtain d k r where run: "am_run am fv (PushPath name c, Suc n) = Some ((d, k), r)"
      and rest: "async_fields G a result names (PopPath d, k) = Some ((c', n'), b)"
      by (auto split: option.splits)
    from extends_path [OF run_extendsD [OF assms(1) [OF f(3)] run]] Cons.IH [OF rest]
    show ?thesis by (rule extends_trans)
  next
    case False
    with Cons show ?thesis by (auto split: option.splits)
  qed
qed simp

lemma transform_async_extends:
  assumes "\<And>c c' w e. transform_vat s v c = (c', w, e) \<Longrightarrow> extends c c'"
    and "transform_async G s v (c, n) = Some ((c', n'), r)"
  shows "extends c c'"
proof -
  obtain d w e where run: "transform_vat s v c = (d, w, e)" by (cases "transform_vat s v c")
  from assms(2) run run_async_extends [of G "tf_asyncValidators s" w d n c' n']
  have "extends d c'" by (auto simp: transform_async_def async_return_def split: if_splits)
  with assms(1) [OF run] show ?thesis by (rule extends_trans)
qed

text \<open>The asynchronous part of an array, after its synchronous part.\<close>

definition array_async_phase :: "go_context \<Rightarrow> async_methods option array_schema \<Rightarrow> gval \<Rightarrow> async_state \<Rightarrow>
    (async_state \<times> bool) option" where
  "array_async_phase G a w cn = (case ar_elementSchema a of
       Some (Some am) \<Rightarrow> (case w of VSlice items \<Rightarrow> async_elems G (am_run am) w 0 items cn | _ \<Rightarrow> None)
     | _ \<Rightarrow> Some (cn, False))"

lemma array_async_ok:
  assumes "array_vat E s v c = (d, w, None)"
  shows "array_async E G s a v (c, n) = (case gc_Err G n of
      Some err \<Rightarrow> async_return w (cancel_error err w d, Suc n)
    | None \<Rightarrow> (case array_async_phase G a w (d, Suc n) of
        None \<Rightarrow> None
      | Some (cn, True) \<Rightarrow> async_return w cn
      | Some (cn, False) \<Rightarrow> async_return w (run_async G (ar_asyncValidators a) w cn)))"
  using assms by (cases "gc_Err G n") (simp_all add: array_async_def array_async_phase_def)

lemma array_async_phase_extends:
  assumes "\<And>am. ar_elementSchema a = Some am \<Longrightarrow> run_extends am"
    and "array_async_phase G a w (c, n) = Some ((c', n'), b)"
  shows "extends c c'"
  using assms async_elems_extends
  by (fastforce simp: array_async_phase_def split: option.splits gval.splits)

lemma object_async_phase_extends:
  assumes "\<And>name am. map_of (ob_fields a) name = Some am \<Longrightarrow> run_extends am"
    and "object_async_phase E G a result (c, n) = Some ((c', n'), r)"
  shows "extends c c'"
proof (cases "gc_Err G n")
  case None
  with assms(2) obtain d k b where fs: "async_fields G a result (range_keys E c (ob_fields a)) (c, Suc n) = Some ((d, k), b)"
    and d: "d = c' \<or> run_async G (ob_asyncValidators a) (VMap result) (d, k) = (c', n')"
    by (auto simp: object_async_phase_def Let_def async_return_def split: option.splits bool.splits)
  from d have "extends d c'" using run_async_extends by fastforce
  with async_fields_extends [OF _ fs] assms(1) show ?thesis by (blast intro: extends_trans)
qed (use assms(2) in \<open>auto simp: object_async_phase_def async_return_def Let_def\<close>)

lemma array_async_extends:
  assumes "\<And>c c' w e. array_vat E s v c = (c', w, e) \<Longrightarrow> extends c c' \<and> e = ctx_Error c'"
    and "\<And>am. ar_elementSchema a = Some am \<Longrightarrow> run_extends am"
    and "array_async E G s a v (c, n) = Some ((c', n'), r)"
  shows "extends c c'"
proof -
  obtain d w e where run: "array_vat E s v c = (d, w, e)" by (cases "array_vat E s v c")
  have "extends d c'"
  proof (cases "e = None \<and> gc_Err G n = None")
    case True
    with run assms(3) obtain k m b where p: "array_async_phase G a w (d, Suc n) = Some ((k, m), b)"
      and k: "k = c' \<or> run_async G (ar_asyncValidators a) w (k, m) = (c', n')"
      by (auto simp: array_async_ok async_return_def split: option.splits bool.splits)
    from k have "extends k c'" using run_async_extends by fastforce
    with array_async_phase_extends [OF _ p] assms(2) show ?thesis by (blast intro: extends_trans)
  next
    case False
    with run assms(3) show ?thesis
      by (cases e) (auto simp: array_async_ok array_async_def async_return_def split: option.splits)
  qed
  with assms(1) [OF run] show ?thesis by (blast intro: extends_trans)
qed

lemma object_async_extends:
  assumes vat: "\<And>c c' w e. object_vat E s v c = (c', w, e) \<Longrightarrow> extends c c'"
    and fields: "\<And>name am. map_of (ob_fields a) name = Some am \<Longrightarrow> run_extends am"
    and run: "object_async E G s a v (c, n) = Some ((c', n'), r)"
  shows "extends c c'"
proof -
  obtain d w e where sync: "object_vat E s v c = (d, w, e)" by (cases "object_vat E s v c")
  have "d = c' \<or> (\<exists>result. object_async_phase E G a result (d, n) = Some ((c', n'), r))"
    using run sync
    by (auto simp: object_async_def object_vat_def checked_vat_def async_return_def Let_def
        split: prod.splits if_splits option.splits)
  with object_async_phase_extends [of a] fields have "extends d c'" by fastforce
  with vat [OF sync] show ?thesis by (rule extends_trans)
qed

lemma vat_extends:
  "i_vat (iface_of E s) = Some g \<Longrightarrow> g v c = (c', w, e) \<Longrightarrow> extends c c' \<and> e = ctx_Error c'"
  using vat_okD(1,2) [OF outcome_vat] by blast

lemma object_fields_extend:
  assumes "\<And>x. x \<in> set_object_schema s \<Longrightarrow> run_extends (f x)"
    and "map_of (ob_fields (map_object_schema f s)) name = Some am"
  shows "run_extends am"
  using assms fields_in_set [of s name] by (auto simp: object_fields_map)

text \<open>Every asynchronous run leaves path and mode and keeps what the context has.\<close>

lemma async_only_appends: "run_extends (async_of E G s)"
proof (induction s)
  case (ObjectS s)
  note vat = vat_extends [of E "ObjectS s"]
  show ?case
    using object_async_extends [OF _ object_fields_extend [OF ObjectS]] vat
    by (fastforce simp: run_extends_def Let_def object_iface_def base_iface_def split: option.split)
next
  case (DepObjectS s)
  have ob: "do_object (map_dep_object_schema f s) = map_object_schema f (do_object s)" for f :: "schema \<Rightarrow> 'x"
    by (cases s) simp
  have fields: "x \<in> set_object_schema (do_object s) \<Longrightarrow> run_extends (async_of E G x)" for x
    using DepObjectS by (cases s) auto
  note vat = vat_extends [of E "DepObjectS s"]
  show ?case
    using object_async_extends [OF _ object_fields_extend [OF fields]] vat
    by (fastforce simp: run_extends_def Let_def dep_object_iface_def object_iface_def base_iface_def ob
        split: option.split)
next
  case (ArrayS s)
  have element: "run_extends am" if "ar_elementSchema (map_array_schema (async_of E G) s) = Some am" for am
    using that ArrayS element_in_set [of s] by (auto simp: array_schema.map_sel)
  note vat = vat_extends [of E "ArrayS s"]
  show ?case
    using array_async_extends [OF _ element] vat
    by (fastforce simp: run_extends_def Let_def base_iface_def split: option.split)
next
  case (TransformS s)
  note vat = vat_extends [of E "TransformS s"]
  show ?case
    using transform_async_extends vat
    by (fastforce simp: run_extends_def transform_iface_def split: option.split)
qed (simp_all add: run_extends_def)

section \<open>The asynchronous pass over elements\<close>

lemma async_run_passes:
  assumes am: "async_of E G s = Some am" and run: "am_run am x (c, n) = Some ((c', n'), r)" "c_errors c' = []"
  shows "c_errors c = [] \<and> outcome (e_lib E) s x [] (c_mode c) \<noteq> None"
proof -
  have c: "c_errors c = []"
    using run_extendsD [OF _ run(1)] async_only_appends [of E G s] am extends_errors run(2) by metis
  obtain g where g: "i_vat (iface_of E s) = Some g"
    and sync: "\<And>v c c' w e n. g v c = (c', w, e) \<Longrightarrow> after_sync w e c' n (am_run am v (c, n))"
    using async_of_methods [OF am] by metis
  obtain d w e where first: "g x c = (d, w, e)" by (cases "g x c")
  note ok = vat_okD [OF outcome_vat [OF g] first]
  have "e = None"
  proof (rule ccontr)
    assume "e \<noteq> None"
    with sync [OF first, of n] run(1) have "c' = d" by (simp add: after_sync_def)
    with run(2) ok(2) \<open>e \<noteq> None\<close> show False by (simp add: ctx_Error_def HasErrors_def)
  qed
  with ok(2,3) c have "outcome (e_lib E) s x (c_path c) (c_mode c) \<noteq> None"
    by (auto simp: ctx_Error_def HasErrors_def split: if_splits)
  with c show ?thesis using outcome_any_path by metis
qed

lemma async_elems_passes:
  assumes am: "async_of E G s = Some am"
  shows "async_elems G (am_run am) w i xs (c, n) = Some ((c', n'), b) \<Longrightarrow> c_errors c' = [] \<Longrightarrow>
    \<forall>x \<in> set xs. outcome (e_lib E) s x [] (c_mode c) \<noteq> None"
proof (induction xs arbitrary: i c n)
  case (Cons x xs)
  show ?case
  proof (cases "gc_Err G n")
    case None
    with Cons.prems obtain d k r where run: "am_run am x (PushIndex (int i) c, Suc n) = Some ((d, k), r)"
      and rest: "async_elems G (am_run am) w (Suc i) xs (PopPath d, k) = Some ((c', n'), b)"
      by (auto split: option.splits)
    have am': "run_extends (Some am)" using async_only_appends [of E G s] am by simp
    have "c_errors (PopPath d) = []"
      using async_elems_extends [OF am' rest] Cons.prems(2) extends_errors by blast
    moreover have "extends (PushIndex (int i) c) d" by (rule run_extendsD [OF am' run])
    ultimately show ?thesis
      using async_run_passes [OF am run] Cons.IH [OF rest Cons.prems(2)]
      by (auto simp: PopPath_def PushIndex_def extends_def)
  qed (use Cons.prems in auto)
qed simp

text \<open>The synchronous pass of an array, and what the asynchronous run makes of it.\<close>

lemma array_async_run:
  assumes has: "HasAsyncValidators E G (ArrayS a)"
    and sync: "ValidateAndTransform E v (ArrayS a) m = (w, None)"
  obtains d where "array_vat E (map_array_schema (iface_of E) a) v (NewValidationContext m) = (d, w, None)"
    and "c_errors d = []" and "c_mode d = m"
    and "ValidateAndTransformAsync E G v (ArrayS a) m = map_option snd
      (array_async E G (map_array_schema (iface_of E) a) (map_array_schema (async_of E G) a) v (NewValidationContext m, 0))"
proof -
  let ?g = "array_vat E (map_array_schema (iface_of E) a)"
  obtain d u e where run: "?g v (NewValidationContext m) = (d, u, e)" by (cases "?g v (NewValidationContext m)")
  have g: "i_vat (iface_of E (ArrayS a)) = Some ?g" by (simp add: Let_def base_iface_def)
  have u: "u = w" "e = None"
    using sync run by (simp_all add: ValidateAndTransform_def base_iface_def Let_def)
  show thesis
  proof (rule that)
    show "?g v (NewValidationContext m) = (d, w, None)" using run u by simp
    show "c_errors d = []" "c_mode d = m"
      using vat_extends [OF g run] u by (auto simp: ctx_Error_def HasErrors_def extends_def NewValidationContext_def split: if_splits)
  qed (use has in \<open>simp add: ValidateAndTransformAsync_def HasAsyncValidators_def Let_def\<close>)
qed

text \<open>
  C40: with asynchronous validators, an array that \<open>ValidateAndTransform\<close> accepts has its elements
  validated a second time, after they have been transformed: the asynchronous run ends without an
  error only if \<open>ValidateAndTransform\<close> with the element schema also accepts each element of the
  result. On null, which the synchronous pass may accept and which has no elements, the run panics,
  unless the context has been cancelled before.
\<close>

theorem array_async_revalidates:
  assumes "HasAsyncValidators E G (ArrayS a)"
    and "ar_elementSchema a = Some s" "async_of E G s \<noteq> None"
    and "ValidateAndTransform E v (ArrayS a) m = (w, None)"
  shows "(v = VNil \<longrightarrow> gc_Err G 0 = None \<longrightarrow> ValidateAndTransformAsync E G v (ArrayS a) m = None)
    \<and> (\<forall>w'. ValidateAndTransformAsync E G v (ArrayS a) m = Some (w', None) \<longrightarrow>
        (\<exists>ws. w' = VSlice ws \<and> w = VSlice ws \<and> (\<forall>x \<in> set ws. snd (ValidateAndTransform E x s m) = None)))"
proof -
  let ?a = "map_array_schema (async_of E G) a"
  obtain am where am: "async_of E G s = Some am" using assms(3) by auto
  then have element: "ar_elementSchema ?a = Some (Some am)"
    using assms(2) by (simp add: array_schema.map_sel)
  obtain d where d: "array_vat E (map_array_schema (iface_of E) a) v (NewValidationContext m) = (d, w, None)"
    "c_errors d = []" "c_mode d = m"
    and run: "ValidateAndTransformAsync E G v (ArrayS a) m = map_option snd
      (array_async E G (map_array_schema (iface_of E) a) ?a v (NewValidationContext m, 0))"
    by (rule array_async_run [OF assms(1,4)])
  note run = run [unfolded array_async_ok [OF d(1)]]
  have null: "w = VNil" if "v = VNil"
    using that d(1) by (simp add: array_vat_def checked_vat_def CheckRequired_def split: if_splits)
  have passed: "\<exists>ws. w = VSlice ws \<and> (\<forall>x \<in> set ws. snd (ValidateAndTransform E x s m) = None)"
    if ended: "ValidateAndTransformAsync E G v (ArrayS a) m = Some (w', None)" for w'
  proof -
    have live: "gc_Err G 0 = None"
      using ended run by (cases "gc_Err G 0") (auto simp: async_return_def ctx_Error_None HasErrors_def)
    with ended run obtain c' n' b where elems: "array_async_phase G ?a w (d, 1) = Some ((c', n'), b)"
      and fin: "c_errors c' = [] \<or> \<not> b \<and> c_errors (fst (run_async G (ar_asyncValidators ?a) w (c', n'))) = []"
      by (auto simp: async_return_def ctx_Error_None HasErrors_def split: option.splits bool.splits)
    from elems element obtain ws where ws: "w = VSlice ws" "async_elems G (am_run am) w 0 ws (d, 1) = Some ((c', n'), b)"
      by (auto simp: array_async_phase_def split: gval.splits)
    have "extends c' (fst (run_async G (ar_asyncValidators ?a) w (c', n')))"
      by (rule run_async_extends) (rule prod.collapse [symmetric])
    with fin have "c_errors c' = []" using extends_errors by blast
    from async_elems_passes [OF am ws(2) this] d(3) ws(1) show ?thesis
      using ValidateAndTransform_success by (metis not_None_eq snd_conv)
  qed
  show ?thesis
  proof (intro conjI impI allI)
    assume "v = VNil" "gc_Err G 0 = None"
    then show "ValidateAndTransformAsync E G v (ArrayS a) m = None"
      using null run element by (simp add: array_async_phase_def)
  next
    fix w' assume ended: "ValidateAndTransformAsync E G v (ArrayS a) m = Some (w', None)"
    have "w' = w"
      using ended run by (cases "gc_Err G 0") (auto simp: async_return_def split: option.splits bool.splits)
    with passed [OF ended] show "\<exists>ws. w' = VSlice ws \<and> w = VSlice ws
        \<and> (\<forall>x \<in> set ws. snd (ValidateAndTransform E x s m) = None)" by blast
  qed
qed

theorem array_async_revalidates_witness:
  "ValidateAndTransform sample_env VNil flags_array Strict = (VNil, None)
   \<and> ValidateAndTransformAsync sample_env never_cancelled VNil flags_array Strict = None
   \<and> ValidateAndTransform sample_env (VSlice [VStr ''on'']) flags_array Strict = (VSlice [VBool True], None)
   \<and> (\<forall>w'. ValidateAndTransformAsync sample_env never_cancelled (VSlice [VStr ''on'']) flags_array Strict
        \<noteq> Some (w', None))"
proof -
  obtain a where a: "flags_array = ArrayS a" "ar_elementSchema a = Some flag_schema"
    by (simp add: flags_array_def Array_Nullable_def)
  have has: "HasAsyncValidators sample_env never_cancelled (ArrayS a)" "async_of sample_env never_cancelled flag_schema \<noteq> None"
    unfolding a(1) [symmetric]
    by (simp_all add: HasAsyncValidators_def array_HasAsync_def Transform_HasAsync_def flag_run)
  have runs: "ValidateAndTransform sample_env VNil (ArrayS a) Strict = (VNil, None)"
    "ValidateAndTransform sample_env (VSlice [VStr ''on'']) (ArrayS a) Strict = (VSlice [VBool True], None)"
    unfolding a(1) [symmetric] by (auto simp: ValidateAndTransform_def flag_run)
  have "snd (ValidateAndTransform sample_env (VBool True) flag_schema Strict) \<noteq> None"
    by (simp add: ValidateAndTransform_def flag_run)
  with runs array_async_revalidates [OF has(1) a(2) has(2) runs(1)]
    array_async_revalidates [OF has(1) a(2) has(2) runs(2)]
  show ?thesis
    unfolding a(1) by (auto simp: never_cancelled_def)
qed

end
