(* ===== verification/Swar.thy ===== *)
theory Swar
  imports Main "HOL-Library.Word"
begin

text \<open>
  Scanning eight bytes at a time, as the JSON parsers under \<open>superjsonic/prototype\<close> do: a
  little-endian load of eight bytes into a 64-bit word, the test for a zero byte by one
  subtraction, and on it the tests \<open>HasByte\<close> and \<open>IsWhitespace\<close> (\<open>RealSimdOps\<close>, and
  \<open>NoSimdOps\<close> for the plain loops). The section on lanes proves that the word operations say
  what the loops say.
\<close>

unbundle bit_operations_syntax

type_synonym octet = "8 word"

section \<open>The code\<close>

text \<open>
  \<open>*(*uint64)(unsafe.Pointer(&data[pos]))\<close>: the byte at the lowest address is the lowest byte
  of the word.
\<close>

fun pack64 :: "octet list \<Rightarrow> 64 word" where
  "pack64 [] = 0"
| "pack64 (b # bs) = ucast b OR push_bit 8 (pack64 bs)"

definition load64 :: "octet list \<Rightarrow> nat \<Rightarrow> 64 word" where
  "load64 d pos = pack64 (take 8 (drop pos d))"

text \<open>\<open>(*[8]byte)(unsafe.Pointer(&v))\<close>: the eight bytes of a word.\<close>

definition lanes :: "64 word \<Rightarrow> octet list" where
  "lanes v = map (\<lambda>j. ucast (drop_bit (8 * j) v)) [0..<8]"

definition hasZero :: "64 word \<Rightarrow> 64 word" where
  "hasZero v = (v - 0x0101010101010101) AND NOT v AND 0x8080808080808080"

definition isWhitespace :: "octet \<Rightarrow> bool" where
  "isWhitespace b = (b = 0x20 \<or> b = 0x09 \<or> b = 0x0A \<or> b = 0x0D)"

definition HasByte_real :: "64 word \<Rightarrow> octet \<Rightarrow> bool" where
  "HasByte_real v b = (hasZero (v XOR (ucast b * 0x0101010101010101)) \<noteq> 0)"

definition IsWhitespace_real :: "64 word \<Rightarrow> 64 word" where
  "IsWhitespace_real v =
     (let spaces = v XOR 0x2020202020202020;
          tabs = v XOR 0x0909090909090909;
          lfs = v XOR 0x0A0A0A0A0A0A0A0A;
          crs = v XOR 0x0D0D0D0D0D0D0D0D
      in hasZero spaces OR hasZero tabs OR hasZero lfs OR hasZero crs)"

definition HasByte_basic :: "64 word \<Rightarrow> octet \<Rightarrow> bool" where
  "HasByte_basic v b = (b \<in> set (lanes v))"

definition IsWhitespace_basic :: "64 word \<Rightarrow> 64 word" where
  "IsWhitespace_basic v =
     fold (\<lambda>i r. if isWhitespace (lanes v ! i) then r OR push_bit (i * 8) 0x80 else r) [0..<8] 0"

section \<open>Numbers in base 256\<close>

text \<open>The bits of a number with the lowest byte split off.\<close>

lemma bit_byte_split:
  assumes "0 \<le> lo" "lo < 256"
  shows "bit (lo + 256 * hi :: int) n \<longleftrightarrow> (if n < 8 then bit lo n else bit hi (n - 8))"
proof (cases "n < 8")
  case True
  have "(2 :: int) ^ n * 2 ^ (8 - n) = 256"
    using True by (simp add: power_add [symmetric])
  then have "lo + 256 * hi = lo + (2 ^ (8 - n) * hi) * 2 ^ n"
    by (metis mult.assoc mult.commute)
  then have "(lo + 256 * hi) div 2 ^ n = lo div 2 ^ n + 2 ^ (8 - n) * hi"
    by (simp only: div_mult_self3 div_mult_self1 power_not_zero) simp
  with True show ?thesis by (simp add: bit_iff_odd)
next
  case False
  then have "(2 :: int) ^ n = 256 * 2 ^ (n - 8)"
    using power_add [of "2 :: int" 8 "n - 8"] by simp
  then have "(lo + 256 * hi) div 2 ^ n = (lo + 256 * hi) div 256 div 2 ^ (n - 8)"
    by (simp add: zdiv_zmult2_eq)
  with assms False show ?thesis by (simp add: bit_iff_odd)
qed

definition ones :: "nat \<Rightarrow> int" where
  "ones n = (\<Sum>i<n. 256 ^ i)"

lemma ones_Suc: "ones (Suc n) = 1 + 256 * ones n"
  by (simp add: ones_def sum.lessThan_Suc_shift sum_distrib_left del: sum.lessThan_Suc)

text \<open>The number that the bytes \<open>bs\<close> make, the first the lowest.\<close>

fun val256 :: "octet list \<Rightarrow> int" where
  "val256 [] = 0"
| "val256 (b # bs) = uint b + 256 * val256 bs"

lemma uint_octet [simp]: "0 \<le> uint (b :: octet)" "uint (b :: octet) < 256"
  using uint_lt2p [of b] by simp_all

lemma bit_val256: "bit (val256 bs) n \<longleftrightarrow> n < 8 * length bs \<and> bit (bs ! (n div 8)) (n mod 8)"
proof (induction bs arbitrary: n)
  case (Cons b bs)
  show ?case
  proof (cases "n < 8")
    case True
    then show ?thesis by (simp add: bit_byte_split bit_uint_iff)
  next
    case False
    then have "n div 8 = Suc ((n - 8) div 8)" "n mod 8 = (n - 8) mod 8"
      by (simp_all add: div_if mod_if)
    with False Cons.IH [of "n - 8"] show ?thesis
      by (auto simp: bit_byte_split)
  qed
qed simp

text \<open>
  Subtracting one from every byte borrows only from a byte that is zero: the top bit of a byte
  is set after the subtraction and was not before, for some byte, exactly when one is zero.
\<close>

lemma borrow_zero:
  "(\<exists>j < length bs. bit (val256 bs - ones (length bs)) (8 * j + 7) \<and> \<not> bit (val256 bs) (8 * j + 7))
   \<longleftrightarrow> 0 \<in> set bs"
proof (induction bs)
  case (Cons b bs)
  have lt: "(\<exists>j < Suc n. P j) \<longleftrightarrow> P 0 \<or> (\<exists>j < n. P (Suc j))" for n P
    using less_Suc_eq_0_disj by auto
  show ?case
  proof (cases "b = 0")
    case True
    have sub: "val256 (b # bs) - ones (length (b # bs)) = 255 + 256 * (val256 bs - ones (length bs) - 1)"
      by (simp add: True ones_Suc)
    have "bit (255 :: int) 7"
      by (simp add: bit_iff_odd)
    then have "bit (val256 (b # bs) - ones (length (b # bs))) 7 \<and> \<not> bit (val256 (b # bs)) 7"
      using bit_val256 [of "b # bs" 7] unfolding sub
      by (subst bit_byte_split) (simp_all add: True del: val256.simps)
    then show ?thesis
      using True by (intro iffI) (auto intro!: exI [of _ 0])
  next
    case False
    then have pos: "1 \<le> uint b"
      by (metis int_one_le_iff_zero_less less_le uint_0_iff uint_octet(1))
    have sub: "val256 (b # bs) - ones (length (b # bs)) = (uint b - 1) + 256 * (val256 bs - ones (length bs))"
      by (simp add: ones_Suc algebra_simps)
    have top: "\<not> (bit (uint b - 1) 7 \<and> \<not> bit (uint b) 7)"
    proof (cases "uint b < 128")
      case True
      then have "take_bit 7 (uint b - 1) = uint b - 1"
        using pos by (simp add: take_bit_int_eq_self)
      then show ?thesis by (metis bit_take_bit_iff less_irrefl)
    next
      case False
      then have "uint b div 128 = 1"
        using uint_octet(2) [of b] by (intro int_div_pos_eq [where r = "uint b - 128"]) simp_all
      then have "bit (uint b) 7"
        by (simp add: bit_iff_odd)
      then show ?thesis by simp
    qed
    have low: "0 \<le> uint b - 1" "uint b - 1 < 256"
      using pos uint_octet(2) [of b] by linarith+
    have "bit (val256 (b # bs) - ones (length (b # bs))) (8 * 0 + 7) \<longleftrightarrow> bit (uint b - 1) 7"
      unfolding sub by (subst bit_byte_split [OF low]) simp
    moreover have "bit (val256 (b # bs)) (8 * 0 + 7) \<longleftrightarrow> bit (uint b) 7"
      using bit_byte_split [OF uint_octet [of b], of "val256 bs" 7] by simp
    moreover have "bit (val256 (b # bs) - ones (length (b # bs))) (8 * Suc j + 7)
        \<longleftrightarrow> bit (val256 bs - ones (length bs)) (8 * j + 7)" for j
      unfolding sub by (subst bit_byte_split [OF low]) (simp add: add.commute)
    moreover have "bit (val256 (b # bs)) (8 * Suc j + 7) \<longleftrightarrow> bit (val256 bs) (8 * j + 7)" for j
      using bit_byte_split [OF uint_octet [of b], of "val256 bs" "8 * Suc j + 7"]
      by (simp add: add.commute)
    ultimately have "(\<exists>j < length (b # bs). bit (val256 (b # bs) - ones (length (b # bs))) (8 * j + 7)
          \<and> \<not> bit (val256 (b # bs)) (8 * j + 7))
        \<longleftrightarrow> (\<exists>j < length bs. bit (val256 bs - ones (length bs)) (8 * j + 7) \<and> \<not> bit (val256 bs) (8 * j + 7))"
      using top by (simp only: length_Cons lt) blast
    with Cons.IH False show ?thesis by simp
  qed
qed (simp add: ones_def)

section \<open>Words and their bytes\<close>

lemma bit_pack64: "bit (pack64 bs) n \<longleftrightarrow> n < 64 \<and> n < 8 * length bs \<and> bit (bs ! (n div 8)) (n mod 8)"
proof (induction bs arbitrary: n)
  case (Cons b bs)
  show ?case
  proof (cases "n < 8")
    case True
    then show ?thesis by (simp add: bit_or_iff bit_push_bit_iff bit_ucast_iff)
  next
    case False
    then have "n div 8 = Suc ((n - 8) div 8)" "n mod 8 = (n - 8) mod 8" "\<not> bit b n"
      by (auto simp: div_if mod_if bit_word.rep_eq dest: bit_imp_le_length)
    with False Cons.IH [of "n - 8"] show ?thesis
      by (auto simp: bit_or_iff bit_push_bit_iff bit_ucast_iff)
  qed
qed simp

lemma uint_pack64: "length bs \<le> 8 \<Longrightarrow> uint (pack64 bs) = val256 bs"
  by (rule bit_eqI) (auto simp: bit_uint_iff bit_pack64 bit_val256)

lemma length_lanes [simp]: "length (lanes v) = 8"
  by (simp add: lanes_def)

lemma bit_lanes: "j < 8 \<Longrightarrow> bit (lanes v ! j) n \<longleftrightarrow> n < 8 \<and> bit v (8 * j + n)"
  by (auto simp: lanes_def bit_ucast_iff bit_drop_bit_eq)

lemma pack64_lanes [simp]: "pack64 (lanes v) = v"
  by (rule bit_word_eqI) (simp add: bit_pack64 bit_lanes)

lemma lanes_pack64: "length bs = 8 \<Longrightarrow> lanes (pack64 bs) = bs"
  by (intro nth_equalityI bit_word_eqI) (auto simp: bit_lanes bit_pack64)

lemma lanes_load64: "pos + 8 \<le> length d \<Longrightarrow> lanes (load64 d pos) = take 8 (drop pos d)"
  by (simp add: load64_def lanes_pack64)

text \<open>The test for a zero byte is exact.\<close>

lemma ones_8: "ones 8 = 0x0101010101010101"
  by (simp add: ones_def lessThan_Suc eval_nat_numeral)

lemma replicate_8: "replicate 8 x = [x, x, x, x, x, x, x, x]"
  by (simp add: numeral_eq_Suc)

lemma high_bits: "(0x8080808080808080 :: 64 word) = pack64 (replicate 8 0x80)"
  by (simp add: replicate_8)

lemma bit_high_bits: "bit (0x8080808080808080 :: 64 word) n \<longleftrightarrow> n < 64 \<and> n mod 8 = 7"
proof -
  have "(0x80 :: octet) = push_bit 7 1"
    by simp
  then have "bit (0x80 :: octet) k \<longleftrightarrow> k = 7" for k
    by (simp only: bit_push_bit_iff bit_1_iff) auto
  moreover have "n < 64 \<Longrightarrow> replicate 8 (0x80 :: octet) ! (n div 8) = 0x80"
    by (rule nth_replicate) simp
  moreover have "n < 64 \<Longrightarrow> n < 8 * length (replicate 8 (0x80 :: octet))"
    by simp
  ultimately show ?thesis
    unfolding high_bits bit_pack64 by metis
qed

lemma nonzero_bit: "w \<noteq> 0 \<longleftrightarrow> (\<exists>n. bit w n)" for w :: "'a :: len word"
  by (auto simp: bit_eq_iff dest: bit_imp_le_length)

lemma hasZero_lanes: "hasZero v \<noteq> 0 \<longleftrightarrow> 0 \<in> set (lanes v)"
proof -
  have sub: "bit (v - 0x0101010101010101) n \<longleftrightarrow> n < 64 \<and> bit (val256 (lanes v) - ones 8) n" for n
  proof -
    have "uint (v - 0x0101010101010101) = take_bit 64 (uint v - ones 8)"
      by (simp add: uint_sub_lem uint_word_ariths take_bit_eq_mod ones_8)
    moreover have "uint v = val256 (lanes v)"
      using uint_pack64 [of "lanes v"] by simp
    ultimately have "bit (uint (v - 0x0101010101010101)) n \<longleftrightarrow> n < 64 \<and> bit (val256 (lanes v) - ones 8) n"
      by (simp add: bit_take_bit_iff)
    then show ?thesis
      by (auto simp: bit_uint_iff dest: bit_imp_le_length)
  qed
  have v: "bit v n \<longleftrightarrow> n < 64 \<and> bit (val256 (lanes v)) n" for n
    using bit_pack64 [of "lanes v" n] by (auto simp: bit_val256)
  have "bit (hasZero v) n \<longleftrightarrow> n < 64 \<and> n mod 8 = 7
      \<and> bit (val256 (lanes v) - ones 8) n \<and> \<not> bit (val256 (lanes v)) n" for n
    unfolding hasZero_def bit_and_iff bit_not_iff bit_high_bits sub
    using v [of n] by auto
  then have "hasZero v \<noteq> 0 \<longleftrightarrow> (\<exists>n. n < 64 \<and> n mod 8 = 7
      \<and> bit (val256 (lanes v) - ones 8) n \<and> \<not> bit (val256 (lanes v)) n)"
    unfolding nonzero_bit by metis
  also have "\<dots> \<longleftrightarrow> (\<exists>j < 8. bit (val256 (lanes v) - ones 8) (8 * j + 7)
      \<and> \<not> bit (val256 (lanes v)) (8 * j + 7))"
  proof -
    have "n < 64 \<and> n mod 8 = 7 \<longleftrightarrow> (\<exists>j < 8. n = 8 * j + 7)" for n :: nat
      by presburger
    then show ?thesis by metis
  qed
  also have "\<dots> \<longleftrightarrow> 0 \<in> set (lanes v)"
    using borrow_zero [of "lanes v"] by simp
  finally show ?thesis .
qed

section \<open>The word operations agree with the loops\<close>

lemma lanes_xor: "lanes (v XOR w) = map2 (XOR) (lanes v) (lanes w)"
  by (intro nth_equalityI bit_word_eqI) (auto simp: bit_lanes bit_xor_iff)

lemma lanes_replicate: "lanes (ucast b * 0x0101010101010101) = replicate 8 b"
proof -
  have "uint (ucast b * 0x0101010101010101 :: 64 word) = uint b * ones 8"
  proof -
    have "uint b * 0x0101010101010101 < 0x10000000000000000"
      using uint_octet(2) [of b] by linarith
    then show ?thesis
      by (simp add: uint_word_ariths ones_8 uint_up_ucast is_up mod_pos_pos_trivial)
  qed
  also have "\<dots> = val256 (replicate 8 b)"
    by (simp add: replicate_8 ones_8)
  also have "\<dots> = uint (pack64 (replicate 8 b))"
    by (simp add: uint_pack64)
  finally show ?thesis
    by (metis length_replicate lanes_pack64 word_uint_eq_iff)
qed

lemma xor_zero_iff: "v XOR w = 0 \<longleftrightarrow> v = w" for v w :: "'a :: len word"
  by (metis xor.assoc xor.left_neutral xor_self_eq)

lemma map2_replicate: "map2 f bs (replicate (length bs) b) = map (\<lambda>x. f x b) bs"
  by (induction bs) simp_all

lemma HasByte_real_lanes: "HasByte_real v b \<longleftrightarrow> b \<in> set (lanes v)"
  using map2_replicate [of "(XOR)" "lanes v" b]
  by (auto simp: HasByte_real_def hasZero_lanes lanes_xor lanes_replicate xor_zero_iff image_iff
      simp del: set_zip)

lemma IsWhitespace_real_lanes: "IsWhitespace_real v \<noteq> 0 \<longleftrightarrow> list_ex isWhitespace (lanes v)"
proof -
  have or: "x OR y \<noteq> 0 \<longleftrightarrow> x \<noteq> 0 \<or> y \<noteq> 0" for x y :: "64 word"
    by (simp add: or_eq_0_iff)
  have byte: "hasZero (v XOR (ucast b * 0x0101010101010101)) \<noteq> 0 \<longleftrightarrow> b \<in> set (lanes v)" for b :: octet
    using HasByte_real_lanes [of v b] by (simp add: HasByte_real_def)
  show ?thesis
    using byte [of "0x20"] byte [of "0x09"] byte [of "0x0A"] byte [of "0x0D"]
    by (auto simp: IsWhitespace_real_def Let_def or isWhitespace_def list_ex_iff)
qed

lemma HasByte_agree: "HasByte_real v b = HasByte_basic v b"
  by (simp add: HasByte_real_lanes HasByte_basic_def)

text \<open>The flags of the plain loop are in the same word as the byte, but only zero or not matters.\<close>

lemma IsWhitespace_basic_lanes: "IsWhitespace_basic v \<noteq> 0 \<longleftrightarrow> list_ex isWhitespace (lanes v)"
proof -
  have "fold (\<lambda>i r. if P i then r OR push_bit (i * 8) (0x80 :: 64 word) else r) js r \<noteq> 0
      \<longleftrightarrow> r \<noteq> 0 \<or> (\<exists>i \<in> set js. P i)" if "set js \<subseteq> {..<8}" for P js r
    using that
  proof (induction js arbitrary: r)
    case (Cons i js)
    then have "i < 8" by auto
    have "(0x80 :: 64 word) = push_bit 7 1"
      by simp
    then have "bit (push_bit (i * 8) (0x80 :: 64 word)) (i * 8 + 7)"
      using \<open>i < 8\<close> by (simp only: push_bit_push_bit bit_push_bit_iff bit_1_iff) simp
    then have "push_bit (i * 8) (0x80 :: 64 word) \<noteq> 0"
      unfolding nonzero_bit by blast
    with Cons show ?case by (auto simp: or_eq_0_iff)
  qed simp
  from this [of "[0..<8]" "\<lambda>i. isWhitespace (lanes v ! i)" 0] show ?thesis
    by (simp add: IsWhitespace_basic_def list_ex_length lessThan_atLeast0 atLeast_upt)
      (auto simp: Bex_def)
qed

lemma IsWhitespace_agree: "IsWhitespace_real v = 0 \<longleftrightarrow> IsWhitespace_basic v = 0"
  using IsWhitespace_real_lanes IsWhitespace_basic_lanes by blast

end
