(* ===== verification/SuperJson.thy ===== *)
theory SuperJson
  imports Prelude Swar
begin

text \<open>
  The tokenizing JSON parser of \<open>superjsonic/prototype/superjsonic_multi/superjsonic_multi.go\<close>:
  keys packed into atoms, the operations chosen from the configuration when a parser is created
  (\<open>SimdOps\<close>, \<open>ParserOps\<close>), the scans for strings and white space with their eight- and
  sixteen-byte variants, and the recursive parser over objects and arrays with its stack of
  contexts. A parser is the record \<open>json_parser\<close>. Every operation returns the parser with an
  outcome, and an index out of range is the outcome \<open>Panic\<close>. The recursion takes fuel;
  \<open>Parse\<close> gives it more than it can use (SuperJsonGrammar proves this).
\<close>

section \<open>Bytes\<close>

definition octets :: "string \<Rightarrow> octet list" where
  "octets s = map (\<lambda>c. of_nat (of_char c)) s"

definition chars :: "octet list \<Rightarrow> string" where
  "chars bs = map (\<lambda>b. char_of (unat b)) bs"

text \<open>\<open>%c\<close> on a byte: the character U+00XX, in UTF-8.\<close>

definition show_c :: "octet \<Rightarrow> string" where
  "show_c b = (if unat b < 0x80 then [char_of (unat b)]
     else [char_of (0xC0 + unat b div 64), char_of (0x80 + unat b mod 64)])"

definition isDigit :: "octet \<Rightarrow> bool" where
  "isDigit b = (0x30 \<le> b \<and> b \<le> 0x39)"

section \<open>Configuration\<close>

record json_config =
  EnableAtoms :: bool
  EnableSIMD :: bool
  EnableStringView :: bool
  EnableFastCompare :: bool
  EnableArrayOpt :: bool
  EnablePooling :: bool
  Enable16ByteSIMD :: bool
  EnableAll :: bool
  DisableAll :: bool

definition applyConfigOverrides :: "json_config \<Rightarrow> json_config" where
  "applyConfigOverrides c =
     (if EnableAll c then c\<lparr>EnableAtoms := True, EnableSIMD := True, EnableStringView := True,
        EnableFastCompare := True, EnableArrayOpt := True, EnablePooling := True, Enable16ByteSIMD := True\<rparr>
      else if DisableAll c then c\<lparr>EnableAtoms := False, EnableSIMD := False, EnableStringView := False,
        EnableFastCompare := False, EnableArrayOpt := False, EnablePooling := False, Enable16ByteSIMD := False\<rparr>
      else c)"

text \<open>The defaults of the flags.\<close>

definition default_config :: json_config where
  "default_config = \<lparr>EnableAtoms = True, EnableSIMD = True, EnableStringView = False,
     EnableFastCompare = False, EnableArrayOpt = True, EnablePooling = True,
     Enable16ByteSIMD = False, EnableAll = False, DisableAll = False\<rparr>"

text \<open>\<open>getConfigString\<close>: the names of the options that are on.\<close>

definition getConfigString :: "json_config \<Rightarrow> string" where
  "getConfigString c =
     (let opts = map snd (filter fst
        [(EnableAtoms c, ''atoms''), (EnableSIMD c, ''simd''), (EnableStringView c, ''stringview''),
         (EnableFastCompare c, ''fastcompare''), (EnableArrayOpt c, ''array''),
         (EnablePooling c, ''pooling''), (Enable16ByteSIMD c, ''simd16'')])
      in if length opts = 0 then ''none'' else str_join ''+'' opts)"

section \<open>Atoms\<close>

record atom128 =
  Lo :: "64 word"
  Hi :: "64 word"

definition no_atom128 :: atom128 where
  "no_atom128 = \<lparr>Lo = 0, Hi = 0\<rparr>"

text \<open>The loop \<open>atom |= uint64(data[i]) << (i * 8)\<close> over the bytes of a list.\<close>

definition or_bytes :: "octet list \<Rightarrow> 64 word" where
  "or_bytes bs = fold (\<lambda>i a. a OR push_bit (i * 8) (ucast (bs ! i))) [0..<length bs] 0"

definition makeAtom64 :: "octet list \<Rightarrow> 64 word" where
  "makeAtom64 bs = (if 8 < length bs then 0 else or_bytes bs)"

definition makeAtom128 :: "octet list \<Rightarrow> atom128" where
  "makeAtom128 bs = (if 16 < length bs then no_atom128
     else \<lparr>Lo = or_bytes (take 8 bs), Hi = or_bytes (drop 8 bs)\<rparr>)"

text \<open>\<open>String\<close> of the atoms: the bytes before the first zero byte.\<close>

definition Atom64_String :: "64 word \<Rightarrow> octet list" where
  "Atom64_String a = takeWhile (\<lambda>b. b \<noteq> 0) (lanes a)"

definition Atom128_String :: "atom128 \<Rightarrow> octet list" where
  "Atom128_String a = takeWhile (\<lambda>b. b \<noteq> 0) (lanes (Lo a) @ lanes (Hi a))"

text \<open>
  The constants for frequent keys: for each name that the comment of the constant gives, its value.
  The longer ones are made from the name by \<open>makeAtom128Static\<close>.
\<close>

definition atom64_constants :: "(string \<times> 64 word) list" where
  "atom64_constants =
    [(''id'', 0x6469), (''key'', 0x79656b), (''name'', 0x656d616e),
     (''type'', 0x65707974), (''data'', 0x61746164), (''code'', 0x65646f63),
     (''text'', 0x74786574), (''value'', 0x65756c6176), (''email'', 0x6c69616d65),
     (''status'', 0x737574617473), (''error'', 0x726f727265), (''items'', 0x736d657469),
     (''count'', 0x746e756f63), (''total'', 0x6c61746f74), (''price'', 0x6563697270),
     (''amount'', 0x746e756f6d61), (''street'', 0x746565727473), (''city'', 0x79746963),
     (''country'', 0x7972746e756f63), (''created'', 0x6465746165726308), (''updated'', 0x6465746164707508),
     (''customer'', 0x72656d6f74737563), (''password'', 0x64726f7773736170)]"

definition makeAtom128Static :: "string \<Rightarrow> atom128" where
  "makeAtom128Static s = makeAtom128 (octets s)"

definition atom128_constants :: "(string \<times> atom128) list" where
  "atom128_constants = map (\<lambda>s. (s, makeAtom128Static s))
    [''paymentMethod'', ''cardNumber'', ''securityCode'', ''expirationDate'',
     ''documentType'', ''documentNumber'', ''subscriptions'', ''billingAccount'']"

section \<open>Tokens\<close>

datatype json_token_type = TokenString | TokenNumber | TokenTrue | TokenFalse | TokenNull
  | TokenObjectStart | TokenObjectEnd | TokenArrayStart | TokenArrayEnd | TokenColon | TokenComma
  | TokenEOF | TokenKey64 | TokenKey128

record json_token =
  jt_Type :: json_token_type
  jt_Offset :: "32 word"
  jt_Length :: "32 word"
  jt_Atom64 :: "64 word"
  jt_Atom128 :: atom128

definition IsAtom64 :: "json_token \<Rightarrow> bool" where
  "IsAtom64 t = (jt_Type t = TokenKey64)"

definition IsAtom128 :: "json_token \<Rightarrow> bool" where
  "IsAtom128 t = (jt_Type t = TokenKey128)"

definition IsKey :: "json_token \<Rightarrow> bool" where
  "IsKey t = (jt_Type t = TokenKey64 \<or> jt_Type t = TokenKey128 \<or> jt_Type t = TokenString)"

section \<open>The parser\<close>

datatype parse_context = ContextValue | ContextObjectStart | ContextObjectKey | ContextObjectColon
  | ContextObjectValue | ContextObjectComma | ContextArrayStart | ContextArrayValue | ContextArrayComma

record array_info =
  isLargeArray :: bool
  tokensPerElement :: nat
  estimatedElements :: nat

definition no_array_info :: array_info where
  "no_array_info = \<lparr>isLargeArray = False, tokensPerElement = 0, estimatedElements = 0\<rparr>"

record atom_stats =
  totalKeys :: nat
  atom64Keys :: nat
  atom128Keys :: nat
  regularKeys :: nat

definition no_stats :: atom_stats where
  "no_stats = \<lparr>totalKeys = 0, atom64Keys = 0, atom128Keys = 0, regularKeys = 0\<rparr>"

text \<open>\<open>SimdOps\<close> with its two implementations, and \<open>ParserOps\<close> with the methods it can hold.\<close>

record simd_ops =
  HasByte :: "64 word \<Rightarrow> octet \<Rightarrow> bool"
  IsWhitespace :: "64 word \<Rightarrow> 64 word"

definition RealSimdOps :: simd_ops where
  "RealSimdOps = \<lparr>HasByte = HasByte_real, IsWhitespace = IsWhitespace_real\<rparr>"

definition NoSimdOps :: simd_ops where
  "NoSimdOps = \<lparr>HasByte = HasByte_basic, IsWhitespace = IsWhitespace_basic\<rparr>"

datatype string_op = ParseStringSIMD16 | ParseStringSIMD | ParseStringBasic
datatype space_op = SkipWhitespaceSIMD | SkipWhitespaceBasic
datatype literal_op = ParseLiteralFast | ParseLiteralBasic
datatype key_op = ProcessKeyAtom | ProcessKeyString

record parser_ops =
  op_parseString :: string_op
  op_skipWhitespace :: space_op
  op_parseLiteral :: literal_op
  op_processKey :: key_op

record json_parser =
  jp_data :: "octet list"
  jp_tokens :: "json_token list"
  jp_pos :: nat
  jp_simd :: simd_ops
  jp_ops :: parser_ops
  jp_arrayInfo :: array_info
  jp_contextStack :: "parse_context list"
  jp_currentContext :: parse_context
  jp_atomStats :: atom_stats

definition createParser :: "json_config \<Rightarrow> json_parser" where
  "createParser cfg = \<lparr>jp_data = [], jp_tokens = [], jp_pos = 0,
     jp_simd = (if EnableSIMD cfg then RealSimdOps else NoSimdOps),
     jp_ops = \<lparr>op_parseString = (if EnableSIMD cfg then
          (if Enable16ByteSIMD cfg then ParseStringSIMD16 else ParseStringSIMD) else ParseStringBasic),
        op_skipWhitespace = (if EnableSIMD cfg then SkipWhitespaceSIMD else SkipWhitespaceBasic),
        op_parseLiteral = (if EnableSIMD cfg then ParseLiteralFast else ParseLiteralBasic),
        op_processKey = (if EnableAtoms cfg then ProcessKeyAtom else ProcessKeyString)\<rparr>,
     jp_arrayInfo = no_array_info, jp_contextStack = [], jp_currentContext = ContextValue,
     jp_atomStats = no_stats\<rparr>"

text \<open>\<open>GetParser\<close>: \<open>pooled\<close> is the parser that the pool hands out, None when it makes a new one.\<close>

definition GetParser :: "json_config \<Rightarrow> json_parser option \<Rightarrow> json_parser" where
  "GetParser cfg pooled = (if EnablePooling cfg
     then (case pooled of Some p \<Rightarrow> p | None \<Rightarrow> createParser cfg)
     else createParser cfg)"

text \<open>\<open>ReturnParser\<close> resets the parser for the next one who gets it from the pool.\<close>

definition ReturnParser :: "json_config \<Rightarrow> json_parser \<Rightarrow> json_parser" where
  "ReturnParser cfg p = (if EnablePooling cfg then
      p\<lparr>jp_data := [], jp_tokens := [], jp_pos := 0, jp_contextStack := [],
        jp_currentContext := ContextValue, jp_atomStats := no_stats\<rparr> else p)"

datatype parse_outcome = Ok | Err string | Panic | NoFuel

type_synonym parse_result = "parse_outcome \<times> json_parser"

text \<open>What follows a call whose error is returned at once.\<close>

definition and_then :: "parse_result \<Rightarrow> (json_parser \<Rightarrow> parse_result) \<Rightarrow> parse_result" where
  "and_then r f = (case r of (Ok, p) \<Rightarrow> f p | _ \<Rightarrow> r)"

definition pushContext :: "parse_context \<Rightarrow> json_parser \<Rightarrow> json_parser" where
  "pushContext ctx p = p\<lparr>jp_contextStack := jp_contextStack p @ [jp_currentContext p],
     jp_currentContext := ctx\<rparr>"

definition popContext :: "json_parser \<Rightarrow> json_parser" where
  "popContext p = (if jp_contextStack p \<noteq> []
     then p\<lparr>jp_currentContext := last (jp_contextStack p), jp_contextStack := butlast (jp_contextStack p)\<rparr>
     else p\<lparr>jp_currentContext := ContextValue\<rparr>)"

definition addToken :: "json_token_type \<Rightarrow> nat \<Rightarrow> nat \<Rightarrow> 64 word \<Rightarrow> atom128 \<Rightarrow> json_parser \<Rightarrow> json_parser" where
  "addToken typ offset len a64 a128 p = p\<lparr>jp_tokens := jp_tokens p @
     [\<lparr>jt_Type = typ, jt_Offset = of_nat offset, jt_Length = of_nat len, jt_Atom64 = a64, jt_Atom128 = a128\<rparr>]\<rparr>"

text \<open>The token of one punctuation mark, and the step over it.\<close>

abbreviation mark :: "json_token_type \<Rightarrow> json_parser \<Rightarrow> json_parser" where
  "mark typ p \<equiv> (addToken typ (jp_pos p) 1 0 no_atom128 p)\<lparr>jp_pos := jp_pos p + 1\<rparr>"

definition at_end :: "json_parser \<Rightarrow> bool" where
  "at_end p = (length (jp_data p) \<le> jp_pos p)"

definition cur_byte :: "json_parser \<Rightarrow> octet" where
  "cur_byte p = jp_data p ! jp_pos p"

definition set_context :: "parse_context \<Rightarrow> json_parser \<Rightarrow> json_parser" where
  "set_context ctx p = p\<lparr>jp_currentContext := ctx\<rparr>"

section \<open>White space\<close>

function skip_basic :: "octet list \<Rightarrow> nat \<Rightarrow> nat" where
  "skip_basic d pos = (if pos < length d \<and> isWhitespace (d ! pos) then skip_basic d (pos + 1) else pos)"
  by pat_completeness auto
termination skip_basic
  by (relation "measure (\<lambda>(d, pos). length d - pos)") auto

function skip_simd :: "simd_ops \<Rightarrow> octet list \<Rightarrow> nat \<Rightarrow> nat" where
  "skip_simd S d pos =
     (if pos + 8 \<le> length d then
        if IsWhitespace S (load64 d pos) = 0 then pos
        else (case find (\<lambda>j. \<not> isWhitespace (d ! (pos + j))) [0..<8] of
            Some j \<Rightarrow> pos + j | None \<Rightarrow> skip_simd S d (pos + 8))
      else skip_basic d pos)"
  by pat_completeness auto
termination skip_simd
  by (relation "measure (\<lambda>(S, d, pos). length d - pos)") auto

declare skip_basic.simps [simp del] skip_simd.simps [simp del]

definition skip_from :: "json_parser \<Rightarrow> nat" where
  "skip_from p = (case op_skipWhitespace (jp_ops p) of
       SkipWhitespaceBasic \<Rightarrow> skip_basic (jp_data p) (jp_pos p)
     | SkipWhitespaceSIMD \<Rightarrow> skip_simd (jp_simd p) (jp_data p) (jp_pos p))"

definition skipWhitespace :: "json_parser \<Rightarrow> json_parser" where
  "skipWhitespace p = p\<lparr>jp_pos := skip_from p\<rparr>"

section \<open>Strings\<close>

text \<open>
  A scan returns the position where it stops, with an error or at the closing quote. The labels
  \<open>stringEnd\<close> and the code after the loops are \<open>string_end\<close>.
\<close>

definition string_end :: "octet list \<Rightarrow> nat \<Rightarrow> nat \<times> string option" where
  "string_end d pos = (pos, if length d \<le> pos then Some ''unterminated string'' else None)"

function scan_basic :: "octet list \<Rightarrow> nat \<Rightarrow> nat \<times> string option" where
  "scan_basic d pos =
     (if pos < length d \<and> d ! pos \<noteq> 0x22 then
        if d ! pos = 0x5C then
          if length d \<le> pos + 1 then (pos + 1, Some ''unterminated string escape'')
          else scan_basic d (pos + 2)
        else scan_basic d (pos + 1)
      else string_end d pos)"
  by pat_completeness auto
termination scan_basic
  by (relation "measure (\<lambda>(d, pos). length d - pos)") auto

text \<open>The first quote or backslash among the \<open>n\<close> bytes from \<open>pos\<close>.\<close>

definition find_special :: "octet list \<Rightarrow> nat \<Rightarrow> nat \<Rightarrow> nat option" where
  "find_special d pos n = find (\<lambda>j. d ! (pos + j) = 0x5C \<or> d ! (pos + j) = 0x22) [0..<n]"

lemma find_special_Some: "find_special d pos n = Some j \<Longrightarrow> j < n"
  by (auto simp: find_special_def find_Some_iff)

function scan8 :: "simd_ops \<Rightarrow> octet list \<Rightarrow> nat \<Rightarrow> nat \<times> string option" where
  "scan8 S d pos =
     (if pos + 8 \<le> length d then
        let v = load64 d pos in
        if HasByte S v 0x22 \<or> HasByte S v 0x5C then
          (case find_special d pos 8 of
             Some j \<Rightarrow> if d ! (pos + j) = 0x5C then scan8 S d (pos + j + 2) else string_end d (pos + j)
           | None \<Rightarrow> scan8 S d (pos + 8))
        else scan8 S d (pos + 8)
      else scan_basic d pos)"
  by pat_completeness auto
termination scan8
  by (relation "measure (\<lambda>(S, d, pos). length d - pos)") (auto dest: find_special_Some)

function scan16 :: "simd_ops \<Rightarrow> octet list \<Rightarrow> nat \<Rightarrow> nat \<times> string option" where
  "scan16 S d pos =
     (if pos + 16 \<le> length d then
        let v1 = load64 d pos; v2 = load64 d (pos + 8) in
        if HasByte S v1 0x22 \<or> HasByte S v1 0x5C \<or> HasByte S v2 0x22 \<or> HasByte S v2 0x5C then
          (case find_special d pos 16 of
             Some j \<Rightarrow> if d ! (pos + j) = 0x5C then scan16 S d (pos + j + 2) else (pos + j, None)
           | None \<Rightarrow> scan16 S d (pos + 16))
        else scan16 S d (pos + 16)
      else scan8 S d pos)"
  by pat_completeness auto
termination scan16
  by (relation "measure (\<lambda>(S, d, pos). length d - pos)") (auto dest: find_special_Some)

declare scan_basic.simps [simp del] scan8.simps [simp del] scan16.simps [simp del]

definition count_key :: "(atom_stats \<Rightarrow> atom_stats) \<Rightarrow> json_parser \<Rightarrow> json_parser" where
  "count_key f p = p\<lparr>jp_atomStats := f ((jp_atomStats p)\<lparr>totalKeys := totalKeys (jp_atomStats p) + 1\<rparr>)\<rparr>"

definition processKeyAtom :: "nat \<Rightarrow> nat \<Rightarrow> json_parser \<Rightarrow> json_parser" where
  "processKeyAtom stringStart keyLen p =
     (let key = take keyLen (drop stringStart (jp_data p)) in
      if keyLen \<le> 8 then
        count_key (\<lambda>s. s\<lparr>atom64Keys := atom64Keys s + 1\<rparr>)
          (addToken TokenKey64 0 0 (makeAtom64 key) no_atom128 p)
      else if keyLen \<le> 16 then
        count_key (\<lambda>s. s\<lparr>atom128Keys := atom128Keys s + 1\<rparr>)
          (addToken TokenKey128 0 0 0 (makeAtom128 key) p)
      else count_key (\<lambda>s. s\<lparr>regularKeys := regularKeys s + 1\<rparr>)
          (addToken TokenString (stringStart - 1) (keyLen + 2) 0 no_atom128 p))"

definition processKeyString :: "nat \<Rightarrow> nat \<Rightarrow> json_parser \<Rightarrow> json_parser" where
  "processKeyString stringStart keyLen p =
     addToken TokenString (stringStart - 1) (keyLen + 2) 0 no_atom128
       (count_key (\<lambda>s. s\<lparr>regularKeys := regularKeys s + 1\<rparr>) p)"

definition processKey :: "nat \<Rightarrow> nat \<Rightarrow> json_parser \<Rightarrow> json_parser" where
  "processKey stringStart keyLen p = (case op_processKey (jp_ops p) of
       ProcessKeyAtom \<Rightarrow> processKeyAtom stringStart keyLen p
     | ProcessKeyString \<Rightarrow> processKeyString stringStart keyLen p)"

definition finishString :: "nat \<Rightarrow> nat \<Rightarrow> json_parser \<Rightarrow> json_parser" where
  "finishString start stringStart p =
     (let p = (if jp_currentContext p = ContextObjectKey
               then processKey stringStart (jp_pos p - stringStart) p
               else addToken TokenString start (jp_pos p - start + 1) 0 no_atom128 p)
      in p\<lparr>jp_pos := jp_pos p + 1\<rparr>)"

definition scan_from :: "json_parser \<Rightarrow> nat \<times> string option" where
  "scan_from p = (let d = jp_data p; pos = jp_pos p + 1 in case op_parseString (jp_ops p) of
       ParseStringBasic \<Rightarrow> scan_basic d pos
     | ParseStringSIMD \<Rightarrow> scan8 (jp_simd p) d pos
     | ParseStringSIMD16 \<Rightarrow> scan16 (jp_simd p) d pos)"

definition parseString :: "json_parser \<Rightarrow> parse_result" where
  "parseString p = (let start = jp_pos p in case scan_from p of
       (pos, Some e) \<Rightarrow> (Err e, p\<lparr>jp_pos := pos\<rparr>)
     | (pos, None) \<Rightarrow> (Ok, finishString start (start + 1) (p\<lparr>jp_pos := pos\<rparr>)))"

section \<open>Literals and numbers\<close>

text \<open>\<open>*(*uint32)(unsafe.Pointer(&data[pos]))\<close>.\<close>

definition load32 :: "octet list \<Rightarrow> nat \<Rightarrow> 32 word" where
  "load32 d pos = ucast (pack64 (take 4 (drop pos d)))"

definition literal_token :: "json_token_type \<Rightarrow> nat \<Rightarrow> json_parser \<Rightarrow> parse_result" where
  "literal_token typ n p = (Ok, (addToken typ (jp_pos p) n 0 no_atom128 p)\<lparr>jp_pos := jp_pos p + n\<rparr>)"

definition invalid_literal :: "json_parser \<Rightarrow> parse_result" where
  "invalid_literal p = (Err (''invalid literal at position '' @ show_nat (jp_pos p)), p)"

definition parseLiteralFast :: "json_parser \<Rightarrow> parse_result" where
  "parseLiteralFast p = (let d = jp_data p; pos = jp_pos p in
     if cur_byte p = 0x74 \<and> pos + 4 \<le> length d \<and> load32 d pos = 0x65757274
     then literal_token TokenTrue 4 p
     else if cur_byte p = 0x66 \<and> pos + 5 \<le> length d \<and> load32 d pos = 0x736c6166 \<and> d ! (pos + 4) = 0x65
     then literal_token TokenFalse 5 p
     else if cur_byte p = 0x6E \<and> pos + 4 \<le> length d \<and> load32 d pos = 0x6c6c756e
     then literal_token TokenNull 4 p
     else invalid_literal p)"

definition parseLiteralBasic :: "json_parser \<Rightarrow> parse_result" where
  "parseLiteralBasic p = (let d = jp_data p; pos = jp_pos p in
     if cur_byte p = 0x74 \<and> pos + 4 \<le> length d \<and> take 4 (drop pos d) = octets ''true''
     then literal_token TokenTrue 4 p
     else if cur_byte p = 0x66 \<and> pos + 5 \<le> length d \<and> take 5 (drop pos d) = octets ''false''
     then literal_token TokenFalse 5 p
     else if cur_byte p = 0x6E \<and> pos + 4 \<le> length d \<and> take 4 (drop pos d) = octets ''null''
     then literal_token TokenNull 4 p
     else invalid_literal p)"

definition parseLiteral :: "json_parser \<Rightarrow> parse_result" where
  "parseLiteral p = (case op_parseLiteral (jp_ops p) of
       ParseLiteralFast \<Rightarrow> parseLiteralFast p | ParseLiteralBasic \<Rightarrow> parseLiteralBasic p)"

function skip_digits :: "octet list \<Rightarrow> nat \<Rightarrow> nat" where
  "skip_digits d pos = (if pos < length d \<and> isDigit (d ! pos) then skip_digits d (pos + 1) else pos)"
  by pat_completeness auto
termination skip_digits
  by (relation "measure (\<lambda>(d, pos). length d - pos)") auto

declare skip_digits.simps [simp del]

definition byte_at :: "octet list \<Rightarrow> nat \<Rightarrow> octet set \<Rightarrow> bool" where
  "byte_at d pos B = (pos < length d \<and> d ! pos \<in> B)"

definition digit_at :: "octet list \<Rightarrow> nat \<Rightarrow> bool" where
  "digit_at d pos = (pos < length d \<and> isDigit (d ! pos))"

definition scan_fraction :: "octet list \<Rightarrow> nat \<Rightarrow> nat \<times> string option" where
  "scan_fraction d pos = (if byte_at d pos {0x2E} then
       if digit_at d (pos + 1) then (skip_digits d (pos + 1), None)
       else (pos + 1, Some ''invalid number: decimal point must be followed by digits'')
     else (pos, None))"

definition scan_exponent :: "octet list \<Rightarrow> nat \<Rightarrow> nat \<times> string option" where
  "scan_exponent d pos = (if byte_at d pos {0x65, 0x45} then
       let pos = (if byte_at d (pos + 1) {0x2B, 0x2D} then pos + 2 else pos + 1) in
       if digit_at d pos then (skip_digits d pos, None)
       else (pos, Some ''invalid number: exponent must have digits'')
     else (pos, None))"

definition scan_number :: "octet list \<Rightarrow> nat \<Rightarrow> nat \<times> string option" where
  "scan_number d start =
     (let pos = (if d ! start = 0x2D then start + 1 else start) in
      if \<not> digit_at d pos then (pos, Some (''invalid number at position '' @ show_nat start))
      else let pos = (if d ! pos = 0x30 then pos + 1 else skip_digits d pos) in
        case scan_fraction d pos of
          (pos, Some e) \<Rightarrow> (pos, Some e)
        | (pos, None) \<Rightarrow> scan_exponent d pos)"

definition parseNumber :: "json_parser \<Rightarrow> parse_result" where
  "parseNumber p = (let start = jp_pos p in case scan_number (jp_data p) start of
       (pos, Some e) \<Rightarrow> (Err e, p\<lparr>jp_pos := pos\<rparr>)
     | (pos, None) \<Rightarrow> (Ok, (addToken TokenNumber start (pos - start) 0 no_atom128 p)\<lparr>jp_pos := pos\<rparr>))"

section \<open>Values\<close>

text \<open>
  The loops of \<open>parseObject\<close> and \<open>parseArray\<close> are functions of the flag \<open>first\<close>. The byte after a
  comma in an object is read without a test for the end of the input.
\<close>

definition expected_at :: "string \<Rightarrow> json_parser \<Rightarrow> parse_result" where
  "expected_at what p = (Err (what @ '' at position '' @ show_nat (jp_pos p)), p)"

fun parseValue :: "nat \<Rightarrow> json_parser \<Rightarrow> parse_result"
  and object_loop :: "nat \<Rightarrow> bool \<Rightarrow> json_parser \<Rightarrow> parse_result"
  and object_member :: "nat \<Rightarrow> json_parser \<Rightarrow> parse_result"
  and array_loop :: "nat \<Rightarrow> bool \<Rightarrow> json_parser \<Rightarrow> parse_result"
  and array_element :: "nat \<Rightarrow> json_parser \<Rightarrow> parse_result" where
  "parseValue 0 p = (NoFuel, p)"
| "parseValue (Suc n) p =
     (let p = skipWhitespace p in
      if at_end p then (Err ''unexpected end of JSON'', p)
      else let b = cur_byte p in
        if b = 0x7B then
          object_loop n True (pushContext ContextObjectStart (mark TokenObjectStart p))
        else if b = 0x5B then
          array_loop n True (pushContext ContextArrayStart (mark TokenArrayStart p))
        else if b = 0x22 then parseString p
        else if b = 0x74 \<or> b = 0x66 \<or> b = 0x6E then parseLiteral p
        else if b = 0x2D \<or> isDigit b then parseNumber p
        else (Err (''unexpected character '' @ [CHR 0x27] @ show_c b @ [CHR 0x27] @ '' at position ''
                @ show_nat (jp_pos p)), p))"
| "object_loop 0 first p = (NoFuel, p)"
| "object_loop (Suc n) first p =
     (let p = skipWhitespace p in
      if at_end p then (Err ''unterminated object'', p)
      else if cur_byte p = 0x7D then (Ok, popContext (mark TokenObjectEnd p))
      else if first then and_then (object_member n p) (object_loop n False)
      else if cur_byte p \<noteq> 0x2C then expected_at ''expected ',' between object members'' p
      else and_then (object_member n (skipWhitespace (mark TokenComma p))) (object_loop n False))"
| "object_member n p =
     (let p = set_context ContextObjectKey p in
      if at_end p then (Panic, p)
      else if cur_byte p \<noteq> 0x22 then expected_at ''expected '\"' for object key'' p
      else and_then (parseString p) (\<lambda>p.
        let p = skipWhitespace p in
        if at_end p \<or> cur_byte p \<noteq> 0x3A then expected_at ''expected ':' after object key'' p
        else and_then (parseValue n (set_context ContextObjectValue (mark TokenColon p)))
               (\<lambda>p. (Ok, set_context ContextObjectComma p))))"
| "array_loop 0 first p = (NoFuel, p)"
| "array_loop (Suc n) first p =
     (let p = skipWhitespace p in
      if at_end p then (Err ''unterminated array'', p)
      else if cur_byte p = 0x5D then (Ok, popContext (mark TokenArrayEnd p))
      else if first then and_then (array_element n p) (array_loop n False)
      else if cur_byte p \<noteq> 0x2C then expected_at ''expected ',' between array elements'' p
      else and_then (array_element n (skipWhitespace (mark TokenComma p))) (array_loop n False))"
| "array_element n p =
     and_then (parseValue n (set_context ContextArrayValue p)) (\<lambda>p. (Ok, set_context ContextArrayComma p))"

text \<open>The rules of the bodies are used by name.\<close>

declare object_member.simps [simp del] array_element.simps [simp del]

section \<open>Large arrays\<close>

text \<open>\<open>strings.Index\<close>.\<close>

fun bytes_index :: "octet list \<Rightarrow> octet list \<Rightarrow> nat option" where
  "bytes_index d pat = (if take (length pat) d = pat then Some 0
     else case d of [] \<Rightarrow> None | _ # r \<Rightarrow> map_option Suc (bytes_index r pat))"

declare bytes_index.simps [simp del]

text \<open>The loop of \<open>sampleArrayElement\<close>, over the first 10000 bytes.\<close>

fun sample_loop :: "octet list \<Rightarrow> nat \<Rightarrow> int \<Rightarrow> bool \<Rightarrow> bool \<Rightarrow> nat" where
  "sample_loop [] i depth inString escape = 0"
| "sample_loop (b # r) i depth inString escape =
     (let escape' = (\<not> escape \<and> b = 0x5C) in
      if inString then sample_loop r (i + 1) depth (\<not> (b = 0x22 \<and> \<not> escape)) escape'
      else if b = 0x22 then sample_loop r (i + 1) depth (\<not> escape) escape'
      else if b = 0x7B \<or> b = 0x5B then sample_loop r (i + 1) (depth + 1) False escape'
      else if b = 0x7D \<or> b = 0x5D then
        (if depth - 1 = 0 then i + 1 else sample_loop r (i + 1) (depth - 1) False escape')
      else if b = 0x2C \<and> depth = 0 then i
      else sample_loop r (i + 1) depth False escape')"

definition sampleArrayElement :: "octet list \<Rightarrow> nat" where
  "sampleArrayElement d = sample_loop (take 10000 d) 0 0 False False"

definition array_patterns :: "octet list list" where
  "array_patterns = map (\<lambda>name. octets (''\"'' @ name @ ''\":['')) [''items'', ''data'', ''results'',
     ''records'', ''transactions'', ''orders'', ''customers'']"

fun detect_pattern :: "octet list \<Rightarrow> octet list list \<Rightarrow> array_info option" where
  "detect_pattern d [] = None"
| "detect_pattern d (pat # pats) = (case bytes_index (take 1000 d) pat of
       None \<Rightarrow> detect_pattern d pats
     | Some idx \<Rightarrow> (let arrayStart = idx + length pat in
         if arrayStart < length d then
           (let elementSample = sampleArrayElement (drop arrayStart d) in
            if 10 < elementSample
            then Some \<lparr>isLargeArray = True, tokensPerElement = 20,
                   estimatedElements = (length d - arrayStart) div elementSample\<rparr>
            else detect_pattern d pats)
         else detect_pattern d pats))"

definition detectLargeArray :: "octet list \<Rightarrow> array_info" where
  "detectLargeArray d = (if length d < 100 then no_array_info
     else case detect_pattern d array_patterns of
       Some info \<Rightarrow> info
     | None \<Rightarrow>
         if d ! 0 = 0x5B then
           (let elementSample = sampleArrayElement (drop 1 d) in
            if 10 < elementSample
            then \<lparr>isLargeArray = True, tokensPerElement = 20, estimatedElements = length d div elementSample\<rparr>
            else no_array_info)
         else no_array_info)"

section \<open>The entry points\<close>

text \<open>\<open>Parse\<close> on the parser \<open>p\<close>: it resets everything but the statistics.\<close>

definition start_parse :: "json_config \<Rightarrow> octet list \<Rightarrow> json_parser \<Rightarrow> json_parser" where
  "start_parse cfg d p =
     (let p = p\<lparr>jp_data := d, jp_tokens := [], jp_pos := 0, jp_contextStack := [],
                jp_currentContext := ContextValue\<rparr>
      in if EnableArrayOpt cfg then p\<lparr>jp_arrayInfo := detectLargeArray d\<rparr> else p)"

definition ParseJSON :: "json_config \<Rightarrow> octet list \<Rightarrow> json_parser \<Rightarrow> parse_result" where
  "ParseJSON cfg d p = parseValue (2 * length d + 2) (start_parse cfg d p)"

text \<open>A slice of the data, with the offset and the length of the token as unsigned 32-bit numbers.\<close>

definition token_slice :: "json_parser \<Rightarrow> json_token \<Rightarrow> octet list" where
  "token_slice p t = take (unat (jt_Length t)) (drop (unat (jt_Offset t)) (jp_data p))"

definition GetTokenValue :: "json_parser \<Rightarrow> json_token \<Rightarrow> octet list" where
  "GetTokenValue p t =
     (if IsAtom64 t then Atom64_String (jt_Atom64 t)
      else if IsAtom128 t then Atom128_String (jt_Atom128 t)
      else if jt_Offset t < of_nat (length (jp_data p))
            \<and> jt_Offset t + jt_Length t \<le> of_nat (length (jp_data p))
      then token_slice p t
      else [])"

text \<open>
  \<open>CompareToken\<close>. The loops over eight bytes and over single bytes compare the slice of the token
  with the target from the front; the slice has the length of the target by then.
\<close>

function compare_simd :: "octet list \<Rightarrow> octet list \<Rightarrow> nat \<Rightarrow> bool" where
  "compare_simd xs ys i =
     (if i + 8 \<le> length ys then load64 xs i = load64 ys i \<and> compare_simd xs ys (i + 8)
      else list_all (\<lambda>i. xs ! i = ys ! i) [i..<length ys])"
  by pat_completeness auto
termination compare_simd
  by (relation "measure (\<lambda>(xs, ys, i). length ys - i)") auto

declare compare_simd.simps [simp del]

definition CompareToken :: "json_config \<Rightarrow> json_parser \<Rightarrow> json_token \<Rightarrow> octet list \<Rightarrow> bool" where
  "CompareToken cfg p t target =
     (if \<not> EnableFastCompare cfg then GetTokenValue p t = target
      else if IsAtom64 t then jt_Atom64 t = makeAtom64 target
      else if IsAtom128 t then Lo (jt_Atom128 t) = Lo (makeAtom128 target)
             \<and> Hi (jt_Atom128 t) = Hi (makeAtom128 target)
      else if int (unat (jt_Length t)) \<noteq> int (length target) then False
      else if EnableSIMD cfg then compare_simd (token_slice p t) target 0
      else list_all (\<lambda>i. token_slice p t ! i = target ! i) [0..<length target])"

definition GetTokens :: "json_parser \<Rightarrow> json_token list" where
  "GetTokens p = jp_tokens p"

definition GetStats :: "json_parser \<Rightarrow> atom_stats" where
  "GetStats p = jp_atomStats p"

text \<open>\<open>GetTokenStringView\<close> with its \<open>String\<close>: the bytes seen without a copy.\<close>

definition string_view :: "json_config \<Rightarrow> json_parser \<Rightarrow> json_token \<Rightarrow> octet list" where
  "string_view cfg p t = (if \<not> EnableStringView cfg \<or> IsAtom64 t \<or> IsAtom128 t then []
     else token_slice p t)"

end
