(* ===== verification/SuperJsonScan.thy ===== *)
theory SuperJsonScan
  imports SuperJson
begin

text \<open>
  What the choice of operations means for the parser of SuperJson: every implementation of
  \<open>SimdOps\<close> that obeys the two laws of the locale \<open>simd\<close> makes the fast scans agree with the
  loops over single bytes, and so a parser with any configuration agrees with the parser that
  uses the plain loops: same outcome, up to the text of an error, and same tokens.
\<close>

section \<open>The plain loops over a run of bytes\<close>

lemma skip_basic_run:
  assumes "i \<le> j" and "\<And>k. i \<le> k \<Longrightarrow> k < j \<Longrightarrow> k < length d \<and> isWhitespace (d ! k)"
  shows "skip_basic d i = skip_basic d j"
  using assms
proof (induction "j - i" arbitrary: i)
  case (Suc n)
  then have "skip_basic d i = skip_basic d (i + 1)"
    by (subst skip_basic.simps) auto
  also have "\<dots> = skip_basic d j"
    using Suc by (intro Suc.hyps(1)) auto
  finally show ?case .
qed simp

lemma skip_basic_stop: "\<not> (i < length d \<and> isWhitespace (d ! i)) \<Longrightarrow> skip_basic d i = i"
  by (subst skip_basic.simps) argo

lemma scan_basic_run:
  assumes "i \<le> j" and "\<And>k. i \<le> k \<Longrightarrow> k < j \<Longrightarrow> k < length d \<and> d ! k \<noteq> 0x22 \<and> d ! k \<noteq> 0x5C"
  shows "scan_basic d i = scan_basic d j"
  using assms
proof (induction "j - i" arbitrary: i)
  case (Suc n)
  then have "scan_basic d i = scan_basic d (i + 1)"
    by (subst scan_basic.simps) auto
  also have "\<dots> = scan_basic d j"
    using Suc by (intro Suc.hyps(1)) auto
  finally show ?case .
qed simp

lemma scan_basic_quote: "i < length d \<Longrightarrow> d ! i = 0x22 \<Longrightarrow> scan_basic d i = (i, None)"
  by (subst scan_basic.simps) (simp add: string_end_def)

lemma scan_basic_escape:
  "i < length d \<Longrightarrow> d ! i = 0x5C \<Longrightarrow> scan_basic d i =
     (if i + 1 < length d then scan_basic d (i + 2) else (i + 1, Some ''unterminated string escape''))"
  by (subst scan_basic.simps) simp

lemma scan_basic_end: "length d \<le> i \<Longrightarrow> scan_basic d i = (i, Some ''unterminated string'')"
  by (subst scan_basic.simps) (simp add: string_end_def)

text \<open>Two scans agree: both fail, or both stop at the same quote.\<close>

definition agree_scan :: "nat \<times> string option \<Rightarrow> nat \<times> string option \<Rightarrow> bool" where
  "agree_scan r r' = (if snd r = None then r' = r else snd r' \<noteq> None)"

lemma agree_scan_refl [simp]: "agree_scan r r"
  by (simp add: agree_scan_def)

lemma find_special_cases:
  assumes "pos + n \<le> length d"
  obtains (none) "find_special d pos n = None" "scan_basic d pos = scan_basic d (pos + n)"
  | (quote) j where "find_special d pos n = Some j" "j < n" "d ! (pos + j) = 0x22"
      "scan_basic d pos = (pos + j, None)"
  | (escape) j where "find_special d pos n = Some j" "j < n" "d ! (pos + j) = 0x5C"
      "scan_basic d pos = (if pos + j + 1 < length d then scan_basic d (pos + j + 2)
         else (pos + j + 1, Some ''unterminated string escape''))"
proof (cases "find_special d pos n")
  case None
  then have plain: "j < n \<Longrightarrow> d ! (pos + j) \<noteq> 0x22 \<and> d ! (pos + j) \<noteq> 0x5C" for j
    by (auto simp: find_special_def find_None_iff)
  have "scan_basic d pos = scan_basic d (pos + n)"
  proof (rule scan_basic_run)
    fix k assume "pos \<le> k" "k < pos + n"
    then show "k < length d \<and> d ! k \<noteq> 0x22 \<and> d ! k \<noteq> 0x5C"
      using plain [of "k - pos"] assms by auto
  qed simp
  with None none show thesis by blast
next
  case (Some j)
  then have j: "j < n" "d ! (pos + j) = 0x5C \<or> d ! (pos + j) = 0x22"
    and plain: "i < j \<Longrightarrow> d ! (pos + i) \<noteq> 0x22 \<and> d ! (pos + i) \<noteq> 0x5C" for i
    by (auto simp: find_special_def find_Some_iff)
  have "scan_basic d pos = scan_basic d (pos + j)"
  proof (rule scan_basic_run)
    fix k assume "pos \<le> k" "k < pos + j"
    then show "k < length d \<and> d ! k \<noteq> 0x22 \<and> d ! k \<noteq> 0x5C"
      using plain [of "k - pos"] j(1) assms by auto
  qed simp
  moreover have "pos + j < length d" using j(1) assms by simp
  ultimately show thesis
    using j Some quote escape scan_basic_quote scan_basic_escape by metis
qed

section \<open>The interface of the word operations\<close>

locale simd =
  fixes S :: simd_ops
  assumes HasByte_law: "HasByte S v b \<longleftrightarrow> b \<in> set (lanes v)"
    and IsWhitespace_law: "IsWhitespace S v \<noteq> 0 \<longleftrightarrow> list_ex isWhitespace (lanes v)"
begin

lemma HasByte_load:
  "pos + 8 \<le> length d \<Longrightarrow> HasByte S (load64 d pos) b \<longleftrightarrow> (\<exists>j < 8. d ! (pos + j) = b)"
  by (auto simp: HasByte_law lanes_load64 in_set_conv_nth)

lemma skip_simd_basic: "skip_simd S d pos = skip_basic d pos"
proof (induction "length d - pos" arbitrary: pos rule: less_induct)
  case less
  show ?case
  proof (cases "pos + 8 \<le> length d")
    case True
    note len = True
    show ?thesis
    proof (cases "IsWhitespace S (load64 d pos) = 0")
      case True
      then have "\<not> list_ex isWhitespace (take 8 (drop pos d))"
        using IsWhitespace_law [of "load64 d pos"] len by (simp add: lanes_load64)
      moreover have "d ! pos \<in> set (take 8 (drop pos d))"
        using len nth_mem [of 0 "take 8 (drop pos d)"] by simp
      ultimately have "\<not> isWhitespace (d ! pos)"
        by (simp add: list_ex_iff)
      then show ?thesis
        using True len by (simp add: skip_simd.simps [of S d pos] skip_basic_stop)
    next
      case False
      note ws = False
      show ?thesis
      proof (cases "find (\<lambda>j. \<not> isWhitespace (d ! (pos + j))) [0..<8]")
        case None
        then have "k < 8 \<Longrightarrow> isWhitespace (d ! (pos + k))" for k
          by (auto simp: find_None_iff)
        then have "skip_basic d pos = skip_basic d (pos + 8)"
          using len by (intro skip_basic_run) (auto simp: nat_le_iff_add)
        with None less len ws show ?thesis
          by (simp add: skip_simd.simps [of S d pos])
      next
        case (Some j)
        then have j: "j < 8" "\<not> isWhitespace (d ! (pos + j))"
          and "k < j \<Longrightarrow> isWhitespace (d ! (pos + k))" for k
          by (auto simp: find_Some_iff)
        then have "skip_basic d pos = skip_basic d (pos + j)"
          using len by (intro skip_basic_run) (auto simp: nat_le_iff_add)
        also have "\<dots> = pos + j" using j by (simp add: skip_basic_stop)
        finally show ?thesis
          using Some len ws by (simp add: skip_simd.simps [of S d pos])
      qed
    qed
  next
    case False
    then show ?thesis by (simp add: skip_simd.simps [of S d pos])
  qed
qed

text \<open>The chunked scans: a chunk without a special byte is skipped, the others go to the byte found.\<close>

lemma special_in_chunk:
  assumes "pos + 8 \<le> length d"
    and "\<not> (HasByte S (load64 d pos) 0x22 \<or> HasByte S (load64 d pos) 0x5C)"
  shows "scan_basic d pos = scan_basic d (pos + 8)"
proof (rule scan_basic_run)
  fix k assume "pos \<le> k" "k < pos + 8"
  then obtain j where "k = pos + j" "j < 8" by (auto simp: nat_le_iff_add)
  with assms show "k < length d \<and> d ! k \<noteq> 0x22 \<and> d ! k \<noteq> 0x5C"
    by (auto simp: HasByte_load)
qed simp

lemma agree_escape:
  assumes "pos + j < length d"
    and "\<And>pos'. pos < pos' \<Longrightarrow> agree_scan (scan_basic d pos') (f pos')"
  shows "agree_scan (if pos + j + 1 < length d then scan_basic d (pos + j + 2)
     else (pos + j + 1, Some ''unterminated string escape'')) (f (pos + j + 2))"
proof (cases "pos + j + 1 < length d")
  case False
  then have "snd (scan_basic d (pos + j + 2)) \<noteq> None"
    by (simp add: scan_basic_end)
  with assms(2) [of "pos + j + 2"] False show ?thesis
    by (simp add: agree_scan_def)
qed (use assms in simp)

lemma scan8_basic: "agree_scan (scan_basic d pos) (scan8 S d pos)"
proof (induction "length d - pos" arbitrary: pos rule: less_induct)
  case less
  show ?case
  proof (cases "pos + 8 \<le> length d")
    case True
    then have IH: "\<And>pos'. pos < pos' \<Longrightarrow> agree_scan (scan_basic d pos') (scan8 S d pos')"
      using less by simp
    show ?thesis
    proof (cases "HasByte S (load64 d pos) 0x22 \<or> HasByte S (load64 d pos) 0x5C")
      case special: True
      from True show ?thesis
      proof (cases rule: find_special_cases)
        case (escape j)
        with True have "pos + j < length d" by simp
        from agree_escape [OF this IH] escape special True show ?thesis
          by (simp add: scan8.simps [of S d pos] Let_def)
      qed (use IH special True in \<open>auto simp: scan8.simps [of S d pos] Let_def string_end_def\<close>)
    next
      case False
      with True IH special_in_chunk [OF True] show ?thesis
        by (simp add: scan8.simps [of S d pos] Let_def)
    qed
  next
    case False
    then show ?thesis by (simp add: scan8.simps [of S d pos])
  qed
qed

lemma scan16_basic: "agree_scan (scan_basic d pos) (scan16 S d pos)"
proof (induction "length d - pos" arbitrary: pos rule: less_induct)
  case less
  show ?case
  proof (cases "pos + 16 \<le> length d")
    case True
    then have IH: "\<And>pos'. pos < pos' \<Longrightarrow> agree_scan (scan_basic d pos') (scan16 S d pos')"
      using less by simp
    show ?thesis
    proof (cases "HasByte S (load64 d pos) 0x22 \<or> HasByte S (load64 d pos) 0x5C
        \<or> HasByte S (load64 d (pos + 8)) 0x22 \<or> HasByte S (load64 d (pos + 8)) 0x5C")
      case special: True
      from True show ?thesis
      proof (cases rule: find_special_cases)
        case (escape j)
        with True have "pos + j < length d" by simp
        from agree_escape [OF this IH] escape special True show ?thesis
          by (simp add: scan16.simps [of S d pos] Let_def)
      qed (use IH special True in \<open>auto simp: scan16.simps [of S d pos] Let_def\<close>)
    next
      case False
      have "scan_basic d pos = scan_basic d (pos + 16)"
        using special_in_chunk [of pos d] special_in_chunk [of "pos + 8" d] False True
        by (simp add: add.assoc)
      with True IH False show ?thesis
        by (simp add: scan16.simps [of S d pos] Let_def)
    qed
  next
    case False
    then show ?thesis by (simp add: scan16.simps [of S d pos] scan8_basic)
  qed
qed

end

interpretation real: simd RealSimdOps
  by unfold_locales (simp_all add: RealSimdOps_def HasByte_real_lanes IsWhitespace_real_lanes)

interpretation basic: simd NoSimdOps
  by unfold_locales (simp_all add: NoSimdOps_def HasByte_basic_def IsWhitespace_basic_lanes)

section \<open>Literals by one comparison\<close>

lemma bit_load32: "pos + 4 \<le> length d \<Longrightarrow>
    bit (load32 d pos) n \<longleftrightarrow> n < 32 \<and> bit (d ! (pos + n div 8)) (n mod 8)"
  by (auto simp: load32_def bit_ucast_iff bit_pack64)

lemma load32_eq:
  assumes "pos + 4 \<le> length d" "length bs = 4"
  shows "load32 d pos = ucast (pack64 bs) \<longleftrightarrow> take 4 (drop pos d) = bs"
proof
  assume eq: "load32 d pos = ucast (pack64 bs)"
  show "take 4 (drop pos d) = bs"
  proof (rule nth_equalityI)
    fix j assume "j < length (take 4 (drop pos d))"
    then have j: "j < 4" by simp
    have "bit (d ! (pos + j)) m = bit (bs ! j) m" if "m < 8" for m
    proof -
      have "bit (load32 d pos) (8 * j + m) = bit (ucast (pack64 bs) :: 32 word) (8 * j + m)"
        by (simp add: eq)
      then show ?thesis
        using assms j that by (simp add: bit_load32 bit_ucast_iff bit_pack64)
    qed
    then show "take 4 (drop pos d) ! j = bs ! j"
      using assms j by (intro bit_word_eqI) simp
  qed (use assms in simp)
qed (simp add: load32_def)

lemma length_octets [simp]: "length (octets s) = length s"
  by (simp add: octets_def)

lemma literal_words:
  "(0x65757274 :: 32 word) = ucast (pack64 (octets ''true''))"
  "(0x736c6166 :: 32 word) = ucast (pack64 (octets ''fals''))"
  "(0x6c6c756e :: 32 word) = ucast (pack64 (octets ''null''))"
  by (simp_all add: octets_def)

lemma load32_literal:
  assumes "pos + 4 \<le> length d"
  shows "load32 d pos = 0x65757274 \<longleftrightarrow> take 4 (drop pos d) = octets ''true''"
    and "load32 d pos = 0x736c6166 \<longleftrightarrow> take 4 (drop pos d) = octets ''fals''"
    and "load32 d pos = 0x6c6c756e \<longleftrightarrow> take 4 (drop pos d) = octets ''null''"
  unfolding literal_words by (rule load32_eq [OF assms], simp)+

lemma take_5_false:
  assumes "pos + 5 \<le> length d"
  shows "take 5 (drop pos d) = octets ''false''
    \<longleftrightarrow> take 4 (drop pos d) = octets ''fals'' \<and> d ! (pos + 4) = 0x65"
proof -
  have "take (Suc 4) (drop pos d) = take 4 (drop pos d) @ [d ! (pos + 4)]"
    using assms by (subst take_Suc_conv_app_nth) simp_all
  moreover have "octets ''false'' = octets ''fals'' @ [0x65]"
    by (simp add: octets_def)
  ultimately show ?thesis by simp
qed

lemma parseLiteral_agree: "parseLiteralFast p = parseLiteralBasic p"
  by (simp add: parseLiteralFast_def parseLiteralBasic_def Let_def load32_literal take_5_false
      cong: conj_cong)

section \<open>Any parser agrees with the plain one\<close>

definition plain_ops :: "json_parser \<Rightarrow> json_parser" where
  "plain_ops p = p\<lparr>jp_simd := NoSimdOps, jp_ops := (jp_ops p)\<lparr>op_parseString := ParseStringBasic,
     op_skipWhitespace := SkipWhitespaceBasic, op_parseLiteral := ParseLiteralBasic\<rparr>,
     jp_arrayInfo := no_array_info\<rparr>"

definition agree_result :: "parse_result \<Rightarrow> parse_result \<Rightarrow> bool" where
  "agree_result r r' = (case fst r of
       Ok \<Rightarrow> r' = (Ok, plain_ops (snd r)) \<and> simd (jp_simd (snd r))
     | Err _ \<Rightarrow> (\<exists>m. fst r' = Err m)
     | other \<Rightarrow> fst r' = other)"

lemma agree_then:
  assumes "agree_result r r'" and "\<And>p. simd (jp_simd p) \<Longrightarrow> agree_result (f p) (f' (plain_ops p))"
  shows "agree_result (and_then r f) (and_then r' f')"
  using assms by (cases r; cases r'; cases "fst r")
    (auto simp: agree_result_def and_then_def split: parse_outcome.splits)

lemmas parser_steps = addToken_def pushContext_def popContext_def set_context_def

lemma plain_commute:
  "plain_ops (addToken t i n a b p) = addToken t i n a b (plain_ops p)"
  "plain_ops (pushContext c p) = pushContext c (plain_ops p)"
  "plain_ops (popContext p) = popContext (plain_ops p)"
  "plain_ops (set_context c p) = set_context c (plain_ops p)"
  "plain_ops (p\<lparr>jp_pos := i\<rparr>) = (plain_ops p)\<lparr>jp_pos := i\<rparr>"
  by (simp_all add: plain_ops_def parser_steps)

lemma plain_fields [simp]:
  "jp_pos (plain_ops p) = jp_pos p" "jp_data (plain_ops p) = jp_data p"
  "at_end (plain_ops p) = at_end p" "cur_byte (plain_ops p) = cur_byte p"
  by (simp_all add: plain_ops_def at_end_def cur_byte_def)

lemma simd_kept [simp]:
  "jp_simd (addToken t i n a b p) = jp_simd p" "jp_simd (pushContext c p) = jp_simd p"
  "jp_simd (popContext p) = jp_simd p" "jp_simd (set_context c p) = jp_simd p"
  "jp_simd (skipWhitespace p) = jp_simd p" "jp_simd (finishString i j p) = jp_simd p"
  by (simp_all add: parser_steps skipWhitespace_def finishString_def processKey_def processKeyAtom_def
      processKeyString_def count_key_def Let_def split: key_op.split)

lemma skip_plain: "simd (jp_simd p) \<Longrightarrow> skipWhitespace (plain_ops p) = plain_ops (skipWhitespace p)"
  by (simp add: skipWhitespace_def skip_from_def plain_ops_def simd.skip_simd_basic split: space_op.split)

lemma plain_finish: "plain_ops (finishString i j p) = finishString i j (plain_ops p)"
  by (simp add: finishString_def processKey_def processKeyAtom_def processKeyString_def count_key_def
      plain_ops_def addToken_def Let_def split: key_op.split)

lemma scan_plain: "simd (jp_simd p) \<Longrightarrow> agree_scan (scan_from (plain_ops p)) (scan_from p)"
  by (simp add: scan_from_def plain_ops_def Let_def simd.scan8_basic simd.scan16_basic split: string_op.split)

lemma parseString_plain:
  assumes "simd (jp_simd p)"
  shows "agree_result (parseString p) (parseString (plain_ops p))"
  using scan_plain [OF assms] assms
  by (cases "scan_from p"; cases "scan_from (plain_ops p)"; cases "snd (scan_from p)")
    (auto simp: agree_scan_def agree_result_def parseString_def Let_def plain_finish plain_commute
      split: option.splits if_splits)

lemma parseLiteral_plain:
  "simd (jp_simd p) \<Longrightarrow> agree_result (parseLiteral p) (parseLiteral (plain_ops p))"
proof -
  assume "simd (jp_simd p)"
  moreover have "parseLiteral p = parseLiteralBasic p"
    by (simp add: parseLiteral_def parseLiteral_agree split: literal_op.split)
  moreover have "parseLiteral (plain_ops p) = parseLiteralBasic (plain_ops p)"
    by (simp add: parseLiteral_def parseLiteral_agree split: literal_op.split)
  ultimately show ?thesis
    by (auto simp: parseLiteralBasic_def Let_def literal_token_def invalid_literal_def agree_result_def
        plain_commute)
qed

lemma parseNumber_plain:
  "simd (jp_simd p) \<Longrightarrow> agree_result (parseNumber p) (parseNumber (plain_ops p))"
  by (auto simp: parseNumber_def Let_def agree_result_def plain_commute split: prod.split option.split)

lemma agree_simps:
  "agree_result (Ok, p) (Ok, q) \<longleftrightarrow> q = plain_ops p \<and> simd (jp_simd p)"
  "agree_result (Err m, p) (Err m', q)" "agree_result (Panic, p) (Panic, q)"
  "agree_result (NoFuel, p) (NoFuel, q)"
  by (simp_all add: agree_result_def)

lemmas parse_plain_simps = Let_def skip_plain agree_simps expected_at_def

lemma object_member_plain:
  assumes val: "\<And>p. simd (jp_simd p) \<Longrightarrow> agree_result (parseValue n p) (parseValue n (plain_ops p))"
    and p: "simd (jp_simd p)"
  shows "agree_result (object_member n p) (object_member n (plain_ops p))"
  unfolding object_member.simps using p
  by (simp add: parse_plain_simps flip: plain_commute)
    (auto simp: parse_plain_simps simp flip: plain_commute intro!: agree_then parseString_plain val)

lemma array_element_plain:
  assumes val: "\<And>p. simd (jp_simd p) \<Longrightarrow> agree_result (parseValue n p) (parseValue n (plain_ops p))"
    and p: "simd (jp_simd p)"
  shows "agree_result (array_element n p) (array_element n (plain_ops p))"
  unfolding array_element.simps using p
  by (auto simp: agree_simps simp flip: plain_commute intro!: agree_then val)

lemma parse_plain:
  "simd (jp_simd p) \<Longrightarrow> agree_result (parseValue n p) (parseValue n (plain_ops p))"
  "simd (jp_simd p) \<Longrightarrow> agree_result (object_loop n first p) (object_loop n first (plain_ops p))"
  "simd (jp_simd p) \<Longrightarrow> agree_result (array_loop n first p) (array_loop n first (plain_ops p))"
proof (induction n arbitrary: p first)
  case (Suc n)
  note member = object_member_plain [OF Suc.IH(1)] and element = array_element_plain [OF Suc.IH(1)]
  {
    case 1
    then show ?case
      by (simp add: parse_plain_simps flip: plain_commute)
        (auto intro: Suc.IH parseString_plain parseLiteral_plain parseNumber_plain)
  next
    case 2
    then show ?case
      by (simp add: parse_plain_simps flip: plain_commute)
        (auto simp: parse_plain_simps simp flip: plain_commute intro!: agree_then member Suc.IH(2))
  next
    case 3
    then show ?case
      by (simp add: parse_plain_simps flip: plain_commute)
        (auto simp: parse_plain_simps simp flip: plain_commute intro!: agree_then element Suc.IH(3))
  }
qed (simp_all add: agree_simps)

end
