(* ===== verification/Tokenizer.thy ===== *)
theory Tokenizer
  imports SuperJsonScan
begin

text \<open>
  The flat tokenizers of \<open>superjsonic_stress\<close> and \<open>superjsonic_stress_optimized\<close>: a loop that skips
  white space and reads one token, without looking at the nesting. The loop of
  \<open>superjsonic_stresstest.go\<close> and those of \<open>parseStandard\<close> and \<open>parseOptimizedArray\<close> have the same
  body, with the word operations of RealSimdOps; \<open>parseRange\<close> has the body with loops over bytes.

  Where no token begins the body changes nothing, so that the loop does not end: the loop is a
  partial function, None when it does not return. The capacity of the token slice is not modelled.
\<close>

section \<open>Tokens\<close>

record flat_token =
  ft_Type :: json_token_type
  ft_Offset :: "32 word"
  ft_Length :: "32 word"

definition flat :: "json_token_type \<Rightarrow> nat \<Rightarrow> nat \<Rightarrow> flat_token" where
  "flat typ offset len = \<lparr>ft_Type = typ, ft_Offset = of_nat offset, ft_Length = of_nat len\<rparr>"

section \<open>The scans\<close>

text \<open>The loop that skips white space eight bytes at a time, and the one over bytes after it.\<close>

function space_run :: "octet list \<Rightarrow> nat \<Rightarrow> nat" where
  "space_run d i =
     (if i + 8 \<le> length d then
        if IsWhitespace_real (load64 d i) = 0 then i
        else (case find (\<lambda>j. \<not> isWhitespace (d ! (i + j))) [0..<8] of
            Some j \<Rightarrow> i + j | None \<Rightarrow> space_run d (i + 8))
      else i)"
  by pat_completeness auto
termination space_run
  by (relation "measure (\<lambda>(d, i). length d - i)") auto

definition fast_skip :: "octet list \<Rightarrow> nat \<Rightarrow> nat" where
  "fast_skip d i = skip_basic d (space_run d i)"

text \<open>From behind the opening quote to the closing one, or past the end.\<close>

function string_tail :: "octet list \<Rightarrow> nat \<Rightarrow> nat" where
  "string_tail d i =
     (if i < length d \<and> d ! i \<noteq> 0x22 then
        if d ! i = 0x5C then string_tail d (i + 2) else string_tail d (i + 1)
      else i)"
  by pat_completeness auto
termination string_tail
  by (relation "measure (\<lambda>(d, i). length d - i)") auto

text \<open>
  When a quote or a backslash is in the word but none is found, the loop goes on at the same place;
  the law of \<open>HasByte\<close> excludes this.
\<close>

function fast_string :: "octet list \<Rightarrow> nat \<Rightarrow> nat" where
  "fast_string d i =
     (if i + 8 \<le> length d then
        let v = load64 d i in
        if HasByte_real v 0x22 \<or> HasByte_real v 0x5C then
          (case find_special d i 8 of
             Some j \<Rightarrow> if d ! (i + j) = 0x5C then fast_string d (i + j + 2) else i + j
           | None \<Rightarrow> fast_string d i)
        else fast_string d (i + 8)
      else string_tail d i)"
  by pat_completeness auto

lemma real_special:
  "i + 8 \<le> length d \<Longrightarrow> HasByte_real (load64 d i) 0x22 \<or> HasByte_real (load64 d i) 0x5C
    \<longleftrightarrow> find_special d i 8 \<noteq> None"
  using real.HasByte_load [of i d] by (auto simp: RealSimdOps_def find_special_def find_None_iff)

termination fast_string
  by (relation "measure (\<lambda>(d, i). length d - i)") (auto dest: find_special_Some simp: real_special)

declare space_run.simps [simp del] string_tail.simps [simp del] fast_string.simps [simp del]

definition number_byte :: "octet \<Rightarrow> bool" where
  "number_byte b = (isDigit b \<or> b = 0x2D \<or> b = 0x2E \<or> b = 0x65 \<or> b = 0x45 \<or> b = 0x2B)"

function number_end :: "octet list \<Rightarrow> nat \<Rightarrow> nat" where
  "number_end d i = (if i < length d \<and> number_byte (d ! i) then number_end d (i + 1) else i)"
  by pat_completeness auto
termination number_end
  by (relation "measure (\<lambda>(d, i). length d - i)") auto

declare number_end.simps [simp del]

section \<open>The loops\<close>

definition punctuation :: "octet \<Rightarrow> json_token_type option" where
  "punctuation b =
     (if b = 0x7B then Some TokenObjectStart else if b = 0x7D then Some TokenObjectEnd
      else if b = 0x5B then Some TokenArrayStart else if b = 0x5D then Some TokenArrayEnd
      else if b = 0x3A then Some TokenColon else if b = 0x2C then Some TokenComma else None)"

text \<open>The switch: where it goes on, and the token it adds if any.\<close>

definition token_step ::
    "(octet list \<Rightarrow> nat \<Rightarrow> nat) \<Rightarrow> octet list \<Rightarrow> nat \<Rightarrow> nat \<times> flat_token option" where
  "token_step str d i = (let b = d ! i in case punctuation b of
       Some typ \<Rightarrow> (i + 1, Some (flat typ i 1))
     | None \<Rightarrow>
         if b = 0x22 then (let j = str d (i + 1) + 1 in (j, Some (flat TokenString i (j - i))))
         else if b = 0x74 then
           if i + 4 \<le> length d \<and> load32 d i = 0x65757274 then (i + 4, Some (flat TokenTrue i 4)) else (i, None)
         else if b = 0x66 then
           if i + 5 \<le> length d \<and> load32 d i = 0x736C6166 \<and> d ! (i + 4) = 0x65
           then (i + 5, Some (flat TokenFalse i 5)) else (i, None)
         else if b = 0x6E then
           if i + 4 \<le> length d \<and> load32 d i = 0x6C6C756E then (i + 4, Some (flat TokenNull i 4)) else (i, None)
         else if isDigit b \<or> b = 0x2D then (let j = number_end d i in (j, Some (flat TokenNumber i (j - i))))
         else (i, None))"

partial_function (option) token_loop :: "(octet list \<Rightarrow> nat \<Rightarrow> nat) \<Rightarrow> (octet list \<Rightarrow> nat \<Rightarrow> nat) \<Rightarrow>
    octet list \<Rightarrow> nat \<Rightarrow> flat_token list \<Rightarrow> flat_token list option" where
  "token_loop skip str d i ts = (let i = skip d i in
     if length d \<le> i then Some ts
     else case token_step str d i of (j, t) \<Rightarrow>
       token_loop skip str d j (case t of Some t \<Rightarrow> ts @ [t] | None \<Rightarrow> ts))"

text \<open>\<open>Parse\<close> of \<open>superjsonic_stresstest.go\<close>, and the functions of \<open>superjsonic_stressoptimized.go\<close>.\<close>

definition with_eof :: "octet list \<Rightarrow> flat_token list \<Rightarrow> flat_token list" where
  "with_eof d ts = ts @ [flat TokenEOF (length d) 0]"

definition stress_Parse :: "octet list \<Rightarrow> flat_token list option" where
  "stress_Parse d = map_option (with_eof d) (token_loop fast_skip fast_string d 0 [])"

definition parseStandard :: "octet list \<Rightarrow> flat_token list option" where
  "parseStandard d = map_option (with_eof d) (token_loop fast_skip fast_string d 0 [])"

definition parseOptimizedArray :: "octet list \<Rightarrow> flat_token list option" where
  "parseOptimizedArray d = map_option (with_eof d) (token_loop fast_skip fast_string d 0 [])"

text \<open>The range ends within the data, and no byte from its end on is read.\<close>

definition parseRange :: "octet list \<Rightarrow> nat \<Rightarrow> nat \<Rightarrow> flat_token list option" where
  "parseRange d start end' = token_loop skip_basic string_tail (take end' d) start []"

section \<open>The detection of large arrays\<close>

record large_info =
  li_isLargeArray :: bool
  li_tokensPerElement :: nat
  li_estimatedElements :: nat
  li_firstElementEnd :: int

definition no_large_info :: large_info where
  "no_large_info = \<lparr>li_isLargeArray = False, li_tokensPerElement = 0, li_estimatedElements = 0,
     li_firstElementEnd = 0\<rparr>"

definition pattern_at :: "octet list \<Rightarrow> octet list \<Rightarrow> nat \<Rightarrow> bool" where
  "pattern_at d pat i = (take (length pat) (drop i d) = pat)"

definition bytesIndexInRange :: "octet list \<Rightarrow> octet list \<Rightarrow> nat \<Rightarrow> nat \<Rightarrow> nat option" where
  "bytesIndexInRange d pat start end' =
     (if length pat = 0 \<or> end' \<le> start then None
      else find (pattern_at d pat) [start..<end' + 1 - length pat])"

text \<open>
  The loop of \<open>estimateArraySize\<close> over the positions that are left, with the depth, whether it is
  within a string, and the commas counted.
\<close>

fun count_commas :: "octet list \<Rightarrow> nat \<Rightarrow> nat list \<Rightarrow> int \<Rightarrow> bool \<Rightarrow> nat \<Rightarrow> nat" where
  "count_commas d start [] depth inString n = n"
| "count_commas d start (i # is) depth inString n =
     (let b = d ! i in
      if \<not> inString then
        if b = 0x22 then count_commas d start is depth True n
        else if b = 0x7B \<or> b = 0x5B then count_commas d start is (depth + 1) False n
        else if b = 0x7D \<or> b = 0x5D then count_commas d start is (depth - 1) False n
        else if b = 0x2C \<and> depth = 1 then count_commas d start is depth False (n + 1)
        else count_commas d start is depth False n
      else count_commas d start is depth (\<not> (b = 0x22 \<and> (i = start \<or> d ! (i - 1) \<noteq> 0x5C))) n)"

definition estimateArraySize :: "octet list \<Rightarrow> nat \<Rightarrow> nat" where
  "estimateArraySize d arrayStart =
     (let scanEnd = min (arrayStart + 10240) (length d);
          commaCount = count_commas d arrayStart [arrayStart..<scanEnd] 0 False 0
      in if 0 < commaCount
         then length d div ((scanEnd - arrayStart) div (commaCount + 1))
         else length d div 50)"

fun element_end :: "octet list \<Rightarrow> nat \<Rightarrow> nat list \<Rightarrow> int \<Rightarrow> bool \<Rightarrow> int" where
  "element_end d start [] depth inString = - 1"
| "element_end d start (i # is) depth inString =
     (let b = d ! i in
      if \<not> inString then
        if b = 0x22 then element_end d start is depth True
        else if b = 0x7B \<or> b = 0x5B then element_end d start is (depth + 1) False
        else if b = 0x7D \<or> b = 0x5D then
          (if depth - 1 = 0 \<and> i + 1 < length d \<and> (d ! (i + 1) = 0x2C \<or> isWhitespace (d ! (i + 1)))
           then int i + 1 else element_end d start is (depth - 1) False)
        else if b = 0x2C \<and> depth = 0 then int i
        else element_end d start is depth False
      else element_end d start is depth (\<not> (b = 0x22 \<and> (i = start \<or> d ! (i - 1) \<noteq> 0x5C))))"

definition findFirstElementEnd :: "octet list \<Rightarrow> nat \<Rightarrow> int" where
  "findFirstElementEnd d start = element_end d start [start..<length d] 0 False"

definition array_field_names :: "octet list list" where
  "array_field_names = map (\<lambda>name. octets (''\"'' @ name @ ''\":['')) [''items'', ''data'', ''results'',
     ''records'', ''rows'', ''users'', ''products'']"

text \<open>What is found for the first pattern that occurs; None when \<open>parseRange\<close> does not return.\<close>

definition array_field :: "octet list \<Rightarrow> nat \<Rightarrow> large_info option" where
  "array_field d arrayStart =
     (let info = no_large_info\<lparr>li_isLargeArray := True, li_estimatedElements := estimateArraySize d arrayStart\<rparr>
      in if arrayStart + 1 < length d \<and> d ! arrayStart = 0x5B then
           (let firstEnd = findFirstElementEnd d (arrayStart + 1); info = info\<lparr>li_firstElementEnd := firstEnd\<rparr>
            in if 0 < firstEnd
               then map_option (\<lambda>ts. info\<lparr>li_tokensPerElement := length ts\<rparr>)
                 (parseRange d (arrayStart + 1) (nat firstEnd))
               else Some info)
         else Some info)"

fun find_field :: "octet list \<Rightarrow> nat \<Rightarrow> nat \<Rightarrow> octet list list \<Rightarrow> large_info option" where
  "find_field d i scanEnd [] = Some no_large_info"
| "find_field d i scanEnd (pat # pats) = (case bytesIndexInRange d pat i scanEnd of
       Some idx \<Rightarrow> array_field d (idx + length pat - 1)
     | None \<Rightarrow> find_field d i scanEnd pats)"

definition opt_detectLargeArray :: "octet list \<Rightarrow> large_info option" where
  "opt_detectLargeArray d = (let i = skip_basic d 0 in
     if i < length d \<and> d ! i = 0x5B
     then Some (no_large_info\<lparr>li_isLargeArray := True, li_estimatedElements := estimateArraySize d i\<rparr>)
     else if i < length d \<and> d ! i = 0x7B then find_field d i (min (i + 200) (length d)) array_field_names
     else Some no_large_info)"

definition opt_Parse :: "octet list \<Rightarrow> flat_token list option" where
  "opt_Parse d = (case opt_detectLargeArray d of
       None \<Rightarrow> None
     | Some info \<Rightarrow> if li_isLargeArray info \<and> 1000 < li_estimatedElements info
         then parseOptimizedArray d else parseStandard d)"

text \<open>
  \<open>GetTokenValue\<close>: the bytes of the token, where they are within the data. The code takes the address
  of the first one, which panics at the end of the data, and does not look at the length; None
  stands for the panic and for bytes read beyond the data.
\<close>

definition flat_value :: "octet list \<Rightarrow> flat_token \<Rightarrow> octet list option" where
  "flat_value d t = (if unat (ft_Offset t) < length d \<and> unat (ft_Offset t) + unat (ft_Length t) \<le> length d
     then Some (take (unat (ft_Length t)) (drop (unat (ft_Offset t)) d)) else None)"

end
