(* ===== verification/SuperJsonGrammar.thy ===== *)
theory SuperJsonGrammar
  imports SuperJsonScan
begin

text \<open>
  The JSON grammar, as relations between positions of the input and tokens, and the proof that
  the parser of SuperJson recognises it: what \<open>Parse\<close> accepts is derivable with the tokens that
  it returns, what is derivable is accepted with these tokens, and the fuel of \<open>Parse\<close> is never
  used up. The grammar is that of RFC 8259 with the strings that the scans accept, in which any
  byte may follow a backslash and control characters may stand.
\<close>

section \<open>The grammar\<close>

definition is_at :: "octet list \<Rightarrow> nat \<Rightarrow> octet \<Rightarrow> bool" where
  "is_at d i b = (i < length d \<and> d ! i = b)"

definition spaces :: "octet list \<Rightarrow> nat \<Rightarrow> nat \<Rightarrow> bool" where
  "spaces d i j = (i \<le> j \<and> (\<forall>k. i \<le> k \<longrightarrow> k < j \<longrightarrow> k < length d \<and> isWhitespace (d ! k)))"

definition digits :: "octet list \<Rightarrow> nat \<Rightarrow> nat \<Rightarrow> bool" where
  "digits d i j = (i < j \<and> (\<forall>k. i \<le> k \<longrightarrow> k < j \<longrightarrow> digit_at d k))"

inductive string_body :: "octet list \<Rightarrow> nat \<Rightarrow> nat \<Rightarrow> bool" for d where
  body_end: "string_body d i i"
| body_char: "i < length d \<Longrightarrow> d ! i \<noteq> 0x22 \<Longrightarrow> d ! i \<noteq> 0x5C \<Longrightarrow> string_body d (i + 1) j \<Longrightarrow> string_body d i j"
| body_escape: "is_at d i 0x5C \<Longrightarrow> i + 1 < length d \<Longrightarrow> string_body d (i + 2) j \<Longrightarrow> string_body d i j"

text \<open>A string from \<open>i\<close> to \<open>j\<close>, with its quotes.\<close>

definition json_string :: "octet list \<Rightarrow> nat \<Rightarrow> nat \<Rightarrow> bool" where
  "json_string d i j = (\<exists>e. is_at d i 0x22 \<and> string_body d (i + 1) e \<and> is_at d e 0x22 \<and> j = e + 1)"

definition int_part :: "octet list \<Rightarrow> nat \<Rightarrow> nat \<Rightarrow> bool" where
  "int_part d i j = (is_at d i 0x30 \<and> j = i + 1 \<or> digits d i j \<and> d ! i \<noteq> 0x30)"

definition frac_part :: "octet list \<Rightarrow> nat \<Rightarrow> nat \<Rightarrow> bool" where
  "frac_part d i j = (j = i \<or> is_at d i 0x2E \<and> digits d (i + 1) j)"

definition exp_part :: "octet list \<Rightarrow> nat \<Rightarrow> nat \<Rightarrow> bool" where
  "exp_part d i j = (j = i \<or> byte_at d i {0x65, 0x45} \<and>
     (digits d (i + 1) j \<or> byte_at d (i + 1) {0x2B, 0x2D} \<and> digits d (i + 2) j))"

definition json_number :: "octet list \<Rightarrow> nat \<Rightarrow> nat \<Rightarrow> bool" where
  "json_number d i j = (\<exists>a b c. (a = i \<or> is_at d i 0x2D \<and> a = i + 1)
     \<and> int_part d a b \<and> frac_part d b c \<and> exp_part d c j)"

definition literal_at :: "string \<Rightarrow> octet list \<Rightarrow> nat \<Rightarrow> nat \<Rightarrow> bool" where
  "literal_at s d i j = (j = i + length s \<and> j \<le> length d \<and> take (length s) (drop i d) = octets s)"

definition token_at :: "json_token_type \<Rightarrow> nat \<Rightarrow> nat \<Rightarrow> json_token" where
  "token_at typ i n = \<lparr>jt_Type = typ, jt_Offset = of_nat i, jt_Length = of_nat n, jt_Atom64 = 0,
     jt_Atom128 = no_atom128\<rparr>"

text \<open>The token of the key with the \<open>n\<close> bytes from \<open>i\<close>.\<close>

definition key_token :: "key_op \<Rightarrow> octet list \<Rightarrow> nat \<Rightarrow> nat \<Rightarrow> json_token" where
  "key_token k d i n = (let key = take n (drop i d) in
     if k = ProcessKeyAtom \<and> n \<le> 8 then (token_at TokenKey64 0 0)\<lparr>jt_Atom64 := makeAtom64 key\<rparr>
     else if k = ProcessKeyAtom \<and> n \<le> 16 then (token_at TokenKey128 0 0)\<lparr>jt_Atom128 := makeAtom128 key\<rparr>
     else token_at TokenString (i - 1) (n + 2))"

inductive value_text :: "key_op \<Rightarrow> octet list \<Rightarrow> nat \<Rightarrow> nat \<Rightarrow> json_token list \<Rightarrow> bool"
  and json_members :: "key_op \<Rightarrow> octet list \<Rightarrow> nat \<Rightarrow> nat \<Rightarrow> json_token list \<Rightarrow> bool"
  and json_elements :: "key_op \<Rightarrow> octet list \<Rightarrow> nat \<Rightarrow> nat \<Rightarrow> json_token list \<Rightarrow> bool"
  and json_member :: "key_op \<Rightarrow> octet list \<Rightarrow> nat \<Rightarrow> nat \<Rightarrow> json_token list \<Rightarrow> bool"
  for K d where
  v_string: "spaces d i a \<Longrightarrow> json_string d a j \<Longrightarrow> value_text K d i j [token_at TokenString a (j - a)]"
| v_number: "spaces d i a \<Longrightarrow> json_number d a j \<Longrightarrow> value_text K d i j [token_at TokenNumber a (j - a)]"
| v_true: "spaces d i a \<Longrightarrow> literal_at ''true'' d a j \<Longrightarrow> value_text K d i j [token_at TokenTrue a 4]"
| v_false: "spaces d i a \<Longrightarrow> literal_at ''false'' d a j \<Longrightarrow> value_text K d i j [token_at TokenFalse a 5]"
| v_null: "spaces d i a \<Longrightarrow> literal_at ''null'' d a j \<Longrightarrow> value_text K d i j [token_at TokenNull a 4]"
| v_object0: "spaces d i a \<Longrightarrow> is_at d a 0x7B \<Longrightarrow> spaces d (a + 1) e \<Longrightarrow> is_at d e 0x7D
    \<Longrightarrow> value_text K d i (e + 1) [token_at TokenObjectStart a 1, token_at TokenObjectEnd e 1]"
| v_object: "spaces d i a \<Longrightarrow> is_at d a 0x7B \<Longrightarrow> json_members K d (a + 1) c ts \<Longrightarrow> spaces d c e
    \<Longrightarrow> is_at d e 0x7D
    \<Longrightarrow> value_text K d i (e + 1) (token_at TokenObjectStart a 1 # ts @ [token_at TokenObjectEnd e 1])"
| v_array0: "spaces d i a \<Longrightarrow> is_at d a 0x5B \<Longrightarrow> spaces d (a + 1) e \<Longrightarrow> is_at d e 0x5D
    \<Longrightarrow> value_text K d i (e + 1) [token_at TokenArrayStart a 1, token_at TokenArrayEnd e 1]"
| v_array: "spaces d i a \<Longrightarrow> is_at d a 0x5B \<Longrightarrow> json_elements K d (a + 1) c ts \<Longrightarrow> spaces d c e
    \<Longrightarrow> is_at d e 0x5D
    \<Longrightarrow> value_text K d i (e + 1) (token_at TokenArrayStart a 1 # ts @ [token_at TokenArrayEnd e 1])"
| m_one: "json_member K d i j ts \<Longrightarrow> json_members K d i j ts"
| m_more: "json_member K d i c ts \<Longrightarrow> spaces d c e \<Longrightarrow> is_at d e 0x2C \<Longrightarrow> json_members K d (e + 1) j us
    \<Longrightarrow> json_members K d i j (ts @ token_at TokenComma e 1 # us)"
| e_one: "value_text K d i j ts \<Longrightarrow> json_elements K d i j ts"
| e_more: "value_text K d i c ts \<Longrightarrow> spaces d c e \<Longrightarrow> is_at d e 0x2C \<Longrightarrow> json_elements K d (e + 1) j us
    \<Longrightarrow> json_elements K d i j (ts @ token_at TokenComma e 1 # us)"
| member: "spaces d i a \<Longrightarrow> json_string d a b \<Longrightarrow> spaces d b c \<Longrightarrow> is_at d c 0x3A
    \<Longrightarrow> value_text K d (c + 1) j ts
    \<Longrightarrow> json_member K d i j (key_token K d (a + 1) (b - a - 2) # token_at TokenColon c 1 # ts)"

section \<open>The scans\<close>

lemma spaces_trans: "spaces d i a \<Longrightarrow> spaces d a b \<Longrightarrow> spaces d i b"
  unfolding spaces_def by (metis le_trans not_le)

lemma spaces_refl [simp]: "spaces d i i"
  by (simp add: spaces_def)

lemma skip_basic_spaces: "spaces d i (skip_basic d i)"
proof (induction d i rule: skip_basic.induct)
  case (1 d i)
  show ?case
  proof (cases "i < length d \<and> isWhitespace (d ! i)")
    case True
    with 1 have "spaces d (i + 1) (skip_basic d (i + 1))" by simp
    moreover have "skip_basic d i = skip_basic d (i + 1)"
      using True by (subst skip_basic.simps) simp
    moreover have "spaces d i (i + 1)"
      using True by (auto simp: spaces_def le_less_Suc_eq)
    ultimately show ?thesis
      by (auto intro: spaces_trans)
  next
    case False
    then show ?thesis by (simp add: skip_basic_stop spaces_def)
  qed
qed

lemma skip_basic_not_space: "\<not> (skip_basic d i < length d \<and> isWhitespace (d ! skip_basic d i))"
proof (induction d i rule: skip_basic.induct)
  case (1 d i)
  show ?case
  proof (cases "i < length d \<and> isWhitespace (d ! i)")
    case True
    with 1 show ?thesis by (simp add: skip_basic.simps [of d i])
  next
    case False
    with skip_basic_stop [OF False] show ?thesis by metis
  qed
qed

lemma skip_basic_eq:
  assumes "spaces d i a" "\<not> (a < length d \<and> isWhitespace (d ! a))"
  shows "skip_basic d i = a"
  using skip_basic_run [of i a d] skip_basic_stop [OF assms(2)] assms(1) by (auto simp: spaces_def)

lemma string_body_le: "string_body d i j \<Longrightarrow> i \<le> j"
  by (induction rule: string_body.induct) simp_all

lemma scan_basic_string: "scan_basic d i = (j, None) \<longleftrightarrow> string_body d i j \<and> is_at d j 0x22"
proof
  show "string_body d i j \<and> is_at d j 0x22" if "scan_basic d i = (j, None)"
    using that
  proof (induction d i rule: scan_basic.induct)
    case (1 d i)
    then show ?case
      unfolding scan_basic.simps [of d i]
      by (auto simp: string_end_def is_at_def split: if_splits intro: string_body.intros)
  qed
next
  assume "string_body d i j \<and> is_at d j 0x22"
  then have "string_body d i j" "is_at d j 0x22" by auto
  then show "scan_basic d i = (j, None)"
  proof induction
    case (body_end i)
    then show ?case by (simp add: scan_basic_quote is_at_def)
  next
    case (body_char i j)
    then show ?case by (subst scan_basic.simps) simp
  next
    case (body_escape i j)
    then show ?case by (simp add: scan_basic_escape is_at_def)
  qed
qed

lemma skip_digits_digits: "digit_at d i \<Longrightarrow> digits d i (skip_digits d i) \<and> \<not> digit_at d (skip_digits d i)"
proof (induction d i rule: skip_digits.induct)
  case (1 d i)
  then have step: "skip_digits d i = skip_digits d (i + 1)"
    by (subst skip_digits.simps) (simp add: digit_at_def)
  show ?case
  proof (cases "digit_at d (i + 1)")
    case True
    with 1 have "digits d (i + 1) (skip_digits d (i + 1)) \<and> \<not> digit_at d (skip_digits d (i + 1))"
      by (simp add: digit_at_def)
    with 1(2) show ?thesis
      unfolding step digits_def by (metis Suc_eq_plus1 Suc_leI Suc_lessD le_neq_implies_less)
  next
    case False
    then have "skip_digits d (i + 1) = i + 1"
      by (subst skip_digits.simps) (auto simp: digit_at_def)
    with False 1(2) show ?thesis
      by (auto simp: step digits_def le_less_Suc_eq)
  qed
qed

lemma skip_digits_eq:
  assumes "digits d i j" "\<not> digit_at d j"
  shows "skip_digits d i = j"
proof -
  have "digit_at d i" and "digits d i (skip_digits d i)" "\<not> digit_at d (skip_digits d i)"
    using assms skip_digits_digits [of d i] by (auto simp: digits_def)
  with assms show ?thesis
    unfolding digits_def by (metis less_imp_le nat_neq_iff)
qed

lemma digits_at: "digits d i j \<Longrightarrow> digit_at d i"
  by (simp add: digits_def)

text \<open>Where a number ends: no digit, point or exponent follows.\<close>

definition stops_at :: "octet list \<Rightarrow> nat \<Rightarrow> bool" where
  "stops_at d j = (\<not> digit_at d j \<and> \<not> byte_at d j {0x2E, 0x65, 0x45})"

lemma scan_number_sound:
  assumes "scan_number d i = (j, None)" "i < length d"
  shows "json_number d i j"
proof -
  let ?a = "if d ! i = 0x2D then i + 1 else i"
  have dig: "digit_at d ?a"
    using assms(1) by (auto simp: scan_number_def Let_def split: if_splits)
  let ?b = "if d ! ?a = 0x30 then ?a + 1 else skip_digits d ?a"
  obtain c where frac: "scan_fraction d ?b = (c, None)" and exp: "scan_exponent d c = (j, None)"
    using assms(1) dig by (auto simp: scan_number_def Let_def split: if_splits prod.splits option.splits)
  have "?a = i \<or> is_at d i 0x2D \<and> ?a = i + 1"
    using assms(2) by (simp add: is_at_def)
  moreover have "int_part d ?a ?b"
    using dig skip_digits_digits [of d ?a] by (auto simp: int_part_def is_at_def digit_at_def)
  moreover have "frac_part d ?b c"
    using frac skip_digits_digits [of d "?b + 1"]
    by (auto simp: scan_fraction_def frac_part_def byte_at_def is_at_def split: if_splits)
  moreover have "exp_part d c j"
    using exp skip_digits_digits [of d "c + 1"] skip_digits_digits [of d "c + 2"]
    by (auto simp: scan_exponent_def exp_part_def Let_def split: if_splits)
  ultimately show ?thesis
    unfolding json_number_def by blast
qed

lemma json_number_le: "json_number d i j \<Longrightarrow> i \<le> j"
  by (auto simp: json_number_def int_part_def frac_part_def exp_part_def digits_def)

lemma not_digit: "\<not> isDigit 0x2D" "\<not> isDigit 0x2E" "\<not> isDigit 0x65" "\<not> isDigit 0x45" "\<not> isDigit 0x2B"
  "isDigit 0x30"
  by (simp_all add: isDigit_def)

lemma scan_number_complete:
  assumes "json_number d i j" "stops_at d j"
  shows "scan_number d i = (j, None)"
proof -
  obtain a b c where a: "a = i \<or> is_at d i 0x2D \<and> a = i + 1"
    and int: "int_part d a b" and frac: "frac_part d b c" and exp: "exp_part d c j"
    using assms(1) by (auto simp: json_number_def)
  have c: "scan_exponent d c = (j, None)" "\<not> digit_at d c" if "c = j \<or> byte_at d c {0x65, 0x45}"
  proof -
    show "scan_exponent d c = (j, None)"
    proof (cases "byte_at d c {0x65, 0x45}")
      case True
      then have e: "digits d (c + 1) j \<and> \<not> byte_at d (c + 1) {0x2B, 0x2D}
          \<or> byte_at d (c + 1) {0x2B, 0x2D} \<and> digits d (c + 2) j"
        using exp assms(2) not_digit
        by (auto simp: exp_part_def stops_at_def byte_at_def digits_def digit_at_def)
      with assms(2) True skip_digits_eq [of d _ j] digits_at [of d _ j] show ?thesis
        by (auto simp: scan_exponent_def Let_def stops_at_def)
    next
      case False
      with that assms(2) show ?thesis by (auto simp: scan_exponent_def stops_at_def byte_at_def)
    qed
    show "\<not> digit_at d c"
      using that assms(2) not_digit by (auto simp: stops_at_def byte_at_def digit_at_def)
  qed
  have c': "c = j \<or> byte_at d c {0x65, 0x45}"
    using exp by (auto simp: exp_part_def)
  have b: "scan_fraction d b = (c, None)" "\<not> digit_at d b \<or> b = c"
    using frac c [OF c'] c' assms(2) skip_digits_eq [of d "b + 1" c] digits_at [of d "b + 1" c] not_digit
    by (auto simp: frac_part_def scan_fraction_def is_at_def byte_at_def digit_at_def stops_at_def)
  then have nd: "\<not> digit_at d b"
    using c [OF c'] by auto
  have dig: "digit_at d a" "d ! i = 0x2D \<longleftrightarrow> a = i + 1"
    using int a not_digit by (auto simp: int_part_def is_at_def digits_def digit_at_def)
  have "(if d ! a = 0x30 then a + 1 else skip_digits d a) = b"
    using int nd skip_digits_eq [of d a b] by (auto simp: int_part_def is_at_def)
  with a dig b c [OF c'] show ?thesis
    by (auto simp: scan_number_def Let_def)
qed

section \<open>What a step of the parser changes\<close>

definition plain_parser :: "json_parser \<Rightarrow> bool" where
  "plain_parser p = (op_parseString (jp_ops p) = ParseStringBasic \<and> op_skipWhitespace (jp_ops p) = SkipWhitespaceBasic
     \<and> op_parseLiteral (jp_ops p) = ParseLiteralBasic)"

definition count_typ :: "json_token_type \<Rightarrow> json_token list \<Rightarrow> nat" where
  "count_typ typ ts = length (filter (\<lambda>t. jt_Type t = typ) ts)"

text \<open>The statistics after the tokens \<open>ts\<close>: a colon stands for a key.\<close>

definition counted :: "atom_stats \<Rightarrow> json_token list \<Rightarrow> atom_stats \<Rightarrow> bool" where
  "counted s ts s' =
     (totalKeys s' = totalKeys s + count_typ TokenColon ts
      \<and> atom64Keys s' = atom64Keys s + count_typ TokenKey64 ts
      \<and> atom128Keys s' = atom128Keys s + count_typ TokenKey128 ts
      \<and> totalKeys s' + (atom64Keys s + atom128Keys s + regularKeys s)
        = totalKeys s + (atom64Keys s' + atom128Keys s' + regularKeys s'))"

definition moved :: "json_parser \<Rightarrow> nat \<Rightarrow> json_token list \<Rightarrow> json_parser \<Rightarrow> bool" where
  "moved p j ts p' = (jp_pos p' = j \<and> jp_tokens p' = jp_tokens p @ ts \<and> jp_data p' = jp_data p
     \<and> jp_ops p' = jp_ops p \<and> counted (jp_atomStats p) ts (jp_atomStats p'))"

lemma count_typ_simps [simp]:
  "count_typ typ [] = 0"
  "count_typ typ (t # ts) = (if jt_Type t = typ then Suc (count_typ typ ts) else count_typ typ ts)"
  "count_typ typ (ts @ us) = count_typ typ ts + count_typ typ us"
  by (simp_all add: count_typ_def)

lemma jt_Type_token_at [simp]: "jt_Type (token_at typ i n) = typ"
  by (simp add: token_at_def)

lemma moved_trans: "moved p i ts q \<Longrightarrow> moved q j us r \<Longrightarrow> moved p j (ts @ us) r"
  by (auto simp: moved_def counted_def)

lemma moved_refl: "moved p (jp_pos p) [] p"
  by (simp add: moved_def counted_def)

lemma moved_mark: "typ \<notin> {TokenColon, TokenKey64, TokenKey128} \<Longrightarrow>
    moved p (jp_pos p + n) [token_at typ (jp_pos p) n]
      ((addToken typ (jp_pos p) n 0 no_atom128 p)\<lparr>jp_pos := jp_pos p + n\<rparr>)"
  by (simp add: moved_def counted_def addToken_def token_at_def)

lemma moved_context [simp]:
  "moved (set_context c p) j ts q = moved p j ts q" "moved p j ts (set_context c q) = moved p j ts q"
  "moved (pushContext c p) j ts q = moved p j ts q" "moved p j ts (popContext q) = moved p j ts q"
  by (simp_all add: moved_def set_context_def pushContext_def popContext_def)

lemma moved_plain: "moved p j ts q \<Longrightarrow> plain_parser q = plain_parser p"
  by (simp add: moved_def plain_parser_def)

lemma moved_fields: "moved p j ts q \<Longrightarrow> jp_pos q = j \<and> jp_data q = jp_data p \<and> jp_ops q = jp_ops p"
  by (simp add: moved_def)

definition same_context :: "json_parser \<Rightarrow> json_parser \<Rightarrow> bool" where
  "same_context p q = (jp_contextStack q = jp_contextStack p \<and> jp_currentContext q = jp_currentContext p)"

abbreviation same_stack :: "json_parser \<Rightarrow> json_parser \<Rightarrow> bool" where
  "same_stack p q \<equiv> jp_contextStack q = jp_contextStack p"

lemma context_fields [simp]:
  "jp_pos (set_context c p) = jp_pos p" "jp_data (set_context c p) = jp_data p" "jp_ops (set_context c p) = jp_ops p"
  "jp_contextStack (set_context c p) = jp_contextStack p" "jp_currentContext (set_context c p) = c"
  "plain_parser (set_context c p) = plain_parser p" "plain_parser (pushContext c p) = plain_parser p"
  "jp_pos (pushContext c p) = jp_pos p" "jp_data (pushContext c p) = jp_data p" "jp_ops (pushContext c p) = jp_ops p"
  "jp_tokens (set_context c p) = jp_tokens p" "jp_atomStats (set_context c p) = jp_atomStats p"
  "at_end (set_context c p) = at_end p" "cur_byte (set_context c p) = cur_byte p"
  by (simp_all add: set_context_def pushContext_def plain_parser_def at_end_def cur_byte_def)

lemma mark_fields [simp]:
  "jp_data (addToken t i n a b p) = jp_data p" "jp_ops (addToken t i n a b p) = jp_ops p"
  "jp_pos (addToken t i n a b p) = jp_pos p" "jp_contextStack (addToken t i n a b p) = jp_contextStack p"
  "jp_currentContext (addToken t i n a b p) = jp_currentContext p"
  "plain_parser (p\<lparr>jp_pos := i\<rparr>) = plain_parser p" "plain_parser (addToken t i n a b p) = plain_parser p"
  by (simp_all add: addToken_def plain_parser_def)

text \<open>White space: the parser moves without a token.\<close>

lemma skip_moved:
  assumes "plain_parser p"
  shows "moved p (jp_pos (skipWhitespace p)) [] (skipWhitespace p)"
    and "spaces (jp_data p) (jp_pos p) (jp_pos (skipWhitespace p))"
    and "same_context p (skipWhitespace p)"
    and "jp_pos (skipWhitespace p) = skip_basic (jp_data p) (jp_pos p)"
  using assms skip_basic_spaces
  by (simp_all add: skipWhitespace_def skip_from_def plain_parser_def moved_def counted_def same_context_def)

lemma cur_is_at: "\<not> at_end p \<Longrightarrow> is_at (jp_data p) (jp_pos p) b \<longleftrightarrow> cur_byte p = b"
  by (simp add: at_end_def cur_byte_def is_at_def)

section \<open>Soundness\<close>

lemma finish_key:
  assumes "jp_currentContext p = ContextObjectKey" "jp_pos p = e" "i < e" "e < length (jp_data p)"
  shows "jp_pos (finishString i (i + 1) p) = e + 1"
    and "jp_tokens (finishString i (i + 1) p) =
      jp_tokens p @ [key_token (op_processKey (jp_ops p)) (jp_data p) (i + 1) (e - i - 1)]"
    and "same_context p (finishString i (i + 1) p)"
    and "jp_data (finishString i (i + 1) p) = jp_data p" "jp_ops (finishString i (i + 1) p) = jp_ops p"
    and "counted (jp_atomStats p)
      [key_token (op_processKey (jp_ops p)) (jp_data p) (i + 1) (e - i - 1), token_at TokenColon c 1]
      (jp_atomStats (finishString i (i + 1) p))"
  using assms
  by (auto simp: finishString_def processKey_def processKeyAtom_def processKeyString_def count_key_def
      key_token_def token_at_def addToken_def counted_def same_context_def Let_def split: key_op.split)

lemma parseString_value:
  assumes "parseString p = (Ok, q)" "plain_parser p" "\<not> at_end p" "cur_byte p = 0x22"
    "jp_currentContext p \<noteq> ContextObjectKey"
  shows "\<exists>j. json_string (jp_data p) (jp_pos p) j \<and> moved p j [token_at TokenString (jp_pos p) (j - jp_pos p)] q
    \<and> same_context p q"
proof -
  obtain e where e: "scan_basic (jp_data p) (jp_pos p + 1) = (e, None)"
    and q: "q = finishString (jp_pos p) (jp_pos p + 1) (p\<lparr>jp_pos := e\<rparr>)"
    using assms(1,2) by (auto simp: parseString_def scan_from_def plain_parser_def Let_def split: prod.splits option.splits)
  then have body: "string_body (jp_data p) (jp_pos p + 1) e" "is_at (jp_data p) e 0x22"
    using scan_basic_string by auto
  then have "jp_pos p + 1 \<le> e"
    using string_body_le by blast
  with body assms(3-5) q show ?thesis
    by (intro exI [of _ "e + 1"])
      (auto simp: json_string_def cur_is_at finishString_def moved_def counted_def addToken_def token_at_def
        same_context_def Suc_diff_le)
qed

text \<open>
  What the loops of \<open>parseObject\<close> and \<open>parseArray\<close> read: the closing mark at once, or a list of
  items (relation \<open>R\<close>) and then the mark. After the first item the list starts with a comma.
\<close>

definition closing :: "octet list \<Rightarrow> octet \<Rightarrow> json_token_type \<Rightarrow> nat \<Rightarrow> nat \<Rightarrow> json_token list \<Rightarrow> bool" where
  "closing d b typ i j ts = (\<exists>e. spaces d i e \<and> is_at d e b \<and> j = e + 1 \<and> ts = [token_at typ e 1])"

definition items :: "(nat \<Rightarrow> nat \<Rightarrow> json_token list \<Rightarrow> bool) \<Rightarrow> octet list \<Rightarrow> octet \<Rightarrow> json_token_type \<Rightarrow>
    nat \<Rightarrow> nat \<Rightarrow> json_token list \<Rightarrow> bool" where
  "items R d b typ i j ts = (\<exists>c us vs. R i c us \<and> closing d b typ c j vs \<and> ts = us @ vs)"

definition loop_head :: "(nat \<Rightarrow> nat \<Rightarrow> json_token list \<Rightarrow> bool) \<Rightarrow> octet list \<Rightarrow> octet \<Rightarrow> json_token_type \<Rightarrow>
    nat \<Rightarrow> nat \<Rightarrow> json_token list \<Rightarrow> bool" where
  "loop_head R d b typ i j ts = (closing d b typ i j ts \<or> items R d b typ i j ts)"

definition loop_tail :: "(nat \<Rightarrow> nat \<Rightarrow> json_token list \<Rightarrow> bool) \<Rightarrow> octet list \<Rightarrow> octet \<Rightarrow> json_token_type \<Rightarrow>
    nat \<Rightarrow> nat \<Rightarrow> json_token list \<Rightarrow> bool" where
  "loop_tail R d b typ i j ts = (closing d b typ i j ts
     \<or> (\<exists>k us. spaces d i k \<and> is_at d k 0x2C \<and> items R d b typ (k + 1) j us
         \<and> ts = token_at TokenComma k 1 # us))"

lemma loop_item:
  assumes one: "\<And>i j ts. Q i j ts \<Longrightarrow> R i j ts"
    and more: "\<And>i c ts e j us. Q i c ts \<Longrightarrow> spaces d c e \<Longrightarrow> is_at d e 0x2C \<Longrightarrow> R (e + 1) j us
      \<Longrightarrow> R i j (ts @ token_at TokenComma e 1 # us)"
    and "Q i c ts" "loop_tail R d b typ c j us"
  shows "items R d b typ i j (ts @ us)"
  using assms(4) unfolding loop_tail_def items_def
proof (elim disjE exE conjE)
  fix k us' c' us'' vs
  assume "spaces d c k" "is_at d k 0x2C" "R (k + 1) c' us''" "closing d b typ c' j vs"
    "us = token_at TokenComma k 1 # us'" "us' = us'' @ vs"
  with more [OF assms(3)] show "\<exists>c us' vs. R i c us' \<and> closing d b typ c j vs \<and> ts @ us = us' @ vs"
    by (intro exI [of _ c'] exI [of _ "ts @ token_at TokenComma k 1 # us''"] exI [of _ vs]) simp
qed (use one [OF assms(3)] in blast)

abbreviation keys_of :: "json_parser \<Rightarrow> key_op" where
  "keys_of p \<equiv> op_processKey (jp_ops p)"

definition sound_value :: "json_parser \<Rightarrow> json_parser \<Rightarrow> bool" where
  "sound_value p q = (\<exists>j ts. value_text (keys_of p) (jp_data p) (jp_pos p) j ts \<and> moved p j ts q
     \<and> same_context p q)"

definition sound_item :: "(key_op \<Rightarrow> octet list \<Rightarrow> nat \<Rightarrow> nat \<Rightarrow> json_token list \<Rightarrow> bool) \<Rightarrow>
    json_parser \<Rightarrow> json_parser \<Rightarrow> bool" where
  "sound_item Q p q = (\<exists>j ts. Q (keys_of p) (jp_data p) (jp_pos p) j ts \<and> moved p j ts q \<and> same_stack p q
     \<and> jp_currentContext q \<noteq> ContextObjectKey)"

definition sound_rest :: "((nat \<Rightarrow> nat \<Rightarrow> json_token list \<Rightarrow> bool) \<Rightarrow> octet list \<Rightarrow> octet \<Rightarrow> json_token_type \<Rightarrow>
    nat \<Rightarrow> nat \<Rightarrow> json_token list \<Rightarrow> bool) \<Rightarrow>
    (key_op \<Rightarrow> octet list \<Rightarrow> nat \<Rightarrow> nat \<Rightarrow> json_token list \<Rightarrow> bool) \<Rightarrow>
    octet \<Rightarrow> json_token_type \<Rightarrow> json_parser \<Rightarrow> json_parser \<Rightarrow> bool" where
  "sound_rest L R b typ p q = (\<exists>j ts.
     L (R (keys_of p) (jp_data p)) (jp_data p) b typ (jp_pos p) j ts
     \<and> moved p j ts q \<and> (jp_contextStack p \<noteq> [] \<longrightarrow> jp_contextStack q = butlast (jp_contextStack p)
       \<and> jp_currentContext q = last (jp_contextStack p)))"

abbreviation sound_loop :: "(key_op \<Rightarrow> octet list \<Rightarrow> nat \<Rightarrow> nat \<Rightarrow> json_token list \<Rightarrow> bool) \<Rightarrow>
    octet \<Rightarrow> json_token_type \<Rightarrow> bool \<Rightarrow> json_parser \<Rightarrow> json_parser \<Rightarrow> bool" where
  "sound_loop R b typ first \<equiv> sound_rest (if first then loop_head else loop_tail) R b typ"

lemma json_string_key:
  assumes "parseString p = (Ok, q)" "plain_parser p" "\<not> at_end p" "cur_byte p = 0x22"
    "jp_currentContext p = ContextObjectKey"
  shows "\<exists>j. json_string (jp_data p) (jp_pos p) j \<and> jp_pos q = j
    \<and> jp_tokens q = jp_tokens p @ [key_token (keys_of p) (jp_data p) (jp_pos p + 1) (j - jp_pos p - 2)]
    \<and> same_context p q \<and> jp_data q = jp_data p \<and> jp_ops q = jp_ops p
    \<and> (\<forall>c. counted (jp_atomStats p)
        [key_token (keys_of p) (jp_data p) (jp_pos p + 1) (j - jp_pos p - 2), token_at TokenColon c 1]
        (jp_atomStats q))"
proof -
  obtain e where e: "scan_basic (jp_data p) (jp_pos p + 1) = (e, None)"
    and q: "q = finishString (jp_pos p) (jp_pos p + 1) (p\<lparr>jp_pos := e\<rparr>)"
    using assms(1,2) by (auto simp: parseString_def scan_from_def plain_parser_def Let_def split: prod.splits option.splits)
  then have body: "string_body (jp_data p) (jp_pos p + 1) e" "is_at (jp_data p) e 0x22"
    using scan_basic_string by auto
  then have le: "jp_pos p < e"
    using string_body_le by fastforce
  then have key: "jp_currentContext (p\<lparr>jp_pos := e\<rparr>) = ContextObjectKey" "jp_pos (p\<lparr>jp_pos := e\<rparr>) = e"
    "jp_pos p < e" "e < length (jp_data (p\<lparr>jp_pos := e\<rparr>))"
    using assms(5) body by (simp_all add: is_at_def)
  have "json_string (jp_data p) (jp_pos p) (e + 1)"
    using body assms(3,4) by (auto simp: json_string_def cur_is_at)
  with finish_key [OF key] show ?thesis
    unfolding q by (intro exI [of _ "e + 1"]) (simp add: same_context_def)
qed

lemma and_then_Ok: "and_then r f = (Ok, q) \<longleftrightarrow> (\<exists>p. r = (Ok, p) \<and> f p = (Ok, q))"
  by (cases r; cases "fst r") (auto simp: and_then_def)

lemma object_member_sound:
  assumes val: "\<And>p q. parseValue n p = (Ok, q) \<Longrightarrow> plain_parser p \<Longrightarrow> jp_currentContext p \<noteq> ContextObjectKey
      \<Longrightarrow> sound_value p q"
    and "object_member n p = (Ok, q)" "plain_parser p"
  shows "sound_item json_member p q"
proof -
  let ?p = "set_context ContextObjectKey p"
  have start: "\<not> at_end p" "cur_byte p = 0x22"
    using assms(2) by (auto simp: object_member.simps Let_def expected_at_def split: if_splits)
  with assms(2) obtain q1 q2 where
    key: "parseString ?p = (Ok, q1)"
    and colon: "\<not> at_end (skipWhitespace q1)" "cur_byte (skipWhitespace q1) = 0x3A"
    and v: "parseValue n (set_context ContextObjectValue (mark TokenColon (skipWhitespace q1))) = (Ok, q2)"
    and q: "q = set_context ContextObjectComma q2"
    by (auto simp: object_member.simps Let_def and_then_Ok expected_at_def split: if_splits)
  obtain b where b: "json_string (jp_data p) (jp_pos p) b" "jp_pos q1 = b"
    "jp_tokens q1 = jp_tokens p @ [key_token (keys_of p) (jp_data p) (jp_pos p + 1) (b - jp_pos p - 2)]"
    "same_context ?p q1" "jp_data q1 = jp_data p" "jp_ops q1 = jp_ops p"
    "\<And>c. counted (jp_atomStats p) [key_token (keys_of p) (jp_data p) (jp_pos p + 1) (b - jp_pos p - 2),
       token_at TokenColon c 1] (jp_atomStats q1)"
    using json_string_key [OF key] start assms(3) by auto
  have plain1: "plain_parser q1"
    using assms(3) b(6) by (simp add: plain_parser_def)
  let ?s = "skipWhitespace q1"
  let ?c = "jp_pos ?s"
  note s = skip_moved [OF plain1]
  have d: "jp_data ?s = jp_data p" "jp_ops ?s = jp_ops p"
    using moved_fields [OF s(1)] b by auto
  obtain j ts where j: "value_text (keys_of p) (jp_data p) (?c + 1) j ts"
    and m: "moved (mark TokenColon ?s) j ts q2"
    and ctx: "same_context (set_context ContextObjectValue (mark TokenColon ?s)) q2"
    using val [OF v] plain1 moved_plain [OF s(1)] d by (auto simp: sound_value_def)
  let ?k = "key_token (keys_of p) (jp_data p) (jp_pos p + 1) (b - jp_pos p - 2)"
  have "json_member (keys_of p) (jp_data p) (jp_pos p) j (?k # token_at TokenColon ?c 1 # ts)"
    using member [OF spaces_refl b(1) _ _ j] s(2) b d colon cur_is_at [of ?s] by simp
  moreover have "moved p (?c + 1) [?k, token_at TokenColon ?c 1] (mark TokenColon ?s)"
    using b(3,5,6) b(7) [of ?c] s(1) by (auto simp: moved_def counted_def addToken_def token_at_def)
  from moved_trans [OF this m] have "moved p j (?k # token_at TokenColon ?c 1 # ts) q2" by simp
  moreover have "same_stack p q2"
    using ctx b(4) s(3) by (simp add: same_context_def)
  ultimately show ?thesis
    unfolding sound_item_def q by (auto simp: set_context_def moved_def)
qed

lemma array_element_sound:
  assumes val: "\<And>p q. parseValue n p = (Ok, q) \<Longrightarrow> plain_parser p \<Longrightarrow> jp_currentContext p \<noteq> ContextObjectKey
      \<Longrightarrow> sound_value p q"
    and "array_element n p = (Ok, q)" "plain_parser p"
  shows "sound_item value_text p q"
proof -
  obtain q2 where v: "parseValue n (set_context ContextArrayValue p) = (Ok, q2)"
    and q: "q = set_context ContextArrayComma q2"
    using assms(2) by (auto simp: array_element.simps and_then_Ok)
  show ?thesis
    using val [OF v] assms(3)
    by (auto simp: sound_value_def sound_item_def q same_context_def)
qed

text \<open>One pass of a loop, for objects and for arrays.\<close>

lemma sound_close:
  assumes "plain_parser p" "\<not> at_end (skipWhitespace p)" "cur_byte (skipWhitespace p) = b"
    "typ \<notin> {TokenColon, TokenKey64, TokenKey128}"
  shows "sound_loop R b typ first p (popContext (mark typ (skipWhitespace p)))"
proof -
  let ?s = "skipWhitespace p"
  note s = skip_moved [OF assms(1)]
  have "closing (jp_data p) b typ (jp_pos p) (jp_pos ?s + 1) [token_at typ (jp_pos ?s) 1]"
    using s(2) assms(2,3) cur_is_at [of ?s] moved_fields [OF s(1)] by (auto simp: closing_def)
  moreover have "moved p (jp_pos ?s + 1) [token_at typ (jp_pos ?s) 1] (popContext (mark typ ?s))"
    using moved_trans [OF s(1) moved_mark [OF assms(4), where n = 1]] by simp
  moreover have "jp_contextStack ?s = jp_contextStack p"
    using s(3) by (simp add: same_context_def)
  ultimately show ?thesis
    unfolding sound_rest_def
    by (intro exI [of _ "jp_pos ?s + 1"] exI [of _ "[token_at typ (jp_pos ?s) 1]"])
      (auto simp: loop_head_def loop_tail_def popContext_def)
qed

lemma sound_items:
  assumes p: "plain_parser p"
    and item: "sound_item Q (skipWhitespace p) q1"
    and rest: "sound_loop R b typ False q1 q"
    and spaces: "\<And>K d i a j ts. spaces d i a \<Longrightarrow> Q K d a j ts \<Longrightarrow> Q K d i j ts"
    and one: "\<And>K d i j ts. Q K d i j ts \<Longrightarrow> R K d i j ts"
    and more: "\<And>K d i c ts e j us. Q K d i c ts \<Longrightarrow> spaces d c e \<Longrightarrow> is_at d e 0x2C \<Longrightarrow> R K d (e + 1) j us
      \<Longrightarrow> R K d i j (ts @ token_at TokenComma e 1 # us)"
  shows "sound_rest items R b typ p q"
proof -
  note s = skip_moved [OF p]
  obtain c ts where c: "Q (keys_of p) (jp_data p) (jp_pos (skipWhitespace p)) c ts"
    "moved (skipWhitespace p) c ts q1" "jp_contextStack q1 = jp_contextStack p"
    using item s(3) moved_fields [OF s(1)] by (auto simp: sound_item_def same_context_def)
  have q1: "jp_pos q1 = c" "jp_data q1 = jp_data p" "keys_of q1 = keys_of p"
    using moved_fields [OF c(2)] moved_fields [OF s(1)] by auto
  obtain j us where j: "loop_tail (R (keys_of p) (jp_data p)) (jp_data p) b typ c j us" "moved q1 j us q"
    and ctx: "jp_contextStack p \<noteq> [] \<longrightarrow> jp_contextStack q = butlast (jp_contextStack p)
       \<and> jp_currentContext q = last (jp_contextStack p)"
    using rest q1 c(3) by (auto simp: sound_rest_def)
  have "items (R (keys_of p) (jp_data p)) (jp_data p) b typ (jp_pos p) j (ts @ us)"
    by (rule loop_item [where Q = "Q (keys_of p) (jp_data p)", OF one more spaces [OF s(2) c(1)] j(1)])
  moreover have "moved p j (ts @ us) q"
    using moved_trans [OF s(1) moved_trans [OF c(2) j(2)]] by simp
  ultimately show ?thesis
    using ctx by (auto simp: sound_rest_def)
qed

lemma sound_first: "sound_rest items R b typ p q \<Longrightarrow> sound_loop R b typ True p q"
  by (auto simp: sound_rest_def loop_head_def)

lemma sound_next:
  assumes p: "plain_parser p" and comma: "\<not> at_end (skipWhitespace p)" "cur_byte (skipWhitespace p) = 0x2C"
    and rest: "sound_rest items R b typ (mark TokenComma (skipWhitespace p)) q"
  shows "sound_loop R b typ False p q"
proof -
  let ?s = "skipWhitespace p"
  note s = skip_moved [OF p]
  have m: "moved p (jp_pos ?s + 1) [token_at TokenComma (jp_pos ?s) 1] (mark TokenComma ?s)"
    using moved_trans [OF s(1) moved_mark [of TokenComma ?s 1]] by simp
  obtain j ts where j: "items (R (keys_of p) (jp_data p)) (jp_data p) b typ (jp_pos ?s + 1) j ts"
    "moved (mark TokenComma ?s) j ts q"
    and ctx: "jp_contextStack p \<noteq> [] \<longrightarrow> jp_contextStack q = butlast (jp_contextStack p)
       \<and> jp_currentContext q = last (jp_contextStack p)"
    using rest moved_fields [OF m] s(3) by (auto simp: sound_rest_def same_context_def)
  have "is_at (jp_data p) (jp_pos ?s) 0x2C"
    using comma cur_is_at [of ?s] moved_fields [OF s(1)] by simp
  with j(1) s(2) have "loop_tail (R (keys_of p) (jp_data p)) (jp_data p) b typ (jp_pos p) j
      (token_at TokenComma (jp_pos ?s) 1 # ts)"
    unfolding loop_tail_def by blast
  moreover have "moved p j (token_at TokenComma (jp_pos ?s) 1 # ts) q"
    using moved_trans [OF m j(2)] by simp
  ultimately show ?thesis
    using ctx by (auto simp: sound_rest_def)
qed

lemma leading_spaces:
  "json_member K d a j ts \<Longrightarrow> spaces d i a \<Longrightarrow> json_member K d i j ts"
  "value_text K d a j ts \<Longrightarrow> spaces d i a \<Longrightarrow> value_text K d i j ts"
  by (erule json_member.cases, blast intro: value_text_json_members_json_elements_json_member.intros spaces_trans)
    (erule value_text.cases; blast intro: value_text_json_members_json_elements_json_member.intros spaces_trans)

lemmas grammar = value_text_json_members_json_elements_json_member.intros

lemma sound_nested:
  assumes p: "plain_parser p" and start: "\<not> at_end (skipWhitespace p)" "cur_byte (skipWhitespace p) = b"
    and loop: "sound_loop R e end_typ True (pushContext ctx (mark typ (skipWhitespace p))) q"
    and kind: "typ \<notin> {TokenColon, TokenKey64, TokenKey128}"
    and empty: "\<And>K d i a j. spaces d i a \<Longrightarrow> is_at d a b \<Longrightarrow> spaces d (a + 1) j \<Longrightarrow> is_at d j e
      \<Longrightarrow> value_text K d i (j + 1) [token_at typ a 1, token_at end_typ j 1]"
    and more: "\<And>K d i a c ts j. spaces d i a \<Longrightarrow> is_at d a b \<Longrightarrow> R K d (a + 1) c ts \<Longrightarrow> spaces d c j
      \<Longrightarrow> is_at d j e \<Longrightarrow> value_text K d i (j + 1) (token_at typ a 1 # ts @ [token_at end_typ j 1])"
  shows "sound_value p q"
proof -
  let ?s = "skipWhitespace p"
  note s = skip_moved [OF p]
  have b: "is_at (jp_data p) (jp_pos ?s) b"
    using start cur_is_at [of ?s] moved_fields [OF s(1)] by simp
  have m: "moved p (jp_pos ?s + 1) [token_at typ (jp_pos ?s) 1] (mark typ ?s)"
    using moved_trans [OF s(1) moved_mark [OF kind, where n = 1]] by simp
  obtain j ts where j: "loop_head (R (keys_of p) (jp_data p)) (jp_data p) e end_typ (jp_pos ?s + 1) j ts"
    "moved (mark typ ?s) j ts q"
    and ctx: "jp_contextStack q = jp_contextStack p" "jp_currentContext q = jp_currentContext p"
    using loop moved_fields [OF m] s(3) by (auto simp: sound_rest_def same_context_def pushContext_def moved_def)
  have "value_text (keys_of p) (jp_data p) (jp_pos p) j (token_at typ (jp_pos ?s) 1 # ts)"
    using j(1) empty [OF s(2) b] more [OF s(2) b]
    by (auto simp: loop_head_def items_def closing_def)
  moreover have "moved p j (token_at typ (jp_pos ?s) 1 # ts) q"
    using moved_trans [OF m j(2)] by simp
  ultimately show ?thesis
    using ctx by (auto simp: sound_value_def same_context_def)
qed

lemma sound_skipped:
  assumes "plain_parser p" "sound_value (skipWhitespace p) q"
  shows "sound_value p q"
proof -
  note s = skip_moved [OF assms(1)]
  obtain j ts where "value_text (keys_of p) (jp_data p) (jp_pos (skipWhitespace p)) j ts"
    "moved (skipWhitespace p) j ts q" "same_context (skipWhitespace p) q"
    using assms(2) moved_fields [OF s(1)] by (auto simp: sound_value_def)
  with leading_spaces(2) [OF _ s(2)] moved_trans [OF s(1)] s(3) show ?thesis
    by (fastforce simp: sound_value_def same_context_def)
qed

lemma sound_scalar:
  "value_text (keys_of p) (jp_data p) (jp_pos p) j [token_at typ (jp_pos p) n] \<Longrightarrow> j = jp_pos p + n
   \<Longrightarrow> typ \<notin> {TokenColon, TokenKey64, TokenKey128}
   \<Longrightarrow> sound_value p ((addToken typ (jp_pos p) n 0 no_atom128 p)\<lparr>jp_pos := j\<rparr>)"
  by (auto simp: sound_value_def same_context_def intro!: moved_mark exI)

lemma parseNumber_sound:
  assumes "parseNumber p = (Ok, q)" "\<not> at_end p"
  shows "sound_value p q"
proof -
  obtain j where j: "scan_number (jp_data p) (jp_pos p) = (j, None)"
    and q: "q = (addToken TokenNumber (jp_pos p) (j - jp_pos p) 0 no_atom128 p)\<lparr>jp_pos := j\<rparr>"
    using assms(1) by (auto simp: parseNumber_def Let_def split: prod.splits option.splits)
  have n: "json_number (jp_data p) (jp_pos p) j"
    using scan_number_sound [OF j] assms(2) by (simp add: at_end_def)
  then have "jp_pos p \<le> j"
    by (rule json_number_le)
  with v_number [OF spaces_refl n] show ?thesis
    unfolding q by (intro sound_scalar) simp_all
qed

lemma literal_at_simps:
  "literal_at ''true'' d i j \<longleftrightarrow> j = i + 4 \<and> j \<le> length d \<and> take 4 (drop i d) = octets ''true''"
  "literal_at ''false'' d i j \<longleftrightarrow> j = i + 5 \<and> j \<le> length d \<and> take 5 (drop i d) = octets ''false''"
  "literal_at ''null'' d i j \<longleftrightarrow> j = i + 4 \<and> j \<le> length d \<and> take 4 (drop i d) = octets ''null''"
  by (simp_all add: literal_at_def eval_nat_numeral)

lemma parseLiteral_sound:
  assumes "parseLiteral p = (Ok, q)"
  shows "sound_value p q"
proof -
  have "parseLiteralBasic p = (Ok, q)"
    using assms by (simp add: parseLiteral_def parseLiteral_agree split: literal_op.splits)
  then show ?thesis
    by (auto simp: parseLiteralBasic_def Let_def literal_token_def invalid_literal_def split: if_splits
        intro!: sound_scalar grammar(3-5) [OF spaces_refl] simp: literal_at_simps)
qed

lemma sound_pass:
  assumes pass: "and_then (item (skipWhitespace p)) loop = (Ok, q)" and p: "plain_parser p"
    and item: "\<And>p q. item p = (Ok, q) \<Longrightarrow> plain_parser p \<Longrightarrow> sound_item Q p q"
    and loop: "\<And>p q. loop p = (Ok, q) \<Longrightarrow> plain_parser p \<Longrightarrow> sound_loop R b typ False p q"
    and "\<And>K d i a j ts. spaces d i a \<Longrightarrow> Q K d a j ts \<Longrightarrow> Q K d i j ts"
    and "\<And>K d i j ts. Q K d i j ts \<Longrightarrow> R K d i j ts"
    and "\<And>K d i c ts e j us. Q K d i c ts \<Longrightarrow> spaces d c e \<Longrightarrow> is_at d e 0x2C \<Longrightarrow> R K d (e + 1) j us
      \<Longrightarrow> R K d i j (ts @ token_at TokenComma e 1 # us)"
  shows "sound_rest items R b typ p q"
proof -
  obtain q1 where q1: "item (skipWhitespace p) = (Ok, q1)" "loop q1 = (Ok, q)"
    using pass by (auto simp: and_then_Ok)
  have "plain_parser (skipWhitespace p)"
    using p moved_plain [OF skip_moved(1) [OF p]] by simp
  with item [OF q1(1)] have i: "sound_item Q (skipWhitespace p) q1" by simp
  then have "plain_parser q1"
    using \<open>plain_parser (skipWhitespace p)\<close> moved_plain by (auto simp: sound_item_def)
  from sound_items [OF p i loop [OF q1(2) this] assms(5-7)] show ?thesis .
qed

lemma parse_sound:
  "parseValue n p = (Ok, q) \<Longrightarrow> plain_parser p \<Longrightarrow> jp_currentContext p \<noteq> ContextObjectKey \<Longrightarrow> sound_value p q"
  "object_loop n first p = (Ok, q) \<Longrightarrow> plain_parser p \<Longrightarrow> sound_loop json_members 0x7D TokenObjectEnd first p q"
  "array_loop n first p = (Ok, q) \<Longrightarrow> plain_parser p \<Longrightarrow> sound_loop json_elements 0x5D TokenArrayEnd first p q"
proof (induction n arbitrary: p q first)
  case (Suc n)
  have member: "object_member n p = (Ok, q) \<Longrightarrow> plain_parser p \<Longrightarrow> sound_item json_member p q" for p q
    using object_member_sound [OF Suc.IH(1)] by blast
  have element: "array_element n p = (Ok, q) \<Longrightarrow> plain_parser p \<Longrightarrow> sound_item value_text p q" for p q
    using array_element_sound [OF Suc.IH(1)] by blast
  {
    case 1
    let ?s = "skipWhitespace p"
    note s = skip_moved [OF 1(2)]
    have ps: "plain_parser ?s" "jp_currentContext ?s \<noteq> ContextObjectKey"
      using 1(2,3) moved_plain [OF s(1)] s(3) by (auto simp: same_context_def)
    from 1(1) consider
      (object) "\<not> at_end ?s" "cur_byte ?s = 0x7B"
        "object_loop n True (pushContext ContextObjectStart (mark TokenObjectStart ?s)) = (Ok, q)"
      | (array) "\<not> at_end ?s" "cur_byte ?s = 0x5B"
        "array_loop n True (pushContext ContextArrayStart (mark TokenArrayStart ?s)) = (Ok, q)"
      | (string) "\<not> at_end ?s" "cur_byte ?s = 0x22" "parseString ?s = (Ok, q)"
      | (literal) "parseLiteral ?s = (Ok, q)" | (number) "\<not> at_end ?s" "parseNumber ?s = (Ok, q)"
      by (auto simp: Let_def split: if_splits)
    then show ?case
    proof cases
      case object
      show ?thesis
        by (rule sound_nested [OF 1(2) object(1,2) Suc.IH(2) [OF object(3)]])
          (simp add: ps, simp, (rule v_object0; assumption), (rule v_object; assumption))
    next
      case array
      show ?thesis
        by (rule sound_nested [OF 1(2) array(1,2) Suc.IH(3) [OF array(3)]])
          (simp add: ps, simp, (rule v_array0; assumption), (rule v_array; assumption))
    next
      case string
      obtain j where "json_string (jp_data ?s) (jp_pos ?s) j"
        "moved ?s j [token_at TokenString (jp_pos ?s) (j - jp_pos ?s)] q" "same_context ?s q"
        using parseString_value [OF string(3) ps(1) string(1,2) ps(2)] by blast
      with v_string [OF spaces_refl] show ?thesis
        by (intro sound_skipped [OF 1(2)]) (unfold sound_value_def, blast)
    next
      case literal
      then show ?thesis by (intro sound_skipped [OF 1(2)] parseLiteral_sound)
    next
      case number
      then show ?thesis by (intro sound_skipped [OF 1(2)] parseNumber_sound)
    qed
  next
    case 2
    let ?s = "skipWhitespace p"
    note s = skip_moved [OF 2(2)]
    have pass: "sound_rest items json_members 0x7D TokenObjectEnd p q"
      if "and_then (object_member n (skipWhitespace p)) (object_loop n False) = (Ok, q)" "plain_parser p" for p q
      by (rule sound_pass [where Q = json_member and item = "object_member n" and loop = "object_loop n False", OF that member])
        (assumption, assumption, use Suc.IH(2) [where first = False] in simp, (rule leading_spaces(1); assumption),
          (rule m_one; assumption), (rule m_more; assumption))
    from 2(1) consider (close) "\<not> at_end ?s" "cur_byte ?s = 0x7D" "q = popContext (mark TokenObjectEnd ?s)"
      | (first) "first" "and_then (object_member n ?s) (object_loop n False) = (Ok, q)"
      | (more) "\<not> first" "\<not> at_end ?s" "cur_byte ?s = 0x2C"
          "and_then (object_member n (skipWhitespace (mark TokenComma ?s))) (object_loop n False) = (Ok, q)"
      by (auto simp: Let_def expected_at_def split: if_splits)
    then show ?case
    proof cases
      case close
      then show ?thesis using sound_close [OF 2(2) close(1,2)] by simp
    next
      case first
      then show ?thesis using sound_first [OF pass [OF first(2) 2(2)]] by simp
    next
      case more
      have "plain_parser (mark TokenComma ?s)"
        using 2(2) moved_plain [OF s(1)] by simp
      from sound_next [OF 2(2) more(2,3) pass [OF more(4) this]] more(1) show ?thesis by simp
    qed
  next
    case 3
    let ?s = "skipWhitespace p"
    note s = skip_moved [OF 3(2)]
    have pass: "sound_rest items json_elements 0x5D TokenArrayEnd p q"
      if "and_then (array_element n (skipWhitespace p)) (array_loop n False) = (Ok, q)" "plain_parser p" for p q
      by (rule sound_pass [where Q = value_text and item = "array_element n" and loop = "array_loop n False", OF that element])
        (assumption, assumption, use Suc.IH(3) [where first = False] in simp, (rule leading_spaces(2); assumption),
          (rule e_one; assumption), (rule e_more; assumption))
    from 3(1) consider (close) "\<not> at_end ?s" "cur_byte ?s = 0x5D" "q = popContext (mark TokenArrayEnd ?s)"
      | (first) "first" "and_then (array_element n ?s) (array_loop n False) = (Ok, q)"
      | (more) "\<not> first" "\<not> at_end ?s" "cur_byte ?s = 0x2C"
          "and_then (array_element n (skipWhitespace (mark TokenComma ?s))) (array_loop n False) = (Ok, q)"
      by (auto simp: Let_def expected_at_def split: if_splits)
    then show ?case
    proof cases
      case close
      then show ?thesis using sound_close [OF 3(2) close(1,2)] by simp
    next
      case first
      then show ?thesis using sound_first [OF pass [OF first(2) 3(2)]] by simp
    next
      case more
      have "plain_parser (mark TokenComma ?s)"
        using 3(2) moved_plain [OF s(1)] by simp
      from sound_next [OF 3(2) more(2,3) pass [OF more(4) this]] more(1) show ?thesis by simp
    qed
  }
qed simp_all

end
