(* ===== verification/SuperJsonComplete.thy ===== *)
theory SuperJsonComplete
  imports SuperJsonGrammar
begin

text \<open>
  The other half of the correctness of \<open>Parse\<close>: the fuel that it gives the recursion is enough,
  it panics only where the input ends after a comma, and every derivation of the grammar is found.
  All three are stated for the parser with the plain
  loops and carry over to every configuration by SuperJsonScan.
\<close>

section \<open>Fuel\<close>

lemma string_bounds: "json_string d i j \<Longrightarrow> i + 1 < j \<and> j \<le> length d"
  using string_body_le by (fastforce simp: json_string_def is_at_def)

lemma number_bounds: "json_number d i j \<Longrightarrow> i < j"
  by (auto simp: json_number_def int_part_def frac_part_def exp_part_def digits_def)

lemma spaces_le: "spaces d i j \<Longrightarrow> i \<le> j"
  by (simp add: spaces_def)

lemma grammar_moves:
  "value_text K d i j ts \<Longrightarrow> i < j"
  "json_members K d i j ts \<Longrightarrow> i < j"
  "json_elements K d i j ts \<Longrightarrow> i < j"
  "json_member K d i j ts \<Longrightarrow> i < j"
proof (induction rule: value_text_json_members_json_elements_json_member.inducts)
  case (v_string i a j) then show ?case using string_bounds spaces_le by fastforce
next
  case (v_number i a j) then show ?case using number_bounds spaces_le by fastforce
next
  case (member i a b c j ts)
  from spaces_le [OF member(1)] string_bounds [OF member(2)] spaces_le [OF member(3)] member(6)
  show ?case by linarith
qed (auto simp: spaces_def literal_at_simps)

lemma and_then_fuel:
  "fst (and_then r f) = NoFuel \<longleftrightarrow> fst r = NoFuel \<or> (\<exists>p. r = (Ok, p) \<and> fst (f p) = NoFuel)"
  by (cases r; cases "fst r") (auto simp: and_then_def)

definition left :: "json_parser \<Rightarrow> nat" where
  "left p = length (jp_data p) - jp_pos p"

lemma left_skip: "plain_parser p \<Longrightarrow> left (skipWhitespace p) \<le> left p"
  using skip_moved(1,2) [of p] by (auto simp: left_def moved_def spaces_def)

lemma left_mark: "\<not> at_end p \<Longrightarrow> left (mark typ p) < left p"
  by (simp add: left_def at_end_def)

lemma left_context [simp]: "left (set_context c p) = left p" "left (pushContext c p) = left p"
  by (simp_all add: left_def)

lemma scalar_fuel:
  "fst (parseString p) \<noteq> NoFuel" "fst (parseLiteral p) \<noteq> NoFuel" "fst (parseNumber p) \<noteq> NoFuel"
  by (auto simp: parseString_def parseLiteral_def parseLiteral_agree parseLiteralBasic_def literal_token_def
      invalid_literal_def parseNumber_def Let_def split: prod.split option.split literal_op.split)

lemma parseString_left:
  assumes "parseString p = (Ok, q)" "plain_parser p" "\<not> at_end p" "cur_byte p = 0x22"
  shows "plain_parser q" "left q < left p"
proof -
  have "plain_parser q \<and> left q < left p"
  proof (cases "jp_currentContext p = ContextObjectKey")
    case True
    from json_string_key [OF assms this] string_bounds show ?thesis
      using assms(2,3) by (fastforce simp: plain_parser_def left_def at_end_def)
  next
    case False
    from parseString_value [OF assms this] string_bounds show ?thesis
      using assms(2,3) by (fastforce simp: plain_parser_def left_def moved_def at_end_def)
  qed
  then show "plain_parser q" "left q < left p" by auto
qed

lemma value_left:
  assumes "sound_value p q" "\<not> at_end p"
  shows "left q < left p" "plain_parser q = plain_parser p"
  using assms grammar_moves(1) by (fastforce simp: sound_value_def left_def moved_def at_end_def plain_parser_def)+

lemma object_member_fuel:
  assumes val: "\<And>p. plain_parser p \<Longrightarrow> left p \<le> l \<Longrightarrow> fst (parseValue n p) \<noteq> NoFuel"
    and p: "plain_parser p" "left p \<le> l"
  shows "fst (object_member n p) \<noteq> NoFuel"
proof -
  have "fst (parseValue n (set_context ContextObjectValue (mark TokenColon (skipWhitespace q)))) \<noteq> NoFuel"
    if q: "parseString (set_context ContextObjectKey p) = (Ok, q)" "\<not> at_end p" "cur_byte p = 0x22" for q
  proof -
    have "plain_parser q" "left q < left p"
      using parseString_left [OF q(1)] q(2,3) p(1) by simp_all
    moreover have "left (mark TokenColon (skipWhitespace q)) \<le> left (skipWhitespace q)"
      by (simp add: left_def)
    moreover have "plain_parser (skipWhitespace q)"
      using \<open>plain_parser q\<close> moved_plain [OF skip_moved(1)] by simp
    ultimately show ?thesis
      using val p(2) left_skip [of q] by fastforce
  qed
  then show ?thesis
    by (auto simp: object_member.simps Let_def and_then_fuel expected_at_def scalar_fuel)
qed

lemma array_element_fuel:
  assumes "\<And>p. plain_parser p \<Longrightarrow> left p \<le> l \<Longrightarrow> fst (parseValue n p) \<noteq> NoFuel" "plain_parser p" "left p \<le> l"
  shows "fst (array_element n p) \<noteq> NoFuel"
  using assms by (auto simp: array_element.simps and_then_fuel)

lemma item_left:
  "object_member n p = (Ok, q) \<Longrightarrow> plain_parser p \<Longrightarrow> \<not> at_end p \<Longrightarrow> left q < left p \<and> plain_parser q"
  "array_element n p = (Ok, q) \<Longrightarrow> plain_parser p \<Longrightarrow> \<not> at_end p \<Longrightarrow> left q < left p \<and> plain_parser q"
proof -
  have step: "left q < left p \<and> plain_parser q" if "sound_item Q p q" "plain_parser p" "\<not> at_end p"
    "\<And>K d i j ts. Q K d i j ts \<Longrightarrow> i < j" for Q
    using that by (fastforce simp: sound_item_def left_def moved_def at_end_def plain_parser_def)
  show "object_member n p = (Ok, q) \<Longrightarrow> plain_parser p \<Longrightarrow> \<not> at_end p \<Longrightarrow> left q < left p \<and> plain_parser q"
    by (rule step [OF object_member_sound], rule parse_sound(1)) (auto intro: grammar_moves(4))
  show "array_element n p = (Ok, q) \<Longrightarrow> plain_parser p \<Longrightarrow> \<not> at_end p \<Longrightarrow> left q < left p \<and> plain_parser q"
    by (rule step [OF array_element_sound], rule parse_sound(1)) (auto intro: grammar_moves(1))
qed

lemma at_end_skip: "plain_parser p \<Longrightarrow> at_end p \<Longrightarrow> at_end (skipWhitespace p)"
  using skip_moved(1,2) [of p] by (auto simp: at_end_def moved_def spaces_def)

lemma item_at_end:
  "plain_parser p \<Longrightarrow> at_end p \<Longrightarrow> fst (object_member n p) \<noteq> Ok"
  "plain_parser p \<Longrightarrow> at_end p \<Longrightarrow> fst (array_element n p) \<noteq> Ok"
proof -
  show "at_end p \<Longrightarrow> fst (object_member n p) \<noteq> Ok"
    by (simp add: object_member.simps)
  show "plain_parser p \<Longrightarrow> at_end p \<Longrightarrow> fst (array_element n p) \<noteq> Ok"
    by (cases n) (auto simp: array_element.simps and_then_def at_end_skip)
qed

lemma pass_fuel:
  assumes p: "plain_parser p" "left p \<le> l"
    and item: "\<And>p. plain_parser p \<Longrightarrow> left p \<le> l \<Longrightarrow> fst (item p) \<noteq> NoFuel"
    and loop: "\<And>p. plain_parser p \<Longrightarrow> left p < l \<Longrightarrow> fst (loop p) \<noteq> NoFuel"
    and step: "\<And>p q. item p = (Ok, q) \<Longrightarrow> plain_parser p \<Longrightarrow> \<not> at_end p \<Longrightarrow> left q < left p \<and> plain_parser q"
    and ending: "\<And>p. plain_parser p \<Longrightarrow> at_end p \<Longrightarrow> fst (item p) \<noteq> Ok"
  shows "fst (and_then (item (skipWhitespace p)) loop) \<noteq> NoFuel"
proof -
  have s: "plain_parser (skipWhitespace p)" "left (skipWhitespace p) \<le> l"
    using p left_skip [of p] moved_plain [OF skip_moved(1) [OF p(1)]] by auto
  have "fst (loop q) \<noteq> NoFuel" if "item (skipWhitespace p) = (Ok, q)" for q
  proof (cases "at_end (skipWhitespace p)")
    case False
    from step [OF that s(1) False] s(2) show ?thesis by (intro loop) auto
  next
    case True
    from ending [OF s(1) this] that show ?thesis by simp
  qed
  with item [OF s] show ?thesis
    by (auto simp: and_then_fuel)
qed

lemma after_comma:
  assumes "plain_parser p"
  shows "plain_parser (mark k (skipWhitespace p))" "left (mark k (skipWhitespace p)) \<le> left p"
  using assms left_skip [OF assms] moved_plain [OF skip_moved(1) [OF assms]]
  by (auto simp: left_def)

lemma parse_fuel:
  "plain_parser p \<Longrightarrow> 2 * left p + 1 \<le> n \<Longrightarrow> fst (parseValue n p) \<noteq> NoFuel"
  "plain_parser p \<Longrightarrow> 2 * left p + 2 \<le> n \<Longrightarrow> fst (object_loop n first p) \<noteq> NoFuel"
  "plain_parser p \<Longrightarrow> 2 * left p + 2 \<le> n \<Longrightarrow> fst (array_loop n first p) \<noteq> NoFuel"
proof (induction n arbitrary: p first)
  case (Suc n)
  {
    case 1
    let ?s = "skipWhitespace p"
    have s: "plain_parser ?s" "left ?s \<le> left p"
      using 1 left_skip [of p] moved_plain [OF skip_moved(1)] by auto
    then have "\<not> at_end ?s \<Longrightarrow> 2 * left (mark k ?s) + 2 \<le> n" for k
      using left_mark [of ?s k] 1(2) by linarith
    with s Suc.IH(2,3) scalar_fuel show ?case
      by (auto simp: Let_def)
  next
    case 2
    have pass: "fst (and_then (object_member n (skipWhitespace q)) (object_loop n False)) \<noteq> NoFuel"
      if "plain_parser q" "left q \<le> left p" for q
      using that 2 Suc.IH(1,2) item_left(1) item_at_end(1)
      by (intro pass_fuel [where l = "left p"] object_member_fuel [where l = "left p"]) auto
    with after_comma [OF 2(1)] 2(1) show ?case
      by (auto simp: Let_def expected_at_def)
  next
    case 3
    have pass: "fst (and_then (array_element n (skipWhitespace q)) (array_loop n False)) \<noteq> NoFuel"
      if "plain_parser q" "left q \<le> left p" for q
      using that 3 Suc.IH(1,3) item_left(2) item_at_end(2)
      by (intro pass_fuel [where l = "left p"] array_element_fuel [where l = "left p"]) auto
    with after_comma [OF 3(1)] 3(1) show ?case
      by (auto simp: Let_def expected_at_def)
  }
qed simp_all

section \<open>Panics\<close>

text \<open>
  The parser reads past the end of the input at one place only, before the key of a member: this
  happens where the input ends after a comma. \<open>ends_in_comma\<close>: the last byte that is not white
  space is a comma.
\<close>

definition ends_in_comma :: "octet list \<Rightarrow> bool" where
  "ends_in_comma d = (case dropWhile isWhitespace (rev d) of [] \<Rightarrow> False | b # _ \<Rightarrow> b = 0x2C)"

lemma ends_in_commaI:
  assumes "is_at d e 0x2C" "spaces d (e + 1) j" "length d \<le> j"
  shows "ends_in_comma d"
proof -
  have "d = take e d @ 0x2C # drop (Suc e) d"
    using assms(1) id_take_nth_drop [of e d] by (simp add: is_at_def)
  then have r: "rev d = rev (drop (Suc e) d) @ 0x2C # rev (take e d)"
    by (metis rev.simps(2) rev_append append_Cons append_Nil append_assoc)
  have white: "isWhitespace b" if "b \<in> set (rev (drop (Suc e) d))" for b
    using that assms(2,3) by (auto simp: in_set_conv_nth spaces_def)
  have "dropWhile isWhitespace (rev d) = dropWhile isWhitespace (0x2C # rev (take e d))"
    unfolding r by (rule dropWhile_append2) (rule white)
  then show ?thesis
    by (simp add: ends_in_comma_def isWhitespace_def)
qed

text \<open>The plain parser on the input \<open>d\<close>.\<close>

definition reads :: "octet list \<Rightarrow> json_parser \<Rightarrow> bool" where
  "reads d p = (plain_parser p \<and> jp_data p = d)"

lemma reads_steps [simp]:
  "reads d (set_context c p) = reads d p" "reads d (pushContext c p) = reads d p"
  "reads d (p\<lparr>jp_pos := i\<rparr>) = reads d p" "reads d (addToken t i j a b p) = reads d p"
  by (simp_all add: reads_def)

lemma reads_skip: "reads d p \<Longrightarrow> reads d (skipWhitespace p)"
  using skip_moved(1) [of p] moved_plain [of p] by (auto simp: reads_def dest: moved_fields)

lemma reads_moved: "moved p j ts q \<Longrightarrow> reads d q = reads d p"
  by (simp add: reads_def moved_plain moved_fields)

lemma scalar_panics:
  "fst (parseString p) \<noteq> Panic" "fst (parseLiteral p) \<noteq> Panic" "fst (parseNumber p) \<noteq> Panic"
  by (auto simp: parseString_def parseLiteral_def parseLiteral_agree parseLiteralBasic_def literal_token_def
      invalid_literal_def parseNumber_def Let_def split: prod.split option.split literal_op.split)

lemma and_then_panics:
  "fst (and_then r f) = Panic \<longleftrightarrow> fst r = Panic \<or> (\<exists>p. r = (Ok, p) \<and> fst (f p) = Panic)"
  by (cases r; cases "fst r") (auto simp: and_then_def)

lemma reads_key:
  assumes "parseString p = (Ok, q)" "reads d p" "\<not> at_end p" "cur_byte p = 0x22"
    "jp_currentContext p = ContextObjectKey"
  shows "reads d q"
  using json_string_key [OF assms(1) _ assms(3-5)] assms(2) by (auto simp: reads_def plain_parser_def)

lemma object_member_panics:
  assumes val: "\<And>p. reads d p \<Longrightarrow> fst (parseValue n p) = Panic \<Longrightarrow> ends_in_comma d"
    and p: "reads d p" "\<not> at_end p" and panic: "fst (object_member n p) = Panic"
  shows "ends_in_comma d"
proof -
  let ?p = "set_context ContextObjectKey p"
  from p(2) panic obtain q where q: "parseString ?p = (Ok, q)" "cur_byte ?p = 0x22"
    and v: "fst (parseValue n (set_context ContextObjectValue (mark TokenColon (skipWhitespace q)))) = Panic"
    by (auto simp: object_member.simps Let_def and_then_panics expected_at_def scalar_panics split: if_splits)
  from reads_key [OF q(1) _ _ q(2)] p have "reads d q" by simp
  with v show ?thesis by (intro val [OF _ v]) (simp add: reads_skip)
qed

lemma array_element_panics:
  assumes "\<And>p. reads d p \<Longrightarrow> fst (parseValue n p) = Panic \<Longrightarrow> ends_in_comma d"
    and "reads d p" "fst (array_element n p) = Panic"
  shows "ends_in_comma d"
  using assms(1) [of "set_context ContextArrayValue p"] assms(2,3)
  by (auto simp: array_element.simps and_then_panics)

lemma reads_item:
  "object_member n p = (Ok, q) \<Longrightarrow> reads d p \<Longrightarrow> reads d q"
  "array_element n p = (Ok, q) \<Longrightarrow> reads d p \<Longrightarrow> reads d q"
proof -
  have item: "reads d q" if "sound_item Q p q" "reads d p" for Q
    using that reads_moved by (auto simp: sound_item_def)
  show "object_member n p = (Ok, q) \<Longrightarrow> reads d p \<Longrightarrow> reads d q"
    by (rule item [OF object_member_sound], rule parse_sound(1)) (auto simp: reads_def)
  show "array_element n p = (Ok, q) \<Longrightarrow> reads d p \<Longrightarrow> reads d q"
    by (rule item [OF array_element_sound], rule parse_sound(1)) (auto simp: reads_def)
qed

lemma at_end_after_comma:
  assumes "reads d p" "\<not> at_end p" "cur_byte p = 0x2C" "at_end (skipWhitespace (mark k p))"
  shows "ends_in_comma d"
proof (rule ends_in_commaI)
  let ?q = "mark k p"
  have q: "plain_parser ?q" "jp_data ?q = d" using assms(1) by (simp_all add: reads_def)
  show "is_at d (jp_pos p) 0x2C"
    using assms(1-3) by (simp add: reads_def is_at_def at_end_def cur_byte_def)
  show "spaces d (jp_pos p + 1) (jp_pos (skipWhitespace ?q))"
    using skip_moved(2) [OF q(1)] q(2) by simp
  show "length d \<le> jp_pos (skipWhitespace ?q)"
    using assms(4) moved_fields [OF skip_moved(1) [OF q(1)]] q(2) by (simp add: at_end_def)
qed

lemma parse_panics:
  "reads d p \<Longrightarrow> fst (parseValue n p) = Panic \<Longrightarrow> ends_in_comma d"
  "reads d p \<Longrightarrow> fst (object_loop n first p) = Panic \<Longrightarrow> ends_in_comma d"
  "reads d p \<Longrightarrow> fst (array_loop n first p) = Panic \<Longrightarrow> ends_in_comma d"
proof (induction n arbitrary: p first)
  case (Suc n)
  {
    case 1
    with reads_skip [OF 1(1)] show ?case
      by (auto simp: Let_def scalar_panics dest!: Suc.IH(2,3) [rotated] split: if_splits)
  next
    case 2
    let ?s = "skipWhitespace p" and ?t = "skipWhitespace (mark TokenComma (skipWhitespace p))"
    have s: "reads d ?s" by (rule reads_skip [OF 2(1)])
    then have t: "reads d ?t" by (intro reads_skip) simp
    have pass: "ends_in_comma d" if "fst (and_then (object_member n q) (object_loop n False)) = Panic" "reads d q"
      "\<not> at_end q" for q
      using that(1) object_member_panics [OF Suc.IH(1) that(2,3)]
        Suc.IH(2) [OF reads_item(1) [OF _ that(2)]]
      by (auto simp: and_then_panics)
    from 2(2) show ?case
      using pass [OF _ s] pass [OF _ t] at_end_after_comma [OF s]
      by (auto simp: Let_def expected_at_def split: if_splits)
  next
    case 3
    let ?s = "skipWhitespace p" and ?t = "skipWhitespace (mark TokenComma (skipWhitespace p))"
    have s: "reads d ?s" by (rule reads_skip [OF 3(1)])
    then have t: "reads d ?t" by (intro reads_skip) simp
    have pass: "ends_in_comma d" if "fst (and_then (array_element n q) (array_loop n False)) = Panic" "reads d q"
      "\<not> at_end q" for q
      using that(1) array_element_panics [OF Suc.IH(1) that(2)]
        Suc.IH(3) [OF reads_item(2) [OF _ that(2)]]
      by (auto simp: and_then_panics)
    from 3(2) show ?case
      using pass [OF _ s] pass [OF _ t] at_end_after_comma [OF s]
      by (auto simp: Let_def expected_at_def split: if_splits)
  }
qed simp_all

section \<open>Completeness\<close>

text \<open>The parser stands at \<open>i\<close> of the input \<open>d\<close>.\<close>

definition ready :: "key_op \<Rightarrow> octet list \<Rightarrow> nat \<Rightarrow> json_parser \<Rightarrow> bool" where
  "ready K d i p = (plain_parser p \<and> jp_data p = d \<and> keys_of p = K \<and> jp_pos p = i)"

text \<open>A run that has the fuel it needs ends well, with the tokens \<open>ts\<close>.\<close>

definition ends :: "json_parser \<Rightarrow> nat \<Rightarrow> json_token list \<Rightarrow> parse_result \<Rightarrow> bool" where
  "ends p j ts r = (fst r \<noteq> NoFuel \<longrightarrow> (\<exists>q. r = (Ok, q) \<and> moved p j ts q))"

lemma ready_skip:
  assumes "ready K d i p" "spaces d i a" "a < length d" "\<not> isWhitespace (d ! a)"
  shows "ready K d a (skipWhitespace p)" "\<not> at_end (skipWhitespace p)" "cur_byte (skipWhitespace p) = d ! a"
    "moved p a [] (skipWhitespace p)"
proof -
  have a: "skip_basic d i = a"
    using assms(2-4) by (intro skip_basic_eq) auto
  have s: "jp_pos (skipWhitespace p) = a" "moved p a [] (skipWhitespace p)"
    using assms(1) skip_moved(1,4) [of p] a by (auto simp: ready_def)
  then show "moved p a [] (skipWhitespace p)" "ready K d a (skipWhitespace p)"
    "\<not> at_end (skipWhitespace p)" "cur_byte (skipWhitespace p) = d ! a"
    using assms(1,3) moved_plain [OF s(2)] by (auto simp: ready_def moved_def at_end_def cur_byte_def)
qed

lemma ready_moved: "ready K d i p \<Longrightarrow> moved p j ts q \<Longrightarrow> ready K d j q"
  by (auto simp: ready_def moved_def plain_parser_def)

lemma ready_context [simp]:
  "ready K d i (set_context c p) = ready K d i p" "ready K d i (pushContext c p) = ready K d i p"
  by (simp_all add: ready_def pushContext_def plain_parser_def)

lemma ready_mark:
  "ready K d a p \<Longrightarrow> k \<notin> {TokenColon, TokenKey64, TokenKey128} \<Longrightarrow>
   ready K d (a + 1) (mark k p) \<and> moved p (a + 1) [token_at k a 1] (mark k p)"
  using moved_mark [of k p 1] by (auto simp: ready_def)

lemma not_space_at: "is_at d a b \<Longrightarrow> \<not> isWhitespace b \<Longrightarrow> a < length d \<and> \<not> isWhitespace (d ! a)"
  by (simp add: is_at_def)

lemmas not_space = isWhitespace_def

text \<open>The first byte of a value, of a member and of their lists.\<close>

lemma number_start: "json_number d i j \<Longrightarrow> i < length d \<and> (d ! i = 0x2D \<or> isDigit (d ! i))"
  by (auto simp: json_number_def int_part_def is_at_def digits_def digit_at_def not_digit)

lemma literal_start:
  "literal_at ''true'' d i j \<Longrightarrow> is_at d i 0x74" "literal_at ''false'' d i j \<Longrightarrow> is_at d i 0x66"
  "literal_at ''null'' d i j \<Longrightarrow> is_at d i 0x6E"
proof -
  have start: "is_at d i b" if "take (Suc n) (drop i d) = b # bs" "i + Suc n \<le> length d" for n b bs
    using that hd_drop_conv_nth [of i d] by (cases "drop i d") (auto simp: is_at_def)
  show "literal_at ''true'' d i j \<Longrightarrow> is_at d i 0x74"
    using start [of 3 "0x74"] by (auto simp: literal_at_simps octets_def)
  show "literal_at ''false'' d i j \<Longrightarrow> is_at d i 0x66"
    using start [of 4 "0x66"] by (auto simp: literal_at_simps octets_def)
  show "literal_at ''null'' d i j \<Longrightarrow> is_at d i 0x6E"
    using start [of 3 "0x6E"] by (auto simp: literal_at_simps octets_def)
qed

lemma digit_not: "isDigit b \<Longrightarrow> \<not> isWhitespace b" "isDigit b \<Longrightarrow> b \<notin> {0x5D, 0x7B, 0x5B, 0x22, 0x74, 0x66, 0x6E}"
  by (auto simp: isDigit_def isWhitespace_def word_le_nat_alt)

definition starts :: "octet list \<Rightarrow> nat \<Rightarrow> octet set \<Rightarrow> bool" where
  "starts d i B = (\<exists>a. spaces d i a \<and> a < length d \<and> \<not> isWhitespace (d ! a) \<and> d ! a \<notin> B)"

lemma grammar_starts:
  "value_text K d i j ts \<Longrightarrow> starts d i {0x5D}"
  "json_members K d i j ts \<Longrightarrow> starts d i {0x7D}"
  "json_elements K d i j ts \<Longrightarrow> starts d i {0x5D}"
  "json_member K d i j ts \<Longrightarrow> starts d i {0x7D}"
proof (induction rule: value_text_json_members_json_elements_json_member.inducts)
  case (v_number i a j)
  then show ?case
    using number_start [of d a j] digit_not [of "d ! a"]
    by (auto simp: starts_def not_space intro!: exI [of _ a])
qed (auto simp: starts_def is_at_def json_string_def not_space dest!: literal_start)

text \<open>What follows an item inside an object or array ends a number.\<close>

lemma stops_before:
  assumes "spaces d c e" "is_at d e b" "b \<in> {0x2C, 0x5D, 0x7D}"
  shows "stops_at d c"
proof -
  have "c < length d \<and> (isWhitespace (d ! c) \<or> d ! c = b)"
    using assms(1,2) by (cases "c = e") (auto simp: spaces_def is_at_def)
  with assms(3) show ?thesis
    by (auto simp: stops_at_def byte_at_def digit_at_def isDigit_def isWhitespace_def)
qed

text \<open>Scalars.\<close>

lemma json_string_scan: "json_string d i j \<Longrightarrow> scan_basic d (i + 1) = (j - 1, None) \<and> 0 < j"
  by (auto simp: json_string_def scan_basic_string)

lemma parseString_complete: "json_string (jp_data p) (jp_pos p) j \<Longrightarrow> plain_parser p \<Longrightarrow> \<exists>q. parseString p = (Ok, q)"
  using json_string_scan [of "jp_data p" "jp_pos p" j]
  by (simp add: parseString_def scan_from_def plain_parser_def Let_def)

lemma json_string_unique: "json_string d i j \<Longrightarrow> json_string d i k \<Longrightarrow> j = k"
  using json_string_scan [of d i j] json_string_scan [of d i k] by auto

lemma parseNumber_complete:
  assumes "json_number (jp_data p) (jp_pos p) j" "stops_at (jp_data p) j"
  shows "\<exists>q. parseNumber p = (Ok, q) \<and> moved p j [token_at TokenNumber (jp_pos p) (j - jp_pos p)] q"
  using scan_number_complete [OF assms] json_number_le [OF assms(1)]
    moved_mark [of TokenNumber p "j - jp_pos p"]
  by (auto simp: parseNumber_def Let_def)

lemma parseLiteral_complete:
  "literal_at ''true'' (jp_data p) (jp_pos p) j \<Longrightarrow> parseLiteral p = literal_token TokenTrue 4 p"
  "literal_at ''false'' (jp_data p) (jp_pos p) j \<Longrightarrow> parseLiteral p = literal_token TokenFalse 5 p"
  "literal_at ''null'' (jp_data p) (jp_pos p) j \<Longrightarrow> parseLiteral p = literal_token TokenNull 4 p"
proof -
  have basic: "parseLiteral p = parseLiteralBasic p"
    by (simp add: parseLiteral_def parseLiteral_agree split: literal_op.split)
  show "literal_at ''true'' (jp_data p) (jp_pos p) j \<Longrightarrow> parseLiteral p = literal_token TokenTrue 4 p"
    unfolding basic using literal_start(1) [of "jp_data p" "jp_pos p" j]
    by (simp add: parseLiteralBasic_def literal_at_simps cur_byte_def is_at_def)
  show "literal_at ''false'' (jp_data p) (jp_pos p) j \<Longrightarrow> parseLiteral p = literal_token TokenFalse 5 p"
    unfolding basic using literal_start(2) [of "jp_data p" "jp_pos p" j]
    by (simp add: parseLiteralBasic_def literal_at_simps cur_byte_def is_at_def)
  show "literal_at ''null'' (jp_data p) (jp_pos p) j \<Longrightarrow> parseLiteral p = literal_token TokenNull 4 p"
    unfolding basic using literal_start(3) [of "jp_data p" "jp_pos p" j]
    by (simp add: parseLiteralBasic_def literal_at_simps cur_byte_def is_at_def)
qed

lemma moved_literal:
  "k \<notin> {TokenColon, TokenKey64, TokenKey128} \<Longrightarrow>
   \<exists>q. literal_token k n p = (Ok, q) \<and> moved p (jp_pos p + n) [token_at k (jp_pos p) n] q"
  using moved_mark [of k p n] by (auto simp: literal_token_def)

text \<open>The statements of the induction over the grammar.\<close>

definition value_ends :: "key_op \<Rightarrow> octet list \<Rightarrow> nat \<Rightarrow> nat \<Rightarrow> json_token list \<Rightarrow> bool" where
  "value_ends K d i j ts = (\<forall>n p. ready K d i p \<longrightarrow> jp_currentContext p \<noteq> ContextObjectKey
     \<longrightarrow> stops_at d j \<longrightarrow> ends p j ts (parseValue n p))"

definition item_ends :: "(nat \<Rightarrow> json_parser \<Rightarrow> parse_result) \<Rightarrow> key_op \<Rightarrow> octet list \<Rightarrow> nat \<Rightarrow> nat \<Rightarrow>
    json_token list \<Rightarrow> bool" where
  "item_ends item K d i j ts = (\<forall>n p. ready K d i p
     \<longrightarrow> stops_at d j \<longrightarrow> ends p j ts (item n (skipWhitespace p)))"

definition list_ends :: "(nat \<Rightarrow> json_parser \<Rightarrow> parse_result) \<Rightarrow> (nat \<Rightarrow> bool \<Rightarrow> json_parser \<Rightarrow> parse_result) \<Rightarrow>
    octet \<Rightarrow> json_token_type \<Rightarrow> key_op \<Rightarrow> octet list \<Rightarrow> nat \<Rightarrow> nat \<Rightarrow> json_token list \<Rightarrow> bool" where
  "list_ends item loop b k K d i j ts = (\<forall>n p e. ready K d i p \<longrightarrow> spaces d j e \<longrightarrow> is_at d e b
     \<longrightarrow> ends p (e + 1) (ts @ [token_at k e 1]) (and_then (item n (skipWhitespace p)) (loop n False)))"

lemma ends_skip:
  assumes "plain_parser p" "ends (skipWhitespace p) j ts r"
  shows "ends p j ts r"
  using assms moved_trans [OF skip_moved(1) [OF assms(1)]] by (fastforce simp: ends_def)

lemma ends_then:
  assumes "ends p i ts r" and "\<And>q. r = (Ok, q) \<Longrightarrow> moved p i ts q \<Longrightarrow> ends q j us (f q)"
  shows "ends p j (ts @ us) (and_then r f)"
  using assms moved_trans [of p i ts]
  by (cases r; cases "fst r") (fastforce simp: ends_def and_then_def)+

text \<open>One turn of a loop at the closing mark, or at a comma.\<close>

lemma loop_close:
  assumes "ready K d c p" "spaces d c e" "is_at d e 0x7D"
  shows "ends p (e + 1) [token_at TokenObjectEnd e 1] (object_loop n first p)"
proof (cases n)
  case (Suc m)
  note r = ready_skip [OF assms(1,2)]
  have e: "e < length d" "\<not> isWhitespace (d ! e)" "d ! e = 0x7D"
    using assms(3) by (auto simp: is_at_def not_space)
  from ready_mark [OF r(1) [OF e(1,2)], of TokenObjectEnd] moved_trans [OF r(4) [OF e(1,2)]] r(2,3) [OF e(1,2)] e(3)
  show ?thesis
    by (auto simp: Suc Let_def ends_def)
qed (simp add: ends_def)

lemma array_close:
  assumes "ready K d c p" "spaces d c e" "is_at d e 0x5D"
  shows "ends p (e + 1) [token_at TokenArrayEnd e 1] (array_loop n first p)"
proof (cases n)
  case (Suc m)
  note r = ready_skip [OF assms(1,2)]
  have e: "e < length d" "\<not> isWhitespace (d ! e)" "d ! e = 0x5D"
    using assms(3) by (auto simp: is_at_def not_space)
  from ready_mark [OF r(1) [OF e(1,2)], of TokenArrayEnd] moved_trans [OF r(4) [OF e(1,2)]] r(2,3) [OF e(1,2)] e(3)
  show ?thesis
    by (auto simp: Suc Let_def ends_def)
qed (simp add: ends_def)

lemma ends_0 [simp]: "ends p j ts (NoFuel, q)"
  by (simp add: ends_def)

text \<open>How \<open>parseValue\<close> goes on, from the first byte of the value.\<close>

lemma value_step:
  assumes "ready K d i p" "spaces d i a" "a < length d" "\<not> isWhitespace (d ! a)"
    and "\<And>s. ready K d a s \<Longrightarrow> \<not> at_end s \<Longrightarrow> cur_byte s = d ! a \<Longrightarrow> jp_currentContext s = jp_currentContext p \<Longrightarrow>
      ends s j ts (if d ! a = 0x7B then object_loop n True (pushContext ContextObjectStart (mark TokenObjectStart s))
        else if d ! a = 0x5B then array_loop n True (pushContext ContextArrayStart (mark TokenArrayStart s))
        else if d ! a = 0x22 then parseString s
        else if d ! a = 0x74 \<or> d ! a = 0x66 \<or> d ! a = 0x6E then parseLiteral s
        else if d ! a = 0x2D \<or> isDigit (d ! a) then parseNumber s
        else undefined)"
    and "d ! a \<in> {0x7B, 0x5B, 0x22, 0x74, 0x66, 0x6E, 0x2D} \<or> isDigit (d ! a)"
  shows "ends p j ts (parseValue (Suc n) p)"
proof -
  note s = ready_skip [OF assms(1-4)]
  have p: "plain_parser p" using assms(1) by (simp add: ready_def)
  have "jp_currentContext (skipWhitespace p) = jp_currentContext p"
    using skip_moved(3) [OF p] by (simp add: same_context_def)
  from ends_skip [OF p assms(5) [OF s(1-3) this]] s(2,3) assms(6) show ?thesis
    by (auto simp: Let_def)
qed

lemma scalar_step:
  assumes "ready K d i p" "spaces d i a" "a < length d" "\<not> isWhitespace (d ! a)"
    "d ! a \<in> {0x22, 0x74, 0x66, 0x6E, 0x2D} \<or> isDigit (d ! a)"
    and "\<And>s. ready K d a s \<Longrightarrow> \<not> at_end s \<Longrightarrow> cur_byte s = d ! a \<Longrightarrow> jp_currentContext s = jp_currentContext p \<Longrightarrow>
      ends s j ts (if d ! a = 0x22 then parseString s
        else if d ! a = 0x74 \<or> d ! a = 0x66 \<or> d ! a = 0x6E then parseLiteral s else parseNumber s)"
  shows "ends p j ts (parseValue n p)"
proof (cases n)
  case (Suc m)
  have "d ! a \<noteq> 0x7B" "d ! a \<noteq> 0x5B"
    using assms(5) digit_not(2) by auto
  then show ?thesis
    unfolding Suc using assms by (intro value_step [OF assms(1-4)]) auto
qed simp

lemma value_string:
  assumes "spaces d i a" "json_string d a j"
  shows "value_ends K d i j [token_at TokenString a (j - a)]"
proof -
  have start: "a < length d" "d ! a = 0x22" "\<not> isWhitespace (d ! a)"
    using assms(2) by (auto simp: json_string_def is_at_def not_space)
  have "ends s j [token_at TokenString a (j - a)] (parseString s)"
    if s: "ready K d a s" "\<not> at_end s" "cur_byte s = 0x22" "jp_currentContext s \<noteq> ContextObjectKey" for s
  proof -
    have d: "jp_data s = d" "jp_pos s = a" "plain_parser s" using s(1) by (simp_all add: ready_def)
    obtain q where q: "parseString s = (Ok, q)"
      using parseString_complete [of s j] assms(2) d by auto
    from parseString_value [OF q d(3) s(2-4)] json_string_unique [OF assms(2)] d q show ?thesis
      by (auto simp: ends_def)
  qed
  with start assms(1) show ?thesis
    unfolding value_ends_def by (intro allI impI scalar_step) auto
qed

lemma value_number:
  assumes "spaces d i a" "json_number d a j"
  shows "value_ends K d i j [token_at TokenNumber a (j - a)]"
proof -
  have start: "a < length d" "d ! a = 0x2D \<or> isDigit (d ! a)" "\<not> isWhitespace (d ! a)"
    "d ! a \<notin> {0x22, 0x74, 0x66, 0x6E}"
    using number_start [OF assms(2)] digit_not [of "d ! a"] by (auto simp: not_space)
  have "ends s j [token_at TokenNumber a (j - a)] (parseNumber s)"
    if "ready K d a s" "stops_at d j" for s
    using parseNumber_complete [of s j] that assms(2) by (auto simp: ends_def ready_def)
  with start assms(1) show ?thesis
    unfolding value_ends_def by (intro allI impI scalar_step) auto
qed

lemma value_literal:
  assumes "spaces d i a" "is_at d a b" "b \<in> {0x74, 0x66, 0x6E}"
    and lit: "\<And>s. ready K d a s \<Longrightarrow> parseLiteral s = literal_token k n s"
    and k: "k \<notin> {TokenColon, TokenKey64, TokenKey128}"
  shows "value_ends K d i (a + n) [token_at k a n]"
proof -
  have start: "a < length d" "d ! a = b" "\<not> isWhitespace (d ! a)"
    using assms(2,3) by (auto simp: is_at_def not_space)
  have "ends s (a + n) [token_at k a n] (parseLiteral s)" if "ready K d a s" for s
    using lit [OF that] moved_literal [OF k, of n s] that by (auto simp: ends_def ready_def)
  with start assms(1,3) show ?thesis
    unfolding value_ends_def by (intro allI impI scalar_step) auto
qed

lemma value_literals:
  "spaces d i a \<Longrightarrow> literal_at ''true'' d a j \<Longrightarrow> value_ends K d i j [token_at TokenTrue a 4]"
  "spaces d i a \<Longrightarrow> literal_at ''false'' d a j \<Longrightarrow> value_ends K d i j [token_at TokenFalse a 5]"
  "spaces d i a \<Longrightarrow> literal_at ''null'' d a j \<Longrightarrow> value_ends K d i j [token_at TokenNull a 4]"
proof -
  assume sp: "spaces d i a"
  show "literal_at ''true'' d a j \<Longrightarrow> value_ends K d i j [token_at TokenTrue a 4]"
    using value_literal [OF sp literal_start(1), of j K TokenTrue 4] parseLiteral_complete(1)
    by (auto simp: ready_def literal_at_simps)
  show "literal_at ''false'' d a j \<Longrightarrow> value_ends K d i j [token_at TokenFalse a 5]"
    using value_literal [OF sp literal_start(2), of j K TokenFalse 5] parseLiteral_complete(2)
    by (auto simp: ready_def literal_at_simps)
  show "literal_at ''null'' d a j \<Longrightarrow> value_ends K d i j [token_at TokenNull a 4]"
    using value_literal [OF sp literal_start(3), of j K TokenNull 4] parseLiteral_complete(3)
    by (auto simp: ready_def literal_at_simps)
qed

text \<open>Objects and arrays.\<close>

lemma ends_mark:
  assumes "ready K d a s" "k \<notin> {TokenColon, TokenKey64, TokenKey128}"
    and "\<And>s'. ready K d (a + 1) s' \<Longrightarrow> ends s' j ts (f s')"
  shows "ends s j (token_at k a 1 # ts) (f (pushContext c (mark k s)))"
proof -
  have m: "ready K d (a + 1) (mark k s)" "moved s (a + 1) [token_at k a 1] (mark k s)"
    using ready_mark [OF assms(1,2)] by auto
  have "ends (pushContext c (mark k s)) j ts (f (pushContext c (mark k s)))"
    using assms(3) m(1) by simp
  with moved_trans [OF m(2)] show ?thesis
    by (fastforce simp: ends_def)
qed

lemma object_first:
  assumes "list_ends object_member object_loop 0x7D TokenObjectEnd K d i j ts" "starts d i {0x7D}"
    "ready K d i p" "spaces d j e" "is_at d e 0x7D"
  shows "ends p (e + 1) (ts @ [token_at TokenObjectEnd e 1]) (object_loop n True p)"
proof (cases n)
  case (Suc m)
  obtain a where a: "spaces d i a" "a < length d" "\<not> isWhitespace (d ! a)" "d ! a \<noteq> 0x7D"
    using assms(2) by (auto simp: starts_def)
  from ready_skip(2,3) [OF assms(3) a(1-3)] a(4) assms(1,3-5) show ?thesis
    by (auto simp: Suc Let_def list_ends_def)
qed simp

lemma array_first:
  assumes "list_ends array_element array_loop 0x5D TokenArrayEnd K d i j ts" "starts d i {0x5D}"
    "ready K d i p" "spaces d j e" "is_at d e 0x5D"
  shows "ends p (e + 1) (ts @ [token_at TokenArrayEnd e 1]) (array_loop n True p)"
proof (cases n)
  case (Suc m)
  obtain a where a: "spaces d i a" "a < length d" "\<not> isWhitespace (d ! a)" "d ! a \<noteq> 0x5D"
    using assms(2) by (auto simp: starts_def)
  from ready_skip(2,3) [OF assms(3) a(1-3)] a(4) assms(1,3-5) show ?thesis
    by (auto simp: Suc Let_def list_ends_def)
qed simp

lemma value_nested:
  assumes "spaces d i a" "is_at d a b" "b = 0x7B \<and> k = TokenObjectStart \<or> b = 0x5B \<and> k = TokenArrayStart"
    and "\<And>n p. ready K d (a + 1) p \<Longrightarrow>
      ends p j ts (if b = 0x7B then object_loop n True p else array_loop n True p)"
  shows "value_ends K d i j (token_at k a 1 # ts)"
  unfolding value_ends_def
proof (intro allI impI)
  fix n p assume p: "ready K d i p"
  have start: "a < length d" "d ! a = b" "\<not> isWhitespace (d ! a)"
    using assms(2,3) by (auto simp: is_at_def not_space)
  show "ends p j (token_at k a 1 # ts) (parseValue n p)"
  proof (cases n)
    case (Suc m)
    have "ends s j (token_at k a 1 # ts) (object_loop m True (pushContext ContextObjectStart (mark k s)))"
      if "ready K d a s" "b = 0x7B" for s
      using that assms(3,4) by (intro ends_mark) auto
    moreover have "ends s j (token_at k a 1 # ts) (array_loop m True (pushContext ContextArrayStart (mark k s)))"
      if "ready K d a s" "b = 0x5B" for s
      using that assms(3,4) by (intro ends_mark) auto
    ultimately show ?thesis
      unfolding Suc using start assms(3) by (intro value_step [OF p assms(1)]) auto
  qed simp
qed

text \<open>Items and their lists.\<close>

lemma list_one:
  assumes item: "item_ends item K d i j ts"
    and close: "\<And>n p e. ready K d j p \<Longrightarrow> spaces d j e \<Longrightarrow> is_at d e b
      \<Longrightarrow> ends p (e + 1) [token_at k e 1] (loop n False p)"
    and b: "b \<in> {0x5D, 0x7D}"
  shows "list_ends item loop b k K d i j ts"
  unfolding list_ends_def
proof (intro allI impI)
  fix n p e assume p: "ready K d i p" and e: "spaces d j e" "is_at d e b"
  have "stops_at d j" using stops_before [OF e] b by auto
  with item p have "ends p j ts (item n (skipWhitespace p))"
    by (simp add: item_ends_def)
  then show "ends p (e + 1) (ts @ [token_at k e 1]) (and_then (item n (skipWhitespace p)) (loop n False))"
    using close [OF _ e] ready_moved [OF p] by (intro ends_then) auto
qed

lemma list_more:
  assumes item: "item_ends item K d i c ts"
    and e: "spaces d c e" "is_at d e 0x2C"
    and rest: "\<And>n p e'. ready K d c p \<Longrightarrow> spaces d j e' \<Longrightarrow> is_at d e' b
      \<Longrightarrow> ends p (e' + 1) (token_at TokenComma e 1 # us @ [token_at k e' 1]) (loop n False p)"
  shows "list_ends item loop b k K d i j (ts @ token_at TokenComma e 1 # us)"
  unfolding list_ends_def
proof (intro allI impI)
  fix n p e' assume p: "ready K d i p" and e': "spaces d j e'" "is_at d e' b"
  have "stops_at d c" using stops_before [OF e] by auto
  with item p have "ends p c ts (item n (skipWhitespace p))"
    by (simp add: item_ends_def)
  from ends_then [OF this, of "e' + 1" "token_at TokenComma e 1 # us @ [token_at k e' 1]" "loop n False"]
  show "ends p (e' + 1) ((ts @ token_at TokenComma e 1 # us) @ [token_at k e' 1])
      (and_then (item n (skipWhitespace p)) (loop n False))"
    using rest [OF _ e'] ready_moved [OF p] by auto
qed

lemma comma_step:
  assumes "ready K d c p" "spaces d c e" "is_at d e 0x2C"
    and "\<And>s. ready K d (e + 1) s \<Longrightarrow> ends s j us (f s)"
  shows "ends p j (token_at TokenComma e 1 # us) (f (mark TokenComma (skipWhitespace p)))"
    and "\<not> at_end (skipWhitespace p)" "cur_byte (skipWhitespace p) = 0x2C"
proof -
  have start: "e < length d" "\<not> isWhitespace (d ! e)" "d ! e = 0x2C"
    using assms(3) by (auto simp: is_at_def not_space)
  note s = ready_skip [OF assms(1,2) start(1,2)]
  from s(2,3) start(3) show "\<not> at_end (skipWhitespace p)" "cur_byte (skipWhitespace p) = 0x2C"
    by simp_all
  have m: "ready K d (e + 1) (mark TokenComma (skipWhitespace p))"
    "moved p (e + 1) [token_at TokenComma e 1] (mark TokenComma (skipWhitespace p))"
    using ready_mark [OF s(1), of TokenComma] moved_trans [OF s(4)] by fastforce+
  from assms(4) [OF m(1)] moved_trans [OF m(2)]
  show "ends p j (token_at TokenComma e 1 # us) (f (mark TokenComma (skipWhitespace p)))"
    by (fastforce simp: ends_def)
qed

lemma object_comma:
  assumes "list_ends object_member object_loop 0x7D TokenObjectEnd K d (e + 1) j us"
    "ready K d c p" "spaces d c e" "is_at d e 0x2C" "spaces d j e'" "is_at d e' 0x7D"
  shows "ends p (e' + 1) (token_at TokenComma e 1 # us @ [token_at TokenObjectEnd e' 1]) (object_loop n False p)"
proof (cases n)
  case (Suc m)
  note step = comma_step [OF assms(2-4), where j = "e' + 1" and us = "us @ [token_at TokenObjectEnd e' 1]"
      and f = "\<lambda>s. and_then (object_member m (skipWhitespace s)) (object_loop m False)"]
  show ?thesis
    using step assms(1,5,6) by (simp add: Suc Let_def list_ends_def)
qed simp

lemma array_comma:
  assumes "list_ends array_element array_loop 0x5D TokenArrayEnd K d (e + 1) j us"
    "ready K d c p" "spaces d c e" "is_at d e 0x2C" "spaces d j e'" "is_at d e' 0x5D"
  shows "ends p (e' + 1) (token_at TokenComma e 1 # us @ [token_at TokenArrayEnd e' 1]) (array_loop n False p)"
proof (cases n)
  case (Suc m)
  note step = comma_step [OF assms(2-4), where j = "e' + 1" and us = "us @ [token_at TokenArrayEnd e' 1]"
      and f = "\<lambda>s. and_then (array_element m (skipWhitespace s)) (array_loop m False)"]
  show ?thesis
    using step assms(1,5,6) by (simp add: Suc Let_def list_ends_def)
qed simp

lemma skip_again: "plain_parser p \<Longrightarrow> skipWhitespace (set_context c (skipWhitespace p)) = skipWhitespace (set_context c p)"
  using skip_basic_stop [OF skip_basic_not_space, of "jp_data p" "jp_pos p"]
  by (simp add: skipWhitespace_def skip_from_def plain_parser_def set_context_def)

lemma ends_context [simp]:
  "ends (set_context c p) j ts r = ends p j ts r"
  by (simp add: ends_def)

lemma ends_set: "ends p j ts r \<Longrightarrow> ends p j ts (and_then r (\<lambda>q. (Ok, set_context c q)))"
  by (cases r; cases "fst r") (auto simp: ends_def and_then_def)

lemma element_ends:
  assumes "value_ends K d i j ts"
  shows "item_ends array_element K d i j ts"
  unfolding item_ends_def
proof (intro allI impI)
  fix n p assume p: "ready K d i p" and j: "stops_at d j"
  have "plain_parser p" using p by (simp add: ready_def)
  then have "ends p j ts (parseValue n (set_context ContextArrayValue (skipWhitespace p)))"
    using assms p j skip_again [of p ContextArrayValue]
    by (cases n) (auto simp: value_ends_def Let_def dest!: spec [of _ n] spec [of _ "set_context ContextArrayValue p"])
  then show "ends p j ts (array_element n (skipWhitespace p))"
    unfolding array_element.simps by (rule ends_set)
qed

lemma member_ends:
  assumes sp: "spaces d i a" "json_string d a b" "spaces d b c" "is_at d c 0x3A"
    and val: "value_ends K d (c + 1) j ts"
  shows "item_ends object_member K d i j (key_token K d (a + 1) (b - a - 2) # token_at TokenColon c 1 # ts)"
  unfolding item_ends_def
proof (intro allI impI)
  let ?k = "key_token K d (a + 1) (b - a - 2)"
  fix n p assume p: "ready K d i p" and j: "stops_at d j"
  have start: "a < length d" "d ! a = 0x22" "\<not> isWhitespace (d ! a)"
    using sp(2) by (auto simp: json_string_def is_at_def not_space)
  note s = ready_skip [OF p sp(1) start(1,3)]
  let ?s = "set_context ContextObjectKey (skipWhitespace p)"
  have d: "jp_data ?s = d" "jp_pos ?s = a" "plain_parser ?s" "keys_of ?s = K"
    using s(1) by (simp_all add: ready_def)
  obtain q where q: "parseString ?s = (Ok, q)"
    using parseString_complete [of ?s b] sp(2) d by auto
  obtain b' where "json_string d a b'" "jp_pos q = b'"
    "jp_tokens q = jp_tokens ?s @ [key_token K d (a + 1) (b' - a - 2)]" "jp_data q = d" "jp_ops q = jp_ops ?s"
    "\<And>c. counted (jp_atomStats ?s) [key_token K d (a + 1) (b' - a - 2), token_at TokenColon c 1] (jp_atomStats q)"
    using json_string_key [OF q d(3)] s(2,3) start d by auto
  moreover from this have "b' = b" using json_string_unique [OF sp(2)] by simp
  ultimately have b: "jp_pos q = b" "jp_tokens q = jp_tokens ?s @ [?k]" "jp_data q = d" "jp_ops q = jp_ops ?s"
    "\<And>c. counted (jp_atomStats ?s) [?k, token_at TokenColon c 1] (jp_atomStats q)" by auto
  have rq: "ready K d b q"
    using b d by (auto simp: ready_def plain_parser_def)
  have colon: "c < length d" "\<not> isWhitespace (d ! c)" "d ! c = 0x3A"
    using sp(4) by (auto simp: is_at_def not_space)
  note r = ready_skip [OF rq sp(3) colon(1,2)]
  let ?m = "mark TokenColon (skipWhitespace q)"
  have m: "ready K d (c + 1) ?m"
    using r(1) by (simp add: ready_def)
  have "moved ?s (c + 1) [?k, token_at TokenColon c 1] ?m"
    using r(1,4) b d(1) by (auto simp: moved_def counted_def addToken_def token_at_def ready_def)
  then have mm: "moved p (c + 1) [?k, token_at TokenColon c 1] ?m"
    using moved_trans [OF s(4)] by fastforce
  have "ends ?m j ts (parseValue n (set_context ContextObjectValue ?m))"
    using val m j by (auto simp: value_ends_def dest!: spec [of _ n] spec [of _ "set_context ContextObjectValue ?m"])
  then have "ends p j ([?k, token_at TokenColon c 1] @ ts) (parseValue n (set_context ContextObjectValue ?m))"
    using moved_trans [OF mm] by (fastforce simp: ends_def)
  from ends_set [OF this] show "ends p j (?k # token_at TokenColon c 1 # ts) (object_member n (skipWhitespace p))"
    using s(2,3) start(2) q r(2,3) colon(3) by (simp add: object_member.simps Let_def and_then_def)
qed

lemma grammar_complete:
  "value_text K d i j ts \<Longrightarrow> value_ends K d i j ts"
  "json_members K d i j ts \<Longrightarrow> list_ends object_member object_loop 0x7D TokenObjectEnd K d i j ts"
  "json_elements K d i j ts \<Longrightarrow> list_ends array_element array_loop 0x5D TokenArrayEnd K d i j ts"
  "json_member K d i j ts \<Longrightarrow> item_ends object_member K d i j ts"
proof (induction rule: value_text_json_members_json_elements_json_member.inducts)
  case (v_object0 i a e)
  then show ?case
    by (intro value_nested) (auto intro: loop_close [where c = "a + 1", simplified])
next
  case (v_object i a c ts e)
  then show ?case
    using grammar_starts(2) by (intro value_nested) (auto intro: object_first [where j = c, simplified])
next
  case (v_array0 i a e)
  then show ?case
    by (intro value_nested) (auto intro: array_close [where c = "a + 1", simplified])
next
  case (v_array i a c ts e)
  then show ?case
    using grammar_starts(3) by (intro value_nested) (auto intro: array_first [where j = c, simplified])
next
  case (m_one i j ts)
  then show ?case by (intro list_one loop_close) auto
next
  case (m_more i c ts e j us)
  then show ?case by (intro list_more object_comma) auto
next
  case (e_one i j ts)
  then show ?case by (intro list_one element_ends array_close) auto
next
  case (e_more i c ts e j us)
  then show ?case by (intro list_more element_ends array_comma) auto
next
  case (member i a b c j ts)
  then show ?case by (intro member_ends)
qed (auto intro: value_string value_number value_literals)

end
