(* ===== verification/SuperJsonProps.thy ===== *)
theory SuperJsonProps
  imports SuperJsonComplete
begin

text \<open>
  The properties of the JSON parser of \<open>superjsonic_multi.go\<close>: what \<open>Parse\<close> accepts and
  returns, for every configuration; what the configuration cannot change; the statistics and the
  bounds of the tokens; the atoms and their names; and where the parser fails on bad input.
\<close>

section \<open>From any configuration to the plain loops\<close>

abbreviation run :: "json_config \<Rightarrow> octet list \<Rightarrow> parse_result" where
  "run cfg d \<equiv> ParseJSON cfg d (createParser cfg)"

definition keys_as :: "json_config \<Rightarrow> key_op" where
  "keys_as cfg = (if EnableAtoms cfg then ProcessKeyAtom else ProcessKeyString)"

definition plain_start :: "json_config \<Rightarrow> octet list \<Rightarrow> json_parser" where
  "plain_start cfg d = plain_ops (start_parse cfg d (createParser cfg))"

lemma simd_created: "simd (jp_simd (start_parse cfg d (createParser cfg)))"
  by (simp add: start_parse_def createParser_def real.simd_axioms basic.simd_axioms Let_def)

lemma plain_start_fields:
  "plain_parser (plain_start cfg d)" "jp_data (plain_start cfg d) = d" "jp_pos (plain_start cfg d) = 0"
  "jp_tokens (plain_start cfg d) = []" "keys_of (plain_start cfg d) = keys_as cfg"
  "jp_currentContext (plain_start cfg d) \<noteq> ContextObjectKey" "jp_atomStats (plain_start cfg d) = no_stats"
  by (simp_all add: plain_start_def plain_ops_def start_parse_def createParser_def plain_parser_def keys_as_def Let_def)

lemma plain_start_cong: "EnableAtoms cfg = EnableAtoms cfg' \<Longrightarrow> plain_start cfg d = plain_start cfg' d"
  by (simp add: plain_start_def plain_ops_def start_parse_def createParser_def Let_def)

lemma run_plain: "agree_result (run cfg d) (parseValue (2 * length d + 2) (plain_start cfg d))"
  unfolding ParseJSON_def plain_start_def by (rule parse_plain(1) [OF simd_created])

lemma plain_fields_back:
  "jp_tokens (plain_ops q) = jp_tokens q" "jp_atomStats (plain_ops q) = jp_atomStats q"
  "jp_pos (plain_ops q) = jp_pos q" "jp_data (plain_ops q) = jp_data q"
  by (simp_all add: plain_ops_def)

lemma run_sound:
  assumes "run cfg d = (Ok, q)"
  shows "value_text (keys_as cfg) d 0 (jp_pos q) (jp_tokens q)"
    and "counted no_stats (jp_tokens q) (jp_atomStats q)"
    and "jp_data q = d"
proof -
  have "parseValue (2 * length d + 2) (plain_start cfg d) = (Ok, plain_ops q)"
    using run_plain [of cfg d] assms by (simp add: agree_result_def)
  from parse_sound(1) [OF this] plain_start_fields
  have "sound_value (plain_start cfg d) (plain_ops q)" by auto
  then show "value_text (keys_as cfg) d 0 (jp_pos q) (jp_tokens q)"
    "counted no_stats (jp_tokens q) (jp_atomStats q)" "jp_data q = d"
    using plain_start_fields [of cfg d] by (auto simp: sound_value_def moved_def plain_fields_back)
qed

lemma run_fuel: "fst (run cfg d) \<noteq> NoFuel"
proof
  assume "fst (run cfg d) = NoFuel"
  then have "fst (parseValue (2 * length d + 2) (plain_start cfg d)) = NoFuel"
    using run_plain [of cfg d] by (simp add: agree_result_def)
  then show False
    using parse_fuel(1) [of "plain_start cfg d" "2 * length d + 2"] plain_start_fields [of cfg d]
    by (simp add: left_def)
qed

lemma run_panics:
  assumes "fst (run cfg d) = Panic"
  shows "ends_in_comma d"
proof (rule parse_panics(1))
  show "reads d (plain_start cfg d)"
    using plain_start_fields [of cfg d] by (simp add: reads_def)
  show "fst (parseValue (2 * length d + 2) (plain_start cfg d)) = Panic"
    using run_plain [of cfg d] assms by (simp add: agree_result_def)
qed

lemma run_complete:
  assumes "value_text (keys_as cfg) d 0 j ts" "stops_at d j"
  shows "\<exists>q. run cfg d = (Ok, q) \<and> jp_pos q = j \<and> jp_tokens q = ts"
proof -
  let ?r = "parseValue (2 * length d + 2) (plain_start cfg d)"
  have "ready (keys_as cfg) d 0 (plain_start cfg d)"
    using plain_start_fields [of cfg d] by (simp add: ready_def)
  with grammar_complete(1) [OF assms(1)] assms(2) plain_start_fields(6)
  have "ends (plain_start cfg d) j ts ?r"
    unfolding value_ends_def by blast
  moreover have "fst ?r \<noteq> NoFuel"
    using parse_fuel(1) [of "plain_start cfg d" "2 * length d + 2"] plain_start_fields [of cfg d]
    by (simp add: left_def)
  ultimately obtain q' where "?r = (Ok, q')" "moved (plain_start cfg d) j ts q'"
    by (auto simp: ends_def)
  moreover from this obtain q where "run cfg d = (Ok, q)" "q' = plain_ops q"
    using run_plain [of cfg d]
    by (cases "run cfg d"; cases "fst (run cfg d)") (auto simp: agree_result_def)
  ultimately show ?thesis
    using plain_start_fields [of cfg d] by (auto simp: moved_def plain_fields_back)
qed

text \<open>
  C25: \<open>Parse\<close> recognises its grammar, under every configuration: it accepts an input up to
  position \<open>j\<close> with the tokens \<open>ts\<close> exactly when the grammar derives a value from the start to \<open>j\<close>
  with these tokens, provided that no digit, point or exponent stands at \<open>j\<close>, so that a number has
  ended. The grammar is that of RFC 8259 with the strings that the scans accept, in which control
  characters may stand and any byte may follow a backslash.
\<close>

theorem Parse_grammar:
  assumes "stops_at d j"
  shows "(\<exists>q. ParseJSON cfg d (createParser cfg) = (Ok, q) \<and> jp_pos q = j \<and> jp_tokens q = ts)
    \<longleftrightarrow> value_text (keys_as cfg) d 0 j ts"
  using run_sound(1) run_complete [OF _ assms] by blast

definition sample_input :: "octet list" where
  "sample_input = octets (''{'' @ [CHR 0x22, CHR ''a'', CHR 0x22] @ '':[1]}'')"

definition sample_run :: parse_result where
  "sample_run = run default_config sample_input"

lemma sample_run_ok: "fst sample_run = Ok" "jp_pos (snd sample_run) = 9" "length (jp_tokens (snd sample_run)) = 7"
  by code_simp+

lemma sample_length: "length sample_input < 2 ^ 32"
  by (simp add: sample_input_def octets_def)

theorem Parse_grammar_witness:
  "stops_at sample_input 9 \<and> value_text ProcessKeyAtom sample_input 0 9 (jp_tokens (snd sample_run))"
proof
  show stop: "stops_at sample_input 9" by code_simp
  have "keys_as default_config = ProcessKeyAtom" by code_simp
  with sample_run_ok show "value_text ProcessKeyAtom sample_input 0 9 (jp_tokens (snd sample_run))"
    using Parse_grammar [OF stop, of default_config "jp_tokens (snd sample_run)"]
    unfolding sample_run_def by (metis prod.collapse)
qed

text \<open>
  C27: \<open>Parse\<close> ends on every input within the fuel given to the recursion, twice the length of the
  input and two: with tokens or with an error, or else it panics, and then the last byte of the
  input that is not white space is a comma.
\<close>

theorem Parse_terminates:
  "case fst (ParseJSON cfg d (createParser cfg)) of
     Ok \<Rightarrow> True | Err msg \<Rightarrow> True | Panic \<Rightarrow> ends_in_comma d | NoFuel \<Rightarrow> False"
  using run_fuel [of cfg d] run_panics [of cfg d] by (simp split: parse_outcome.split)

text \<open>
  C26: the optimisations cannot be observed: two configurations that agree on atoms accept the same
  inputs, with the same tokens, statistics and end, and panic on the same inputs.
\<close>

theorem Parse_configurations:
  assumes "EnableAtoms cfg = EnableAtoms cfg'"
  shows "case (ParseJSON cfg d (createParser cfg), ParseJSON cfg' d (createParser cfg')) of ((o1, p1), (o2, p2)) \<Rightarrow>
    (o1 = Ok \<longleftrightarrow> o2 = Ok) \<and> (o1 = Panic \<longleftrightarrow> o2 = Panic)
    \<and> (o1 = Ok \<longrightarrow> jp_tokens p1 = jp_tokens p2 \<and> jp_pos p1 = jp_pos p2 \<and> jp_atomStats p1 = jp_atomStats p2)"
  using run_plain [of cfg d] run_plain [of cfg' d] plain_start_cong [OF assms, of d]
    run_fuel [of cfg d] run_fuel [of cfg' d]
  by (cases "run cfg d"; cases "run cfg' d"; cases "fst (run cfg d)"; cases "fst (run cfg' d)")
    (auto simp: agree_result_def plain_fields_back dest: arg_cong [of _ _ jp_tokens]
      arg_cong [of _ _ jp_pos] arg_cong [of _ _ jp_atomStats])

theorem Parse_configurations_witness:
  "EnableAtoms default_config = EnableAtoms (default_config\<lparr>EnableSIMD := False\<rparr>)
    \<and> fst (ParseJSON (default_config\<lparr>EnableSIMD := False\<rparr>) sample_input
          (createParser (default_config\<lparr>EnableSIMD := False\<rparr>))) = Ok"
proof
  show same: "EnableAtoms default_config = EnableAtoms (default_config\<lparr>EnableSIMD := False\<rparr>)" by simp
  show "fst (run (default_config\<lparr>EnableSIMD := False\<rparr>) sample_input) = Ok"
    using Parse_configurations [OF same, of sample_input] sample_run_ok
    by (auto simp: sample_run_def split: prod.splits)
qed

section \<open>Tokens\<close>

text \<open>What a token that is not an atom says of its place.\<close>

definition in_bounds :: "octet list \<Rightarrow> json_token \<Rightarrow> bool" where
  "in_bounds d t = (IsAtom64 t \<or> IsAtom128 t \<or>
     (jt_Length t \<noteq> 0 \<and> unat (jt_Offset t) + unat (jt_Length t) \<le> length d))"

lemma unat_of_nat_32: "i < 2 ^ 32 \<Longrightarrow> unat (of_nat i :: 32 word) = i"
  by (simp add: unat_of_nat take_bit_nat_eq_self)

lemma in_bounds_token_at:
  assumes "length d < 2 ^ 32" "i + n \<le> length d" "0 < n"
  shows "in_bounds d (token_at k i n)"
proof -
  have "unat (of_nat i :: 32 word) = i" "unat (of_nat n :: 32 word) = n"
    using assms by (auto intro: unat_of_nat_32)
  with assms(2,3) show ?thesis
    by (auto simp: in_bounds_def token_at_def)
qed

lemma digits_end:
  assumes "digits d i j"
  shows "j \<le> length d"
proof (cases j)
  case (Suc k)
  with assms have "digit_at d k" by (simp add: digits_def)
  with Suc show ?thesis by (simp add: digit_at_def)
qed simp

lemma number_end: "json_number d i j \<Longrightarrow> j \<le> length d"
  using digits_end by (fastforce simp: json_number_def int_part_def frac_part_def exp_part_def is_at_def)

lemma key_token_bounds:
  "length d < 2 ^ 32 \<Longrightarrow> 0 < i \<Longrightarrow> i + n < length d \<Longrightarrow> in_bounds d (key_token K d i n)"
  by (auto simp: key_token_def Let_def in_bounds_token_at)
    (auto simp: in_bounds_def IsAtom64_def IsAtom128_def)

lemma grammar_in_bounds:
  assumes "length d < 2 ^ 32"
  shows "value_text K d i j ts \<Longrightarrow> \<forall>t \<in> set ts. in_bounds d t"
    and "json_members K d i j ts \<Longrightarrow> \<forall>t \<in> set ts. in_bounds d t"
    and "json_elements K d i j ts \<Longrightarrow> \<forall>t \<in> set ts. in_bounds d t"
    and "json_member K d i j ts \<Longrightarrow> \<forall>t \<in> set ts. in_bounds d t"
proof (induction rule: value_text_json_members_json_elements_json_member.inducts)
  case (v_string i a j)
  then show ?case using string_bounds by (fastforce intro: in_bounds_token_at [OF assms])
next
  case (v_number i a j)
  then show ?case
    using number_bounds number_end by (fastforce intro: in_bounds_token_at [OF assms])
next
  case (member i a b c j ts)
  then show ?case
    using string_bounds [OF member(2)]
    by (auto simp: is_at_def intro!: key_token_bounds [OF assms] in_bounds_token_at [OF assms])
qed (auto simp: is_at_def literal_at_simps intro!: in_bounds_token_at [OF assms])

lemma slice_guard:
  assumes "unat (jt_Offset t) + unat (jt_Length t) \<le> length d" "jt_Length t \<noteq> 0" "length d < 2 ^ 32"
  shows "jt_Offset t < of_nat (length d)" "jt_Offset t + jt_Length t \<le> of_nat (length d)"
proof -
  have len: "unat (of_nat (length d) :: 32 word) = length d"
    using assms(3) by (rule unat_of_nat_32)
  have "0 < unat (jt_Length t)"
    using assms(2) by (simp add: unat_gt_0)
  with assms(1) show "jt_Offset t < of_nat (length d)"
    by (simp add: word_less_nat_alt len)
  have "unat (jt_Offset t + jt_Length t) = unat (jt_Offset t) + unat (jt_Length t)"
    using assms(1,3) by (intro unat_add_lem [THEN iffD1]) simp
  with assms(1) show "jt_Offset t + jt_Length t \<le> of_nat (length d)"
    by (simp add: word_le_nat_alt len)
qed

lemma slice_of_token:
  assumes "ParseJSON cfg d (createParser cfg) = (Ok, q)" "length d < 2 ^ 32" "t \<in> set (jp_tokens q)"
  shows "IsAtom64 t \<or> IsAtom128 t \<or> (jt_Length t \<noteq> 0 \<and> unat (jt_Offset t) + unat (jt_Length t) \<le> length d
     \<and> GetTokenValue q t = token_slice q t \<and> length (token_slice q t) = unat (jt_Length t) \<and> jp_data q = d)"
proof -
  have "in_bounds d t"
    using grammar_in_bounds(1) [OF assms(2) run_sound(1) [OF assms(1)]] assms(3) by blast
  moreover have "GetTokenValue q t = token_slice q t" "length (token_slice q t) = unat (jt_Length t)"
    if "\<not> IsAtom64 t" "\<not> IsAtom128 t" "jt_Length t \<noteq> 0" "unat (jt_Offset t) + unat (jt_Length t) \<le> length d"
    using that slice_guard [of t d] assms(2) run_sound(3) [OF assms(1)]
    by (simp_all add: GetTokenValue_def token_slice_def)
  ultimately show ?thesis
    using run_sound(3) [OF assms(1)] unfolding in_bounds_def by blast
qed

text \<open>
  Every token of an accepted input that is not an atom is a slice of the input that is not
  empty, as long as the input is shorter than 4 GiB, so that offsets and lengths do not wrap.
\<close>

theorem Parse_tokens_in_bounds:
  assumes "ParseJSON cfg d (createParser cfg) = (Ok, q)" "length d < 2 ^ 32" "t \<in> set (jp_tokens q)"
  shows "IsAtom64 t \<or> IsAtom128 t \<or>
    (jt_Length t \<noteq> 0 \<and> unat (jt_Offset t) + unat (jt_Length t) \<le> length d
     \<and> GetTokenValue q t = take (unat (jt_Length t)) (drop (unat (jt_Offset t)) d))"
  using slice_of_token [OF assms] by (auto simp: token_slice_def)

theorem Parse_tokens_in_bounds_witness:
  "fst sample_run = Ok \<and> length sample_input < 2 ^ 32
    \<and> GetTokenValue (snd sample_run) (jp_tokens (snd sample_run) ! 4) = octets ''1''"
proof -
  let ?q = "snd sample_run" and ?t = "jp_tokens (snd sample_run) ! 4"
  have run: "run default_config sample_input = (Ok, ?q)"
    using sample_run_ok by (simp add: sample_run_def prod_eq_iff)
  have len: "length sample_input < 2 ^ 32" by (rule sample_length)
  have t: "\<not> IsAtom64 ?t" "\<not> IsAtom128 ?t" "jt_Offset ?t = 6" "jt_Length ?t = 1"
    by code_simp+
  have "?t \<in> set (jp_tokens ?q)" using sample_run_ok by simp
  from Parse_tokens_in_bounds [OF run len this] t
  have "GetTokenValue ?q ?t = take 1 (drop 6 sample_input)" by simp
  moreover have "take 1 (drop 6 sample_input) = octets ''1''" by code_simp
  ultimately show ?thesis using sample_run_ok len by simp
qed

text \<open>
  The statistics of an accepted input count its keys: \<open>totalKeys\<close> is the number of colons,
  the keys of the two atom kinds are the atom tokens, and the three kinds make up the total.
\<close>

theorem Parse_counts_keys:
  assumes "ParseJSON cfg d (createParser cfg) = (Ok, q)"
  shows "totalKeys (jp_atomStats q) = count_typ TokenColon (jp_tokens q)
    \<and> atom64Keys (jp_atomStats q) = count_typ TokenKey64 (jp_tokens q)
    \<and> atom128Keys (jp_atomStats q) = count_typ TokenKey128 (jp_tokens q)
    \<and> atom64Keys (jp_atomStats q) + atom128Keys (jp_atomStats q) + regularKeys (jp_atomStats q)
      = totalKeys (jp_atomStats q)"
  using run_sound(2) [OF assms] by (simp_all add: counted_def no_stats_def)

theorem Parse_counts_keys_witness:
  "fst sample_run = Ok \<and> totalKeys (jp_atomStats (snd sample_run)) = 1"
proof -
  have "run default_config sample_input = (Ok, snd sample_run)"
    using sample_run_ok by (simp add: sample_run_def prod_eq_iff)
  from Parse_counts_keys [OF this]
  have "totalKeys (jp_atomStats (snd sample_run)) = count_typ TokenColon (jp_tokens (snd sample_run))" by simp
  moreover have "count_typ TokenColon (jp_tokens (snd sample_run)) = 1" by code_simp
  ultimately show ?thesis using sample_run_ok by simp
qed

section \<open>Atoms\<close>

lemma bit_fold_or:
  "bit (fold (\<lambda>i a. a OR f i) js r) n \<longleftrightarrow> bit r n \<or> (\<exists>i \<in> set js. bit (f i) n)"
  for r :: "'a :: len word"
  by (induction js arbitrary: r) (auto simp: bit_or_iff)

lemma byte_bit:
  fixes b :: octet
  assumes "n < LENGTH(64)"
  shows "bit (push_bit (i * 8) (ucast b) :: 64 word) n \<longleftrightarrow> i * 8 \<le> n \<and> bit b (n - i * 8)"
proof -
  have "n - i * 8 < LENGTH(64)" using assms by simp
  then show ?thesis using assms by (simp only: bit_push_bit_iff bit_ucast_iff) (simp add: conj_commute)
qed

lemma or_bytes_pack: "length bs \<le> 8 \<Longrightarrow> or_bytes bs = pack64 bs"
proof (rule bit_word_eqI)
  fix n assume len: "length bs \<le> 8" and n: "n < LENGTH(64)"
  have "bit (or_bytes bs) n \<longleftrightarrow> (\<exists>i < length bs. i * 8 \<le> n \<and> bit (bs ! i) (n - i * 8))"
    unfolding or_bytes_def bit_fold_or byte_bit [OF n] by (simp add: Bex_def)
  also have "\<dots> \<longleftrightarrow> n < 8 * length bs \<and> bit (bs ! (n div 8)) (n mod 8)"
  proof
    assume "\<exists>i < length bs. i * 8 \<le> n \<and> bit (bs ! i) (n - i * 8)"
    then obtain i where i: "i < length bs" "i * 8 \<le> n" "bit (bs ! i) (n - i * 8)" by blast
    obtain r where r: "n = i * 8 + r" using i(2) le_Suc_ex by blast
    have "r < 8" using bit_imp_le_length [OF i(3)] r by simp
    then have "n div 8 = i" "n mod 8 = r" using r by simp_all
    moreover have "n < 8 * length bs" using i(1) r \<open>r < 8\<close> by linarith
    ultimately show "n < 8 * length bs \<and> bit (bs ! (n div 8)) (n mod 8)"
      using i(3) r by simp
  next
    assume "n < 8 * length bs \<and> bit (bs ! (n div 8)) (n mod 8)"
    moreover from this have "n div 8 < length bs" "n div 8 * 8 \<le> n"
      by (auto simp: less_mult_imp_div_less mult.commute)
    moreover have "n - n div 8 * 8 = n mod 8"
      by (rule minus_div_mult_eq_mod)
    ultimately show "\<exists>i < length bs. i * 8 \<le> n \<and> bit (bs ! i) (n - i * 8)"
      by (metis)
  qed
  finally show "bit (or_bytes bs) n \<longleftrightarrow> bit (pack64 bs) n"
    using n by (simp add: bit_pack64)
qed

lemma pack64_zeros: "length bs + n \<le> 8 \<Longrightarrow> pack64 (bs @ replicate n 0) = pack64 bs"
  by (rule bit_word_eqI) (auto simp: bit_pack64 nth_append)

lemma lanes_or_bytes:
  assumes "length bs \<le> 8"
  shows "lanes (or_bytes bs) = bs @ replicate (8 - length bs) 0"
  using pack64_zeros [of bs "8 - length bs"] lanes_pack64 [of "bs @ replicate (8 - length bs) 0"]
    or_bytes_pack [OF assms] assms by simp

lemma or_bytes_eq:
  assumes "length bs \<le> 8" "length cs \<le> 8" "0 \<notin> set bs" "0 \<notin> set cs"
  shows "or_bytes bs = or_bytes cs \<longleftrightarrow> bs = cs"
proof
  assume "or_bytes bs = or_bytes cs"
  then have "takeWhile (\<lambda>b. b \<noteq> 0) (lanes (or_bytes bs)) = takeWhile (\<lambda>b. b \<noteq> 0) (lanes (or_bytes cs))"
    by simp
  moreover have "takeWhile (\<lambda>b. b \<noteq> 0) (bs @ replicate n 0) = bs" if "0 \<notin> set bs" for bs :: "octet list" and n
    using that by (induction bs) (auto simp: takeWhile_replicate)
  ultimately show "bs = cs"
    using assms by (simp add: lanes_or_bytes)
qed simp

lemma takeWhile_zeros: "0 \<notin> set bs \<Longrightarrow> takeWhile (\<lambda>b. b \<noteq> 0) (bs @ replicate n 0) = bs" for bs :: "octet list"
  by (induction bs) (auto simp: takeWhile_replicate)

lemma makeAtom128_String:
  assumes "length k \<le> 16" "8 \<le> length k"
  shows "Atom128_String (makeAtom128 k) = takeWhile (\<lambda>b. b \<noteq> 0) (k @ replicate (16 - length k) 0)"
proof -
  have "length (take 8 k) \<le> 8" "length (drop 8 k) \<le> 8" using assms by simp_all
  moreover have "8 - length (drop 8 k) = 16 - length k" "length (take 8 k) = 8" using assms by simp_all
  ultimately show ?thesis
    using assms(1) append_take_drop_id [of 8 k]
    by (simp add: Atom128_String_def makeAtom128_def lanes_or_bytes flip: append_assoc)
qed

lemma key_value:
  assumes "n \<le> 16" "i + n \<le> length d" "0 \<notin> set (take n (drop i d))"
  shows "GetTokenValue p (key_token ProcessKeyAtom d i n) = take n (drop i d)"
proof (cases "n \<le> 8")
  case True
  with assms show ?thesis
    by (simp add: GetTokenValue_def key_token_def IsAtom64_def Atom64_String_def makeAtom64_def
        lanes_or_bytes takeWhile_zeros)
next
  case False
  let ?k = "take n (drop i d)"
  have "length ?k \<le> 16" "8 \<le> length ?k"
    using assms(1,2) False by simp_all
  then have "Atom128_String (makeAtom128 ?k) = takeWhile (\<lambda>b. b \<noteq> 0) (?k @ replicate (16 - length ?k) 0)"
    by (rule makeAtom128_String)
  with False assms show ?thesis
    by (simp add: GetTokenValue_def key_token_def IsAtom64_def IsAtom128_def takeWhile_zeros)
qed

text \<open>
  A key without zero bytes and of at most 16 bytes can be read back from the atom that stands
  for it in the tokens, whatever the parser.
\<close>

theorem GetTokenValue_key:
  assumes "n \<le> 16" "i + n \<le> length d" "0 \<notin> set (take n (drop i d))"
  shows "GetTokenValue p (key_token ProcessKeyAtom d i n) = take n (drop i d)"
  using assms by (rule key_value)

theorem GetTokenValue_key_witness:
  "GetTokenValue (snd sample_run) (key_token ProcessKeyAtom (octets ''created'') 0 7) = octets ''created''"
  using GetTokenValue_key [of 7 0 "octets ''created''" "snd sample_run"]
  by (simp add: octets_def)

section \<open>The comparison of tokens\<close>

lemma load64_eq:
  assumes "i + 8 \<le> length xs" "i + 8 \<le> length ys"
  shows "load64 xs i = load64 ys i \<longleftrightarrow> take 8 (drop i xs) = take 8 (drop i ys)"
  using lanes_load64 [OF assms(1)] lanes_load64 [OF assms(2)] by (metis load64_def)

lemma bytes_eq:
  assumes "length xs = length ys"
  shows "list_all (\<lambda>j. xs ! j = ys ! j) [i..<length ys] \<longleftrightarrow> drop i xs = drop i ys"
proof
  assume "list_all (\<lambda>j. xs ! j = ys ! j) [i..<length ys]"
  then show "drop i xs = drop i ys"
    using assms by (intro nth_equalityI) (auto simp: list_all_iff)
next
  assume eq: "drop i xs = drop i ys"
  have "xs ! j = ys ! j" if "i \<le> j" "j < length ys" for j
    using arg_cong [OF eq, of "\<lambda>l. l ! (j - i)"] that assms by simp
  then show "list_all (\<lambda>j. xs ! j = ys ! j) [i..<length ys]"
    by (simp add: list_all_iff)
qed

lemma drop_eq_step: "drop i xs = drop i ys \<longleftrightarrow>
    take n (drop i xs) = take n (drop i ys) \<and> drop (i + n) xs = drop (i + n) ys"
  by (metis append_take_drop_id drop_drop add.commute)

lemma compare_simd_drop:
  "length xs = length ys \<Longrightarrow> compare_simd xs ys i \<longleftrightarrow> drop i xs = drop i ys"
proof (induction xs ys i rule: compare_simd.induct)
  case (1 xs ys i)
  show ?case
  proof (cases "i + 8 \<le> length ys")
    case True
    with 1 show ?thesis
      using drop_eq_step [of i xs ys 8] load64_eq [of i xs ys] by (simp add: compare_simd.simps [of xs ys i])
  next
    case False
    with 1(2) show ?thesis
      by (simp add: compare_simd.simps [of xs ys i] bytes_eq)
  qed
qed

text \<open>An atom is a key token of the input, any other token a slice of it.\<close>

definition atom_of :: "octet list \<Rightarrow> json_token \<Rightarrow> bool" where
  "atom_of d t = (\<exists>i n. n \<le> 16 \<and> i + n \<le> length d \<and> t = key_token ProcessKeyAtom d i n)"

lemma key_token_atom:
  assumes "i + n \<le> length d" "IsAtom64 (key_token K d i n) \<or> IsAtom128 (key_token K d i n)"
  shows "atom_of d (key_token K d i n)"
proof -
  have "K = ProcessKeyAtom" "n \<le> 16"
    using assms(2) by (auto simp: key_token_def Let_def IsAtom64_def IsAtom128_def split: if_splits)
  with assms(1) show ?thesis by (auto simp: atom_of_def)
qed

lemma grammar_atoms:
  "value_text K d i j ts \<Longrightarrow> \<forall>t \<in> set ts. IsAtom64 t \<or> IsAtom128 t \<longrightarrow> atom_of d t"
  "json_members K d i j ts \<Longrightarrow> \<forall>t \<in> set ts. IsAtom64 t \<or> IsAtom128 t \<longrightarrow> atom_of d t"
  "json_elements K d i j ts \<Longrightarrow> \<forall>t \<in> set ts. IsAtom64 t \<or> IsAtom128 t \<longrightarrow> atom_of d t"
  "json_member K d i j ts \<Longrightarrow> \<forall>t \<in> set ts. IsAtom64 t \<or> IsAtom128 t \<longrightarrow> atom_of d t"
proof (induction rule: value_text_json_members_json_elements_json_member.inducts)
  case (member i a b c j ts)
  have "a + 1 + (b - a - 2) \<le> length d"
    using string_bounds [OF member(2)] by linarith
  then have "atom_of d (key_token K d (a + 1) (b - a - 2))"
    if "IsAtom64 (key_token K d (a + 1) (b - a - 2)) \<or> IsAtom128 (key_token K d (a + 1) (b - a - 2))"
    using that by (rule key_token_atom)
  with member(6) show ?case by (auto simp: IsAtom64_def IsAtom128_def)
qed (auto simp: IsAtom64_def IsAtom128_def)

lemma or_bytes_zero: "length bs \<le> 8 \<Longrightarrow> 0 \<notin> set bs \<Longrightarrow> or_bytes bs = 0 \<longleftrightarrow> bs = []"
  using or_bytes_eq [of bs "[]"] by (simp add: or_bytes_def)

lemma makeAtom64_eq:
  assumes "length k \<le> 8" "0 \<notin> set k" "0 \<notin> set s" "k \<noteq> [] \<or> length s \<le> 8"
  shows "makeAtom64 k = makeAtom64 s \<longleftrightarrow> k = s"
  using assms by (auto simp: makeAtom64_def or_bytes_eq or_bytes_zero)

lemma makeAtom128_eq:
  assumes "8 < length k" "length k \<le> 16" "0 \<notin> set k" "0 \<notin> set s"
  shows "makeAtom128 k = makeAtom128 s \<longleftrightarrow> k = s"
proof (cases "length s \<le> 16")
  case True
  have "0 \<notin> set (take 8 k)" "0 \<notin> set (drop 8 k)" "0 \<notin> set (take 8 s)" "0 \<notin> set (drop 8 s)"
    using assms(3,4) by (auto dest: in_set_takeD in_set_dropD)
  then have "makeAtom128 k = makeAtom128 s \<longleftrightarrow> take 8 k = take 8 s \<and> drop 8 k = drop 8 s"
    using assms(2) True by (simp add: makeAtom128_def or_bytes_eq)
  then show ?thesis by (metis append_take_drop_id)
next
  case False
  have "0 \<notin> set (drop 8 k)" using assms(3) by (auto dest: in_set_dropD)
  then have "or_bytes (drop 8 k) \<noteq> 0" using assms(1,2) by (simp add: or_bytes_zero)
  with False assms(2) show ?thesis by (auto simp: makeAtom128_def no_atom128_def)
qed

lemma atom128_parts: "Lo a = Lo b \<and> Hi a = Hi b \<longleftrightarrow> a = (b :: atom128)"
  by (cases a; cases b) simp

lemma compare_atom:
  assumes "atom_of d t" "EnableFastCompare cfg" "0 \<notin> set d" "0 \<notin> set s"
    "GetTokenValue p t \<noteq> [] \<or> length s \<le> 8"
  shows "CompareToken cfg p t s \<longleftrightarrow> GetTokenValue p t = s"
proof -
  obtain i n where t: "n \<le> 16" "i + n \<le> length d" "t = key_token ProcessKeyAtom d i n"
    using assms(1) by (auto simp: atom_of_def)
  let ?k = "take n (drop i d)"
  have k: "0 \<notin> set ?k" "length ?k = n"
    using assms(3) t(2) by (auto dest!: in_set_takeD in_set_dropD)
  have val: "GetTokenValue p t = ?k"
    unfolding t(3) by (rule key_value [OF t(1,2) k(1)])
  have "CompareToken cfg p t s \<longleftrightarrow> ?k = s"
  proof (cases "n \<le> 8")
    case True
    with k assms(4,5) val have "makeAtom64 ?k = makeAtom64 s \<longleftrightarrow> ?k = s"
      by (intro makeAtom64_eq) (simp_all only: simp_thms)
    with True assms(2) show ?thesis
      by (simp add: CompareToken_def t(3) key_token_def IsAtom64_def)
  next
    case False
    with makeAtom128_eq [of ?k s] k t(1) assms(2,4) show ?thesis
      by (simp add: CompareToken_def t(3) key_token_def IsAtom64_def IsAtom128_def atom128_parts)
  qed
  with val show ?thesis by simp
qed

lemma compare_slice:
  assumes "\<not> IsAtom64 t" "\<not> IsAtom128 t" "EnableFastCompare cfg" "GetTokenValue p t = token_slice p t"
    "length (token_slice p t) = unat (jt_Length t)"
  shows "CompareToken cfg p t s \<longleftrightarrow> GetTokenValue p t = s"
proof (cases "unat (jt_Length t) = length s")
  case True
  with assms show ?thesis
    using compare_simd_drop [of "token_slice p t" s 0] bytes_eq [of "token_slice p t" s 0]
    by (simp add: CompareToken_def)
next
  case False
  moreover from this have "token_slice p t \<noteq> s" using assms(5) by auto
  ultimately show ?thesis using assms by (simp add: CompareToken_def del: of_nat_unat)
qed

text \<open>
  The fast comparison of a token with a name agrees with the comparison of its text, for every
  token of an accepted input, as long as neither holds a zero byte and the empty key is not compared
  with a name of more than eight bytes.
\<close>

theorem CompareToken_value:
  assumes "ParseJSON cfg d (createParser cfg) = (Ok, q)" "length d < 2 ^ 32" "t \<in> set (jp_tokens q)"
    "0 \<notin> set d" "0 \<notin> set s" "GetTokenValue q t \<noteq> [] \<or> length s \<le> 8"
  shows "CompareToken cfg' q t s \<longleftrightarrow> GetTokenValue q t = s"
proof (cases "EnableFastCompare cfg'")
  case True
  note sound = run_sound(1,3) [OF assms(1)]
  show ?thesis
  proof (cases "IsAtom64 t \<or> IsAtom128 t")
    case True
    then have "atom_of d t" using grammar_atoms(1) [OF sound(1)] assms(3) by blast
    then show ?thesis using \<open>EnableFastCompare cfg'\<close> assms(4-6) by (rule compare_atom)
  next
    case False
    with slice_of_token [OF assms(1-3)] \<open>EnableFastCompare cfg'\<close> show ?thesis
      by (intro compare_slice) auto
  qed
qed (simp add: CompareToken_def)

theorem CompareToken_value_witness:
  "jt_Type (jp_tokens (snd sample_run) ! 1) = TokenKey64
    \<and> \<not> CompareToken default_config (snd sample_run) (jp_tokens (snd sample_run) ! 1) (octets ''b'')"
proof -
  let ?q = "snd sample_run" and ?t = "jp_tokens (snd sample_run) ! 1"
  have run: "run default_config sample_input = (Ok, ?q)"
    using sample_run_ok by (simp add: sample_run_def prod_eq_iff)
  have t: "?t \<in> set (jp_tokens ?q)" using sample_run_ok by simp
  have "0 \<notin> set sample_input" "0 \<notin> set (octets ''b'')"
    "GetTokenValue ?q ?t \<noteq> octets ''b''"
    by code_simp+
  moreover have "length (octets ''b'') \<le> 8" by code_simp
  ultimately have "\<not> CompareToken default_config ?q ?t (octets ''b'')"
    using CompareToken_value [OF run sample_length t] by blast
  moreover have "jt_Type ?t = TokenKey64" by code_simp
  ultimately show ?thesis by simp
qed

section \<open>What follows a value, and what does not\<close>

lemma is_at_append: "is_at d i b \<Longrightarrow> is_at (d @ r) i b"
  by (simp add: is_at_def nth_append)

lemma byte_at_append: "byte_at d i B \<Longrightarrow> byte_at (d @ r) i B"
  by (simp add: byte_at_def nth_append)

lemma spaces_append: "spaces d i j \<Longrightarrow> spaces (d @ r) i j"
  by (auto simp: spaces_def nth_append intro: trans_less_add1)

lemma digits_append: "digits d i j \<Longrightarrow> digits (d @ r) i j"
  by (auto simp: digits_def digit_at_def nth_append intro: trans_less_add1)

lemma body_append: "string_body d i j \<Longrightarrow> string_body (d @ r) i j"
proof (induction rule: string_body.induct)
  case (body_char i j)
  then show ?case by (simp add: string_body.body_char nth_append)
next
  case (body_escape i j)
  then show ?case by (simp add: string_body.body_escape is_at_append)
qed (rule body_end)

lemma string_append: "json_string d i j \<Longrightarrow> json_string (d @ r) i j"
  using body_append is_at_append unfolding json_string_def by blast

lemma digits_start: "digits d i j \<Longrightarrow> i < length d"
  by (auto simp: digits_def digit_at_def)

lemma number_append: "json_number d i j \<Longrightarrow> json_number (d @ r) i j"
proof -
  have int: "int_part d i j \<Longrightarrow> int_part (d @ r) i j" for i j
    using digits_append [of d i j r] is_at_append [of d i "0x30" r] digits_start [of d i j]
    by (auto simp: int_part_def nth_append)
  have frac: "frac_part d i j \<Longrightarrow> frac_part (d @ r) i j" for i j
    by (auto simp: frac_part_def digits_append is_at_append)
  have exp: "exp_part d i j \<Longrightarrow> exp_part (d @ r) i j" for i j
    by (auto simp: exp_part_def digits_append byte_at_append)
  assume "json_number d i j"
  then show ?thesis
    unfolding json_number_def by (metis int frac exp is_at_append)
qed

lemma literal_append: "literal_at s d i j \<Longrightarrow> literal_at s (d @ r) i j"
  by (simp add: literal_at_def)

lemma key_append: "i + n \<le> length d \<Longrightarrow> key_token K (d @ r) i n = key_token K d i n"
  by (simp add: key_token_def)

lemmas grammar_append_rules = is_at_append spaces_append string_append number_append literal_append

lemma grammar_append:
  "value_text K d i j ts \<Longrightarrow> value_text K (d @ r) i j ts"
  "json_members K d i j ts \<Longrightarrow> json_members K (d @ r) i j ts"
  "json_elements K d i j ts \<Longrightarrow> json_elements K (d @ r) i j ts"
  "json_member K d i j ts \<Longrightarrow> json_member K (d @ r) i j ts"
proof (induction rule: value_text_json_members_json_elements_json_member.inducts)
  case (member i a b c j ts)
  have "a + 1 + (b - a - 2) \<le> length d"
    using string_bounds [OF member(2)] by linarith
  from key_append [OF this, of K r] show ?case
    using value_text_json_members_json_elements_json_member.member
      [OF spaces_append [OF member(1)] string_append [OF member(2)] spaces_append [OF member(3)]
        is_at_append [OF member(4)] member(6)] by simp
qed (blast intro: value_text_json_members_json_elements_json_member.intros grammar_append_rules)+

text \<open>
  \<open>Parse\<close> does not look at what follows the value: an accepted input stays accepted, with the
  same tokens and the same end, whatever is appended to it, unless that continues a number.
\<close>

theorem Parse_ignores_rest:
  assumes "ParseJSON cfg d (createParser cfg) = (Ok, q)" "stops_at (d @ r) (jp_pos q)"
  shows "\<exists>q'. ParseJSON cfg (d @ r) (createParser cfg) = (Ok, q') \<and> jp_pos q' = jp_pos q \<and> jp_tokens q' = jp_tokens q"
  using run_complete [OF grammar_append(1) [OF run_sound(1) [OF assms(1)]] assms(2)] .

theorem Parse_ignores_rest_witness:
  "fst sample_run = Ok \<and> stops_at (sample_input @ octets '']'') 9
    \<and> fst (ParseJSON default_config (sample_input @ octets '']'') (createParser default_config)) = Ok"
proof -
  have run: "run default_config sample_input = (Ok, snd sample_run)"
    using sample_run_ok by (simp add: sample_run_def prod_eq_iff)
  have stop: "stops_at (sample_input @ octets '']'') 9" by code_simp
  then have "stops_at (sample_input @ octets '']'') (jp_pos (snd sample_run))" using sample_run_ok by simp
  from Parse_ignores_rest [OF run this] stop sample_run_ok show ?thesis by auto
qed

text \<open>An object that ends after a comma.\<close>

definition cut_object :: "octet list" where
  "cut_object = octets (''{'' @ [CHR 0x22, CHR ''a'', CHR 0x22] @ '':1,'')"

lemma cut_object_plain: "fst (parseValue 16 (plain_start cfg cut_object)) = Panic"
proof -
  have "fst (parseValue 16 (plain_start default_config cut_object)) = Panic" by code_simp
  moreover have "fst (parseValue 16 (plain_start (default_config\<lparr>EnableAtoms := False\<rparr>) cut_object)) = Panic"
    by code_simp
  moreover have "plain_start cfg cut_object = plain_start default_config cut_object
      \<or> plain_start cfg cut_object = plain_start (default_config\<lparr>EnableAtoms := False\<rparr>) cut_object"
    by (cases "EnableAtoms cfg") (auto simp: default_config_def intro!: plain_start_cong)
  ultimately show ?thesis by metis
qed

text \<open>
  Under every configuration \<open>Parse\<close> panics, reading past the end of the input, where an object
  ends after a comma; it does not return an error.
\<close>

theorem Parse_panics: "fst (ParseJSON cfg cut_object (createParser cfg)) = Panic"
proof -
  have "length cut_object = 7" by code_simp
  then have "agree_result (run cfg cut_object) (parseValue 16 (plain_start cfg cut_object))"
    using run_plain [of cfg cut_object] by simp
  with cut_object_plain [of cfg] show ?thesis
    by (cases "run cfg cut_object"; cases "fst (run cfg cut_object)") (auto simp: agree_result_def)
qed

end
