(* ===== verification/SuperJsonPool.thy ===== *)
theory SuperJsonPool
  imports SuperJsonProps
begin

text \<open>
  Parsers that are used again: what a parse leaves alone, and the pool of \<open>superjsonic_multi.go\<close>,
  whose parsers work as new ones. Then the constants for frequent keys and the flags.
\<close>

section \<open>What a parse leaves alone\<close>

text \<open>The operations chosen at creation, and what is known of large arrays.\<close>

definition same_setup :: "json_parser \<Rightarrow> json_parser \<Rightarrow> bool" where
  "same_setup p q = (jp_simd q = jp_simd p \<and> jp_ops q = jp_ops p \<and> jp_arrayInfo q = jp_arrayInfo p)"

lemma same_setup_refl [simp]: "same_setup p p"
  by (simp add: same_setup_def)

lemma same_setup_trans: "same_setup p q \<Longrightarrow> same_setup q r \<Longrightarrow> same_setup p r"
  by (simp add: same_setup_def)

lemma same_setup_steps [simp]:
  "same_setup p (skipWhitespace q) = same_setup p q"
  "same_setup p (set_context c q) = same_setup p q"
  "same_setup p (pushContext c q) = same_setup p q"
  "same_setup p (popContext q) = same_setup p q"
  "same_setup p (addToken typ i n a b q) = same_setup p q"
  "same_setup p (q\<lparr>jp_pos := j\<rparr>) = same_setup p q"
  by (simp_all add: same_setup_def skipWhitespace_def set_context_def pushContext_def popContext_def
      addToken_def)

lemma same_setup_finish: "same_setup p (finishString i j q) = same_setup p q"
  by (simp add: finishString_def processKey_def processKeyAtom_def processKeyString_def count_key_def
      same_setup_def addToken_def Let_def split: key_op.splits)

lemma same_setup_string: "same_setup p (snd (parseString p))"
  by (simp add: parseString_def same_setup_finish Let_def split: prod.splits option.splits)

lemma same_setup_literal: "same_setup p (snd (parseLiteral p))"
  by (simp add: parseLiteral_def parseLiteralFast_def parseLiteralBasic_def literal_token_def
      invalid_literal_def Let_def split: literal_op.splits)

lemma same_setup_number: "same_setup p (snd (parseNumber p))"
  by (simp add: parseNumber_def Let_def split: prod.splits option.splits)

lemma same_setup_and_then:
  assumes "same_setup p (snd r)" "\<And>q. same_setup p q \<Longrightarrow> same_setup p (snd (f q))"
  shows "same_setup p (snd (and_then r f))"
  using assms by (cases r; cases "fst r") (auto simp: and_then_def)

lemma same_setup_member:
  assumes "\<And>q. same_setup q (snd (parseValue n q))"
  shows "same_setup p (snd (object_member n p))"
proof -
  have from_value: "same_setup p (snd (parseValue n q))" if "same_setup p q" for q
    using same_setup_trans [OF that assms] .
  have string: "same_setup p (snd (parseString q))" if "same_setup p q" for q
    using same_setup_trans [OF that same_setup_string] .
  show ?thesis
    by (auto simp: object_member.simps Let_def expected_at_def
        intro!: same_setup_and_then string from_value split: if_splits)
qed

lemma same_setup_element:
  assumes "\<And>q. same_setup q (snd (parseValue n q))"
  shows "same_setup p (snd (array_element n p))"
proof -
  have "same_setup p (snd (parseValue n q))" if "same_setup p q" for q
    using same_setup_trans [OF that assms] .
  then show ?thesis
    by (auto simp: array_element.simps intro!: same_setup_and_then)
qed

lemma parse_same_setup:
  "same_setup p (snd (parseValue n p))
   \<and> same_setup p (snd (object_loop n first p)) \<and> same_setup p (snd (array_loop n first p))"
proof (induction n arbitrary: first p)
  case (Suc n)
  have from_q: "same_setup p (snd (f q))" if "\<And>q. same_setup q (snd (f q))" "same_setup p q" for f q p
    using same_setup_trans [OF that(2) that(1)] .
  have obj: "same_setup q (snd (object_loop n first q))"
    and arr: "same_setup q (snd (array_loop n first q))"
    and val: "same_setup q (snd (parseValue n q))" for q first
    using Suc by blast+
  note member = same_setup_member [OF val] and element = same_setup_element [OF val]
  note steps = from_q [OF obj] from_q [OF arr] from_q [OF same_setup_string] from_q [OF same_setup_literal]
    from_q [OF same_setup_number] from_q [OF member] from_q [OF element]
  show ?case
    by (auto simp: Let_def expected_at_def intro!: steps same_setup_and_then)
qed simp

section \<open>The pool\<close>

text \<open>
  The parsers the pool can hold under a configuration: a new one, and any of them after any number
  of parses, whether they succeeded or not, returned with \<open>ReturnParser\<close>.
\<close>

inductive used :: "json_config \<Rightarrow> json_parser \<Rightarrow> bool" for cfg where
  used_new: "used cfg (createParser cfg)"
| used_parse: "used cfg p \<Longrightarrow> used cfg (snd (ParseJSON cfg d p))"
| used_return: "used cfg p \<Longrightarrow> used cfg (ReturnParser cfg p)"

inductive pooled :: "json_config \<Rightarrow> json_parser \<Rightarrow> bool" for cfg where
  "used cfg p \<Longrightarrow> EnablePooling cfg \<Longrightarrow> pooled cfg (ReturnParser cfg p)"

lemma start_parse_cong:
  assumes "jp_simd p = jp_simd q" "jp_ops p = jp_ops q" "jp_atomStats p = jp_atomStats q"
    "\<not> EnableArrayOpt cfg \<Longrightarrow> jp_arrayInfo p = jp_arrayInfo q"
  shows "start_parse cfg d p = start_parse cfg d q"
  using assms by (cases p; cases q) (simp add: start_parse_def Let_def)

lemma used_setup:
  "used cfg p \<Longrightarrow> jp_simd p = jp_simd (createParser cfg) \<and> jp_ops p = jp_ops (createParser cfg)
    \<and> (\<not> EnableArrayOpt cfg \<longrightarrow> jp_arrayInfo p = no_array_info)"
proof (induction rule: used.induct)
  case used_new
  show ?case by (simp add: createParser_def)
next
  case (used_parse p d)
  have "same_setup (start_parse cfg d p) (snd (ParseJSON cfg d p))"
    unfolding ParseJSON_def using parse_same_setup by blast
  with used_parse.IH show ?case
    by (auto simp: same_setup_def start_parse_def Let_def split: if_splits)
next
  case (used_return p)
  then show ?case by (simp add: ReturnParser_def)
qed

text \<open>
  C31: a parser from the pool parses as a new one: whatever it parsed before, it gives the same
  error or the same tokens, statistics and final state.
\<close>

theorem pooled_parser_is_new:
  assumes "pooled cfg p"
  shows "ParseJSON cfg d (GetParser cfg (Some p)) = ParseJSON cfg d (createParser cfg)"
  using assms
proof cases
  case (1 q)
  have "start_parse cfg d p = start_parse cfg d (createParser cfg)"
    using used_setup [OF 1(2)] 1(3) unfolding 1(1)
    by (intro start_parse_cong) (simp_all add: ReturnParser_def createParser_def)
  with 1(3) show ?thesis by (simp only: ParseJSON_def GetParser_def if_True option.case)
qed

theorem pooled_parser_is_new_witness:
  "pooled default_config (ReturnParser default_config (snd (ParseJSON default_config cut_object (createParser default_config))))
   \<and> fst (ParseJSON default_config sample_input (GetParser default_config (Some (ReturnParser default_config
       (snd (ParseJSON default_config cut_object (createParser default_config))))))) = Ok"
proof
  show pool: "pooled default_config (ReturnParser default_config
      (snd (ParseJSON default_config cut_object (createParser default_config))))"
    by (intro pooled.intros used_parse used_new) (simp add: default_config_def)
  show "fst (ParseJSON default_config sample_input (GetParser default_config (Some (ReturnParser default_config
       (snd (ParseJSON default_config cut_object (createParser default_config))))))) = Ok"
    using sample_run_ok(1) unfolding pooled_parser_is_new [OF pool] sample_run_def .
qed

text \<open>Without \<open>ReturnParser\<close> the statistics go on counting: \<open>Parse\<close> does not reset them.\<close>

lemma statistics_accumulate:
  "totalKeys (GetStats (snd (ParseJSON default_config sample_input (snd sample_run)))) = 2"
  by code_simp

section \<open>Constants and flags\<close>

text \<open>
  The constants for frequent keys are the atoms of the names in their comments, for all but
  two: those of \<open>created\<close> and \<open>updated\<close> are the atoms of other keys.
\<close>

theorem atom64_constants_names:
  "filter (\<lambda>(name, a). makeAtom64 (octets name) \<noteq> a) atom64_constants
     = [(''created'', 0x6465746165726308), (''updated'', 0x6465746164707508)]"
  by (simp add: atom64_constants_def makeAtom64_def or_bytes_def octets_def upt_rec)

lemma created_constant_reads: "Atom64_String 0x6465746165726308 = 0x08 # octets ''created''"
  by code_simp

lemma atom128_constants_names: "list_all (\<lambda>(name, a). Atom128_String a = octets name) atom128_constants"
  by (simp add: atom128_constants_def makeAtom128Static_def makeAtom128_String octets_def takeWhile_zeros)

text \<open>The flag that turns everything off wins over one that turns a part on.\<close>

lemma none_with_simd:
  "getConfigString (applyConfigOverrides (default_config\<lparr>DisableAll := True, EnableSIMD := True\<rparr>)) = ''none''"
  by code_simp

lemma overrides_idempotent: "applyConfigOverrides (applyConfigOverrides c) = applyConfigOverrides c"
  by (simp add: applyConfigOverrides_def)

end
