(* ===== verification/TokenizerProps.thy ===== *)
theory TokenizerProps
  imports Tokenizer SuperJsonPool
begin

text \<open>
  The properties of the flat tokenizers: the fast loops agree with the plain one, when the loop
  returns, and what it returns on a JSON text.
\<close>

section \<open>The fast scans\<close>

lemma space_run_basic: "skip_basic d (space_run d i) = skip_basic d i"
proof (induction d i rule: space_run.induct)
  case (1 d i)
  show ?case
  proof (cases "i + 8 \<le> length d \<and> IsWhitespace_real (load64 d i) \<noteq> 0")
    case True
    show ?thesis
    proof (cases "find (\<lambda>j. \<not> isWhitespace (d ! (i + j))) [0..<8]")
      case None
      then have "isWhitespace (d ! k)" if "i \<le> k" "k < i + 8" for k
        using that by (auto simp: find_None_iff dest!: le_Suc_ex)
      then have "skip_basic d i = skip_basic d (i + 8)"
        using True by (intro skip_basic_run) auto
      then show ?thesis using 1 True None by (simp add: space_run.simps [of d i])
    next
      case (Some j)
      then have j: "j < 8" by (auto simp: find_Some_iff)
      have "isWhitespace (d ! k)" if "i \<le> k" "k < i + j" for k
        using Some that by (auto simp: find_Some_iff dest!: le_Suc_ex)
      then have "skip_basic d i = skip_basic d (i + j)"
        using True j by (intro skip_basic_run) auto
      then show ?thesis using True Some by (simp add: space_run.simps [of d i])
    qed
  qed (simp add: space_run.simps [of d i])
qed

lemma fast_skip_basic: "fast_skip d i = skip_basic d i"
  unfolding fast_skip_def by (rule space_run_basic)

lemma string_tail_run:
  assumes "i \<le> j" and "\<And>k. i \<le> k \<Longrightarrow> k < j \<Longrightarrow> k < length d \<and> d ! k \<noteq> 0x22 \<and> d ! k \<noteq> 0x5C"
  shows "string_tail d i = string_tail d j"
  using assms
proof (induction "j - i" arbitrary: i)
  case (Suc n)
  then have "string_tail d i = string_tail d (i + 1)"
    by (subst string_tail.simps) auto
  also have "\<dots> = string_tail d j"
    using Suc by (intro Suc.hyps(1)) auto
  finally show ?case .
qed simp

lemma fast_string_tail: "fast_string d i = string_tail d i"
proof (induction d i rule: fast_string.induct)
  case (1 d i)
  note unfold = fast_string.simps [of d i]
  show ?case
  proof (cases "i + 8 \<le> length d")
    case False
    then show ?thesis by (simp add: unfold)
  next
    case True
    show ?thesis
    proof (cases "find_special d i 8")
      case None
      then have "d ! k \<noteq> 0x22 \<and> d ! k \<noteq> 0x5C" if "i \<le> k" "k < i + 8" for k
        using that by (auto simp: find_special_def find_None_iff dest!: le_Suc_ex)
      then have "string_tail d i = string_tail d (i + 8)"
        using True by (intro string_tail_run) auto
      then show ?thesis using 1(3) [OF True refl] True None real_special [OF True] by (simp add: unfold Let_def)
    next
      case (Some j)
      then have j: "j < 8" "d ! (i + j) = 0x5C \<or> d ! (i + j) = 0x22"
        by (auto simp: find_special_def find_Some_iff)
      have "d ! k \<noteq> 0x22 \<and> d ! k \<noteq> 0x5C" if "i \<le> k" "k < i + j" for k
        using Some that by (auto simp: find_special_def find_Some_iff dest!: le_Suc_ex)
      then have run: "string_tail d i = string_tail d (i + j)"
        using True j(1) by (intro string_tail_run) auto
      have special: "HasByte_real (load64 d i) 0x22 \<or> HasByte_real (load64 d i) 0x5C"
        using real_special [OF True] Some by simp
      show ?thesis
      proof (cases "d ! (i + j) = 0x5C")
        case esc: True
        have "string_tail d (i + j) = string_tail d (i + j + 2)"
          using True j(1) esc by (subst string_tail.simps) simp
        then show ?thesis
          using 1(2) [OF True refl special Some esc] run True Some esc special by (simp add: unfold Let_def)
      next
        case False
        then have "string_tail d (i + j) = i + j"
          using j(2) by (subst string_tail.simps) simp
        then show ?thesis
          using run True Some False special by (simp add: unfold Let_def)
      qed
    qed
  qed
qed

lemma fast_is_plain: "fast_skip = skip_basic" "fast_string = string_tail"
  by (intro ext fast_skip_basic fast_string_tail)+

section \<open>One turn of the loop\<close>

text \<open>Where a token begins, in terms of the bytes.\<close>

definition begins_token :: "octet list \<Rightarrow> nat \<Rightarrow> bool" where
  "begins_token d i = (byte_at d i {0x7B, 0x7D, 0x5B, 0x5D, 0x3A, 0x2C, 0x22, 0x2D} \<or> digit_at d i
     \<or> (\<exists>j. literal_at ''true'' d i j \<or> literal_at ''false'' d i j \<or> literal_at ''null'' d i j))"

lemma literal_token_words:
  "i + 4 \<le> length d \<and> load32 d i = 0x65757274 \<longleftrightarrow> literal_at ''true'' d i (i + 4)"
  "i + 5 \<le> length d \<and> load32 d i = 0x736C6166 \<and> d ! (i + 4) = 0x65 \<longleftrightarrow> literal_at ''false'' d i (i + 5)"
  "i + 4 \<le> length d \<and> load32 d i = 0x6C6C756E \<longleftrightarrow> literal_at ''null'' d i (i + 4)"
  using load32_literal [of i d] take_5_false [of i d] by (simp_all add: literal_at_simps cong: conj_cong)

lemma literal_ends:
  "(\<exists>j. literal_at ''true'' d i j) \<longleftrightarrow> literal_at ''true'' d i (i + 4)"
  "(\<exists>j. literal_at ''false'' d i j) \<longleftrightarrow> literal_at ''false'' d i (i + 5)"
  "(\<exists>j. literal_at ''null'' d i j) \<longleftrightarrow> literal_at ''null'' d i (i + 4)"
  by (auto simp: literal_at_simps)

lemma letters_not_digits: "\<not> isDigit 0x74" "\<not> isDigit 0x66" "\<not> isDigit 0x6E" "\<not> isDigit 0x22"
  by (simp_all add: isDigit_def)

lemma step_token: "i < length d \<Longrightarrow> snd (token_step str d i) \<noteq> None \<longleftrightarrow> begins_token d i"
  using literal_start [of d i]
  unfolding token_step_def literal_token_words begins_token_def ex_disj_distrib literal_ends
  by (auto simp: Let_def punctuation_def byte_at_def digit_at_def is_at_def letters_not_digits)

lemma string_tail_le: "i \<le> string_tail d i"
  by (induction d i rule: string_tail.induct) (subst string_tail.simps, auto)

lemma number_end_le: "i \<le> number_end d i"
  by (induction d i rule: number_end.induct) (subst number_end.simps, auto)

lemma number_end_less: "i < length d \<Longrightarrow> number_byte (d ! i) \<Longrightarrow> i < number_end d i"
  using number_end_le [of "i + 1" d] by (subst number_end.simps) simp

lemma step_forward:
  assumes "i < length d" "token_step string_tail d i = (j, Some t)"
  shows "i < j"
proof (cases "punctuation (d ! i)")
  case None
  have "i < number_end d i" if "isDigit (d ! i) \<or> d ! i = 0x2D"
    using that assms(1) by (intro number_end_less) (auto simp: number_byte_def)
  then show ?thesis
    using assms(2) None string_tail_le [of "i + 1" d]
    by (auto simp: token_step_def Let_def split: if_splits)
next
  case (Some ty)
  with assms(2) show ?thesis by (simp add: token_step_def Let_def)
qed

lemma step_none: "token_step str d i = (j, None) \<Longrightarrow> j = i"
  by (auto simp: token_step_def Let_def split: if_splits option.splits)

section \<open>When the loop returns\<close>

abbreviation plain_loop :: "octet list \<Rightarrow> nat \<Rightarrow> flat_token list \<Rightarrow> flat_token list option" where
  "plain_loop \<equiv> token_loop skip_basic string_tail"

text \<open>One turn of the loop that adds a token, and the positions where it adds none.\<close>

inductive turn :: "octet list \<Rightarrow> nat \<Rightarrow> nat \<Rightarrow> bool" for d where
  "skip_basic d i < length d \<Longrightarrow> token_step string_tail d (skip_basic d i) = (j, Some t) \<Longrightarrow> turn d i j"

definition stuck :: "octet list \<Rightarrow> nat \<Rightarrow> bool" where
  "stuck d i = (skip_basic d i < length d \<and> \<not> begins_token d (skip_basic d i))"

inductive_cases turnE: "turn d i j"

lemma skip_basic_le: "i \<le> skip_basic d i"
  using skip_basic_spaces [of d i] by (simp add: spaces_def)

lemma turn_forward: "turn d i j \<Longrightarrow> i < j"
  by (elim turnE) (meson le_less_trans skip_basic_le step_forward)

lemma loop_end: "length d \<le> skip_basic d i \<Longrightarrow> plain_loop d i ts = Some ts"
  by (subst token_loop.simps) simp

lemma loop_turn:
  assumes "skip_basic d i < length d" "token_step string_tail d (skip_basic d i) = (j, Some t)"
  shows "plain_loop d i ts = plain_loop d j (ts @ [t])"
  using assms by (subst token_loop.simps) simp

lemma skip_idem: "skip_basic d (skip_basic d i) = skip_basic d i"
  using skip_basic_not_space by (rule skip_basic_stop)

text \<open>Where the loop is stuck it does not return, by induction over its approximations.\<close>

lemma loop_not_stuck:
  "token_loop skip str d i ts = Some us \<Longrightarrow> skip = skip_basic \<longrightarrow> \<not> stuck d i"
proof (erule token_loop.raw_induct [rotated])
  fix loop :: "(octet list \<Rightarrow> nat \<Rightarrow> nat) \<Rightarrow> (octet list \<Rightarrow> nat \<Rightarrow> nat) \<Rightarrow>
      octet list \<Rightarrow> nat \<Rightarrow> flat_token list \<Rightarrow> flat_token list option"
    and skip str d i ts us
  assume IH: "\<And>skip str d i ts us. loop skip str d i ts = Some us \<Longrightarrow> skip = skip_basic \<longrightarrow> \<not> stuck d i"
    and loop: "(let i = skip d i in if length d \<le> i then Some ts
      else case token_step str d i of (j, t) \<Rightarrow>
        loop skip str d j (case t of None \<Rightarrow> ts | Some t \<Rightarrow> ts @ [t])) = Some us"
  show "skip = skip_basic \<longrightarrow> \<not> stuck d i"
  proof (intro impI notI)
    let ?a = "skip_basic d i"
    assume skip: "skip = skip_basic" and stuck: "stuck d i"
    then have a: "?a < length d" "snd (token_step str d ?a) = None"
      using step_token [of ?a d str] by (auto simp: stuck_def)
    then have "token_step str d ?a = (?a, None)"
      using step_none [of str d ?a] by (cases "token_step str d ?a") auto
    then have "loop skip_basic str d ?a ts = Some us"
      using loop a(1) unfolding skip by simp
    from IH [OF this] stuck show False
      by (simp add: stuck_def skip_idem)
  qed
qed

lemma turn_loop: "turn d i j \<Longrightarrow> \<exists>t. plain_loop d i ts = plain_loop d j (ts @ [t])"
  by (elim turnE) (blast intro: loop_turn)

lemma loop_reaches:
  "(turn d)\<^sup>*\<^sup>* i j \<Longrightarrow> plain_loop d i ts = Some us \<Longrightarrow> \<not> stuck d j"
proof (induction arbitrary: ts rule: converse_rtranclp_induct)
  case base
  then show ?case using loop_not_stuck by blast
next
  case (step i k)
  with turn_loop [OF step(1)] show ?case by metis
qed

lemma loop_returns:
  assumes "\<And>j. (turn d)\<^sup>*\<^sup>* i j \<Longrightarrow> \<not> stuck d j"
  shows "\<exists>us. plain_loop d i ts = Some us"
  using assms
proof (induction "length d - i" arbitrary: i ts rule: less_induct)
  case less
  show ?case
  proof (cases "skip_basic d i < length d")
    case True
    have "\<not> stuck d i" using less.prems by blast
    with True obtain j t where step: "token_step string_tail d (skip_basic d i) = (j, Some t)"
      using step_token [of "skip_basic d i" d string_tail]
      by (cases "token_step string_tail d (skip_basic d i)") (auto simp: stuck_def)
    with True have turn: "turn d i j" by (rule turn.intros)
    have "length d - j < length d - i"
      using turn_forward [OF turn] skip_basic_le [of i d] True by simp
    moreover have "(turn d)\<^sup>*\<^sup>* j k \<Longrightarrow> \<not> stuck d k" for k
      using less.prems turn by (blast intro: converse_rtranclp_into_rtranclp)
    ultimately show ?thesis
      using less.hyps [of j "ts @ [t]"] loop_turn [OF True step] by simp
  next
    case False
    then show ?thesis using loop_end [of d i ts] by auto
  qed
qed

lemma loop_returns_iff:
  "plain_loop d i ts \<noteq> None \<longleftrightarrow> (\<forall>j. (turn d)\<^sup>*\<^sup>* i j \<longrightarrow> \<not> stuck d j)"
  using loop_returns [of d i ts] loop_reaches [of d i _ ts] by blast

lemma stress_Parse_plain: "stress_Parse d = map_option (with_eof d) (plain_loop d 0 [])"
  by (simp add: stress_Parse_def fast_is_plain)

text \<open>
  C33: the tokenizer of the stress test returns (the value is not None) on every input but those where
  its loop reaches a position behind whose white space no token begins before the end; on such an
  input it does not end.
\<close>

theorem stress_Parse_returns:
  "stress_Parse d = None \<longleftrightarrow> (\<exists>j. (turn d)\<^sup>*\<^sup>* 0 j \<and> stuck d j)"
  unfolding stress_Parse_plain using loop_returns_iff [of d 0 "[]"] by auto

text \<open>A letter outside of a string is enough.\<close>

lemma turnI:
  "skip_basic d i < length d \<and> fst (token_step string_tail d (skip_basic d i)) = j
    \<and> snd (token_step string_tail d (skip_basic d i)) \<noteq> None \<Longrightarrow> turn d i j"
  by (cases "token_step string_tail d (skip_basic d i)") (auto intro: turn.intros)

lemma stuckI:
  "skip_basic d i < length d \<and> snd (token_step string_tail d (skip_basic d i)) = None \<Longrightarrow> stuck d i"
  using step_token [of "skip_basic d i" d string_tail] by (simp add: stuck_def)

lemma stress_Parse_hangs: "stress_Parse (octets ''[1, x]'') = None"
proof -
  let ?d = "octets ''[1, x]''"
  have "turn ?d 0 1" by (rule turnI) code_simp
  moreover have "turn ?d 1 2" by (rule turnI) code_simp
  moreover have "turn ?d 2 3" by (rule turnI) code_simp
  moreover have "stuck ?d 3" by (rule stuckI) code_simp
  ultimately show ?thesis
    using loop_returns_iff [of ?d 0 "[]"] unfolding stress_Parse_plain option.map_disc_iff
    by (meson converse_rtranclp_into_rtranclp rtranclp.rtrancl_refl)
qed

section \<open>JSON texts\<close>

definition flatten_token :: "json_token \<Rightarrow> flat_token" where
  "flatten_token t = \<lparr>ft_Type = jt_Type t, ft_Offset = jt_Offset t, ft_Length = jt_Length t\<rparr>"

lemma flatten_token_at [simp]: "flatten_token (token_at ty i n) = flat ty i n"
  by (simp add: flatten_token_def token_at_def flat_def)

lemma flatten_key: "a + 1 < b \<Longrightarrow> flatten_token (key_token ProcessKeyString d (a + 1) (b - a - 2)) = flat TokenString a (b - a)"
proof -
  assume "a + 1 < b"
  then have "b - a - 2 + 2 = b - a" by simp
  then show ?thesis by (simp only: key_token_def) simp
qed

lemma loop_spaces:
  assumes "spaces d i a"
  shows "plain_loop d i us = plain_loop d a us"
proof -
  have "skip_basic d i = skip_basic d a"
    using assms by (intro skip_basic_run) (auto simp: spaces_def)
  then show ?thesis
    by (subst (1 2) token_loop.simps) simp
qed

lemma loop_at:
  assumes "a < length d" "\<not> isWhitespace (d ! a)" "token_step string_tail d a = (j, Some t)"
  shows "plain_loop d a us = plain_loop d j (us @ [t])"
proof -
  have "skip_basic d a = a" using assms(2) by (intro skip_basic_stop) simp
  with assms loop_turn [of d a j t us] show ?thesis by simp
qed

lemma loop_punctuation:
  assumes "is_at d a b" "punctuation b = Some ty"
  shows "plain_loop d a us = plain_loop d (a + 1) (us @ [flat ty a 1])"
proof (rule loop_at)
  show "a < length d" "\<not> isWhitespace (d ! a)"
    using assms by (auto simp: is_at_def punctuation_def isWhitespace_def split: if_splits)
  show "token_step string_tail d a = (a + 1, Some (flat ty a 1))"
    using assms by (simp add: token_step_def is_at_def)
qed

lemma string_tail_body: "string_body d i e \<Longrightarrow> is_at d e 0x22 \<Longrightarrow> string_tail d i = e"
proof (induction rule: string_body.induct)
  case (body_end i)
  then show ?case by (subst string_tail.simps) (simp add: is_at_def)
next
  case (body_char i j)
  then show ?case by (subst string_tail.simps) simp
next
  case (body_escape i j)
  then show ?case by (subst string_tail.simps) (simp add: is_at_def)
qed

lemma loop_string:
  assumes "json_string d a j"
  shows "plain_loop d a us = plain_loop d j (us @ [flat TokenString a (j - a)])"
proof (rule loop_at)
  obtain e where e: "is_at d a 0x22" "string_body d (a + 1) e" "is_at d e 0x22" "j = e + 1"
    using assms by (auto simp: json_string_def)
  then show "a < length d" "\<not> isWhitespace (d ! a)"
    by (simp_all add: is_at_def isWhitespace_def)
  show "token_step string_tail d a = (j, Some (flat TokenString a (j - a)))"
    using e string_tail_body [OF e(2,3)] by (simp add: token_step_def is_at_def punctuation_def Let_def)
qed

lemma literal_step:
  "literal_at ''true'' d a j \<Longrightarrow> token_step string_tail d a = (j, Some (flat TokenTrue a 4))"
  "literal_at ''false'' d a j \<Longrightarrow> token_step string_tail d a = (j, Some (flat TokenFalse a 5))"
  "literal_at ''null'' d a j \<Longrightarrow> token_step string_tail d a = (j, Some (flat TokenNull a 4))"
proof -
  note unfold = token_step_def literal_token_words Let_def
  show "literal_at ''true'' d a j \<Longrightarrow> token_step string_tail d a = (j, Some (flat TokenTrue a 4))"
    using literal_start(1) [of d a j] literal_at_simps(1) [of d a j]
    unfolding unfold by (auto simp: is_at_def punctuation_def)
  show "literal_at ''false'' d a j \<Longrightarrow> token_step string_tail d a = (j, Some (flat TokenFalse a 5))"
    using literal_start(2) [of d a j] literal_at_simps(2) [of d a j]
    unfolding unfold by (auto simp: is_at_def punctuation_def)
  show "literal_at ''null'' d a j \<Longrightarrow> token_step string_tail d a = (j, Some (flat TokenNull a 4))"
    using literal_start(3) [of d a j] literal_at_simps(3) [of d a j]
    unfolding unfold by (auto simp: is_at_def punctuation_def)
qed

lemma loop_literal:
  "literal_at ''true'' d a j \<Longrightarrow> plain_loop d a us = plain_loop d j (us @ [flat TokenTrue a 4])"
  "literal_at ''false'' d a j \<Longrightarrow> plain_loop d a us = plain_loop d j (us @ [flat TokenFalse a 5])"
  "literal_at ''null'' d a j \<Longrightarrow> plain_loop d a us = plain_loop d j (us @ [flat TokenNull a 4])"
  by (rule loop_at; use literal_step [of d a j] literal_start [of d a j] in
      \<open>auto simp: is_at_def isWhitespace_def\<close>)+

definition number_stops :: "octet list \<Rightarrow> nat \<Rightarrow> bool" where
  "number_stops d j = (\<not> (j < length d \<and> number_byte (d ! j)))"

definition number_bytes :: "octet list \<Rightarrow> nat \<Rightarrow> nat \<Rightarrow> bool" where
  "number_bytes d i j = (i \<le> j \<and> (\<forall>k. i \<le> k \<longrightarrow> k < j \<longrightarrow> k < length d \<and> number_byte (d ! k)))"

lemma number_bytes_trans: "number_bytes d i j \<Longrightarrow> number_bytes d j k \<Longrightarrow> number_bytes d i k"
  unfolding number_bytes_def by (metis le_trans not_le)

lemma number_bytes_refl: "number_bytes d i i"
  by (simp add: number_bytes_def)

lemma number_bytes_one: "i < length d \<Longrightarrow> number_byte (d ! i) \<Longrightarrow> number_bytes d i (i + 1)"
  by (auto simp: number_bytes_def le_less_Suc_eq)

lemma number_bytes_Suc:
  "i < length d \<Longrightarrow> number_byte (d ! i) \<Longrightarrow> number_bytes d (i + 1) j \<Longrightarrow> number_bytes d i j"
  by (rule number_bytes_trans [OF number_bytes_one])

lemma number_bytes_digits: "digits d i j \<Longrightarrow> number_bytes d i j"
  by (auto simp: number_bytes_def digits_def digit_at_def number_byte_def)

lemma number_bytes_end:
  assumes "number_bytes d i j" "number_stops d j"
  shows "number_end d i = j"
  using assms
proof (induction "j - i" arbitrary: i)
  case 0
  then have "i = j" by (simp add: number_bytes_def)
  with 0(3) show ?case by (subst number_end.simps) (auto simp: number_stops_def)
next
  case (Suc n)
  then have "i < length d" "number_byte (d ! i)" "number_bytes d (i + 1) j"
    by (auto simp: number_bytes_def)
  with Suc show ?case by (subst number_end.simps) simp
qed

lemma json_number_bytes:
  assumes "json_number d i j"
  shows "number_bytes d i j" "isDigit (d ! i) \<or> d ! i = 0x2D" "i < length d"
proof -
  obtain a b c where a: "a = i \<or> is_at d i 0x2D \<and> a = i + 1" and b: "int_part d a b"
    and c: "frac_part d b c" and j: "exp_part d c j"
    using assms by (auto simp: json_number_def)
  have "number_bytes d i a"
    using a number_bytes_refl [of d i] number_bytes_one [of i d] by (auto simp: is_at_def number_byte_def)
  moreover have int: "number_bytes d a b" "a < length d" "isDigit (d ! a)"
    using b number_bytes_one [of a d] number_bytes_digits [of d a b] digits_at [of d a b]
    by (auto simp: int_part_def is_at_def number_byte_def isDigit_def digit_at_def)
  moreover have "number_bytes d b c"
  proof (cases "c = b")
    case False
    with c have "is_at d b 0x2E" "digits d (b + 1) c" by (auto simp: frac_part_def)
    then show ?thesis
      by (intro number_bytes_Suc [OF _ _ number_bytes_digits]) (auto simp: is_at_def number_byte_def)
  qed (simp add: number_bytes_refl)
  moreover have "number_bytes d c j"
  proof (cases "j = c")
    case False
    with j have e: "byte_at d c {0x65, 0x45}"
      and rest: "digits d (c + 1) j \<or> byte_at d (c + 1) {0x2B, 0x2D} \<and> digits d (c + 1 + 1) j"
      by (auto simp: exp_part_def)
    have "number_bytes d (c + 1) j"
      using rest
    proof
      assume "byte_at d (c + 1) {0x2B, 0x2D} \<and> digits d (c + 1 + 1) j"
      then show ?thesis
        by (intro number_bytes_Suc [OF _ _ number_bytes_digits]) (auto simp: byte_at_def number_byte_def)
    qed (rule number_bytes_digits)
    with e show ?thesis
      by (intro number_bytes_Suc [of c]) (auto simp: byte_at_def number_byte_def)
  qed (simp add: number_bytes_refl)
  ultimately show "number_bytes d i j" using number_bytes_trans by blast
  show "isDigit (d ! i) \<or> d ! i = 0x2D" "i < length d"
    using a int by (auto simp: is_at_def)
qed

lemma loop_number:
  assumes "json_number d a j" "number_stops d j"
  shows "plain_loop d a us = plain_loop d j (us @ [flat TokenNumber a (j - a)])"
proof (rule loop_at)
  note number = json_number_bytes [OF assms(1)]
  show "a < length d" by (rule number)
  show "\<not> isWhitespace (d ! a)"
    using number(2) by (auto simp: isWhitespace_def isDigit_def)
  have "punctuation (d ! a) = None" "d ! a \<notin> {0x22, 0x74, 0x66, 0x6E}"
    using number(2) by (auto simp: punctuation_def isDigit_def)
  then show "token_step string_tail d a = (j, Some (flat TokenNumber a (j - a)))"
    using number(2) number_bytes_end [OF number(1) assms(2)] by (auto simp: token_step_def Let_def)
qed

lemma number_stops_before:
  assumes "spaces d c e" "is_at d e b" "b \<in> {0x2C, 0x5D, 0x7D}"
  shows "number_stops d c"
proof -
  have "c < length d \<and> (isWhitespace (d ! c) \<or> d ! c = b)"
    using assms(1,2) by (cases "c = e") (auto simp: spaces_def is_at_def)
  with assms(3) show ?thesis
    by (auto simp: number_stops_def number_byte_def isDigit_def isWhitespace_def)
qed

lemma punctuation_simps [simp]:
  "punctuation 0x7B = Some TokenObjectStart" "punctuation 0x7D = Some TokenObjectEnd"
  "punctuation 0x5B = Some TokenArrayStart" "punctuation 0x5D = Some TokenArrayEnd"
  "punctuation 0x3A = Some TokenColon" "punctuation 0x2C = Some TokenComma"
  by (simp_all add: punctuation_def)

text \<open>A part of the grammar takes the loop from its start to its end and adds its tokens.\<close>

definition lexed :: "octet list \<Rightarrow> nat \<Rightarrow> nat \<Rightarrow> json_token list \<Rightarrow> bool" where
  "lexed d i j ts = (\<forall>us. plain_loop d i us = plain_loop d j (us @ map flatten_token ts))"

lemma lexed_trans: "lexed d i j ts \<Longrightarrow> lexed d j k us \<Longrightarrow> lexed d i k (ts @ us)"
  by (simp add: lexed_def)

lemma lexed_spaces: "spaces d i a \<Longrightarrow> lexed d a j ts \<Longrightarrow> lexed d i j ts"
  using loop_spaces by (simp add: lexed_def)

lemma lexed_punctuation: "is_at d a b \<Longrightarrow> punctuation b = Some ty \<Longrightarrow> lexed d a (a + 1) [token_at ty a 1]"
  using loop_punctuation by (simp add: lexed_def)

lemma lexed_mark:
  "spaces d i a \<Longrightarrow> is_at d a b \<Longrightarrow> punctuation b = Some ty \<Longrightarrow> lexed d i (a + 1) [token_at ty a 1]"
  by (rule lexed_spaces, assumption) (rule lexed_punctuation)

lemma grammar_lexed:
  "value_text ProcessKeyString d i j ts \<Longrightarrow> number_stops d j \<longrightarrow> lexed d i j ts"
  "json_members ProcessKeyString d i j ts \<Longrightarrow> number_stops d j \<longrightarrow> lexed d i j ts"
  "json_elements ProcessKeyString d i j ts \<Longrightarrow> number_stops d j \<longrightarrow> lexed d i j ts"
  "json_member ProcessKeyString d i j ts \<Longrightarrow> number_stops d j \<longrightarrow> lexed d i j ts"
proof (induction rule: value_text_json_members_json_elements_json_member.inducts)
  case (v_object i a c ts e)
  have "number_stops d c" using number_stops_before [OF v_object(5,6)] by simp
  with v_object show ?case
    using lexed_trans [OF lexed_mark [OF v_object(1,2)] lexed_trans [OF _ lexed_mark [OF v_object(5,6)], of "a + 1" ts]]
    by simp
next
  case (v_array i a c ts e)
  have "number_stops d c" using number_stops_before [OF v_array(5,6)] by simp
  with v_array show ?case
    using lexed_trans [OF lexed_mark [OF v_array(1,2)] lexed_trans [OF _ lexed_mark [OF v_array(5,6)], of "a + 1" ts]]
    by simp
next
  case (m_more i c ts e j us)
  have "number_stops d c" using number_stops_before [OF m_more(3,4)] by simp
  with m_more show ?case
    using lexed_trans [OF lexed_trans [OF _ lexed_mark [OF m_more(3,4)], of i ts], of _ j us] by simp
next
  case (e_more i c ts e j us)
  have "number_stops d c" using number_stops_before [OF e_more(3,4)] by simp
  with e_more show ?case
    using lexed_trans [OF lexed_trans [OF _ lexed_mark [OF e_more(3,4)], of i ts], of _ j us] by simp
next
  case (member i a b c j ts)
  have "lexed d i b [key_token ProcessKeyString d (a + 1) (b - a - 2)]"
    using string_bounds [OF member(2)] loop_string [OF member(2)] loop_spaces [OF member(1)] flatten_key [of a b]
    by (simp add: lexed_def)
  from lexed_trans [OF this lexed_mark [OF member(3,4)], of TokenColon] member(6) show ?case
    using lexed_trans [of d i "c + 1" _ j ts] by fastforce
next
  case (v_object0 i a e)
  then show ?case
    using lexed_trans [OF lexed_mark [OF v_object0(1,2)] lexed_mark [OF v_object0(3,4)]] by simp
next
  case (v_array0 i a e)
  then show ?case
    using lexed_trans [OF lexed_mark [OF v_array0(1,2)] lexed_mark [OF v_array0(3,4)]] by simp
qed (simp_all add: lexed_def loop_spaces loop_string loop_number loop_literal)

lemma number_stops_end: "spaces d j (length d) \<Longrightarrow> number_stops d j"
  by (auto simp: spaces_def number_stops_def number_byte_def isDigit_def isWhitespace_def)

text \<open>
  C32: on a JSON text the tokenizer of the stress test returns, with the tokens that the parser of
  \<open>superjsonic_multi.go\<close> returns without atoms, followed by the end of the input.
\<close>

theorem tokenizer_on_JSON:
  assumes "ParseJSON cfg d (createParser cfg) = (Ok, q)" "\<not> EnableAtoms cfg"
    "spaces d (jp_pos q) (length d)"
  shows "stress_Parse d = Some (map flatten_token (jp_tokens q) @ [flat TokenEOF (length d) 0])"
proof -
  have "value_text ProcessKeyString d 0 (jp_pos q) (jp_tokens q)"
    using run_sound(1) [OF assms(1)] assms(2) by (simp add: keys_as_def)
  from grammar_lexed(1) [OF this] have "lexed d 0 (jp_pos q) (jp_tokens q)"
    using number_stops_end [OF assms(3)] by simp
  moreover have "skip_basic d (jp_pos q) = length d"
    using assms(3) by (intro skip_basic_eq) simp_all
  then have "plain_loop d (jp_pos q) us = Some us" for us
    by (intro loop_end) simp
  ultimately show ?thesis
    by (simp add: stress_Parse_plain lexed_def with_eof_def)
qed

definition no_atoms_config :: json_config where
  "no_atoms_config = default_config\<lparr>EnableAtoms := False\<rparr>"

theorem tokenizer_on_JSON_witness:
  "stress_Parse sample_input = Some (map flatten_token
     (jp_tokens (snd (ParseJSON no_atoms_config sample_input (createParser no_atoms_config))))
     @ [flat TokenEOF 9 0])"
proof -
  let ?r = "ParseJSON no_atoms_config sample_input (createParser no_atoms_config)"
  have ok: "fst ?r = Ok" "jp_pos (snd ?r) = 9" by code_simp+
  have len: "length sample_input = 9" by code_simp
  have "?r = (Ok, snd ?r)" using ok by (simp add: prod_eq_iff)
  moreover have "\<not> EnableAtoms no_atoms_config" by (simp add: no_atoms_config_def)
  moreover have "spaces sample_input (jp_pos (snd ?r)) (length sample_input)" by (simp add: ok len)
  ultimately show ?thesis using tokenizer_on_JSON len by metis
qed

section \<open>The optimised tokenizer\<close>

text \<open>
  The tokenizer with the detection of large arrays returns what the one of the stress test
  returns, unless the detection does not return; the two loops that it chooses from agree with
  \<open>parseRange\<close> over the whole input.
\<close>

theorem opt_Parse_agrees:
  "opt_Parse d = (if opt_detectLargeArray d = None then None else stress_Parse d)
   \<and> stress_Parse d = map_option (with_eof d) (parseRange d 0 (length d))"
  by (simp add: opt_Parse_def stress_Parse_def parseStandard_def parseOptimizedArray_def parseRange_def
      fast_is_plain split: option.splits)

text \<open>The detection looks for tokens only in an object: on a text that begins with an array it returns.\<close>

lemma detection_returns_on_array:
  "is_at d (skip_basic d 0) 0x5B \<Longrightarrow> opt_detectLargeArray d \<noteq> None"
  by (simp add: opt_detectLargeArray_def is_at_def Let_def)

text \<open>The average size of an element is not zero: the division of \<open>estimateArraySize\<close> does not panic.\<close>

lemma count_commas_le: "count_commas d s is depth q n \<le> n + length is"
proof (induction d s "is" depth q n rule: count_commas.induct)
  case (2 d s i "is" depth q n)
  then show ?case by (auto simp: Let_def le_Suc_eq)
qed simp

lemma count_commas_less:
  assumes "depth \<le> 0" "is \<noteq> []"
  shows "count_commas d s is depth q n < n + length is"
proof (cases "is")
  case (Cons i js)
  have "count_commas d s js depth' q' n < n + length is" for depth' q'
    using count_commas_le [of d s js depth' q' n] Cons by simp
  with assms(1) Cons show ?thesis by (auto simp: Let_def)
qed (use assms in simp)

lemma average_positive:
  assumes "0 < count_commas d i [i..<n] 0 False 0"
  shows "0 < (n - i) div (count_commas d i [i..<n] 0 False 0 + 1)"
proof -
  have "[i..<n] \<noteq> []" using assms count_commas.simps(1) by (metis less_irrefl)
  from count_commas_less [OF order_refl this, of d i False 0]
  show ?thesis by (simp add: div_greater_zero_iff)
qed

end
