(* ===== verification/PacketBuffer.thy ===== *)
theory PacketBuffer
  imports Swar
begin

text \<open>
  The packet buffer of \<open>superjsonic_stresstest.go\<close>: a slice of packets of 2048 words of eight bytes
  each, to which \<open>Write\<close> appends bytes by OR-ing them into the words.
\<close>

section \<open>Operations\<close>

record packet_buffer =
  pb_packets :: "64 word list list"
  pb_pos :: nat

definition empty_packet :: "64 word list" where
  "empty_packet = replicate 2048 0"

definition NewPacketBuffer :: packet_buffer where
  "NewPacketBuffer = \<lparr>pb_packets = [empty_packet], pb_pos = 0\<rparr>"

text \<open>The loop over the bytes that go into one word, from its byte \<open>b\<close> on.\<close>

definition or_into :: "64 word \<Rightarrow> nat \<Rightarrow> octet list \<Rightarrow> 64 word" where
  "or_into w b data = fold (\<lambda>i w. w OR push_bit ((b + i) * 8) (ucast (data ! i))) [0..<length data] w"

text \<open>One turn of the loop of \<open>Write\<close>; None stands for an index out of range.\<close>

definition write_word :: "octet list \<Rightarrow> packet_buffer \<Rightarrow> (octet list \<times> packet_buffer) option" where
  "write_word data pb =
     (let packetIdx = pb_pos pb div 16384;
          byteIdx = pb_pos pb mod 16384;
          uint64Idx = byteIdx div 8;
          byteInUint64 = byteIdx mod 8;
          packets = (if length (pb_packets pb) \<le> packetIdx then pb_packets pb @ [empty_packet]
                     else pb_packets pb);
          toWrite = min (length data) (8 - byteInUint64)
      in if packetIdx < length packets \<and> uint64Idx < length (packets ! packetIdx)
         then Some (drop toWrite data,
           \<lparr>pb_packets = packets[packetIdx := (packets ! packetIdx)[uint64Idx :=
              or_into (packets ! packetIdx ! uint64Idx) byteInUint64 (take toWrite data)]],
            pb_pos = pb_pos pb + toWrite\<rparr>)
         else None)"

lemma write_word_less: "write_word data pb = Some (rest, pb') \<Longrightarrow> data \<noteq> [] \<Longrightarrow> length rest < length data"
  by (auto simp: write_word_def Let_def split: if_splits)

function Write :: "octet list \<Rightarrow> packet_buffer \<Rightarrow> packet_buffer option" where
  "Write data pb = (if data = [] then Some pb
     else case write_word data pb of None \<Rightarrow> None | Some (rest, pb') \<Rightarrow> Write rest pb')"
  by pat_completeness auto
termination Write
  by (relation "measure (\<lambda>(data, pb). length data)") (auto dest: write_word_less)

declare Write.simps [simp del]

text \<open>The memory of the packets, and \<open>GetStringView\<close> with the text that it refers to.\<close>

definition buffer_bytes :: "packet_buffer \<Rightarrow> octet list" where
  "buffer_bytes pb = concat (map lanes (concat (pb_packets pb)))"

definition GetStringView :: "packet_buffer \<Rightarrow> nat \<Rightarrow> nat \<Rightarrow> octet list option" where
  "GetStringView pb offset len =
     (if len = 0 then Some []
      else if offset div 16384 < length (pb_packets pb) \<and> offset + len \<le> length (buffer_bytes pb)
      then Some (take len (drop offset (buffer_bytes pb))) else None)"

section \<open>Words as bytes\<close>

lemma nth_concat_uniform:
  assumes "\<forall>xs \<in> set xss. length xs = n" "m < n * length xss"
  shows "concat xss ! m = xss ! (m div n) ! (m mod n)"
  using assms
proof (induction xss arbitrary: m)
  case (Cons xs xss)
  then have n: "length xs = n" "0 < n" by (auto intro: Nat.gr0I)
  show ?case
  proof (cases "m < n")
    case False
    then have "concat xss ! (m - n) = xss ! ((m - n) div n) ! ((m - n) mod n)"
      using Cons by simp
    moreover have "m div n = Suc ((m - n) div n)" "m mod n = (m - n) mod n"
      using False n(2) by (simp_all add: le_div_geq le_mod_geq)
    ultimately show ?thesis using False n by (simp add: nth_append)
  qed (use n in \<open>simp add: nth_append\<close>)
qed simp

lemma length_concat_uniform:
  "\<forall>xs \<in> set xss. length xs = n \<Longrightarrow> length (concat xss) = n * length xss"
  by (induction xss) simp_all

lemma bit_or_into:
  "bit (or_into w b data) n \<longleftrightarrow> bit w n \<or> (n < 64 \<and> (\<exists>i < length data. (b + i) * 8 \<le> n \<and> bit (data ! i) (n - (b + i) * 8)))"
proof -
  have fold: "bit (fold (\<lambda>i w. w OR push_bit ((b + i) * 8) (ucast (data ! i))) js w) n
      \<longleftrightarrow> bit w n \<or> (\<exists>i \<in> set js. n < 64 \<and> (b + i) * 8 \<le> n \<and> bit (data ! i) (n - (b + i) * 8))" for js
    by (induction js arbitrary: w) (auto simp: bit_or_iff bit_push_bit_iff bit_ucast_iff)
  show ?thesis unfolding or_into_def fold by auto
qed

lemma lanes_or_into:
  assumes "b + length data \<le> 8" "j < 8" "\<forall>k. b \<le> k \<longrightarrow> k < 8 \<longrightarrow> lanes w ! k = 0"
  shows "lanes (or_into w b data) ! j = (if b \<le> j \<and> j < b + length data then data ! (j - b) else lanes w ! j)"
proof (rule bit_word_eqI)
  fix m assume "m < LENGTH(8)"
  then have m: "m < 8" by simp
  have at: "(b + i) * 8 \<le> 8 * j + m \<and> bit (data ! i) (8 * j + m - (b + i) * 8) \<longleftrightarrow> b + i = j \<and> bit (data ! i) m"
    if "i < length data" for i
  proof (cases "b + i = j")
    case False
    have "\<not> bit (data ! i) (8 * j + m - (b + i) * 8)" if "(b + i) * 8 \<le> 8 * j + m"
    proof -
      have "b + i < j" using that False m by presburger
      then obtain e where "j = b + i + Suc e" using less_imp_Suc_add by auto
      then have "8 \<le> 8 * j + m - (b + i) * 8" by (simp add: algebra_simps)
      then show ?thesis using bit_imp_le_length [of "data ! i"] by fastforce
    qed
    with False show ?thesis by blast
  next
    case True
    then have "8 * j + m - (b + i) * 8 = m" "(b + i) * 8 \<le> 8 * j + m" by simp_all
    with True show ?thesis by simp
  qed
  have "bit (lanes (or_into w b data) ! j) m \<longleftrightarrow> bit (lanes w ! j) m \<or> (\<exists>i < length data. b + i = j \<and> bit (data ! i) m)"
    using m assms(2) at by (auto simp: bit_lanes bit_or_into)
  also have "\<dots> \<longleftrightarrow> bit (if b \<le> j \<and> j < b + length data then data ! (j - b) else lanes w ! j) m"
    using assms(2,3) by (auto intro: exI [of _ "j - b"])
  finally show "bit (lanes (or_into w b data) ! j) m
      \<longleftrightarrow> bit (if b \<le> j \<and> j < b + length data then data ! (j - b) else lanes w ! j) m" .
qed

section \<open>The memory\<close>

text \<open>The byte at a position of the packets.\<close>

definition byte_of :: "64 word list list \<Rightarrow> nat \<Rightarrow> octet" where
  "byte_of ps m = lanes (ps ! (m div 16384) ! (m mod 16384 div 8)) ! (m mod 8)"

definition packets_ok :: "64 word list list \<Rightarrow> bool" where
  "packets_ok ps = (\<forall>p \<in> set ps. length p = 2048)"

lemma length_buffer: "packets_ok (pb_packets pb) \<Longrightarrow> length (buffer_bytes pb) = 16384 * length (pb_packets pb)"
  using length_concat_uniform [of "pb_packets pb" 2048]
    length_concat_uniform [of "map lanes (concat (pb_packets pb))" 8]
  by (simp add: buffer_bytes_def packets_ok_def)

lemma buffer_nth:
  assumes "packets_ok (pb_packets pb)" "m < 16384 * length (pb_packets pb)"
  shows "buffer_bytes pb ! m = byte_of (pb_packets pb) m"
proof -
  let ?ps = "pb_packets pb"
  have len: "length (concat ?ps) = 2048 * length ?ps"
    using assms(1) by (intro length_concat_uniform) (simp add: packets_ok_def)
  have word: "m div 8 < 2048 * length ?ps" using assms(2) by (simp add: less_mult_imp_div_less)
  have "buffer_bytes pb ! m = map lanes (concat ?ps) ! (m div 8) ! (m mod 8)"
    unfolding buffer_bytes_def using assms(2) len by (intro nth_concat_uniform) auto
  also have "\<dots> = lanes (concat ?ps ! (m div 8)) ! (m mod 8)"
    using word len by simp
  also have "concat ?ps ! (m div 8) = ?ps ! (m div 8 div 2048) ! (m div 8 mod 2048)"
    using assms(1) word by (intro nth_concat_uniform) (auto simp: packets_ok_def)
  also have "m div 8 div 2048 = m div 16384"
    using div_mult2_eq [of m 8 2048] by simp
  also have "m div 8 mod 2048 = m mod 16384 div 8"
    using mod_mult2_eq [of m 8 2048] by simp
  finally show ?thesis by (simp add: byte_of_def)
qed

text \<open>All packets are whole, the position is within them, and there are only zeros behind it.\<close>

definition buffer_inv :: "packet_buffer \<Rightarrow> bool" where
  "buffer_inv pb = (packets_ok (pb_packets pb) \<and> pb_pos pb \<le> 16384 * length (pb_packets pb)
     \<and> (\<forall>m. pb_pos pb \<le> m \<longrightarrow> m < 16384 * length (pb_packets pb) \<longrightarrow> byte_of (pb_packets pb) m = 0))"

lemma lanes_zero: "j < 8 \<Longrightarrow> lanes 0 ! j = 0"
  by (simp add: lanes_def)

lemma new_inv: "buffer_inv NewPacketBuffer"
  by (simp add: buffer_inv_def NewPacketBuffer_def packets_ok_def empty_packet_def byte_of_def
      lanes_zero less_mult_imp_div_less)

text \<open>The packets after the one that may be appended.\<close>

lemma grown_packets:
  assumes "buffer_inv pb"
    and ps: "ps = (if length (pb_packets pb) \<le> pb_pos pb div 16384 then pb_packets pb @ [empty_packet] else pb_packets pb)"
  shows "packets_ok ps" "pb_pos pb < 16384 * length ps"
    "m < pb_pos pb \<Longrightarrow> byte_of ps m = byte_of (pb_packets pb) m"
    "pb_pos pb \<le> m \<Longrightarrow> m < 16384 * length ps \<Longrightarrow> byte_of ps m = 0"
proof -
  let ?old = "pb_packets pb"
  have old: "packets_ok ?old" "pb_pos pb \<le> 16384 * length ?old"
    and zero: "\<And>m. pb_pos pb \<le> m \<Longrightarrow> m < 16384 * length ?old \<Longrightarrow> byte_of ?old m = 0"
    using assms(1) by (auto simp: buffer_inv_def)
  show "packets_ok ps" using old by (auto simp: ps packets_ok_def empty_packet_def)
  show "pb_pos pb < 16384 * length ps"
    using old(2) by (auto simp: ps not_le div_less_iff_less_mult mult.commute)
  have same: "byte_of ps m = byte_of ?old m" if "m < 16384 * length ?old" for m
    using that by (auto simp: ps byte_of_def nth_append less_mult_imp_div_less mult.commute)
  show "m < pb_pos pb \<Longrightarrow> byte_of ps m = byte_of ?old m"
    using same old(2) by simp
  assume m: "pb_pos pb \<le> m" "m < 16384 * length ps"
  show "byte_of ps m = 0"
  proof (cases "m < 16384 * length ?old")
    case False
    then have "ps = ?old @ [empty_packet]" "m div 16384 = length ?old"
      using m(2) by (auto simp: ps split: if_splits)
    then show ?thesis
      by (simp add: byte_of_def nth_append empty_packet_def lanes_zero less_mult_imp_div_less)
  qed (use same zero m in simp)
qed

text \<open>The packets with one word replaced.\<close>

lemma byte_of_update:
  assumes "packets_ok ps" "k < length ps" "u < 2048"
  shows "byte_of (ps[k := (ps ! k)[u := w]]) m
    = (if m div 16384 = k \<and> m mod 16384 div 8 = u then lanes w ! (m mod 8) else byte_of ps m)"
proof -
  have "length (ps ! k) = 2048" using assms(1,2) by (simp add: packets_ok_def)
  with assms(2,3) show ?thesis by (auto simp: byte_of_def nth_list_update)
qed

lemma word_index: "m div 16384 = m div 8 div 2048" "m mod 16384 div 8 = m div 8 mod 2048" for m :: nat
  using div_mult2_eq [of m 8 2048] mod_mult2_eq [of m 8 2048] by simp_all

lemma same_word: "m div 16384 = q div 16384 \<and> m mod 16384 div 8 = q mod 16384 div 8 \<longleftrightarrow> m div 8 = q div 8"
  for m q :: nat
  unfolding word_index by (metis div_mult_mod_eq)

lemma byte_of_word:
  "i < 8 \<Longrightarrow> byte_of ps (8 * (q div 8) + i) = lanes (ps ! (q div 16384) ! (q mod 16384 div 8)) ! i"
  by (simp add: byte_of_def word_index)

lemma same_eight:
  fixes m p :: nat
  assumes "p \<le> m" "m < p + (8 - p mod 8)"
  shows "m div 8 = p div 8"
proof -
  obtain q r where p: "p = 8 * q + r" "r < 8"
    by (metis mod_less_divisor mult_div_mod_eq zero_less_numeral)
  with assms have "8 * q \<le> m" "m < 8 * Suc q" by simp_all
  then have "m div 8 = q" by (intro div_nat_eqI)
  with p show ?thesis by simp
qed

lemma word_within:
  fixes p i n :: nat
  assumes "p < 16384 * n" "i < 8"
  shows "8 * (p div 8) + i < 16384 * n"
proof -
  have "p div 8 < 2048 * n" using assms(1) by (simp add: less_mult_imp_div_less)
  then have "p div 8 + 1 \<le> 2048 * n" by simp
  with assms(2) show ?thesis by linarith
qed

lemma word_fits:
  fixes p c n :: nat
  assumes "p mod 16384 mod 8 + c \<le> 8" "p < 16384 * n"
  shows "p + c \<le> 16384 * n"
proof -
  have "8 * (p div 8) + 7 < 16384 * n" using word_within [OF assms(2), of 7] by simp
  moreover have "8 * (p div 8) + p mod 8 = p" by simp
  moreover have "p mod 16384 mod 8 = p mod 8" by (simp add: mod_mod_cancel)
  ultimately show ?thesis using assms(1) by linarith
qed

text \<open>What one turn of the loop does to the memory.\<close>

lemma write_word_step:
  assumes inv: "buffer_inv pb" and data: "data \<noteq> []"
  obtains n pb' where "write_word data pb = Some (drop n data, pb')" "0 < n" "n \<le> length data"
    "pb_pos pb' = pb_pos pb + n" "buffer_inv pb'"
    "\<And>m. m < pb_pos pb \<Longrightarrow> byte_of (pb_packets pb') m = byte_of (pb_packets pb) m"
    "\<And>i. i < n \<Longrightarrow> byte_of (pb_packets pb') (pb_pos pb + i) = data ! i"
proof -
  let ?pos = "pb_pos pb"
  let ?k = "?pos div 16384" and ?u = "?pos mod 16384 div 8" and ?b = "?pos mod 16384 mod 8"
  let ?n = "min (length data) (8 - ?b)"
  define ps where "ps = (if length (pb_packets pb) \<le> ?k then pb_packets pb @ [empty_packet] else pb_packets pb)"
  note grown = grown_packets [OF inv ps_def]
  let ?w = "or_into (ps ! ?k ! ?u) ?b (take ?n data)"
  let ?pb = "\<lparr>pb_packets = ps[?k := (ps ! ?k)[?u := ?w]], pb_pos = ?pos + ?n\<rparr>"
  have b: "?b = ?pos mod 8" by (simp add: mod_mod_cancel)
  have k: "?k < length ps" using grown(2) by (simp add: less_mult_imp_div_less mult.commute)
  have u: "?u < 2048" by (simp add: less_mult_imp_div_less)
  have "length (ps ! ?k) = 2048" using grown(1) k by (simp add: packets_ok_def)
  with k u have step: "write_word data pb = Some (drop ?n data, ?pb)"
    by (simp add: write_word_def Let_def ps_def [symmetric])
  have byte: "byte_of (pb_packets ?pb) m = (if ?pos \<le> m \<and> m < ?pos + ?n then data ! (m - ?pos) else byte_of ps m)"
    if m: "m < 16384 * length ps" for m
  proof (cases "m div 8 = ?pos div 8")
    case False
    have "\<not> (?pos \<le> m \<and> m < ?pos + ?n)"
    proof
      assume "?pos \<le> m \<and> m < ?pos + ?n"
      then have "?pos \<le> m" "m < ?pos + (8 - ?pos mod 8)" unfolding b by auto
      then have "m div 8 = ?pos div 8" by (rule same_eight)
      with False show False ..
    qed
    with False show ?thesis
      using byte_of_update [OF grown(1) k u, of ?w m] same_word [of m ?pos] by auto
  next
    case True
    define j where "j = m mod 8"
    have j: "j < 8" by (simp add: j_def)
    have mj: "m = 8 * (?pos div 8) + j" using mult_div_mod_eq [of 8 m] True by (simp only: j_def)
    have pos: "8 * (?pos div 8) + ?b = ?pos" unfolding b by (rule mult_div_mod_eq)
    have old: "lanes (ps ! ?k ! ?u) ! i = byte_of ps (8 * (?pos div 8) + i)" if "i < 8" for i
      using byte_of_word [OF that, of ps ?pos] by simp
    have zero: "lanes (ps ! ?k ! ?u) ! i = 0" if i: "?b \<le> i" "i < 8" for i
    proof -
      have "8 * (?pos div 8) + i < 16384 * length ps" using grown(2) i(2) by (rule word_within)
      moreover have "?pos \<le> 8 * (?pos div 8) + i" using pos i(1) by linarith
      ultimately show ?thesis using grown(4) old [OF i(2)] by simp
    qed
    have "lanes ?w ! j = (if ?b \<le> j \<and> j < ?b + ?n then take ?n data ! (j - ?b) else lanes (ps ! ?k ! ?u) ! j)"
      using lanes_or_into [of ?b "take ?n data" j "ps ! ?k ! ?u"] j zero by simp
    moreover have "?pos \<le> m \<longleftrightarrow> ?b \<le> j" "m < ?pos + ?n \<longleftrightarrow> j < ?b + ?n" "m - ?pos = j - ?b"
      using pos mj by linarith+
    moreover have "byte_of (pb_packets ?pb) m = lanes ?w ! j"
      using byte_of_update [OF grown(1) k u, of ?w m] same_word [of m ?pos] True j_def by simp
    moreover have "lanes (ps ! ?k ! ?u) ! j = byte_of ps m"
      by (subst mj) (rule old [OF j])
    moreover have "take ?n data ! (j - ?b) = data ! (j - ?b)" if "?b \<le> j \<and> j < ?b + ?n"
      using that by (intro nth_take) linarith
    ultimately show ?thesis by presburger
  qed
  have len: "length (pb_packets ?pb) = length ps" by simp
  have ok: "packets_ok (pb_packets ?pb)"
    using grown(1) k by (auto simp: packets_ok_def set_conv_nth nth_list_update)
  have "?b + ?n \<le> 8" by simp
  then have fits: "?pos + ?n \<le> 16384 * length ps"
    using grown(2) by (rule word_fits)
  have zeros: "byte_of (pb_packets ?pb) m = 0" if "pb_pos ?pb \<le> m" "m < 16384 * length (pb_packets ?pb)" for m
  proof -
    have m: "?pos + ?n \<le> m" "m < 16384 * length ps" using that by simp_all
    then have "\<not> (?pos \<le> m \<and> m < ?pos + ?n)" "?pos \<le> m" by linarith+
    then show ?thesis using byte [OF m(2)] grown(4) m(2) by (simp only: if_False)
  qed
  have inv': "buffer_inv ?pb"
    unfolding buffer_inv_def using ok fits zeros len by (metis packet_buffer.select_convs(2))
  show thesis
  proof (rule that [OF step _ _ _ inv'])
    show "0 < ?n" using data by simp
    show "byte_of (pb_packets ?pb) m = byte_of (pb_packets pb) m" if "m < ?pos" for m
      using byte [of m] grown(2,3) that by simp
    show "byte_of (pb_packets ?pb) (?pos + i) = data ! i" if "i < ?n" for i
      using byte [of "?pos + i"] fits that by simp
  qed simp_all
qed

section \<open>What \<open>Write\<close> does\<close>

text \<open>The bytes written so far.\<close>

definition written :: "packet_buffer \<Rightarrow> octet list" where
  "written pb = take (pb_pos pb) (buffer_bytes pb)"

lemma length_written: "buffer_inv pb \<Longrightarrow> length (written pb) = pb_pos pb"
  by (simp add: written_def buffer_inv_def length_buffer)

lemma written_nth: "buffer_inv pb \<Longrightarrow> m < pb_pos pb \<Longrightarrow> written pb ! m = byte_of (pb_packets pb) m"
  by (simp add: written_def buffer_inv_def buffer_nth)

lemma write_word_written:
  assumes "buffer_inv pb" "data \<noteq> []"
  obtains n pb' where "write_word data pb = Some (drop n data, pb')" "0 < n" "n \<le> length data"
    "buffer_inv pb'" "pb_pos pb' = pb_pos pb + n" "written pb' = written pb @ take n data"
proof -
  obtain n pb' where step: "write_word data pb = Some (drop n data, pb')" "0 < n" "n \<le> length data"
      "pb_pos pb' = pb_pos pb + n" "buffer_inv pb'"
    and old: "\<And>m. m < pb_pos pb \<Longrightarrow> byte_of (pb_packets pb') m = byte_of (pb_packets pb) m"
    and new: "\<And>i. i < n \<Longrightarrow> byte_of (pb_packets pb') (pb_pos pb + i) = data ! i"
    using write_word_step [OF assms] by metis
  have "written pb' = written pb @ take n data"
  proof (rule nth_equalityI)
    show "length (written pb') = length (written pb @ take n data)"
      using step assms(1) by (simp add: length_written)
    fix m assume "m < length (written pb')"
    then have m: "m < pb_pos pb + n" using step by (simp add: length_written)
    show "written pb' ! m = (written pb @ take n data) ! m"
    proof (cases "m < pb_pos pb")
      case True
      then show ?thesis
        using old [OF True] step(4,5) assms(1) by (simp add: written_nth nth_append length_written)
    next
      case False
      then have "m - pb_pos pb < n" "pb_pos pb + (m - pb_pos pb) = m" using m by linarith+
      then show ?thesis
        using new [of "m - pb_pos pb"] False m step(3-5) assms(1)
        by (simp add: written_nth nth_append length_written)
    qed
  qed
  with step show thesis by (intro that)
qed

lemma Write_written:
  "buffer_inv pb \<Longrightarrow> \<exists>pb'. Write data pb = Some pb' \<and> buffer_inv pb' \<and> pb_pos pb' = pb_pos pb + length data
    \<and> written pb' = written pb @ data"
proof (induction "length data" arbitrary: data pb rule: less_induct)
  case less
  show ?case
  proof (cases "data = []")
    case True
    then show ?thesis using less.prems by (simp add: Write.simps)
  next
    case False
    then obtain n pb' where step: "write_word data pb = Some (drop n data, pb')" "0 < n" "n \<le> length data"
        "buffer_inv pb'" "pb_pos pb' = pb_pos pb + n" "written pb' = written pb @ take n data"
      using write_word_written [OF less.prems] by metis
    have "length (drop n data) < length data" using step(2,3) by simp
    from less.hyps [OF this step(4)] False step show ?thesis
      by (simp add: Write.simps [of data pb])
  qed
qed

lemma GetStringView_written:
  assumes "buffer_inv pb" "offset + len \<le> pb_pos pb"
  shows "GetStringView pb offset len = Some (take len (drop offset (written pb)))"
proof (cases "len = 0")
  case False
  have "offset < 16384 * length (pb_packets pb)" using assms False by (simp add: buffer_inv_def)
  then have "offset div 16384 < length (pb_packets pb)" by (simp add: less_mult_imp_div_less mult.commute)
  moreover have "offset + len \<le> length (buffer_bytes pb)"
    using assms by (simp add: buffer_inv_def length_buffer)
  ultimately show ?thesis
    using assms(2) by (simp add: GetStringView_def written_def drop_take min_def)
qed (simp add: GetStringView_def)

text \<open>
  What is written to a packet buffer can be read back: \<open>Write\<close> never leaves its packets, keeps
  what was written before, and a string view of any part of the new data is that part.
\<close>

theorem Write_GetStringView:
  assumes "buffer_inv pb" "offset + len \<le> length data"
  shows "\<exists>pb'. Write data pb = Some pb' \<and> buffer_inv pb' \<and> written pb' = written pb @ data
    \<and> GetStringView pb' (pb_pos pb + offset) len = Some (take len (drop offset data))"
proof -
  obtain pb' where pb': "Write data pb = Some pb'" "buffer_inv pb'" "pb_pos pb' = pb_pos pb + length data"
    "written pb' = written pb @ data"
    using Write_written [OF assms(1)] by blast
  moreover have "GetStringView pb' (pb_pos pb + offset) len = Some (take len (drop (pb_pos pb + offset) (written pb')))"
    using assms(2) pb'(2,3) by (intro GetStringView_written) simp_all
  ultimately show ?thesis
    using assms(1) by (simp add: length_written)
qed

theorem Write_GetStringView_witness:
  "\<exists>pb. Write [1, 2, 3, 4, 5, 6, 7, 8, 9, 10] NewPacketBuffer = Some pb \<and> GetStringView pb 7 2 = Some [8, 9]"
  using Write_GetStringView [OF new_inv, of 7 2 "[1, 2, 3, 4, 5, 6, 7, 8, 9, 10]"]
  by (auto simp: NewPacketBuffer_def)

end
