(* ===== verification/AtomEnabled.thy ===== *)
theory AtomEnabled
  imports SuperJsonPool
begin

text \<open>
  \<open>superjsonic/prototype/superjsonic_atomenabled/superjsonic_atomenabled.go\<close>: the first JSON parser
  with atoms. It keeps the atoms of the keys it has met in a cache, tells keys from values by two
  flags, and takes more than JSON: numbers without digits, keys that do not begin with a quote,
  a comma before the closing mark. Every read is behind a test of the bounds but for the slice of
  \<open>GetTokenValue\<close>, which is None where it panics, for data whose capacity is its length.
\<close>

section \<open>Atoms\<close>

definition a_makeAtom64 :: "octet list \<Rightarrow> 64 word" where
  "a_makeAtom64 bs = (if 8 < length bs then 0
     else fold (\<lambda>i atom. atom OR push_bit (i * 8) (ucast (bs ! i))) [0..<length bs] 0)"

text \<open>The high half is filled from \<open>data[i-8]\<close>, that is from the first bytes again.\<close>

definition a_makeAtom128 :: "octet list \<Rightarrow> atom128" where
  "a_makeAtom128 bs = (if 16 < length bs then no_atom128
     else \<lparr>Lo = fold (\<lambda>i lo. lo OR push_bit (i * 8) (ucast (bs ! i))) [0..<min (length bs) 8] 0,
           Hi = fold (\<lambda>i hi. hi OR push_bit ((i - 8) * 8) (ucast (bs ! (i - 8))))
                  [8..<min (length bs) 16] 0\<rparr>)"

section \<open>The parser\<close>

text \<open>What the cache holds for a key: an \<open>interface{}\<close> with an atom of either kind.\<close>

datatype cached_atom = CachedAtom64 "64 word" | CachedAtom128 atom128

type_synonym atom_cache = "octet list \<Rightarrow> cached_atom option"

record early_array_info = array_info +
  firstElementEnd :: nat

definition a_no_array :: early_array_info where
  "a_no_array = \<lparr>isLargeArray = False, tokensPerElement = 0, estimatedElements = 0, firstElementEnd = 0\<rparr>"

record atom_parser =
  ap_data :: "octet list"
  ap_tokens :: "json_token list"
  ap_pos :: nat
  ap_arrayInfo :: early_array_info
  ap_atomCache :: atom_cache
  ap_inObject :: bool
  ap_expectKey :: bool

definition a_newParser :: atom_parser where
  "a_newParser = \<lparr>ap_data = [], ap_tokens = [], ap_pos = 0, ap_arrayInfo = a_no_array,
     ap_atomCache = (\<lambda>_. None), ap_inObject = False, ap_expectKey = False\<rparr>"

text \<open>\<open>ReturnParser\<close> keeps the cache.\<close>

definition a_ReturnParser :: "atom_parser \<Rightarrow> atom_parser" where
  "a_ReturnParser p = p\<lparr>ap_data := [], ap_tokens := [], ap_pos := 0, ap_inObject := False,
     ap_expectKey := False\<rparr>"

type_synonym atom_result = "parse_outcome \<times> atom_parser"

definition a_then :: "atom_result \<Rightarrow> (atom_parser \<Rightarrow> atom_result) \<Rightarrow> atom_result" where
  "a_then r f = (case r of (Ok, p) \<Rightarrow> f p | _ \<Rightarrow> r)"

definition a_addToken :: "json_token_type \<Rightarrow> nat \<Rightarrow> nat \<Rightarrow> 64 word \<Rightarrow> atom128 \<Rightarrow> atom_parser \<Rightarrow> atom_parser" where
  "a_addToken typ offset len a64 a128 p = p\<lparr>ap_tokens := ap_tokens p @
     [\<lparr>jt_Type = typ, jt_Offset = of_nat offset, jt_Length = of_nat len, jt_Atom64 = a64, jt_Atom128 = a128\<rparr>]\<rparr>"

definition a_mark :: "json_token_type \<Rightarrow> atom_parser \<Rightarrow> atom_parser" where
  "a_mark typ p = (a_addToken typ (ap_pos p) 1 0 no_atom128 p)\<lparr>ap_pos := ap_pos p + 1\<rparr>"

definition a_at_end :: "atom_parser \<Rightarrow> bool" where
  "a_at_end p = (length (ap_data p) \<le> ap_pos p)"

definition a_byte :: "atom_parser \<Rightarrow> octet" where
  "a_byte p = ap_data p ! ap_pos p"

text \<open>The methods that make an atom of a key, or find it in the cache.\<close>

definition a_cached64 :: "octet list \<Rightarrow> atom_parser \<Rightarrow> 64 word \<times> atom_parser" where
  "a_cached64 key p = (case ap_atomCache p key of
       Some (CachedAtom64 atom) \<Rightarrow> (atom, p)
     | _ \<Rightarrow> (let atom = a_makeAtom64 key in
         (atom, p\<lparr>ap_atomCache := (ap_atomCache p)(key \<mapsto> CachedAtom64 atom)\<rparr>)))"

definition a_cached128 :: "octet list \<Rightarrow> atom_parser \<Rightarrow> atom128 \<times> atom_parser" where
  "a_cached128 key p = (case ap_atomCache p key of
       Some (CachedAtom128 atom) \<Rightarrow> (atom, p)
     | _ \<Rightarrow> (let atom = a_makeAtom128 key in
         (atom, p\<lparr>ap_atomCache := (ap_atomCache p)(key \<mapsto> CachedAtom128 atom)\<rparr>)))"

section \<open>White space and strings\<close>

text \<open>The loop over words: where it stops, and whether the function returns there.\<close>

function a_skip_words :: "octet list \<Rightarrow> nat \<Rightarrow> nat \<times> bool" where
  "a_skip_words d pos =
     (if pos + 8 \<le> length d then
        if IsWhitespace_real (load64 d pos) = 0 then (pos, False)
        else (case find (\<lambda>j. \<not> isWhitespace (d ! (pos + j))) [0..<8] of
            Some j \<Rightarrow> (pos + j, True) | None \<Rightarrow> a_skip_words d (pos + 8))
      else (pos, False))"
  by pat_completeness auto
termination a_skip_words
  by (relation "measure (\<lambda>(d, pos). length d - pos)") auto

function a_skip_bytes :: "octet list \<Rightarrow> nat \<Rightarrow> nat" where
  "a_skip_bytes d pos =
     (if pos < length d \<and> isWhitespace (d ! pos) then a_skip_bytes d (pos + 1) else pos)"
  by pat_completeness auto
termination a_skip_bytes
  by (relation "measure (\<lambda>(d, pos). length d - pos)") auto

declare a_skip_words.simps [simp del] a_skip_bytes.simps [simp del]

definition a_skipWhitespace :: "atom_parser \<Rightarrow> atom_parser" where
  "a_skipWhitespace p = (case a_skip_words (ap_data p) (ap_pos p) of
       (pos, True) \<Rightarrow> p\<lparr>ap_pos := pos\<rparr>
     | (pos, False) \<Rightarrow> p\<lparr>ap_pos := a_skip_bytes (ap_data p) pos\<rparr>)"

text \<open>The loops of \<open>parseString\<close>; a backslash may carry the position beyond the end.\<close>

function a_scan_bytes :: "octet list \<Rightarrow> nat \<Rightarrow> nat" where
  "a_scan_bytes d pos =
     (if pos < length d \<and> d ! pos \<noteq> 0x22 then
        (let pos = (if d ! pos = 0x5C then pos + 1 else pos) in a_scan_bytes d (pos + 1))
      else pos)"
  by pat_completeness auto
termination a_scan_bytes
  by (relation "measure (\<lambda>(d, pos). length d - pos)") (auto split: if_splits)

function a_scan_words :: "octet list \<Rightarrow> nat \<Rightarrow> nat" where
  "a_scan_words d pos =
     (if pos + 8 \<le> length d then
        let v = load64 d pos in
        if HasByte_real v 0x22 \<or> HasByte_real v 0x5C then
          (case find (\<lambda>j. d ! (pos + j) = 0x5C \<or> d ! (pos + j) = 0x22) [0..<8] of
             Some j \<Rightarrow> if d ! (pos + j) = 0x5C then a_scan_words d (pos + (j + 2)) else pos + j
           | None \<Rightarrow> a_scan_words d (pos + 8))
        else a_scan_words d (pos + 8)
      else a_scan_bytes d pos)"
  by pat_completeness auto
termination a_scan_words
  by (relation "measure (\<lambda>(d, pos). length d - pos)") auto

declare a_scan_bytes.simps [simp del] a_scan_words.simps [simp del]

definition a_string_token :: "nat \<Rightarrow> atom_parser \<Rightarrow> atom_parser" where
  "a_string_token start p =
     (if ap_expectKey p \<and> ap_inObject p then
        (let keyStart = start + 1;
             keyLen = ap_pos p - keyStart;
             key = take keyLen (drop keyStart (ap_data p)) in
         if keyLen \<le> 8 then
           (case a_cached64 key p of (atom, p) \<Rightarrow> a_addToken TokenKey64 0 0 atom no_atom128 p)
         else if keyLen \<le> 16 then
           (case a_cached128 key p of (atom, p) \<Rightarrow> a_addToken TokenKey128 0 0 0 atom p)
         else a_addToken TokenString start (ap_pos p - start + 1) 0 no_atom128 p)
      else a_addToken TokenString start (ap_pos p - start + 1) 0 no_atom128 p)"

definition a_parseString :: "atom_parser \<Rightarrow> atom_result" where
  "a_parseString p =
     (let start = ap_pos p;
          p = p\<lparr>ap_pos := a_scan_words (ap_data p) (start + 1)\<rparr> in
      if a_at_end p then (Err ''unterminated string'', p)
      else let p = a_string_token start p in (Ok, p\<lparr>ap_pos := ap_pos p + 1\<rparr>))"

section \<open>Numbers and literals\<close>

function a_digits :: "octet list \<Rightarrow> nat \<Rightarrow> nat" where
  "a_digits d pos = (if pos < length d \<and> isDigit (d ! pos) then a_digits d (pos + 1) else pos)"
  by pat_completeness auto
termination a_digits
  by (relation "measure (\<lambda>(d, pos). length d - pos)") auto

declare a_digits.simps [simp del]

definition a_fraction_end :: "octet list \<Rightarrow> nat \<Rightarrow> nat" where
  "a_fraction_end d pos = (if pos < length d \<and> d ! pos = 0x2E then a_digits d (pos + 1) else pos)"

definition a_exponent_end :: "octet list \<Rightarrow> nat \<Rightarrow> nat" where
  "a_exponent_end d pos =
     (if pos < length d \<and> (d ! pos = 0x65 \<or> d ! pos = 0x45) then
        (let pos = pos + 1 in
         a_digits d (if pos < length d \<and> (d ! pos = 0x2B \<or> d ! pos = 0x2D) then pos + 1 else pos))
      else pos)"

definition a_number_end :: "octet list \<Rightarrow> nat \<Rightarrow> nat" where
  "a_number_end d start =
     a_exponent_end d (a_fraction_end d (a_digits d (if d ! start = 0x2D then start + 1 else start)))"

definition a_parseNumber :: "atom_parser \<Rightarrow> atom_result" where
  "a_parseNumber p =
     (let start = ap_pos p; p = p\<lparr>ap_pos := a_number_end (ap_data p) start\<rparr>
      in (Ok, a_addToken TokenNumber start (ap_pos p - start) 0 no_atom128 p))"

definition a_literal :: "json_token_type \<Rightarrow> nat \<Rightarrow> atom_parser \<Rightarrow> atom_result" where
  "a_literal typ n p = (let p = a_addToken typ (ap_pos p) n 0 no_atom128 p
     in (Ok, p\<lparr>ap_pos := ap_pos p + n\<rparr>))"

definition a_word_at :: "string \<Rightarrow> atom_parser \<Rightarrow> bool" where
  "a_word_at s p = (ap_pos p + length s \<le> length (ap_data p)
     \<and> take (length s) (drop (ap_pos p) (ap_data p)) = octets s)"

definition a_parseBool :: "atom_parser \<Rightarrow> atom_result" where
  "a_parseBool p =
     (if a_word_at ''true'' p then a_literal TokenTrue 4 p
      else if a_word_at ''false'' p then a_literal TokenFalse 5 p
      else (Err (''invalid boolean at position '' @ show_nat (ap_pos p)), p))"

definition a_parseNull :: "atom_parser \<Rightarrow> atom_result" where
  "a_parseNull p = (if a_word_at ''null'' p then a_literal TokenNull 4 p
     else (Err (''invalid null at position '' @ show_nat (ap_pos p)), p))"

section \<open>Values\<close>

text \<open>
  The end of a round of the two loops is the same but for the closing mark and the messages: a
  comma is read, the mark is left for the next round.
\<close>

definition a_round_end :: "string \<Rightarrow> octet \<Rightarrow> string \<Rightarrow> (atom_parser \<Rightarrow> atom_result) \<Rightarrow> atom_parser \<Rightarrow> atom_result" where
  "a_round_end unterminated close expected loop p =
     (let p = a_skipWhitespace p in
      if a_at_end p then (Err unterminated, p)
      else if a_byte p = 0x2C then loop (a_mark TokenComma p)
      else if a_byte p \<noteq> close then (Err expected, p)
      else loop p)"

definition a_flags :: "bool \<Rightarrow> bool \<Rightarrow> atom_parser \<Rightarrow> atom_parser" where
  "a_flags obj key p = p\<lparr>ap_inObject := obj, ap_expectKey := key\<rparr>"

abbreviation a_expectKey :: "bool \<Rightarrow> atom_parser \<Rightarrow> atom_parser" where
  "a_expectKey key p \<equiv> a_flags (ap_inObject p) key p"

abbreviation a_inObject :: "bool \<Rightarrow> atom_parser \<Rightarrow> atom_parser" where
  "a_inObject obj p \<equiv> a_flags obj (ap_expectKey p) p"

text \<open>What follows a key: the colon, and then what \<open>rest_of\<close> reads.\<close>

definition a_colon :: "(atom_parser \<Rightarrow> atom_result) \<Rightarrow> atom_parser \<Rightarrow> atom_result" where
  "a_colon rest_of p =
     (let p = a_skipWhitespace (a_expectKey False p) in
      if a_at_end p \<or> a_byte p \<noteq> 0x3A then (Err ''expected ':' after object key'', p)
      else rest_of (a_mark TokenColon p))"

fun a_parseValue :: "nat \<Rightarrow> atom_parser \<Rightarrow> atom_result"
  and a_object_loop :: "nat \<Rightarrow> atom_parser \<Rightarrow> atom_result"
  and a_array_loop :: "nat \<Rightarrow> atom_parser \<Rightarrow> atom_result" where
  "a_parseValue 0 p = (NoFuel, p)"
| "a_parseValue (Suc n) p =
     (let p = a_skipWhitespace p in
      if a_at_end p then (Err ''unexpected end of JSON'', p)
      else let b = a_byte p in
        if b = 0x7B then a_object_loop n (a_inObject True (a_mark TokenObjectStart p))
        else if b = 0x5B then a_array_loop n (a_mark TokenArrayStart p)
        else if b = 0x22 then a_parseString p
        else if b = 0x74 \<or> b = 0x66 then a_parseBool p
        else if b = 0x6E then a_parseNull p
        else if b = 0x2D \<or> isDigit b then a_parseNumber p
        else (Err (''unexpected character at position '' @ show_nat (ap_pos p)), p))"
| "a_object_loop 0 p = (NoFuel, p)"
| "a_object_loop (Suc n) p =
     (let p = a_skipWhitespace p in
      if a_at_end p then (Err ''unterminated object'', p)
      else if a_byte p = 0x7D then (Ok, a_inObject False (a_mark TokenObjectEnd p))
      else a_then (a_parseString (a_expectKey True p)) (a_colon (\<lambda>p.
        a_then (a_parseValue n p)
          (a_round_end ''unterminated object'' 0x7D ''expected ',' or '}' in object'' (a_object_loop n)))))"
| "a_array_loop 0 p = (NoFuel, p)"
| "a_array_loop (Suc n) p =
     (let p = a_skipWhitespace p in
      if a_at_end p then (Err ''unterminated array'', p)
      else if a_byte p = 0x5D then (Ok, a_mark TokenArrayEnd p)
      else a_then (a_parseValue n p)
        (a_round_end ''unterminated array'' 0x5D ''expected ',' or ']' in array'' (a_array_loop n)))"

section \<open>Large arrays\<close>

text \<open>The loop of \<open>sampleArrayElement\<close> from index \<open>i\<close>; the \<open>break\<close> comes after index 1001.\<close>

fun a_sample :: "octet list \<Rightarrow> nat \<Rightarrow> int \<Rightarrow> nat" where
  "a_sample [] i depth = 0"
| "a_sample (b # r) i depth =
     (let closing = (b = 0x7D \<or> b = 0x5D);
          depth = (if b = 0x7B \<or> b = 0x5B then depth + 1 else if closing then depth - 1 else depth) in
      if closing \<and> depth = 0 then i + 1
      else if 1000 < i then 0
      else a_sample r (i + 1) depth)"

definition a_sampleArrayElement :: "octet list \<Rightarrow> nat" where
  "a_sampleArrayElement d = a_sample d 0 0"

definition a_patterns :: "octet list list" where
  "a_patterns = map octets [''\"items\":['', ''\"data\":['', ''\"results\":['', ''\"records\":['']"

fun a_pattern_loop :: "octet list \<Rightarrow> octet list list \<Rightarrow> early_array_info" where
  "a_pattern_loop d [] = a_no_array"
| "a_pattern_loop d (pat # pats) = (case bytes_index (take 200 d) pat of
       None \<Rightarrow> a_pattern_loop d pats
     | Some idx \<Rightarrow>
         (let arrayStart = idx + length pat;
              elementSample = a_sampleArrayElement (drop arrayStart d) in
          if 0 < elementSample
          then \<lparr>isLargeArray = True, tokensPerElement = elementSample div 10,
                estimatedElements = (length d - arrayStart) div elementSample, firstElementEnd = 0\<rparr>
          else a_pattern_loop d pats))"

definition a_detectLargeArray :: "octet list \<Rightarrow> early_array_info" where
  "a_detectLargeArray d = (if length d < 100 then a_no_array else a_pattern_loop d a_patterns)"

section \<open>The entry points\<close>

text \<open>\<open>Parse\<close> keeps the cache of the parser.\<close>

definition a_Parse :: "octet list \<Rightarrow> atom_parser \<Rightarrow> atom_result" where
  "a_Parse d p = a_parseValue (2 * length d + 2)
     (p\<lparr>ap_data := d, ap_tokens := [], ap_pos := 0, ap_inObject := False, ap_expectKey := False,
        ap_arrayInfo := a_detectLargeArray d\<rparr>)"

text \<open>\<open>GetTokenValue\<close>; the numbers of the two token types of atoms are 12 and 13.\<close>

definition a_GetTokenValue :: "atom_parser \<Rightarrow> json_token \<Rightarrow> octet list option" where
  "a_GetTokenValue p t =
     (if IsAtom64 t then Some (octets ''<atom:12>'')
      else if IsAtom128 t then Some (octets ''<atom:13>'')
      else let fin = jt_Offset t + jt_Length t in
        if jt_Offset t \<le> fin \<and> unat fin \<le> length (ap_data p)
        then Some (take (unat fin - unat (jt_Offset t)) (drop (unat (jt_Offset t)) (ap_data p)))
        else None)"

end
