(* ===== verification/AtomEnhanced.thy ===== *)
theory AtomEnhanced
  imports SuperJsonPool
begin

text \<open>
  \<open>superjsonic/prototype/superjsonic_atomenabled/superjsonic_atomenhanced.go\<close>: the JSON parser
  from which \<open>superjsonic_multi\<close> was made, before it had a configuration. It is a program of its
  own and modelled as one; of the theory \<open>SuperJson\<close> it uses the types and the tests on bytes,
  which the two files have in common. The theorem at the end is that of a refactoring:
  the parser of \<open>superjsonic_multi\<close> with its default configuration does the same.
\<close>

section \<open>Atoms\<close>

definition e_makeAtom64 :: "octet list \<Rightarrow> 64 word" where
  "e_makeAtom64 bs = (if 8 < length bs then 0
     else fold (\<lambda>i atom. atom OR push_bit (i * 8) (ucast (bs ! i))) [0..<length bs] 0)"

definition e_makeAtom128 :: "octet list \<Rightarrow> atom128" where
  "e_makeAtom128 bs = (if 16 < length bs then no_atom128
     else let fin = (if 8 < length bs then 8 else length bs) in
       \<lparr>Lo = fold (\<lambda>i lo. lo OR push_bit (i * 8) (ucast (bs ! i))) [0..<fin] 0,
        Hi = fold (\<lambda>i hi. hi OR push_bit ((i - 8) * 8) (ucast (bs ! i))) [8..<length bs] 0\<rparr>)"

text \<open>The loops of the \<open>String\<close> methods: bytes \<open>i\<close>, \<open>i + 1\<close>, \dots of a word into the buffer, up to a zero.\<close>

fun e_atom_bytes :: "64 word \<Rightarrow> nat list \<Rightarrow> octet list \<Rightarrow> octet list \<times> bool" where
  "e_atom_bytes a [] buf = (buf, False)"
| "e_atom_bytes a (i # is) buf =
     (let b = ucast (drop_bit (i * 8) a) in
      if b = 0 then (buf, True) else e_atom_bytes a is (buf @ [b]))"

definition e_Atom64_String :: "64 word \<Rightarrow> octet list" where
  "e_Atom64_String a = fst (e_atom_bytes a [0..<8] [])"

definition e_Atom128_String :: "atom128 \<Rightarrow> octet list" where
  "e_Atom128_String a = (case e_atom_bytes (Lo a) [0..<8] [] of
       (buf, True) \<Rightarrow> buf
     | (buf, False) \<Rightarrow> fst (e_atom_bytes (Hi a) [0..<8] buf))"

section \<open>The operations on words\<close>

definition e_HasByte :: "64 word \<Rightarrow> octet \<Rightarrow> bool" where
  "e_HasByte v b = (hasZero (v XOR (ucast b * 0x0101010101010101)) \<noteq> 0)"

definition e_IsWhitespace :: "64 word \<Rightarrow> 64 word" where
  "e_IsWhitespace v =
     hasZero (v XOR 0x2020202020202020) OR hasZero (v XOR 0x0909090909090909)
     OR hasZero (v XOR 0x0A0A0A0A0A0A0A0A) OR hasZero (v XOR 0x0D0D0D0D0D0D0D0D)"

section \<open>The parser\<close>

record enhanced_parser =
  ep_data :: "octet list"
  ep_tokens :: "json_token list"
  ep_pos :: nat
  ep_arrayInfo :: array_info
  ep_contextStack :: "parse_context list"
  ep_currentContext :: parse_context
  ep_atomStats :: atom_stats

definition e_newParser :: enhanced_parser where
  "e_newParser = \<lparr>ep_data = [], ep_tokens = [], ep_pos = 0, ep_arrayInfo = no_array_info,
     ep_contextStack = [], ep_currentContext = ContextValue, ep_atomStats = no_stats\<rparr>"

definition e_ReturnParser :: "enhanced_parser \<Rightarrow> enhanced_parser" where
  "e_ReturnParser p = p\<lparr>ep_data := [], ep_tokens := [], ep_pos := 0, ep_contextStack := [],
     ep_currentContext := ContextValue, ep_atomStats := no_stats\<rparr>"

type_synonym enhanced_result = "parse_outcome \<times> enhanced_parser"

definition e_then :: "enhanced_result \<Rightarrow> (enhanced_parser \<Rightarrow> enhanced_result) \<Rightarrow> enhanced_result" where
  "e_then r f = (case r of (Ok, p) \<Rightarrow> f p | _ \<Rightarrow> r)"

definition e_pushContext :: "parse_context \<Rightarrow> enhanced_parser \<Rightarrow> enhanced_parser" where
  "e_pushContext ctx p = p\<lparr>ep_contextStack := ep_contextStack p @ [ep_currentContext p],
     ep_currentContext := ctx\<rparr>"

definition e_popContext :: "enhanced_parser \<Rightarrow> enhanced_parser" where
  "e_popContext p = (if 0 < length (ep_contextStack p)
     then p\<lparr>ep_currentContext := ep_contextStack p ! (length (ep_contextStack p) - 1),
            ep_contextStack := take (length (ep_contextStack p) - 1) (ep_contextStack p)\<rparr>
     else p\<lparr>ep_currentContext := ContextValue\<rparr>)"

definition e_addToken :: "json_token_type \<Rightarrow> nat \<Rightarrow> nat \<Rightarrow> 64 word \<Rightarrow> atom128 \<Rightarrow>
    enhanced_parser \<Rightarrow> enhanced_parser" where
  "e_addToken typ offset len a64 a128 p = p\<lparr>ep_tokens := ep_tokens p @
     [\<lparr>jt_Type = typ, jt_Offset = of_nat offset, jt_Length = of_nat len, jt_Atom64 = a64, jt_Atom128 = a128\<rparr>]\<rparr>"

text \<open>A token of one byte, and \<open>p.pos++\<close>.\<close>

definition e_mark :: "json_token_type \<Rightarrow> enhanced_parser \<Rightarrow> enhanced_parser" where
  "e_mark typ p = (e_addToken typ (ep_pos p) 1 0 no_atom128 p)\<lparr>ep_pos := ep_pos p + 1\<rparr>"

definition e_at_end :: "enhanced_parser \<Rightarrow> bool" where
  "e_at_end p = (length (ep_data p) \<le> ep_pos p)"

definition e_byte :: "enhanced_parser \<Rightarrow> octet" where
  "e_byte p = ep_data p ! ep_pos p"

definition e_context :: "parse_context \<Rightarrow> enhanced_parser \<Rightarrow> enhanced_parser" where
  "e_context ctx p = p\<lparr>ep_currentContext := ctx\<rparr>"

subsection \<open>White space\<close>

text \<open>The loop over eight bytes tells where it stops, and whether the function returns there.\<close>

function e_skip_words :: "octet list \<Rightarrow> nat \<Rightarrow> nat \<times> bool" where
  "e_skip_words d pos =
     (if pos + 8 \<le> length d then
        if e_IsWhitespace (load64 d pos) = 0 then (pos, True)
        else (case find (\<lambda>j. \<not> isWhitespace (d ! (pos + j))) [0..<8] of
            Some j \<Rightarrow> (pos + j, True) | None \<Rightarrow> e_skip_words d (pos + 8))
      else (pos, False))"
  by pat_completeness auto
termination e_skip_words
  by (relation "measure (\<lambda>(d, pos). length d - pos)") auto

function e_skip_bytes :: "octet list \<Rightarrow> nat \<Rightarrow> nat" where
  "e_skip_bytes d pos =
     (if pos < length d \<and> isWhitespace (d ! pos) then e_skip_bytes d (pos + 1) else pos)"
  by pat_completeness auto
termination e_skip_bytes
  by (relation "measure (\<lambda>(d, pos). length d - pos)") auto

declare e_skip_words.simps [simp del] e_skip_bytes.simps [simp del]

definition e_skipWhitespace :: "enhanced_parser \<Rightarrow> enhanced_parser" where
  "e_skipWhitespace p = (case e_skip_words (ep_data p) (ep_pos p) of
       (pos, True) \<Rightarrow> p\<lparr>ep_pos := pos\<rparr>
     | (pos, False) \<Rightarrow> p\<lparr>ep_pos := e_skip_bytes (ep_data p) pos\<rparr>)"

subsection \<open>Strings\<close>

text \<open>
  The scan from behind the opening quote: the loop over words, which goes on after an escape
  (\<open>continueString\<close>) and leaves at a quote (\<open>stringEnd\<close>), then the loop over bytes.
\<close>

function e_scan_bytes :: "octet list \<Rightarrow> nat \<Rightarrow> nat \<times> string option" where
  "e_scan_bytes d pos =
     (if pos < length d \<and> d ! pos \<noteq> 0x22 then
        if d ! pos = 0x5C then
          (if length d \<le> pos + 1 then (pos + 1, Some ''unterminated string escape'')
           else e_scan_bytes d (pos + 1 + 1))
        else e_scan_bytes d (pos + 1)
      else (pos, None))"
  by pat_completeness auto
termination e_scan_bytes
  by (relation "measure (\<lambda>(d, pos). length d - pos)") auto

text \<open>The loop \<open>for j := 0; j < 8; j++\<close> in a word with a quote or a backslash.\<close>

definition e_special :: "octet list \<Rightarrow> nat \<Rightarrow> nat option" where
  "e_special d pos = find (\<lambda>j. d ! (pos + j) = 0x5C \<or> d ! (pos + j) = 0x22) [0..<8]"

lemma e_special_Some: "e_special d pos = Some j \<Longrightarrow> j < 8"
  by (auto simp: e_special_def find_Some_iff)

function e_scan_words :: "octet list \<Rightarrow> nat \<Rightarrow> nat \<times> string option" where
  "e_scan_words d pos =
     (if pos + 8 \<le> length d then
        let v = load64 d pos in
        if e_HasByte v 0x22 \<or> e_HasByte v 0x5C then
          (case e_special d pos of
             Some j \<Rightarrow> if d ! (pos + j) = 0x5C then e_scan_words d (pos + (j + 2)) else (pos + j, None)
           | None \<Rightarrow> e_scan_words d (pos + 8))
        else e_scan_words d (pos + 8)
      else e_scan_bytes d pos)"
  by pat_completeness auto
termination e_scan_words
  by (relation "measure (\<lambda>(d, pos). length d - pos)") (auto dest: e_special_Some)

declare e_scan_bytes.simps [simp del] e_scan_words.simps [simp del]

definition e_stats :: "(atom_stats \<Rightarrow> atom_stats) \<Rightarrow> enhanced_parser \<Rightarrow> enhanced_parser" where
  "e_stats f p = p\<lparr>ep_atomStats := f (ep_atomStats p)\<rparr>"

text \<open>The token of a string from \<open>start\<close> to the closing quote, at the position of the parser.\<close>

definition e_string_token :: "nat \<Rightarrow> enhanced_parser \<Rightarrow> enhanced_parser" where
  "e_string_token start p = (
     let stringStart = start + 1 in
     if ep_currentContext p = ContextObjectKey then
       (let keyLen = ep_pos p - stringStart;
            p = e_stats (\<lambda>s. s\<lparr>totalKeys := totalKeys s + 1\<rparr>) p;
            key = take keyLen (drop stringStart (ep_data p)) in
        if keyLen \<le> 8 then
          e_stats (\<lambda>s. s\<lparr>atom64Keys := atom64Keys s + 1\<rparr>)
            (e_addToken TokenKey64 0 0 (e_makeAtom64 key) no_atom128 p)
        else if keyLen \<le> 16 then
          e_stats (\<lambda>s. s\<lparr>atom128Keys := atom128Keys s + 1\<rparr>)
            (e_addToken TokenKey128 0 0 0 (e_makeAtom128 key) p)
        else
          e_stats (\<lambda>s. s\<lparr>regularKeys := regularKeys s + 1\<rparr>)
            (e_addToken TokenString start (ep_pos p - start + 1) 0 no_atom128 p))
     else e_addToken TokenString start (ep_pos p - start + 1) 0 no_atom128 p)"

definition e_parseString :: "enhanced_parser \<Rightarrow> enhanced_result" where
  "e_parseString p = (let start = ep_pos p in case e_scan_words (ep_data p) (start + 1) of
       (pos, Some e) \<Rightarrow> (Err e, p\<lparr>ep_pos := pos\<rparr>)
     | (pos, None) \<Rightarrow> (let p = p\<lparr>ep_pos := pos\<rparr> in
         if e_at_end p then (Err ''unterminated string'', p)
         else let p = e_string_token start p in (Ok, p\<lparr>ep_pos := ep_pos p + 1\<rparr>)))"

subsection \<open>Numbers and literals\<close>

function e_digits :: "octet list \<Rightarrow> nat \<Rightarrow> nat" where
  "e_digits d pos = (if pos < length d \<and> isDigit (d ! pos) then e_digits d (pos + 1) else pos)"
  by pat_completeness auto
termination e_digits
  by (relation "measure (\<lambda>(d, pos). length d - pos)") auto

declare e_digits.simps [simp del]

definition e_no_digit :: "octet list \<Rightarrow> nat \<Rightarrow> bool" where
  "e_no_digit d pos = (length d \<le> pos \<or> \<not> isDigit (d ! pos))"

definition e_fraction :: "octet list \<Rightarrow> nat \<Rightarrow> nat \<times> string option" where
  "e_fraction d pos =
     (if pos < length d \<and> d ! pos = 0x2E then
        (let pos = pos + 1 in
         if e_no_digit d pos
         then (pos, Some ''invalid number: decimal point must be followed by digits'')
         else (e_digits d pos, None))
      else (pos, None))"

definition e_exponent :: "octet list \<Rightarrow> nat \<Rightarrow> nat \<times> string option" where
  "e_exponent d pos =
     (if pos < length d \<and> (d ! pos = 0x65 \<or> d ! pos = 0x45) then
        (let pos = pos + 1;
             pos = (if pos < length d \<and> (d ! pos = 0x2B \<or> d ! pos = 0x2D) then pos + 1 else pos) in
         if e_no_digit d pos then (pos, Some ''invalid number: exponent must have digits'')
         else (e_digits d pos, None))
      else (pos, None))"

definition e_scan_number :: "octet list \<Rightarrow> nat \<Rightarrow> nat \<times> string option" where
  "e_scan_number d start =
     (let pos = (if d ! start = 0x2D then start + 1 else start) in
      if e_no_digit d pos then (pos, Some (''invalid number at position '' @ show_nat start))
      else (case e_fraction d (if d ! pos = 0x30 then pos + 1 else e_digits d pos) of
          (pos, Some e) \<Rightarrow> (pos, Some e)
        | (pos, None) \<Rightarrow> e_exponent d pos))"

definition e_parseNumber :: "enhanced_parser \<Rightarrow> enhanced_result" where
  "e_parseNumber p = (let start = ep_pos p in case e_scan_number (ep_data p) start of
       (pos, Some e) \<Rightarrow> (Err e, p\<lparr>ep_pos := pos\<rparr>)
     | (pos, None) \<Rightarrow> (Ok, e_addToken TokenNumber start (pos - start) 0 no_atom128 (p\<lparr>ep_pos := pos\<rparr>)))"

definition e_literal :: "json_token_type \<Rightarrow> nat \<Rightarrow> enhanced_parser \<Rightarrow> enhanced_result" where
  "e_literal typ n p = (let start = ep_pos p; p = e_addToken typ start n 0 no_atom128 p
     in (Ok, p\<lparr>ep_pos := ep_pos p + n\<rparr>))"

definition e_parseBool :: "enhanced_parser \<Rightarrow> enhanced_result" where
  "e_parseBool p = (let d = ep_data p; pos = ep_pos p in
     if pos + 4 \<le> length d \<and> load32 d pos = 0x65757274 then e_literal TokenTrue 4 p
     else if pos + 5 \<le> length d \<and> load32 d pos = 0x736c6166 \<and> d ! (pos + 4) = 0x65
     then e_literal TokenFalse 5 p
     else (Err (''invalid boolean at position '' @ show_nat pos), p))"

definition e_parseNull :: "enhanced_parser \<Rightarrow> enhanced_result" where
  "e_parseNull p = (let d = ep_data p; pos = ep_pos p in
     if pos + 4 \<le> length d \<and> load32 d pos = 0x6c6c756e then e_literal TokenNull 4 p
     else (Err (''invalid null at position '' @ show_nat pos), p))"

subsection \<open>Values\<close>

text \<open>
  The loops of \<open>parseObject\<close> and \<open>parseArray\<close> as functions of the flag \<open>first\<close>; one round is in
  \<open>e_object_round\<close> and \<open>e_array_round\<close>.
\<close>

definition e_expected :: "string \<Rightarrow> enhanced_parser \<Rightarrow> enhanced_result" where
  "e_expected what p = (Err (what @ '' at position '' @ show_nat (ep_pos p)), p)"

fun e_parseValue :: "nat \<Rightarrow> enhanced_parser \<Rightarrow> enhanced_result"
  and e_object_loop :: "nat \<Rightarrow> bool \<Rightarrow> enhanced_parser \<Rightarrow> enhanced_result"
  and e_object_round :: "nat \<Rightarrow> enhanced_parser \<Rightarrow> enhanced_result"
  and e_array_loop :: "nat \<Rightarrow> bool \<Rightarrow> enhanced_parser \<Rightarrow> enhanced_result"
  and e_array_round :: "nat \<Rightarrow> enhanced_parser \<Rightarrow> enhanced_result" where
  "e_parseValue 0 p = (NoFuel, p)"
| "e_parseValue (Suc n) p =
     (let p = e_skipWhitespace p in
      if e_at_end p then (Err ''unexpected end of JSON'', p)
      else let b = e_byte p in
        if b = 0x7B then
          e_object_loop n True (e_pushContext ContextObjectStart (e_mark TokenObjectStart p))
        else if b = 0x5B then
          e_array_loop n True (e_pushContext ContextArrayStart (e_mark TokenArrayStart p))
        else if b = 0x22 then e_parseString p
        else if b = 0x74 \<or> b = 0x66 then e_parseBool p
        else if b = 0x6E then e_parseNull p
        else if b = 0x2D \<or> 0x30 \<le> b \<and> b \<le> 0x39 then e_parseNumber p
        else (Err (''unexpected character '' @ [CHR 0x27] @ show_c b @ [CHR 0x27] @ '' at position ''
                @ show_nat (ep_pos p)), p))"
| "e_object_loop 0 first p = (NoFuel, p)"
| "e_object_loop (Suc n) first p =
     (let p = e_skipWhitespace p in
      if e_at_end p then (Err ''unterminated object'', p)
      else if e_byte p = 0x7D then (Ok, e_popContext (e_mark TokenObjectEnd p))
      else if \<not> first then
        (if e_byte p \<noteq> 0x2C then e_expected ''expected ',' between object members'' p
         else e_then (e_object_round n (e_skipWhitespace (e_mark TokenComma p))) (e_object_loop n False))
      else e_then (e_object_round n p) (e_object_loop n False))"
| "e_object_round n p =
     (let p = e_context ContextObjectKey p in
      if e_at_end p then (Panic, p)
      else if e_byte p \<noteq> 0x22 then e_expected ''expected '\"' for object key'' p
      else e_then (e_parseString p) (\<lambda>p.
        let p = e_skipWhitespace p in
        if e_at_end p \<or> e_byte p \<noteq> 0x3A then e_expected ''expected ':' after object key'' p
        else e_then (e_parseValue n (e_context ContextObjectValue (e_mark TokenColon p)))
               (\<lambda>p. (Ok, e_context ContextObjectComma p))))"
| "e_array_loop 0 first p = (NoFuel, p)"
| "e_array_loop (Suc n) first p =
     (let p = e_skipWhitespace p in
      if e_at_end p then (Err ''unterminated array'', p)
      else if e_byte p = 0x5D then (Ok, e_popContext (e_mark TokenArrayEnd p))
      else if \<not> first then
        (if e_byte p \<noteq> 0x2C then e_expected ''expected ',' between array elements'' p
         else e_then (e_array_round n (e_skipWhitespace (e_mark TokenComma p))) (e_array_loop n False))
      else e_then (e_array_round n p) (e_array_loop n False))"
| "e_array_round n p =
     e_then (e_parseValue n (e_context ContextArrayValue p)) (\<lambda>p. (Ok, e_context ContextArrayComma p))"

declare e_object_round.simps [simp del] e_array_round.simps [simp del]

subsection \<open>Large arrays\<close>

text \<open>The loop of \<open>sampleArrayElement\<close> from index \<open>i\<close> on.\<close>

function e_sample :: "octet list \<Rightarrow> nat \<Rightarrow> int \<Rightarrow> bool \<Rightarrow> bool \<Rightarrow> nat" where
  "e_sample d i depth inString escape =
     (if i < length d \<and> i < 10000 then
        let b = d ! i; escape' = (\<not> escape \<and> b = 0x5C) in
        if \<not> inString then
          (if b = 0x22 then e_sample d (i + 1) depth (\<not> escape) escape'
           else if b \<in> {0x7B, 0x5B} then e_sample d (i + 1) (depth + 1) False escape'
           else if b \<in> {0x7D, 0x5D} then
             (let depth = depth - 1 in
              if depth = 0 then i + 1 else e_sample d (i + 1) depth False escape')
           else if b = 0x2C then
             (if depth = 0 then i else e_sample d (i + 1) depth False escape')
           else e_sample d (i + 1) depth False escape')
        else e_sample d (i + 1) depth (\<not> (b = 0x22 \<and> \<not> escape)) escape'
      else 0)"
  by pat_completeness auto
termination e_sample
  by (relation "measure (\<lambda>(d, i, depth, inString, escape). length d - i)") auto

declare e_sample.simps [simp del]

definition e_sampleArrayElement :: "octet list \<Rightarrow> nat" where
  "e_sampleArrayElement d = e_sample d 0 0 False False"

definition e_patterns :: "octet list list" where
  "e_patterns = map octets [''\"items\":['', ''\"data\":['', ''\"results\":['', ''\"records\":['',
     ''\"transactions\":['', ''\"orders\":['', ''\"customers\":['']"

fun e_pattern_loop :: "octet list \<Rightarrow> octet list list \<Rightarrow> array_info option" where
  "e_pattern_loop d [] = None"
| "e_pattern_loop d (pat # pats) =
     (let found = (case bytes_index (take 1000 d) pat of None \<Rightarrow> None
        | Some idx \<Rightarrow>
            (let arrayStart = idx + length pat in
             if arrayStart < length d then
               (let elementSample = e_sampleArrayElement (drop arrayStart d) in
                if 10 < elementSample
                then Some \<lparr>isLargeArray = True, tokensPerElement = 20,
                       estimatedElements = (length d - arrayStart) div elementSample\<rparr>
                else None)
             else None))
      in case found of Some info \<Rightarrow> Some info | None \<Rightarrow> e_pattern_loop d pats)"

definition e_detectLargeArray :: "octet list \<Rightarrow> array_info" where
  "e_detectLargeArray d =
     (if length d < 100 then no_array_info
      else case e_pattern_loop d e_patterns of
        Some info \<Rightarrow> info
      | None \<Rightarrow>
          (if 0 < length d \<and> d ! 0 = 0x5B then
             (let elementSample = e_sampleArrayElement (drop 1 d) in
              if 10 < elementSample
              then \<lparr>isLargeArray = True, tokensPerElement = 20, estimatedElements = length d div elementSample\<rparr>
              else no_array_info)
           else no_array_info))"

subsection \<open>The entry points\<close>

definition e_Parse :: "octet list \<Rightarrow> enhanced_parser \<Rightarrow> enhanced_result" where
  "e_Parse d p = e_parseValue (2 * length d + 2)
     (p\<lparr>ep_data := d, ep_tokens := [], ep_pos := 0, ep_contextStack := [],
        ep_currentContext := ContextValue, ep_arrayInfo := e_detectLargeArray d\<rparr>)"

definition e_GetTokenValue :: "enhanced_parser \<Rightarrow> json_token \<Rightarrow> octet list" where
  "e_GetTokenValue p t =
     (if IsAtom64 t then e_Atom64_String (jt_Atom64 t)
      else if IsAtom128 t then e_Atom128_String (jt_Atom128 t)
      else if jt_Offset t < of_nat (length (ep_data p))
            \<and> jt_Offset t + jt_Length t \<le> of_nat (length (ep_data p))
      then take (unat (jt_Length t)) (drop (unat (jt_Offset t)) (ep_data p))
      else [])"

text \<open>
  The analysis of \<open>analyzeAtomUsage\<close>: how often each short key comes, and the sort of these
  frequencies that exchanges any two out of order.
\<close>

definition e_count64 :: "json_token list \<Rightarrow> 64 word \<Rightarrow> nat" where
  "e_count64 ts a = fold (\<lambda>t n. if IsAtom64 t \<and> jt_Atom64 t = a then n + 1 else n) ts 0"

definition e_exchange :: "nat \<Rightarrow> nat \<Rightarrow> ('a \<times> nat) list \<Rightarrow> ('a \<times> nat) list" where
  "e_exchange i j freq = (if snd (freq ! i) < snd (freq ! j)
     then freq[i := freq ! j, j := freq ! i] else freq)"

definition e_sort_freq :: "('a \<times> nat) list \<Rightarrow> ('a \<times> nat) list" where
  "e_sort_freq freq = (let n = length freq in
     fold (\<lambda>i freq. fold (e_exchange i) [i + 1..<n] freq) [0..<n] freq)"

end
