(* ===== verification/AtomEnhancedProps.thy ===== *)
theory AtomEnhancedProps
  imports AtomEnhanced
begin

text \<open>
  The parser of \<open>superjsonic_atomenhanced.go\<close> against the one of \<open>superjsonic_multi.go\<close>: operation
  by operation, then the whole parse (\<open>enhanced_is_default\<close>), from which it inherits the grammar.
  The last section is about the frequencies of the atoms.
\<close>

section \<open>The operations on bytes and words\<close>

lemma e_HasByte_real: "e_HasByte = HasByte_real"
  by (simp add: fun_eq_iff e_HasByte_def HasByte_real_def)

lemma e_IsWhitespace_real: "e_IsWhitespace = IsWhitespace_real"
  by (simp add: fun_eq_iff e_IsWhitespace_def IsWhitespace_real_def Let_def)

lemma e_makeAtom64_eq: "e_makeAtom64 bs = makeAtom64 bs"
  by (simp add: e_makeAtom64_def makeAtom64_def or_bytes_def)

lemma e_makeAtom128_eq: "e_makeAtom128 bs = makeAtom128 bs"
proof -
  have "fold (\<lambda>i a. a OR push_bit (i * 8) (ucast (bs ! i))) [0..<min (length bs) 8] 0 = or_bytes (take 8 bs)"
    unfolding or_bytes_def by (rule fold_cong) auto
  moreover have "fold (\<lambda>i a. a OR push_bit ((i - 8) * 8) (ucast (bs ! i))) [8..<length bs] 0
      = or_bytes (drop 8 bs)"
  proof (cases "8 \<le> length bs")
    case True
    then have "[8..<length bs] = map (\<lambda>i. i + 8) [0..<length bs - 8]"
      by (simp add: map_add_upt)
    then show ?thesis
      using True unfolding or_bytes_def by (simp add: fold_map comp_def add.commute)
  qed (simp add: or_bytes_def)
  ultimately show ?thesis
    by (auto simp: e_makeAtom128_def makeAtom128_def Let_def min_def split: if_splits)
qed

lemma e_atom_bytes_eq:
  "e_atom_bytes a is buf = (let bs = map (\<lambda>i. ucast (drop_bit (i * 8) a)) is in
     (buf @ takeWhile (\<lambda>b. b \<noteq> 0) bs, 0 \<in> set bs))"
  by (induction a "is" buf rule: e_atom_bytes.induct) (auto simp: Let_def)

lemma e_Atom64_String_eq: "e_Atom64_String a = Atom64_String a"
  by (simp add: e_Atom64_String_def Atom64_String_def e_atom_bytes_eq Let_def lanes_def mult.commute)

lemma e_Atom128_String_eq: "e_Atom128_String a = Atom128_String a"
proof (cases "0 \<in> set (lanes (Lo a))")
  case True
  then show ?thesis
    by (simp add: e_Atom128_String_def Atom128_String_def e_atom_bytes_eq Let_def lanes_def
        mult.commute takeWhile_append1)
next
  case False
  then have "takeWhile (\<lambda>b. b \<noteq> 0) (lanes (Lo a) @ bs) = lanes (Lo a) @ takeWhile (\<lambda>b. b \<noteq> 0) bs" for bs
    by (intro takeWhile_append2) auto
  with False show ?thesis
    by (auto simp: e_Atom128_String_def Atom128_String_def e_atom_bytes_eq Let_def lanes_def mult.commute)
qed

section \<open>The scans\<close>

lemma e_skip_bytes_eq: "e_skip_bytes d pos = skip_basic d pos"
  by (induction d pos rule: e_skip_bytes.induct)
    (subst e_skip_bytes.simps, subst skip_basic.simps, simp)

lemma e_skip_words_eq:
  "(case e_skip_words d pos of (q, True) \<Rightarrow> q | (q, False) \<Rightarrow> e_skip_bytes d q) = skip_simd RealSimdOps d pos"
proof (induction d pos rule: e_skip_words.induct)
  case (1 d pos)
  then show ?case
    by (subst e_skip_words.simps, subst skip_simd.simps)
      (simp add: RealSimdOps_def e_IsWhitespace_real e_skip_bytes_eq split: option.split)
qed

lemma e_scan_bytes_eq:
  "(case e_scan_bytes d pos of (q, Some e) \<Rightarrow> (q, Some e) | (q, None) \<Rightarrow> string_end d q) = scan_basic d pos"
proof (induction d pos rule: e_scan_bytes.induct)
  case (1 d pos)
  then show ?case
    by (subst e_scan_bytes.simps, subst scan_basic.simps) simp
qed

lemma e_scan_words_eq:
  "(case e_scan_words d pos of (q, Some e) \<Rightarrow> (q, Some e) | (q, None) \<Rightarrow> string_end d q)
   = scan8 RealSimdOps d pos"
proof (induction d pos rule: e_scan_words.induct)
  case (1 d pos)
  then show ?case
    by (subst e_scan_words.simps, subst scan8.simps)
      (simp add: RealSimdOps_def e_HasByte_real e_scan_bytes_eq e_special_def find_special_def Let_def
        add.assoc split: option.split)
qed

lemma e_digits_eq: "e_digits d pos = skip_digits d pos"
  by (induction d pos rule: e_digits.induct) (subst e_digits.simps, subst skip_digits.simps, simp)

lemma e_no_digit_eq: "e_no_digit d pos = (\<not> digit_at d pos)"
  by (auto simp: e_no_digit_def digit_at_def)

lemma e_fraction_eq: "e_fraction d pos = scan_fraction d pos"
  by (simp add: e_fraction_def scan_fraction_def e_no_digit_eq e_digits_eq byte_at_def)

lemma e_exponent_eq: "e_exponent d pos = scan_exponent d pos"
  by (auto simp: e_exponent_def scan_exponent_def e_no_digit_eq e_digits_eq byte_at_def Let_def)

lemma e_scan_number_eq: "e_scan_number d start = scan_number d start"
  by (simp only: e_scan_number_def scan_number_def e_no_digit_eq e_fraction_eq e_exponent_eq e_digits_eq
      Let_def)

section \<open>Large arrays\<close>

lemma e_sample_eq:
  "e_sample d i depth s esc = sample_loop (drop i (take 10000 d)) i depth s esc"
proof (induction "length d - i" arbitrary: i depth s esc rule: less_induct)
  case less
  show ?case
  proof (cases "i < length d \<and> i < 10000")
    case True
    then have "drop i (take 10000 d) = d ! i # drop (i + 1) (take 10000 d)"
      by (subst Cons_nth_drop_Suc [symmetric]) simp_all
    moreover have "e_sample d (i + 1) n q e = sample_loop (drop (i + 1) (take 10000 d)) (i + 1) n q e" for n q e
      using True by (intro less) auto
    ultimately show ?thesis
      using True by (subst e_sample.simps) (simp add: Let_def)
  next
    case False
    then have none: "drop i (take 10000 d) = []" by auto
    show ?thesis
      unfolding e_sample.simps [of d i depth s esc] if_not_P [OF False] none by simp
  qed
qed

lemma e_sampleArrayElement_eq: "e_sampleArrayElement d = sampleArrayElement d"
  by (simp add: e_sampleArrayElement_def sampleArrayElement_def e_sample_eq)

lemma e_pattern_loop_eq: "e_pattern_loop d pats = detect_pattern d pats"
  by (induction d pats rule: e_pattern_loop.induct)
    (auto simp: e_sampleArrayElement_eq Let_def split: option.split)

lemma e_patterns_eq: "e_patterns = array_patterns"
  by (simp add: e_patterns_def array_patterns_def octets_def)

lemma e_detectLargeArray_eq: "e_detectLargeArray d = detectLargeArray d"
  by (auto simp: e_detectLargeArray_def detectLargeArray_def e_pattern_loop_eq e_patterns_eq
      e_sampleArrayElement_eq Let_def split: option.split)

section \<open>The parser with its default configuration\<close>

text \<open>An enhanced parser as a parser of \<open>superjsonic_multi\<close> made with the default configuration.\<close>

definition default_ops :: parser_ops where
  "default_ops = \<lparr>op_parseString = ParseStringSIMD, op_skipWhitespace = SkipWhitespaceSIMD,
     op_parseLiteral = ParseLiteralFast, op_processKey = ProcessKeyAtom\<rparr>"

definition as_multi :: "enhanced_parser \<Rightarrow> json_parser" where
  "as_multi p = \<lparr>jp_data = ep_data p, jp_tokens = ep_tokens p, jp_pos = ep_pos p,
     jp_simd = RealSimdOps, jp_ops = default_ops, jp_arrayInfo = ep_arrayInfo p,
     jp_contextStack = ep_contextStack p, jp_currentContext = ep_currentContext p,
     jp_atomStats = ep_atomStats p\<rparr>"

lemma as_multi_new: "as_multi e_newParser = createParser default_config"
  by (simp add: as_multi_def e_newParser_def createParser_def default_config_def default_ops_def)

text \<open>
  Outcomes are the same but for one text: the message about a misspelt literal was made one
  for all literals.
\<close>

definition same_outcome :: "parse_outcome \<Rightarrow> parse_outcome \<Rightarrow> bool" where
  "same_outcome o' o'' = (o' = o'' \<or> (\<exists>i. o'' = Err (''invalid literal at position '' @ show_nat i)
     \<and> (o' = Err (''invalid boolean at position '' @ show_nat i)
        \<or> o' = Err (''invalid null at position '' @ show_nat i))))"

definition same_result :: "enhanced_result \<Rightarrow> parse_result \<Rightarrow> bool" where
  "same_result r r' = (same_outcome (fst r) (fst r') \<and> snd r' = as_multi (snd r))"

lemma same_simps [simp]:
  "same_result (o', p) (o', q) \<longleftrightarrow> q = as_multi p"
  by (simp add: same_result_def same_outcome_def)

lemma same_then:
  assumes "same_result r r'" and "\<And>p. same_result (f p) (f' (as_multi p))"
  shows "same_result (e_then r f) (and_then r' f')"
  using assms by (cases r; cases r'; cases "fst r")
    (auto simp: same_result_def same_outcome_def e_then_def and_then_def split: parse_outcome.splits)

lemma as_multi_steps [simp]:
  "addToken typ i n a b (as_multi p) = as_multi (e_addToken typ i n a b p)"
  "pushContext c (as_multi p) = as_multi (e_pushContext c p)"
  "popContext (as_multi p) = as_multi (e_popContext p)"
  "set_context c (as_multi p) = as_multi (e_context c p)"
  "(as_multi p)\<lparr>jp_pos := i\<rparr> = as_multi (p\<lparr>ep_pos := i\<rparr>)"
  "at_end (as_multi p) = e_at_end p" "cur_byte (as_multi p) = e_byte p"
  "jp_pos (as_multi p) = ep_pos p" "jp_data (as_multi p) = ep_data p"
  "jp_simd (as_multi p) = RealSimdOps" "jp_ops (as_multi p) = default_ops"
  "jp_currentContext (as_multi p) = ep_currentContext p"
  by (simp_all add: as_multi_def addToken_def e_addToken_def pushContext_def e_pushContext_def
      popContext_def e_popContext_def set_context_def e_context_def at_end_def e_at_end_def
      cur_byte_def e_byte_def last_conv_nth butlast_conv_take)

lemma fold_mark [simp]:
  "(e_addToken typ (ep_pos p) (Suc 0) 0 no_atom128 p)\<lparr>ep_pos := Suc (ep_pos p)\<rparr> = e_mark typ p"
  by (simp add: e_mark_def)

lemma as_multi_skip [simp]: "skipWhitespace (as_multi p) = as_multi (e_skipWhitespace p)"
proof -
  have "e_skipWhitespace p = p\<lparr>ep_pos := skip_simd RealSimdOps (ep_data p) (ep_pos p)\<rparr>"
    unfolding e_skip_words_eq [symmetric]
    by (simp add: e_skipWhitespace_def split: prod.split bool.split)
  then show ?thesis by (simp add: skipWhitespace_def skip_from_def default_ops_def)
qed

lemma as_multi_finish:
  "finishString start (start + 1) (as_multi p) =
   as_multi ((e_string_token start p)\<lparr>ep_pos := ep_pos (e_string_token start p) + 1\<rparr>)"
  by (simp add: finishString_def e_string_token_def processKey_def default_ops_def processKeyAtom_def
      count_key_def e_stats_def e_makeAtom64_eq e_makeAtom128_eq Let_def)
    (auto simp: as_multi_def e_addToken_def)

lemma same_string: "same_result (e_parseString p) (parseString (as_multi p))"
proof -
  let ?d = "ep_data p" and ?i = "ep_pos p + 1"
  obtain q e where scan: "e_scan_words ?d ?i = (q, e)" by fastforce
  have multi: "scan_from (as_multi p) = scan8 RealSimdOps ?d ?i"
    by (simp add: scan_from_def default_ops_def)
  show ?thesis
  proof (cases e)
    case None
    with scan e_scan_words_eq [of ?d ?i] have "scan8 RealSimdOps ?d ?i = string_end ?d q" by simp
    with multi scan None show ?thesis
      using as_multi_finish [of "ep_pos p" "p\<lparr>ep_pos := q\<rparr>"]
      by (auto simp: e_parseString_def parseString_def Let_def string_end_def e_at_end_def)
  next
    case (Some m)
    with scan e_scan_words_eq [of ?d ?i] have "scan8 RealSimdOps ?d ?i = (q, Some m)" by simp
    with multi scan Some show ?thesis
      by (simp add: e_parseString_def parseString_def Let_def)
  qed
qed

lemma same_number: "same_result (e_parseNumber p) (parseNumber (as_multi p))"
  by (auto simp: e_parseNumber_def parseNumber_def e_scan_number_eq Let_def e_addToken_def as_multi_def addToken_def
      split: prod.split option.split)

lemma same_literal: "same_result (e_literal typ n p) (literal_token typ n (as_multi p))"
  by (simp add: e_literal_def literal_token_def Let_def) (simp add: e_addToken_def)

lemma literal_byte:
  assumes "take 4 (drop pos d) = octets (c # s)" and "pos + 4 \<le> length d"
  shows "d ! pos = of_nat (of_char c)"
proof -
  have "take 4 (drop pos d) ! 0 = d ! pos" using assms(2) by simp
  then show ?thesis using assms(1) by (simp add: octets_def)
qed

lemma true_byte: "pos + 4 \<le> length d \<Longrightarrow> load32 d pos = 0x65757274 \<Longrightarrow> d ! pos = 0x74"
  using literal_byte [of pos d "CHR ''t''" "''rue''"] by (simp add: load32_literal)

lemma false_byte: "pos + 4 \<le> length d \<Longrightarrow> load32 d pos = 0x736c6166 \<Longrightarrow> d ! pos = 0x66"
  using literal_byte [of pos d "CHR ''f''" "''als''"] by (simp add: load32_literal)

lemma same_bool:
  assumes "e_byte p = 0x74 \<or> e_byte p = 0x66"
  shows "same_result (e_parseBool p) (parseLiteral (as_multi p))"
proof -
  let ?d = "ep_data p" and ?i = "ep_pos p"
  have multi: "parseLiteral (as_multi p) = parseLiteralFast (as_multi p)"
    by (simp add: parseLiteral_def default_ops_def)
  consider (true) "?i + 4 \<le> length ?d" "load32 ?d ?i = 0x65757274"
    | (false) "?i + 5 \<le> length ?d" "load32 ?d ?i = 0x736c6166" "?d ! (?i + 4) = 0x65"
    | (none) "\<not> (?i + 4 \<le> length ?d \<and> load32 ?d ?i = 0x65757274)"
        "\<not> (?i + 5 \<le> length ?d \<and> load32 ?d ?i = 0x736c6166 \<and> ?d ! (?i + 4) = 0x65)"
    by blast
  then show ?thesis
  proof cases
    case true
    with true_byte [of ?i ?d] show ?thesis
      unfolding multi by (simp add: e_parseBool_def parseLiteralFast_def Let_def e_byte_def same_literal)
  next
    case false
    with false_byte [of ?i ?d] show ?thesis
      unfolding multi by (simp add: e_parseBool_def parseLiteralFast_def Let_def e_byte_def same_literal)
  next
    case none
    have "parseLiteralFast (as_multi p) = invalid_literal (as_multi p)"
      unfolding parseLiteralFast_def Let_def as_multi_steps using assms none by auto
    moreover have "e_parseBool p = (Err (''invalid boolean at position '' @ show_nat ?i), p)"
      unfolding e_parseBool_def Let_def if_not_P [OF none(1)] if_not_P [OF none(2)] ..
    ultimately show ?thesis
      unfolding multi by (auto simp: invalid_literal_def same_result_def same_outcome_def)
  qed
qed

lemma same_null:
  assumes "e_byte p = 0x6E"
  shows "same_result (e_parseNull p) (parseLiteral (as_multi p))"
proof -
  have "same_result (e_parseNull p) (parseLiteralFast (as_multi p))"
    using assms same_literal
    by (auto simp: e_parseNull_def parseLiteralFast_def Let_def invalid_literal_def
        same_result_def same_outcome_def)
  then show ?thesis by (simp add: parseLiteral_def default_ops_def)
qed

lemma same_expected: "same_result (e_expected what p) (expected_at what (as_multi p))"
  by (simp add: e_expected_def expected_at_def)

lemma same_member:
  assumes "\<And>p. same_result (e_parseValue n p) (parseValue n (as_multi p))"
  shows "same_result (e_object_round n p) (object_member n (as_multi p))"
  unfolding e_object_round.simps object_member.simps Let_def
  by (auto intro!: same_then same_string same_expected assms simp: Let_def)

lemma same_element:
  assumes "\<And>p. same_result (e_parseValue n p) (parseValue n (as_multi p))"
  shows "same_result (e_array_round n p) (array_element n (as_multi p))"
  unfolding e_array_round.simps array_element.simps
  by (auto intro!: same_then assms)

lemma same_parse:
  "same_result (e_parseValue n p) (parseValue n (as_multi p))"
  "same_result (e_object_loop n first p) (object_loop n first (as_multi p))"
  "same_result (e_array_loop n first p) (array_loop n first (as_multi p))"
proof (induction n arbitrary: p first)
  case (Suc n)
  note member = same_member [OF Suc.IH(1)] and element = same_element [OF Suc.IH(1)]
  {
    case 1
    show ?case
      using Suc.IH same_string [of "e_skipWhitespace p"] same_bool [of "e_skipWhitespace p"]
        same_null [of "e_skipWhitespace p"] same_number [of "e_skipWhitespace p"]
      by (auto simp: Let_def isDigit_def)
  next
    case 2
    show ?case by (auto simp: Let_def intro!: same_then member same_expected Suc.IH(2))
  next
    case 3
    show ?case by (auto simp: Let_def intro!: same_then element same_expected Suc.IH(3))
  }
qed simp_all

lemma same_Parse: "same_result (e_Parse d p) (ParseJSON default_config d (as_multi p))"
proof -
  have "start_parse default_config d (as_multi p) = as_multi (p\<lparr>ep_data := d, ep_tokens := [],
      ep_pos := 0, ep_contextStack := [], ep_currentContext := ContextValue,
      ep_arrayInfo := e_detectLargeArray d\<rparr>)"
    by (simp add: start_parse_def default_config_def as_multi_def e_detectLargeArray_eq)
  then show ?thesis unfolding ParseJSON_def e_Parse_def by (simp only: same_parse(1))
qed

text \<open>
  C28: the earlier parser with atoms does what the parser of \<open>superjsonic_multi\<close> does with its default
  configuration: the same outcome, where only the message for a misspelt literal differs, and the
  same parser behind it, with its tokens, its position and its statistics.
\<close>

theorem enhanced_is_default:
  "same_outcome (fst (e_Parse d p)) (fst (ParseJSON default_config d (as_multi p)))
   \<and> snd (ParseJSON default_config d (as_multi p)) = as_multi (snd (e_Parse d p))"
  using same_Parse [of d p] by (simp add: same_result_def)

text \<open>The values of tokens are read in the same way, and the pool resets the same fields.\<close>

lemma e_GetTokenValue_eq: "e_GetTokenValue p t = GetTokenValue (as_multi p) t"
  by (simp add: e_GetTokenValue_def GetTokenValue_def e_Atom64_String_eq e_Atom128_String_eq
      token_slice_def)

lemma e_ReturnParser_eq: "as_multi (e_ReturnParser p) = ReturnParser default_config (as_multi p)"
  by (simp add: e_ReturnParser_def ReturnParser_def default_config_def as_multi_def)

section \<open>The frequencies of atoms\<close>

lemma e_count64_eq: "e_count64 ts a = length (filter (\<lambda>t. IsAtom64 t \<and> jt_Atom64 t = a) ts)"
proof -
  have "fold (\<lambda>t n. if IsAtom64 t \<and> jt_Atom64 t = a then n + 1 else n) ts n
      = n + length (filter (\<lambda>t. IsAtom64 t \<and> jt_Atom64 t = a) ts)" for n
    by (induction ts arbitrary: n) auto
  from this [of 0] show ?thesis by (simp add: e_count64_def)
qed

lemma length_exchange [simp]: "length (e_exchange i j freq) = length freq"
  by (simp add: e_exchange_def)

lemma mset_exchange [simp]: "i < length freq \<Longrightarrow> j < length freq \<Longrightarrow> mset (e_exchange i j freq) = mset freq"
  by (simp add: e_exchange_def mset_swap)

text \<open>
  One run of the inner loop up to \<open>k\<close>: the entries before \<open>i\<close> stay, entry \<open>i\<close> is the most frequent
  of those from \<open>i\<close> to \<open>k\<close>, and the entries are the same as a multiset, from \<open>i\<close> on.
\<close>

lemma inner_loop:
  assumes "i < k" "k \<le> length freq"
  shows "let r = fold (e_exchange i) [i + 1..<k] freq in
    length r = length freq \<and> mset r = mset freq \<and> take i r = take i freq
    \<and> mset (drop i r) = mset (drop i freq) \<and> (\<forall>j. i \<le> j \<and> j < k \<longrightarrow> snd (r ! j) \<le> snd (r ! i))"
  using assms
proof (induction k)
  case (Suc k)
  show ?case
  proof (cases "i < k")
    case True
    define r where "r = fold (e_exchange i) [i + 1..<k] freq"
    have IH: "length r = length freq" "mset r = mset freq" "take i r = take i freq"
      "mset (drop i r) = mset (drop i freq)" "\<And>j. i \<le> j \<Longrightarrow> j < k \<Longrightarrow> snd (r ! j) \<le> snd (r ! i)"
      using Suc True unfolding r_def by (auto simp: Let_def)
    have step: "fold (e_exchange i) [i + 1..<Suc k] freq = e_exchange i k r"
      using True by (simp add: r_def)
    let ?s = "e_exchange i k r"
    have before: "take i ?s = take i r"
      using True by (simp add: e_exchange_def take_update_cancel)
    moreover have "mset ?s = mset r"
      using True Suc.prems IH(1) by simp
    ultimately have "mset (drop i ?s) = mset (drop i r)"
      by (metis append_take_drop_id mset_append add_left_cancel)
    moreover have "\<forall>j. i \<le> j \<and> j < Suc k \<longrightarrow> snd (?s ! j) \<le> snd (?s ! i)"
      using IH(5) True Suc.prems IH(1)
      by (auto simp: e_exchange_def nth_list_update less_Suc_eq dest: less_imp_le) (metis le_trans less_imp_le)
    ultimately show ?thesis
      unfolding step Let_def using before IH True Suc.prems by simp
  next
    case False
    with Suc.prems have "k = i" by simp
    then show ?thesis by (auto simp: Let_def less_Suc_eq)
  qed
qed simp

text \<open>The sort by frequency permutes the entries and puts the frequent ones first.\<close>

theorem sort_freq_sorts:
  "mset (e_sort_freq freq) = mset freq \<and> sorted_wrt (\<lambda>x y. snd y \<le> snd x) (e_sort_freq freq)"
proof -
  define run where "run k = fold (\<lambda>i r. fold (e_exchange i) [i + 1..<length freq] r) [0..<k] freq" for k
  have "k \<le> length freq \<Longrightarrow> length (run k) = length freq \<and> mset (run k) = mset freq
    \<and> sorted_wrt (\<lambda>x y. snd y \<le> snd x) (take k (run k))
    \<and> (\<forall>x \<in> set (take k (run k)). \<forall>y \<in> set (drop k (run k)). snd y \<le> snd x)" for k
  proof (induction k)
    case (Suc k)
    let ?r = "run k" and ?s = "run (Suc k)"
    have IH: "length ?r = length freq" "mset ?r = mset freq"
      "sorted_wrt (\<lambda>x y. snd y \<le> snd x) (take k ?r)"
      "\<forall>x \<in> set (take k ?r). \<forall>y \<in> set (drop k ?r). snd y \<le> snd x"
      using Suc by auto
    have "?s = fold (e_exchange k) [k + 1..<length freq] ?r" by (simp add: run_def)
    with inner_loop [of k "length freq" ?r] Suc.prems IH(1)
    have s: "length ?s = length freq" "mset ?s = mset ?r" "take k ?s = take k ?r"
      "mset (drop k ?s) = mset (drop k ?r)" "\<And>j. k \<le> j \<Longrightarrow> j < length freq \<Longrightarrow> snd (?s ! j) \<le> snd (?s ! k)"
      by (auto simp: Let_def)
    have drop: "drop k ?s = ?s ! k # drop (Suc k) ?s"
      using s(1) Suc.prems by (simp add: Cons_nth_drop_Suc)
    have take: "take (Suc k) ?s = take k ?r @ [?s ! k]"
      using s(1,3) Suc.prems by (simp add: take_Suc_conv_app_nth)
    have all: "set (drop k ?s) = set (drop k ?r)" using s(4) by (metis set_mset_mset)
    have "snd y \<le> snd (?s ! k)" if "y \<in> set (drop (Suc k) ?s)" for y
    proof -
      obtain j where "j < length (drop (Suc k) ?s)" "y = drop (Suc k) ?s ! j"
        using \<open>y \<in> set (drop (Suc k) ?s)\<close> by (metis in_set_conv_nth)
      with s(1) s(5) [of "Suc k + j"] show ?thesis by auto
    qed
    moreover have "\<forall>x \<in> set (take k ?r). \<forall>y \<in> set (drop k ?s). snd y \<le> snd x" using IH(4) all by simp
    ultimately show ?case
      using IH(2,3) s(1,2) unfolding take drop by (auto simp: sorted_wrt_append)
  qed (simp add: run_def)
  from this [of "length freq"] have "mset (run (length freq)) = mset freq
      \<and> sorted_wrt (\<lambda>x y. snd y \<le> snd x) (run (length freq))"
    using take_all [of "run (length freq)" "length freq"] by fastforce
  then show ?thesis by (simp add: e_sort_freq_def run_def Let_def)
qed

end
