(* ===== verification/AtomEnabledProps.thy ===== *)
theory AtomEnabledProps
  imports AtomEnabled AtomEnhancedProps
begin

text \<open>
  The first parser with atoms (\<open>AtomEnabled\<close>): it returns, its cache changes nothing, it takes
  every text that the later parser takes and reads as far; and what it does wrong: texts that are
  not JSON, keys behind a nested object, and atoms that different keys share.
\<close>

section \<open>It returns\<close>

lemma a_fields [simp]:
  "ap_data (a_addToken t i n a b p) = ap_data p" "ap_pos (a_addToken t i n a b p) = ap_pos p"
  "ap_data (a_mark t p) = ap_data p" "ap_pos (a_mark t p) = ap_pos p + 1"
  "ap_data (a_flags o' k p) = ap_data p" "ap_pos (a_flags o' k p) = ap_pos p"
  "a_at_end (a_flags o' k p) = a_at_end p" "a_byte (a_flags o' k p) = a_byte p"
  by (simp_all add: a_addToken_def a_mark_def a_flags_def a_at_end_def a_byte_def)

lemma a_skip_words_le: "pos \<le> fst (a_skip_words d pos)"
proof (induction d pos rule: a_skip_words.induct)
  case (1 d pos)
  then show ?case
    by (subst a_skip_words.simps) (auto dest: less_imp_le le_trans split: option.split)
qed

lemma a_skip_bytes_le: "pos \<le> a_skip_bytes d pos"
proof (induction d pos rule: a_skip_bytes.induct)
  case (1 d pos)
  then show ?case by (subst a_skip_bytes.simps) auto
qed

lemma a_skip_fields [simp]:
  "ap_data (a_skipWhitespace p) = ap_data p" "ap_pos p \<le> ap_pos (a_skipWhitespace p)"
  using a_skip_words_le [of "ap_pos p" "ap_data p"] a_skip_bytes_le
  by (auto simp: a_skipWhitespace_def split: prod.split bool.split intro: le_trans)

lemma a_scan_bytes_le: "pos \<le> a_scan_bytes d pos"
proof (induction d pos rule: a_scan_bytes.induct)
  case (1 d pos)
  then show ?case by (subst a_scan_bytes.simps) (auto simp: Let_def)
qed

lemma a_scan_words_le: "pos \<le> a_scan_words d pos"
proof (induction "length d - pos" arbitrary: pos rule: less_induct)
  case less
  then have IH: "pos + 8 \<le> length d \<Longrightarrow> pos < q \<Longrightarrow> q \<le> a_scan_words d q" for q by simp
  show ?case
  proof (cases "pos + 8 \<le> length d")
    case True
    from IH [OF True, of "pos + 8"] have far: "pos \<le> a_scan_words d (pos + 8)" by simp
    have "pos \<le> a_scan_words d (pos + (j + 2))" for j
      using IH [OF True, of "pos + (j + 2)"] by simp
    with far True show ?thesis
      by (subst a_scan_words.simps) (simp add: Let_def split: option.split)
  next
    case False
    then show ?thesis by (subst a_scan_words.simps) (simp add: a_scan_bytes_le)
  qed
qed

definition advances :: "atom_parser \<Rightarrow> atom_result \<Rightarrow> bool" where
  "advances p r = (fst r = Ok \<longrightarrow> ap_data (snd r) = ap_data p \<and> ap_pos p < ap_pos (snd r))"

lemma advances_simps [simp]:
  "advances p (Err m, q)" "advances p (Panic, q)" "advances p (NoFuel, q)"
  "advances p (Ok, q) \<longleftrightarrow> ap_data q = ap_data p \<and> ap_pos p < ap_pos q"
  by (simp_all add: advances_def)

lemma a_string_token_fields [simp]:
  "ap_data (a_string_token i p) = ap_data p" "ap_pos (a_string_token i p) = ap_pos p"
  by (auto simp: a_string_token_def a_cached64_def a_cached128_def Let_def split: option.split cached_atom.split)

lemma a_parseString_advances: "advances p (a_parseString p)"
  using a_scan_words_le [of "ap_pos p + 1" "ap_data p"]
  by (auto simp: advances_def a_parseString_def Let_def)

lemma a_parseString_fuel: "fst (a_parseString p) \<noteq> NoFuel"
  by (simp add: a_parseString_def Let_def)

lemma a_digits_le: "pos \<le> a_digits d pos"
proof (induction d pos rule: a_digits.induct)
  case (1 d pos)
  then show ?case by (subst a_digits.simps) auto
qed

lemma a_digits_less: "pos < length d \<Longrightarrow> isDigit (d ! pos) \<Longrightarrow> pos < a_digits d pos"
  using a_digits_le [of "pos + 1" d] by (subst a_digits.simps) simp

lemma a_fraction_end_le: "pos \<le> a_fraction_end d pos"
  using a_digits_le [of "pos + 1" d] by (auto simp: a_fraction_end_def)

lemma a_exponent_end_le: "pos \<le> a_exponent_end d pos"
  using a_digits_le [of "pos + 1" d] a_digits_le [of "pos + 1 + 1" d]
  by (auto simp: a_exponent_end_def Let_def)

lemma a_number_end_less:
  assumes "i < length d" "d ! i = 0x2D \<or> isDigit (d ! i)"
  shows "i < a_number_end d i"
proof -
  have "i < a_digits d (if d ! i = 0x2D then i + 1 else i)"
    using assms a_digits_le [of "i + 1" d] a_digits_less [of i d] by auto
  also have "\<dots> \<le> a_number_end d i"
    unfolding a_number_end_def by (rule le_trans [OF a_fraction_end_le a_exponent_end_le])
  finally show ?thesis .
qed

lemma a_literal_advances: "0 < n \<Longrightarrow> advances p (a_literal typ n p)"
  by (simp add: a_literal_def advances_def Let_def)

lemma a_scalar_advances:
  "advances p (a_parseBool p)" "advances p (a_parseNull p)"
  "\<not> a_at_end p \<Longrightarrow> a_byte p = 0x2D \<or> isDigit (a_byte p) \<Longrightarrow> advances p (a_parseNumber p)"
  using a_literal_advances [of 4] a_literal_advances [of 5] a_number_end_less [of "ap_pos p" "ap_data p"]
  by (auto simp: a_parseBool_def a_parseNull_def a_parseNumber_def a_at_end_def a_byte_def advances_def Let_def)

lemma a_scalar_fuel:
  "fst (a_parseBool p) \<noteq> NoFuel" "fst (a_parseNull p) \<noteq> NoFuel" "fst (a_parseNumber p) \<noteq> NoFuel"
  by (simp_all add: a_parseBool_def a_parseNull_def a_parseNumber_def a_literal_def Let_def)

lemma advances_trans:
  "ap_data q = ap_data p \<Longrightarrow> ap_pos p \<le> ap_pos q \<Longrightarrow> advances q r \<Longrightarrow> advances p r"
  by (auto simp: advances_def)

lemma a_then_simps [simp]:
  "a_then (Ok, q) f = f q" "fst r \<noteq> Ok \<Longrightarrow> a_then r f = r"
  by (cases r; cases "fst r"; simp add: a_then_def)+

lemma advances_then:
  assumes "advances p r" and "\<And>q. r = (Ok, q) \<Longrightarrow> ap_data q = ap_data p \<Longrightarrow> ap_pos p < ap_pos q \<Longrightarrow> advances q (f q)"
  shows "advances p (a_then r f)"
proof (cases "fst r = Ok")
  case True
  then obtain q where r: "r = (Ok, q)" by (cases r) auto
  with assms(1) have q: "ap_data q = ap_data p" "ap_pos p < ap_pos q"
    by (simp_all add: advances_def)
  with assms(2) [OF r] show ?thesis
    by (auto simp: r advances_def)
qed (simp add: advances_def)

lemma fuel_then:
  assumes "fst r \<noteq> NoFuel" and "\<And>q. r = (Ok, q) \<Longrightarrow> fst (f q) \<noteq> NoFuel"
  shows "fst (a_then r f) \<noteq> NoFuel"
  using assms by (cases r; cases "fst r") (auto simp: a_then_def)

lemma round_end_advances:
  assumes "\<And>q. ap_data q = ap_data p \<Longrightarrow> advances q (f q)"
  shows "advances p (a_round_end e1 b e2 f p)"
proof -
  let ?s = "a_skipWhitespace p"
  have "advances p (f ?s)" "advances p (f (a_mark TokenComma ?s))"
    by (auto intro!: advances_trans [OF _ _ assms] intro: le_trans [OF a_skip_fields(2)])
  then show ?thesis
    by (auto simp: a_round_end_def Let_def)
qed

lemma colon_advances:
  assumes "\<And>q. ap_data q = ap_data p \<Longrightarrow> advances q (f q)"
  shows "advances p (a_colon f p)"
proof -
  let ?s = "a_skipWhitespace (a_expectKey False p)"
  have "advances p (f (a_mark TokenColon ?s))"
    using a_skip_fields [of "a_expectKey False p"] by (auto intro!: advances_trans [OF _ _ assms])
  then show ?thesis by (auto simp: a_colon_def Let_def)
qed

text \<open>An accepted value or loop has read a byte at least.\<close>

lemma a_parse_advances:
  "advances p (a_parseValue n p)" "advances p (a_object_loop n p)" "advances p (a_array_loop n p)"
proof (induction n arbitrary: p)
  case (Suc n)
  {
    case 1
    let ?s = "a_skipWhitespace p"
    have "advances ?s (a_object_loop n (a_inObject True (a_mark TokenObjectStart ?s)))"
      "advances ?s (a_array_loop n (a_mark TokenArrayStart ?s))"
      by (auto intro: advances_trans [OF _ _ Suc.IH(2)] advances_trans [OF _ _ Suc.IH(3)])
    then have "advances ?s (a_parseValue (Suc n) p)"
      by (auto simp: Let_def a_parseString_advances a_scalar_advances)
    then show ?case by (rule advances_trans [OF a_skip_fields])
  next
    case 2
    let ?s = "a_skipWhitespace p"
    have "advances ?s (a_parseString (a_expectKey True ?s))"
      using a_parseString_advances [of "a_expectKey True ?s"] by (simp add: advances_def)
    then have "advances ?s (a_object_loop (Suc n) p)"
      by (auto simp: Let_def intro!: advances_then colon_advances round_end_advances Suc.IH(1,2))
    then show ?case by (rule advances_trans [OF a_skip_fields])
  next
    case 3
    let ?s = "a_skipWhitespace p"
    have "advances ?s (a_array_loop (Suc n) p)"
      by (auto simp: Let_def intro!: advances_then round_end_advances Suc.IH(1,3))
    then show ?case by (rule advances_trans [OF a_skip_fields])
  }
qed simp_all

text \<open>
  The fuel: a value takes more than two units for each byte that is left, a loop one more.
\<close>

definition a_left :: "atom_parser \<Rightarrow> nat" where
  "a_left p = length (ap_data p) - ap_pos p"

lemma a_left_skip: "a_left (a_skipWhitespace p) \<le> a_left p"
  using a_skip_fields [of p] by (simp add: a_left_def diff_le_mono2)

lemma a_left_mark: "\<not> a_at_end p \<Longrightarrow> a_left (a_mark t p) < a_left p"
  by (simp add: a_left_def a_at_end_def diff_less_mono2)

lemma a_left_flags [simp]: "a_left (a_flags b c p) = a_left p"
  by (simp add: a_left_def)

lemma a_left_after: "advances p (Ok, q) \<Longrightarrow> \<not> a_at_end p \<Longrightarrow> a_left q < a_left p"
  by (auto simp: a_left_def a_at_end_def)

lemma round_end_fuel:
  assumes "\<And>q. a_left q \<le> a_left p \<Longrightarrow> fst (f q) \<noteq> NoFuel"
  shows "fst (a_round_end e1 b e2 f p) \<noteq> NoFuel"
  using assms [of "a_skipWhitespace p"] assms [of "a_mark TokenComma (a_skipWhitespace p)"]
    a_left_skip [of p] a_left_mark [of "a_skipWhitespace p" TokenComma]
  by (auto simp: a_round_end_def Let_def)

lemma colon_fuel:
  assumes "\<And>q. a_left q < a_left p \<Longrightarrow> fst (f q) \<noteq> NoFuel"
  shows "fst (a_colon f p) \<noteq> NoFuel"
  using assms [of "a_mark TokenColon (a_skipWhitespace (a_expectKey False p))"]
    a_left_skip [of "a_expectKey False p"] a_left_mark [of "a_skipWhitespace (a_expectKey False p)" TokenColon]
  by (auto simp: a_colon_def Let_def)

lemma value_then_fuel:
  assumes "fst (a_parseValue n p) \<noteq> NoFuel" and "\<And>q. a_left q \<le> a_left p \<Longrightarrow> ap_pos p < ap_pos q \<Longrightarrow>
      ap_data q = ap_data p \<Longrightarrow> fst (f q) \<noteq> NoFuel"
  shows "fst (a_then (a_parseValue n p) f) \<noteq> NoFuel"
proof (rule fuel_then [OF assms(1)])
  fix q assume "a_parseValue n p = (Ok, q)"
  then have "advances p (Ok, q)" using a_parse_advances(1) by metis
  then show "fst (f q) \<noteq> NoFuel"
    using assms(2) [of q] by (simp add: a_left_def diff_le_mono2)
qed

lemma a_parse_fuel:
  "2 * a_left p < n \<Longrightarrow> fst (a_parseValue n p) \<noteq> NoFuel"
  "2 * a_left p + 1 < n \<Longrightarrow> fst (a_object_loop n p) \<noteq> NoFuel"
  "2 * a_left p + 1 < n \<Longrightarrow> fst (a_array_loop n p) \<noteq> NoFuel"
proof (induction n arbitrary: p)
  case (Suc n)
  {
    case 1
    let ?s = "a_skipWhitespace p"
    have less: "a_left (a_mark t ?s) < a_left p" if "\<not> a_at_end ?s" for t
      using a_left_mark [OF that, of t] a_left_skip [of p] by simp
    have "fst (a_object_loop n (a_inObject True (a_mark TokenObjectStart ?s))) \<noteq> NoFuel"
      if "\<not> a_at_end ?s"
      using less [OF that, of TokenObjectStart] 1 by (intro Suc.IH(2)) simp
    moreover have "fst (a_array_loop n (a_mark TokenArrayStart ?s)) \<noteq> NoFuel" if "\<not> a_at_end ?s"
      using less [OF that, of TokenArrayStart] 1 by (intro Suc.IH(3)) simp
    ultimately show ?case
      by (simp add: Let_def a_parseString_fuel a_scalar_fuel)
  next
    case 2
    let ?s = "a_skipWhitespace p"
    have "fst (a_then (a_parseString (a_expectKey True ?s)) (a_colon (\<lambda>p. a_then (a_parseValue n p)
        (a_round_end ''unterminated object'' 0x7D ''expected ',' or '}' in object'' (a_object_loop n))))) \<noteq> NoFuel"
      if live: "\<not> a_at_end ?s"
    proof (rule fuel_then [OF a_parseString_fuel])
      fix q assume "a_parseString (a_expectKey True ?s) = (Ok, q)"
      then have "advances (a_expectKey True ?s) (Ok, q)"
        using a_parseString_advances by metis
      then have "a_left q < a_left p"
        using a_left_after [of "a_expectKey True ?s" q] live a_left_skip [of p] by simp
      with 2 show "fst (a_colon (\<lambda>p. a_then (a_parseValue n p)
          (a_round_end ''unterminated object'' 0x7D ''expected ',' or '}' in object'' (a_object_loop n))) q) \<noteq> NoFuel"
        by (intro colon_fuel value_then_fuel round_end_fuel Suc.IH(1,2)) linarith+
    qed
    then show ?case by (simp add: Let_def)
  next
    case 3
    let ?s = "a_skipWhitespace p"
    have "fst (a_then (a_parseValue n ?s)
        (a_round_end ''unterminated array'' 0x5D ''expected ',' or ']' in array'' (a_array_loop n))) \<noteq> NoFuel"
      if live: "\<not> a_at_end ?s"
    proof (rule value_then_fuel)
      show "fst (a_parseValue n ?s) \<noteq> NoFuel"
        using a_left_skip [of p] 3 by (intro Suc.IH(1)) linarith
      fix q :: atom_parser assume "ap_pos ?s < ap_pos q" "ap_data q = ap_data ?s"
      then have "a_left q < a_left p"
        using a_left_after [of ?s q] live a_left_skip [of p] by simp
      with 3 show "fst (a_round_end ''unterminated array'' 0x5D ''expected ',' or ']' in array''
          (a_array_loop n) q) \<noteq> NoFuel"
        by (intro round_end_fuel Suc.IH(3)) linarith
    qed
    then show ?case by (simp add: Let_def)
  }
qed simp_all

text \<open>The first parser with atoms returns, with success or an error, on every input.\<close>

theorem a_Parse_terminates: "fst (a_Parse d p) \<noteq> NoFuel"
  unfolding a_Parse_def by (rule a_parse_fuel(1)) (simp add: a_left_def)

section \<open>The cache\<close>

text \<open>What the cache holds for a key is the atom that would be made of it.\<close>

definition cache_ok :: "atom_cache \<Rightarrow> bool" where
  "cache_ok cache = (\<forall>key. cache key \<in>
     {None, Some (CachedAtom64 (a_makeAtom64 key)), Some (CachedAtom128 (a_makeAtom128 key))})"

lemma cache_okD:
  "cache_ok cache \<Longrightarrow> cache key = Some (CachedAtom64 a) \<Longrightarrow> a = a_makeAtom64 key"
  "cache_ok cache \<Longrightarrow> cache key = Some (CachedAtom128 b) \<Longrightarrow> b = a_makeAtom128 key"
  unfolding cache_ok_def by (metis cached_atom.distinct(1) cached_atom.inject insertE option.distinct(1)
      option.inject singletonD)+

lemma cache_ok_empty [simp]: "cache_ok (\<lambda>_. None)"
  by (simp add: cache_ok_def)

lemma cache_ok_update:
  "cache_ok c \<Longrightarrow> cache_ok (c(key \<mapsto> CachedAtom64 (a_makeAtom64 key)))"
  "cache_ok c \<Longrightarrow> cache_ok (c(key \<mapsto> CachedAtom128 (a_makeAtom128 key)))"
  by (simp_all add: cache_ok_def)

lemma cached64:
  assumes "cache_ok (ap_atomCache p)"
  shows "\<exists>c. a_cached64 key p = (a_makeAtom64 key, p\<lparr>ap_atomCache := c\<rparr>) \<and> cache_ok c"
proof (cases "\<exists>a. ap_atomCache p key = Some (CachedAtom64 a)")
  case True
  with assms cache_okD(1) [OF assms, of key] show ?thesis
    by (intro exI [of _ "ap_atomCache p"]) (auto simp: a_cached64_def)
next
  case False
  with cache_ok_update(1) [OF assms, of key] show ?thesis
    by (intro exI [of _ "(ap_atomCache p)(key \<mapsto> CachedAtom64 (a_makeAtom64 key))"])
      (auto simp: a_cached64_def Let_def split: option.split cached_atom.split)
qed

lemma cached128:
  assumes "cache_ok (ap_atomCache p)"
  shows "\<exists>c. a_cached128 key p = (a_makeAtom128 key, p\<lparr>ap_atomCache := c\<rparr>) \<and> cache_ok c"
proof (cases "\<exists>a. ap_atomCache p key = Some (CachedAtom128 a)")
  case True
  with assms cache_okD(2) [OF assms, of key] show ?thesis
    by (intro exI [of _ "ap_atomCache p"]) (auto simp: a_cached128_def)
next
  case False
  with cache_ok_update(2) [OF assms, of key] show ?thesis
    by (intro exI [of _ "(ap_atomCache p)(key \<mapsto> CachedAtom128 (a_makeAtom128 key))"])
      (auto simp: a_cached128_def Let_def split: option.split cached_atom.split)
qed

text \<open>Two parsers that differ in their caches only, both of which are right.\<close>

definition but_cache :: "atom_parser \<Rightarrow> atom_parser \<Rightarrow> bool" where
  "but_cache p q = (cache_ok (ap_atomCache p) \<and> cache_ok (ap_atomCache q)
     \<and> ap_data q = ap_data p \<and> ap_tokens q = ap_tokens p \<and> ap_pos q = ap_pos p
     \<and> ap_arrayInfo q = ap_arrayInfo p \<and> ap_inObject q = ap_inObject p \<and> ap_expectKey q = ap_expectKey p)"

definition but_cache_result :: "atom_result \<Rightarrow> atom_result \<Rightarrow> bool" where
  "but_cache_result r r' = (fst r = fst r' \<and> but_cache (snd r) (snd r'))"

lemma but_cache_result_simps [simp]:
  "but_cache_result (o', p) (o'', q) \<longleftrightarrow> o' = o'' \<and> but_cache p q"
  by (simp add: but_cache_result_def)

lemma but_cache_then:
  assumes "but_cache_result r r'" and "\<And>p q. but_cache p q \<Longrightarrow> but_cache_result (f p) (f q)"
  shows "but_cache_result (a_then r f) (a_then r' f)"
  using assms by (cases r; cases r'; cases "fst r") auto

lemma but_cache_eq:
  assumes "but_cache p q"
  shows "a_at_end q = a_at_end p" "a_byte q = a_byte p" "ap_inObject q = ap_inObject p"
    "ap_expectKey q = ap_expectKey p" "ap_pos q = ap_pos p" "ap_data q = ap_data p"
  using assms by (simp_all add: but_cache_def a_at_end_def a_byte_def)

lemma but_cache_token: "but_cache p q \<Longrightarrow> but_cache (a_addToken t i n a b p) (a_addToken t i n a b q)"
  by (simp add: but_cache_def a_addToken_def)

lemma but_cache_pos: "but_cache p q \<Longrightarrow> but_cache (p\<lparr>ap_pos := i\<rparr>) (q\<lparr>ap_pos := i\<rparr>)"
  by (simp add: but_cache_def)

lemma but_cache_flags: "but_cache p q \<Longrightarrow> but_cache (a_flags b c p) (a_flags b c q)"
  by (simp add: but_cache_def a_flags_def)

lemma but_cache_mark: "but_cache p q \<Longrightarrow> but_cache (a_mark t p) (a_mark t q)"
  by (simp add: but_cache_def a_mark_def a_addToken_def)

lemma but_cache_skip: "but_cache p q \<Longrightarrow> but_cache (a_skipWhitespace p) (a_skipWhitespace q)"
  by (cases "a_skip_words (ap_data p) (ap_pos p)"; cases "snd (a_skip_words (ap_data p) (ap_pos p))")
    (simp_all add: a_skipWhitespace_def but_cache_eq [of p q] but_cache_pos)

lemmas but_cache_steps = but_cache_token but_cache_pos but_cache_flags but_cache_mark but_cache_skip

lemma but_cache_string_token:
  assumes "but_cache p q"
  shows "but_cache (a_string_token i p) (a_string_token i q)"
proof -
  have ok: "cache_ok (ap_atomCache p)" "cache_ok (ap_atomCache q)"
    using assms by (simp_all add: but_cache_def)
  let ?key = "take (ap_pos p - (i + 1)) (drop (i + 1) (ap_data p))"
  obtain c c' where "a_cached64 ?key p = (a_makeAtom64 ?key, p\<lparr>ap_atomCache := c\<rparr>)" "cache_ok c"
    "a_cached64 ?key q = (a_makeAtom64 ?key, q\<lparr>ap_atomCache := c'\<rparr>)" "cache_ok c'"
    using cached64 [OF ok(1)] cached64 [OF ok(2)] by meson
  moreover obtain e e' where "a_cached128 ?key p = (a_makeAtom128 ?key, p\<lparr>ap_atomCache := e\<rparr>)" "cache_ok e"
    "a_cached128 ?key q = (a_makeAtom128 ?key, q\<lparr>ap_atomCache := e'\<rparr>)" "cache_ok e'"
    using cached128 [OF ok(1)] cached128 [OF ok(2)] by meson
  ultimately show ?thesis
    using assms by (simp add: a_string_token_def Let_def but_cache_eq [OF assms])
      (simp add: but_cache_def a_addToken_def)
qed

lemma but_cache_string:
  assumes "but_cache p q"
  shows "but_cache_result (a_parseString p) (a_parseString q)"
proof -
  let ?j = "a_scan_words (ap_data p) (ap_pos p + 1)"
  have moved: "but_cache (p\<lparr>ap_pos := ?j\<rparr>) (q\<lparr>ap_pos := ?j\<rparr>)"
    using assms by (rule but_cache_pos)
  note token = but_cache_string_token [OF moved, of "ap_pos p"]
  show ?thesis
    unfolding a_parseString_def Let_def but_cache_eq [OF assms] but_cache_eq [OF moved] but_cache_eq [OF token]
    using moved but_cache_pos [OF token] by simp
qed

lemma but_cache_scalar:
  assumes "but_cache p q"
  shows "but_cache_result (a_parseNumber p) (a_parseNumber q)"
    and "but_cache_result (a_parseBool p) (a_parseBool q)"
    and "but_cache_result (a_parseNull p) (a_parseNull q)"
  using assms but_cache_steps [OF assms]
  by (simp_all add: a_parseNumber_def a_parseBool_def a_parseNull_def a_literal_def a_word_at_def Let_def
      but_cache_eq [OF assms] but_cache_token but_cache_pos)

lemma but_cache_round:
  assumes "but_cache p q" and "\<And>p q. but_cache p q \<Longrightarrow> but_cache_result (f p) (f q)"
  shows "but_cache_result (a_round_end e1 b e2 f p) (a_round_end e1 b e2 f q)"
proof -
  have s: "but_cache (a_skipWhitespace p) (a_skipWhitespace q)"
    using assms(1) by (rule but_cache_skip)
  show ?thesis
    using s assms(2) [OF s] assms(2) [OF but_cache_mark [OF s]]
    by (simp add: a_round_end_def Let_def but_cache_eq [OF s])
qed

lemma but_cache_colon:
  assumes "but_cache p q" and "\<And>p q. but_cache p q \<Longrightarrow> but_cache_result (f p) (f q)"
  shows "but_cache_result (a_colon f p) (a_colon f q)"
proof -
  have s: "but_cache (a_skipWhitespace (a_expectKey False p)) (a_skipWhitespace (a_expectKey False q))"
    unfolding but_cache_eq(3) [OF assms(1)] by (intro but_cache_skip but_cache_flags assms(1))
  show ?thesis
    using s assms(2) [OF but_cache_mark [OF s]]
    by (simp add: a_colon_def Let_def but_cache_eq [OF s])
qed

lemma but_cache_parse:
  "but_cache p q \<Longrightarrow> but_cache_result (a_parseValue n p) (a_parseValue n q)"
  "but_cache p q \<Longrightarrow> but_cache_result (a_object_loop n p) (a_object_loop n q)"
  "but_cache p q \<Longrightarrow> but_cache_result (a_array_loop n p) (a_array_loop n q)"
proof (induction n arbitrary: p q)
  case (Suc n)
  {
    case 1
    then have s: "but_cache (a_skipWhitespace p) (a_skipWhitespace q)" by (rule but_cache_skip)
    show ?case
      unfolding a_parseValue.simps Let_def but_cache_eq [OF s]
      using s Suc.IH(3) [OF but_cache_mark [OF s], of TokenArrayStart]
        Suc.IH(2) [OF but_cache_flags [OF but_cache_mark [OF s]], of True]
        but_cache_string [OF s] but_cache_scalar [OF s]
      by (simp add: but_cache_eq [OF but_cache_mark [OF s]])
  next
    case 2
    then have s: "but_cache (a_skipWhitespace p) (a_skipWhitespace q)" by (rule but_cache_skip)
    let ?go = "\<lambda>p. a_then (a_parseString (a_expectKey True p)) (a_colon (\<lambda>p. a_then (a_parseValue n p)
        (a_round_end ''unterminated object'' 0x7D ''expected ',' or '}' in object'' (a_object_loop n))))"
    have "but_cache_result (?go (a_skipWhitespace p)) (?go (a_skipWhitespace q))"
      unfolding but_cache_eq(3) [OF s]
      by (intro but_cache_then but_cache_colon but_cache_round but_cache_string but_cache_flags
          Suc.IH(1,2) s)
    then show ?case
      using s but_cache_flags [OF but_cache_mark [OF s]]
      by (simp add: Let_def but_cache_eq [OF s] but_cache_eq [OF but_cache_mark [OF s]])
  next
    case 3
    then have s: "but_cache (a_skipWhitespace p) (a_skipWhitespace q)" by (rule but_cache_skip)
    let ?go = "\<lambda>p. a_then (a_parseValue n p)
        (a_round_end ''unterminated array'' 0x5D ''expected ',' or ']' in array'' (a_array_loop n))"
    have "but_cache_result (?go (a_skipWhitespace p)) (?go (a_skipWhitespace q))"
      by (intro but_cache_then but_cache_round Suc.IH(1,3) s)
    with s but_cache_mark [OF s] show ?case by (simp add: Let_def but_cache_eq [OF s])
  }
qed (simp_all)

text \<open>The parsers that the pool hands out: new ones, and returned ones after a parse.\<close>

inductive a_pooled :: "atom_parser \<Rightarrow> bool" where
  fresh: "a_pooled a_newParser"
| reused: "a_pooled p \<Longrightarrow> a_pooled (a_ReturnParser (snd (a_Parse d p)))"

lemma start_but_cache:
  assumes "cache_ok (ap_atomCache p)" "cache_ok (ap_atomCache q)"
  shows "but_cache_result (a_Parse d p) (a_Parse d q)"
  unfolding a_Parse_def by (rule but_cache_parse(1)) (use assms in \<open>simp add: but_cache_def\<close>)

lemma pooled_cache: "a_pooled p \<Longrightarrow> cache_ok (ap_atomCache p)"
proof (induction rule: a_pooled.induct)
  case fresh
  then show ?case by (simp add: a_newParser_def)
next
  case (reused p d)
  have "but_cache (snd (a_Parse d p)) (snd (a_Parse d p))"
    using start_but_cache [OF reused(2,2), of d] by (simp add: but_cache_result_def)
  then show ?case by (simp add: but_cache_def a_ReturnParser_def)
qed

text \<open>
  C29: the cache of atoms shows in nothing: a parser from the pool, whatever it has parsed before,
  gives the outcome, the tokens and the position that a new parser gives.
\<close>

theorem atom_cache_is_transparent:
  assumes "a_pooled p"
  shows "fst (a_Parse d p) = fst (a_Parse d a_newParser)
    \<and> ap_tokens (snd (a_Parse d p)) = ap_tokens (snd (a_Parse d a_newParser))
    \<and> ap_pos (snd (a_Parse d p)) = ap_pos (snd (a_Parse d a_newParser))"
  using start_but_cache [OF pooled_cache [OF assms] pooled_cache [OF fresh], of d]
  by (simp add: but_cache_result_def but_cache_def)

theorem atom_cache_is_transparent_witness:
  "ap_tokens (snd (a_Parse (octets ''{}'') (a_ReturnParser (snd (a_Parse (octets ''{}'') a_newParser)))))
   = ap_tokens (snd (a_Parse (octets ''{}'') a_newParser))"
  using atom_cache_is_transparent [OF reused [OF fresh]] by blast

section \<open>It reads what the later parser reads\<close>

lemma a_skip_bytes_eq: "a_skip_bytes d pos = skip_basic d pos"
  by (induction d pos rule: a_skip_bytes.induct)
    (subst a_skip_bytes.simps, subst skip_basic.simps, simp)

lemma a_skip_words_eq:
  "(case a_skip_words d pos of (q, True) \<Rightarrow> q | (q, False) \<Rightarrow> skip_basic d q) = skip_basic d pos"
proof (induction d pos rule: a_skip_words.induct)
  case (1 d pos)
  have simd: "skip_simd RealSimdOps d i = skip_basic d i" for i
    by (rule real.skip_simd_basic)
  have ws: "IsWhitespace RealSimdOps = IsWhitespace_real" by (simp add: RealSimdOps_def)
  show ?case
    using 1 simd [of pos, unfolded skip_simd.simps [of _ d pos]]
    by (subst a_skip_words.simps) (auto simp: ws simd split: option.splits if_splits)
qed

lemma a_skip_pos: "a_skipWhitespace p = p\<lparr>ap_pos := skip_basic (ap_data p) (ap_pos p)\<rparr>"
  unfolding a_skip_words_eq [of "ap_data p" "ap_pos p", symmetric]
  by (simp add: a_skipWhitespace_def a_skip_bytes_eq split: prod.split bool.split)

text \<open>A parser of \<open>superjsonic_multi\<close> with the plain loops, and an early one at the same place.\<close>

definition level :: "json_parser \<Rightarrow> atom_parser \<Rightarrow> bool" where
  "level p a = (plain_parser p \<and> ap_data a = jp_data p \<and> ap_pos a = jp_pos p)"

lemma level_eq:
  assumes "level p a"
  shows "a_at_end a = at_end p" "a_byte a = cur_byte p"
  using assms by (simp_all add: level_def a_at_end_def at_end_def a_byte_def cur_byte_def)

lemma level_steps:
  assumes "level p a"
  shows "level (skipWhitespace p) (a_skipWhitespace a)" "level (mark t p) (a_mark t a)"
    "level (pushContext c p) a" "level (popContext p) a" "level (set_context c p) a"
    "level p (a_flags b k a)"
  using assms skip_moved(1,4) [of p] moved_plain [OF skip_moved(1) [of p]] moved_fields [OF skip_moved(1) [of p]]
  by (simp_all add: level_def a_skip_pos popContext_def plain_parser_def)

lemma a_scan_bytes_quote: "scan_basic d i = (j, None) \<Longrightarrow> a_scan_bytes d i = j \<and> j < length d"
proof (induction d i rule: scan_basic.induct)
  case (1 d i)
  then show ?case
    by (subst (asm) (3) scan_basic.simps, subst a_scan_bytes.simps)
      (auto simp: string_end_def Let_def split: if_splits)
qed

lemma a_scan_words_quote: "scan8 RealSimdOps d i = (j, None) \<Longrightarrow> a_scan_words d i = j \<and> j < length d"
proof (induction d i rule: a_scan_words.induct)
  case (1 d i)
  from 1(4) show ?case
    using 1(1-3) a_scan_bytes_quote [of d i j]
    by (subst (asm) scan8.simps, subst a_scan_words.simps)
      (auto simp: RealSimdOps_def string_end_def find_special_def Let_def add.assoc
        split: if_splits option.splits)
qed

lemma level_string:
  assumes "level p a" and "parseString p = (Ok, q)"
  shows "\<exists>b. a_parseString a = (Ok, b) \<and> level q b"
proof -
  let ?d = "jp_data p" and ?i = "jp_pos p + 1"
  obtain e where e: "scan_basic ?d ?i = (e, None)"
    and q: "q = finishString (jp_pos p) ?i (p\<lparr>jp_pos := e\<rparr>)"
    using assms by (auto simp: parseString_def scan_from_def level_def plain_parser_def Let_def
        split: prod.splits option.splits)
  have "scan8 RealSimdOps ?d ?i = (e, None)"
    using real.scan8_basic [of ?d ?i] e by (simp add: agree_scan_def)
  then have "a_scan_words ?d ?i = e" "e < length ?d"
    using a_scan_words_quote by blast+
  with assms(1) show ?thesis
    by (auto simp: a_parseString_def Let_def level_def a_at_end_def q finishString_def processKey_def
        processKeyAtom_def processKeyString_def count_key_def plain_parser_def addToken_def split: key_op.split)
qed

lemma a_digits_eq: "a_digits d pos = skip_digits d pos"
  by (induction d pos rule: a_digits.induct) (subst a_digits.simps, subst skip_digits.simps, simp)

lemma a_fraction_end_eq: "scan_fraction d i = (j, None) \<Longrightarrow> a_fraction_end d i = j"
  by (auto simp: scan_fraction_def a_fraction_end_def a_digits_eq byte_at_def split: if_splits)

lemma a_exponent_end_eq: "scan_exponent d i = (j, None) \<Longrightarrow> a_exponent_end d i = j"
  by (auto simp: scan_exponent_def a_exponent_end_def a_digits_eq byte_at_def Let_def split: if_splits)

lemma no_second_digit: "\<not> digit_at d i \<Longrightarrow> a_digits d i = i"
  by (subst a_digits.simps) (auto simp: digit_at_def)

text \<open>The later parser ends a number behind a leading zero; here the digits go on.\<close>

lemma a_number_end_eq:
  assumes "scan_number d i = (j, None)" and "stops_at d j" and "i < length d"
  shows "a_number_end d i = j"
proof -
  let ?i = "if d ! i = 0x2D then i + 1 else i"
  let ?k = "if d ! ?i = 0x30 then ?i + 1 else skip_digits d ?i"
  from assms(1) obtain k where digit: "digit_at d ?i"
    and frac: "scan_fraction d ?k = (k, None)" and exp: "scan_exponent d k = (j, None)"
    unfolding scan_number_def Let_def by (auto split: if_splits prod.splits option.splits)
  have "a_digits d ?i = ?k"
  proof (cases "d ! ?i = 0x30")
    case True
    have "\<not> digit_at d (?i + 1)"
    proof
      assume more: "digit_at d (?i + 1)"
      then have "\<not> byte_at d (?i + 1) {0x2E}" "\<not> byte_at d (?i + 1) {0x65, 0x45}"
        using not_digit by (auto simp: digit_at_def byte_at_def)
      with frac exp True have "j = ?i + 1"
        by (simp add: scan_fraction_def scan_exponent_def)
      with more assms(2) show False
        by (simp add: stops_at_def)
    qed
    then have "a_digits d (?i + 1) = ?i + 1" by (rule no_second_digit)
    with True digit show ?thesis
      by (subst a_digits.simps) (simp add: digit_at_def)
  next
    case False
    then show ?thesis by (simp add: a_digits_eq)
  qed
  with a_fraction_end_eq [OF frac] a_exponent_end_eq [OF exp] show ?thesis
    by (simp add: a_number_end_def)
qed

lemma level_number:
  assumes "level p a" and "parseNumber p = (Ok, q)" and "stops_at (jp_data p) (jp_pos q)" and "\<not> at_end p"
  shows "\<exists>b. a_parseNumber a = (Ok, b) \<and> level q b"
proof -
  obtain j where j: "scan_number (jp_data p) (jp_pos p) = (j, None)"
    and q: "q = (addToken TokenNumber (jp_pos p) (j - jp_pos p) 0 no_atom128 p)\<lparr>jp_pos := j\<rparr>"
    using assms(2) by (auto simp: parseNumber_def Let_def split: prod.splits option.splits)
  have "a_number_end (jp_data p) (jp_pos p) = j"
    using a_number_end_eq [OF j] assms(3,4) by (simp add: q at_end_def)
  with assms(1) show ?thesis
    by (simp add: a_parseNumber_def Let_def level_def q)
qed

lemma a_word_at_simps:
  "a_word_at ''true'' a \<longleftrightarrow> ap_pos a + 4 \<le> length (ap_data a) \<and> take 4 (drop (ap_pos a) (ap_data a)) = octets ''true''"
  "a_word_at ''null'' a \<longleftrightarrow> ap_pos a + 4 \<le> length (ap_data a) \<and> take 4 (drop (ap_pos a) (ap_data a)) = octets ''null''"
  "a_word_at ''false'' a \<longleftrightarrow> ap_pos a + 5 \<le> length (ap_data a) \<and> take 5 (drop (ap_pos a) (ap_data a)) = octets ''false''"
  by (simp_all add: a_word_at_def eval_nat_numeral)

lemma level_literal:
  assumes "level p a" and "parseLiteral p = (Ok, q)"
  shows "cur_byte p = 0x6E \<Longrightarrow> \<exists>b. a_parseNull a = (Ok, b) \<and> level q b"
    and "cur_byte p = 0x74 \<or> cur_byte p = 0x66 \<Longrightarrow> \<exists>b. a_parseBool a = (Ok, b) \<and> level q b"
proof -
  have basic: "parseLiteralBasic p = (Ok, q)"
    using assms by (simp add: parseLiteral_def level_def plain_parser_def)
  have at: "ap_data a = jp_data p" "ap_pos a = jp_pos p" using assms(1) by (simp_all add: level_def)
  have lit: "\<exists>b. a_literal t n a = (Ok, b) \<and> level r b" if "literal_token t n p = (Ok, r)" for t n r
    using that assms(1) by (auto simp: literal_token_def a_literal_def level_def Let_def)
  show "\<exists>b. a_parseNull a = (Ok, b) \<and> level q b" if "cur_byte p = 0x6E"
    using basic that lit
    by (auto simp: parseLiteralBasic_def a_parseNull_def a_word_at_simps at Let_def invalid_literal_def
        split: if_splits)
  have true: "take 4 (drop (jp_pos p) (jp_data p)) \<noteq> octets ''true''" if "cur_byte p = 0x66"
    "jp_pos p + 4 \<le> length (jp_data p)"
    using literal_byte [of "jp_pos p" "jp_data p" "CHR ''t''" "''rue''"] that
    by (auto simp: cur_byte_def)
  show "\<exists>b. a_parseBool a = (Ok, b) \<and> level q b" if "cur_byte p = 0x74 \<or> cur_byte p = 0x66"
    using basic that lit true
    by (auto simp: parseLiteralBasic_def a_parseBool_def a_word_at_simps at Let_def invalid_literal_def
        split: if_splits)
qed

text \<open>Where a value of an object or array has ended no number goes on.\<close>

lemma stops_at_mark:
  assumes "plain_parser p" and "\<not> at_end (skipWhitespace p)" and "cur_byte (skipWhitespace p) = b"
    and "b \<in> {0x2C, 0x5D, 0x7D}"
  shows "stops_at (jp_data p) (jp_pos p)"
proof -
  have "jp_data (skipWhitespace p) = jp_data p"
    using moved_fields [OF skip_moved(1) [OF assms(1)]] by simp
  with skip_moved(2) [OF assms(1)] cur_is_at [OF assms(2), of b] assms(3,4) show ?thesis
    by (intro stops_before) auto
qed

lemma loop_stops:
  assumes "plain_parser p"
  shows "object_loop n False p = (Ok, q) \<Longrightarrow> stops_at (jp_data p) (jp_pos p)"
    and "array_loop n False p = (Ok, q) \<Longrightarrow> stops_at (jp_data p) (jp_pos p)"
  using stops_at_mark [OF assms]
  by (cases n; auto simp: Let_def expected_at_def split: if_splits)+

lemma value_start:
  assumes "parseValue n p = (Ok, q)"
  shows "\<not> at_end (skipWhitespace p)" "cur_byte (skipWhitespace p) \<noteq> 0x5D"
  using assms by (cases n; auto simp: Let_def isDigit_def split: if_splits)+

text \<open>A parser function of each kind that keep level, a value where no number goes on behind it.\<close>

definition levels :: "(json_parser \<Rightarrow> parse_result) \<Rightarrow> (atom_parser \<Rightarrow> atom_result) \<Rightarrow> bool" where
  "levels f g = (\<forall>p a q. level p a \<longrightarrow> f p = (Ok, q) \<longrightarrow> (\<exists>b. g a = (Ok, b) \<and> level q b))"

definition value_levels :: "nat \<Rightarrow> bool" where
  "value_levels n = (\<forall>p a q. level p a \<longrightarrow> parseValue n p = (Ok, q) \<longrightarrow>
     stops_at (jp_data q) (jp_pos q) \<longrightarrow> (\<exists>b. a_parseValue n a = (Ok, b) \<and> level q b))"

lemma levelsD: "levels f g \<Longrightarrow> level p a \<Longrightarrow> f p = (Ok, q) \<Longrightarrow> \<exists>b. g a = (Ok, b) \<and> level q b"
  unfolding levels_def by blast

lemma value_levelsD: "value_levels n \<Longrightarrow> level p a \<Longrightarrow> parseValue n p = (Ok, q) \<Longrightarrow>
    stops_at (jp_data q) (jp_pos q) \<Longrightarrow> \<exists>b. a_parseValue n a = (Ok, b) \<and> level q b"
  unfolding value_levels_def by blast

lemma level_member:
  assumes val: "value_levels n"
    and "level p a" "object_member n p = (Ok, q)" "stops_at (jp_data q) (jp_pos q)"
  shows "\<not> a_at_end a" "a_byte a = 0x22"
    and "\<exists>b. a_then (a_parseString (a_expectKey True a)) (a_colon (\<lambda>p. a_then (a_parseValue n p) f)) = f b
      \<and> level q b"
proof -
  have start: "\<not> at_end p" "cur_byte p = 0x22"
    using assms(3) by (auto simp: object_member.simps Let_def expected_at_def split: if_splits)
  with level_eq [OF assms(2)] show "\<not> a_at_end a" "a_byte a = 0x22" by simp_all
  from assms(3) obtain q1 q2 where
    key: "parseString (set_context ContextObjectKey p) = (Ok, q1)"
    and colon: "\<not> at_end (skipWhitespace q1)" "cur_byte (skipWhitespace q1) = 0x3A"
    and v: "parseValue n (set_context ContextObjectValue (mark TokenColon (skipWhitespace q1))) = (Ok, q2)"
    and q: "q = set_context ContextObjectComma q2"
    by (auto simp: object_member.simps Let_def and_then_Ok expected_at_def split: if_splits)
  obtain b where b: "a_parseString (a_expectKey True a) = (Ok, b)" "level q1 b"
    using level_string [OF level_steps(5) [OF level_steps(6) [OF assms(2)]] key] by blast
  let ?s = "a_skipWhitespace (a_expectKey False b)"
  have s: "level (skipWhitespace q1) ?s"
    using b(2) by (intro level_steps(1,6))
  with level_eq [OF this] colon have s_colon: "\<not> a_at_end ?s" "a_byte ?s = 0x3A" by simp_all
  have "level (set_context ContextObjectValue (mark TokenColon (skipWhitespace q1))) (a_mark TokenColon ?s)"
    using s by (intro level_steps(2,5))
  from value_levelsD [OF val this v] assms(4) obtain e where "a_parseValue n (a_mark TokenColon ?s) = (Ok, e)" "level q2 e"
    unfolding q by auto
  with b(1) s_colon show "\<exists>b. a_then (a_parseString (a_expectKey True a))
      (a_colon (\<lambda>p. a_then (a_parseValue n p) f)) = f b \<and> level q b"
    unfolding q by (auto simp: a_colon_def Let_def intro!: level_steps(5))
qed

lemma skip_twice: "a_skipWhitespace (a_skipWhitespace a) = a_skipWhitespace a"
  using skip_basic_stop [OF skip_basic_not_space, of "ap_data a" "ap_pos a"]
  by (simp add: a_skip_pos)

lemma loops_skip:
  "a_object_loop (Suc n) (a_skipWhitespace a) = a_object_loop (Suc n) a"
  "a_array_loop (Suc n) (a_skipWhitespace a) = a_array_loop (Suc n) a"
  by (simp_all add: skip_twice)

lemma value_setup: "parseValue n p = (Ok, q) \<Longrightarrow> plain_parser p \<Longrightarrow> plain_parser q"
  using parse_same_setup [of p n] by (simp add: same_setup_def plain_parser_def)

lemma member_setup: "object_member n p = (Ok, q) \<Longrightarrow> plain_parser p \<Longrightarrow> plain_parser q"
  using same_setup_member [of n p] parse_same_setup by (simp add: same_setup_def plain_parser_def)

lemma skip_in_context: "skipWhitespace (set_context c p) = set_context c (skipWhitespace p)"
  by (simp add: skipWhitespace_def skip_from_def set_context_def split: space_op.split)

lemma skip_skip: "plain_parser p \<Longrightarrow> skipWhitespace (skipWhitespace p) = skipWhitespace p"
  by (simp add: skipWhitespace_def skip_from_def plain_parser_def skip_basic_stop [OF skip_basic_not_space])

text \<open>The mark that closes, and one pass of each loop behind its white space.\<close>

lemma level_close:
  assumes "level p a" "\<not> at_end (skipWhitespace p)"
  shows "cur_byte (skipWhitespace p) = 0x7D \<Longrightarrow>
      \<exists>b. a_object_loop (Suc n) a = (Ok, b) \<and> level (popContext (mark TokenObjectEnd (skipWhitespace p))) b"
    and "cur_byte (skipWhitespace p) = 0x5D \<Longrightarrow>
      \<exists>b. a_array_loop (Suc n) a = (Ok, b) \<and> level (popContext (mark TokenArrayEnd (skipWhitespace p))) b"
proof -
  have s: "level (skipWhitespace p) (a_skipWhitespace a)" using assms(1) by (rule level_steps(1))
  note close = level_steps(4) [OF level_steps(2) [OF s]]
  show "cur_byte (skipWhitespace p) = 0x7D \<Longrightarrow>
      \<exists>b. a_object_loop (Suc n) a = (Ok, b) \<and> level (popContext (mark TokenObjectEnd (skipWhitespace p))) b"
    using assms(2) level_eq [OF s] level_steps(6) [OF close] by (simp add: Let_def)
  show "cur_byte (skipWhitespace p) = 0x5D \<Longrightarrow>
      \<exists>b. a_array_loop (Suc n) a = (Ok, b) \<and> level (popContext (mark TokenArrayEnd (skipWhitespace p))) b"
    using assms(2) level_eq [OF s] close by (simp add: Let_def)
qed

lemma level_object_pass:
  assumes val: "value_levels n"
    and more: "levels (object_loop n False)
      (a_round_end ''unterminated object'' 0x7D ''expected ',' or '}' in object'' (a_object_loop n))"
    and "level p a" and "and_then (object_member n (skipWhitespace p)) (object_loop n False) = (Ok, q)"
  shows "\<exists>b. a_object_loop (Suc n) a = (Ok, b) \<and> level q b"
proof -
  have s: "level (skipWhitespace p) (a_skipWhitespace a)" using assms(3) by (rule level_steps(1))
  obtain r where r: "object_member n (skipWhitespace p) = (Ok, r)" "object_loop n False r = (Ok, q)"
    using assms(4) by (auto simp: and_then_Ok)
  have "plain_parser r"
    using member_setup [OF r(1)] s by (simp add: level_def)
  then have "stops_at (jp_data r) (jp_pos r)" using loop_stops(1) r(2) by blast
  note member = level_member [OF val s r(1) this]
  from member(3) [where f = "a_round_end ''unterminated object'' 0x7D ''expected ',' or '}' in object'' (a_object_loop n)"]
    levelsD [OF more _ r(2)] member(1,2) show ?thesis
    by (auto simp: Let_def)
qed

lemma level_array_pass:
  assumes val: "value_levels n"
    and more: "levels (array_loop n False)
      (a_round_end ''unterminated array'' 0x5D ''expected ',' or ']' in array'' (a_array_loop n))"
    and "level p a" and "and_then (array_element n (skipWhitespace p)) (array_loop n False) = (Ok, q)"
  shows "\<exists>b. a_array_loop (Suc n) a = (Ok, b) \<and> level q b"
proof -
  have s: "level (set_context ContextArrayValue (skipWhitespace p)) (a_skipWhitespace a)"
    using assms(3) by (intro level_steps(1,5))
  obtain v where v: "parseValue n (set_context ContextArrayValue (skipWhitespace p)) = (Ok, v)"
    and r: "array_loop n False (set_context ContextArrayComma v) = (Ok, q)"
    using assms(4) by (auto simp: and_then_Ok array_element.simps)
  have "plain_parser v"
    using value_setup [OF v] s by (simp add: level_def)
  then have "stops_at (jp_data v) (jp_pos v)" using loop_stops(2) [OF _ r] by simp
  from value_levelsD [OF val s v this] obtain b where b: "a_parseValue n (a_skipWhitespace a) = (Ok, b)" "level v b"
    by blast
  have start: "\<not> at_end (skipWhitespace p)" "cur_byte (skipWhitespace p) \<noteq> 0x5D"
    using value_start [OF v] skip_skip [of p] assms(3)
    by (simp_all add: skip_in_context level_def)
  from levelsD [OF more level_steps(5) [OF b(2)] r] b(1) start level_eq [OF level_steps(1) [OF assms(3)]] show ?thesis
    by (auto simp: Let_def)
qed

text \<open>The end of a round reads a comma and goes on, or leaves the closing mark to the next round.\<close>

lemma level_round:
  assumes "level p a" "\<not> at_end (skipWhitespace p)"
  shows "cur_byte (skipWhitespace p) = 0x2C \<Longrightarrow>
      a_round_end e b e' f a = f (a_mark TokenComma (a_skipWhitespace a))"
    and "cur_byte (skipWhitespace p) = b \<Longrightarrow> b \<noteq> 0x2C \<Longrightarrow> a_round_end e b e' f a = f (a_skipWhitespace a)"
  using assms(2) level_eq [OF level_steps(1) [OF assms(1)]] by (simp_all add: a_round_end_def Let_def)

lemma level_value_step:
  assumes obj: "levels (object_loop n True) (a_object_loop n)"
    and arr: "levels (array_loop n True) (a_array_loop n)"
  shows "value_levels (Suc n)"
  unfolding value_levels_def
proof (intro allI impI)
  fix p a q
  assume p: "level p a" and v: "parseValue (Suc n) p = (Ok, q)" and stops: "stops_at (jp_data q) (jp_pos q)"
  have s: "level (skipWhitespace p) (a_skipWhitespace a)" using p by (rule level_steps(1))
  have live: "\<not> at_end (skipWhitespace p)" using value_start(1) [OF v] .
  have o: "level (pushContext ContextObjectStart (mark TokenObjectStart (skipWhitespace p)))
      (a_inObject True (a_mark TokenObjectStart (a_skipWhitespace a)))"
    by (rule level_steps(6) [OF level_steps(3) [OF level_steps(2) [OF s]]])
  have r: "level (pushContext ContextArrayStart (mark TokenArrayStart (skipWhitespace p)))
      (a_mark TokenArrayStart (a_skipWhitespace a))"
    by (rule level_steps(3) [OF level_steps(2) [OF s]])
  have kept: "jp_data (skipWhitespace p) = jp_data q" if "parseNumber (skipWhitespace p) = (Ok, q)"
    using that by (auto simp: parseNumber_def Let_def split: prod.splits option.splits)
  from v stops live show "\<exists>b. a_parseValue (Suc n) a = (Ok, b) \<and> level q b"
    using levelsD [OF obj o] levelsD [OF arr r] level_string [OF s] level_literal [OF s]
      level_number [OF s _ _ live] kept
    by (auto simp: Let_def level_eq [OF s] split: if_splits)
qed

lemma level_round_object:
  assumes "level p a" and "object_loop (Suc n) False p = (Ok, q)"
    and pass: "\<And>p a q. level p a \<Longrightarrow> and_then (object_member n (skipWhitespace p)) (object_loop n False) = (Ok, q)
      \<Longrightarrow> \<exists>b. a_object_loop (Suc n) a = (Ok, b) \<and> level q b"
  shows "\<exists>b. a_round_end e 0x7D e' (a_object_loop (Suc n)) a = (Ok, b) \<and> level q b"
proof -
  let ?s = "skipWhitespace p"
  have live: "\<not> at_end ?s" using assms(2) by (auto simp: Let_def split: if_splits)
  show ?thesis
  proof (cases "cur_byte ?s = 0x7D")
    case True
    have "q = popContext (mark TokenObjectEnd ?s)" using assms(2) live True by (simp add: Let_def)
    with level_close(1) [OF assms(1) live True, of n] show ?thesis
      by (simp add: level_round(2) [OF assms(1) live True] loops_skip del: a_object_loop.simps)
  next
    case False
    with assms(2) live have "cur_byte ?s = 0x2C"
      and "and_then (object_member n (skipWhitespace (mark TokenComma ?s))) (object_loop n False) = (Ok, q)"
      by (auto simp: Let_def expected_at_def split: if_splits)
    with pass [OF level_steps(2) [OF level_steps(1) [OF assms(1)]]] show ?thesis
      by (simp add: level_round(1) [OF assms(1) live] del: a_object_loop.simps)
  qed
qed

lemma level_round_array:
  assumes "level p a" and "array_loop (Suc n) False p = (Ok, q)"
    and pass: "\<And>p a q. level p a \<Longrightarrow> and_then (array_element n (skipWhitespace p)) (array_loop n False) = (Ok, q)
      \<Longrightarrow> \<exists>b. a_array_loop (Suc n) a = (Ok, b) \<and> level q b"
  shows "\<exists>b. a_round_end e 0x5D e' (a_array_loop (Suc n)) a = (Ok, b) \<and> level q b"
proof -
  let ?s = "skipWhitespace p"
  have live: "\<not> at_end ?s" using assms(2) by (auto simp: Let_def split: if_splits)
  show ?thesis
  proof (cases "cur_byte ?s = 0x5D")
    case True
    have "q = popContext (mark TokenArrayEnd ?s)" using assms(2) live True by (simp add: Let_def)
    with level_close(2) [OF assms(1) live True, of n] show ?thesis
      by (simp add: level_round(2) [OF assms(1) live True] loops_skip del: a_array_loop.simps)
  next
    case False
    with assms(2) live have "cur_byte ?s = 0x2C"
      and "and_then (array_element n (skipWhitespace (mark TokenComma ?s))) (array_loop n False) = (Ok, q)"
      by (auto simp: Let_def expected_at_def split: if_splits)
    with pass [OF level_steps(2) [OF level_steps(1) [OF assms(1)]]] show ?thesis
      by (simp add: level_round(1) [OF assms(1) live] del: a_array_loop.simps)
  qed
qed

lemma level_parse:
  "value_levels n"
  "levels (object_loop n True) (a_object_loop n)"
  "levels (object_loop n False) (a_round_end e1 0x7D e2 (a_object_loop n))"
  "levels (array_loop n True) (a_array_loop n)"
  "levels (array_loop n False) (a_round_end e3 0x5D e4 (a_array_loop n))"
proof (induction n arbitrary: e1 e2 e3 e4)
  case (Suc n)
  note object_pass = level_object_pass [OF Suc.IH(1,3)] and array_pass = level_array_pass [OF Suc.IH(1,5)]
  {
    case 1
    show ?case by (rule level_value_step) (fact Suc.IH)+
  next
    case 2
    show ?case
      unfolding levels_def using level_close(1) object_pass
      by (fastforce simp: Let_def split: if_splits)
  next
    case 3
    show ?case
      unfolding levels_def by (intro allI impI) (erule (1) level_round_object, erule (1) object_pass)
  next
    case 4
    show ?case
      unfolding levels_def using level_close(2) array_pass
      by (fastforce simp: Let_def split: if_splits)
  next
    case 5
    show ?case
      unfolding levels_def by (intro allI impI) (erule (1) level_round_array, erule (1) array_pass)
  }
qed (simp_all add: levels_def value_levels_def)

text \<open>
  C30: the first parser with atoms accepts what the later parser accepts, under any configuration
  of that, and reads as far, if no digit, point or exponent follows there.
\<close>

theorem early_reads_JSON:
  assumes "fst (ParseJSON cfg d (createParser cfg)) = Ok"
    and "stops_at d (jp_pos (snd (ParseJSON cfg d (createParser cfg))))"
  shows "fst (a_Parse d p) = Ok
    \<and> ap_pos (snd (a_Parse d p)) = jp_pos (snd (ParseJSON cfg d (createParser cfg)))"
proof -
  obtain q where run: "ParseJSON cfg d (createParser cfg) = (Ok, q)"
    using assms(1) by (cases "ParseJSON cfg d (createParser cfg)") auto
  with run_plain [of cfg d]
  have plain: "parseValue (2 * length d + 2) (plain_start cfg d) = (Ok, plain_ops q)"
    by (simp add: agree_result_def)
  have "level (plain_start cfg d) (p\<lparr>ap_data := d, ap_tokens := [], ap_pos := 0,
      ap_inObject := False, ap_expectKey := False, ap_arrayInfo := a_detectLargeArray d\<rparr>)"
    by (simp add: level_def plain_start_fields)
  from value_levelsD [OF level_parse(1) this plain] assms(2) run_sound(3) [OF run] show ?thesis
    by (auto simp: run a_Parse_def level_def simp del: a_parseValue.simps)
qed

theorem early_reads_JSON_witness:
  "ap_pos (snd (a_Parse (octets ''[1]'') a_newParser))
   = jp_pos (snd (ParseJSON default_config (octets ''[1]'') (createParser default_config)))"
proof -
  have "fst (ParseJSON default_config (octets ''[1]'') (createParser default_config)) = Ok
    \<and> stops_at (octets ''[1]'') (jp_pos (snd (ParseJSON default_config (octets ''[1]'') (createParser default_config))))"
    by code_simp
  then show ?thesis using early_reads_JSON [of default_config "octets ''[1]''" a_newParser] by blast
qed

section \<open>What it does wrong\<close>

text \<open>For the evaluation of examples: the scans by bytes.\<close>

lemma a_skipWhitespace_code [code]:
  "a_skipWhitespace p = p\<lparr>ap_pos := skip_basic (ap_data p) (ap_pos p)\<rparr>"
  by (rule a_skip_pos)

lemma a_parseString_code [code]:
  "a_parseString p = (let start = ap_pos p in
     case scan_basic (ap_data p) (start + 1) of
       (j, None) \<Rightarrow> (let p = a_string_token start (p\<lparr>ap_pos := j\<rparr>) in (Ok, p\<lparr>ap_pos := ap_pos p + 1\<rparr>))
     | (j, Some m) \<Rightarrow>
         (let p = p\<lparr>ap_pos := a_scan_words (ap_data p) (start + 1)\<rparr> in
          if a_at_end p then (Err ''unterminated string'', p)
          else let p = a_string_token start p in (Ok, p\<lparr>ap_pos := ap_pos p + 1\<rparr>)))"
proof (cases "snd (scan_basic (ap_data p) (ap_pos p + 1))")
  case None
  then obtain j where j: "scan_basic (ap_data p) (ap_pos p + 1) = (j, None)"
    by (cases "scan_basic (ap_data p) (ap_pos p + 1)") auto
  then have "scan8 RealSimdOps (ap_data p) (ap_pos p + 1) = (j, None)"
    using real.scan8_basic [of "ap_data p" "ap_pos p + 1"] by (simp add: agree_scan_def)
  from a_scan_words_quote [OF this] j show ?thesis
    by (simp add: a_parseString_def Let_def a_at_end_def)
next
  case (Some m)
  then show ?thesis
    by (cases "scan_basic (ap_data p) (ap_pos p + 1)") (simp add: a_parseString_def Let_def)
qed

text \<open>Texts that are not JSON, which it accepts to the end.\<close>

definition not_JSON :: "string list" where
  "not_JSON = [''-'', ''[1,]'', ''[1.]'', ''{a\":1}'', ''01'']"

theorem early_accepts_too_much:
  "list_all (\<lambda>s. fst (a_Parse (octets s) a_newParser) = Ok
     \<and> ap_pos (snd (a_Parse (octets s) a_newParser)) = length s) not_JSON"
  unfolding not_JSON_def by code_simp

text \<open>Behind a nested object the keys of the outer one are taken for values.\<close>

theorem early_forgets_object:
  "map jt_Type (ap_tokens (snd (a_Parse (octets ''{\"a\":{},\"b\":1}'') a_newParser))) =
   [TokenObjectStart, TokenKey64, TokenColon, TokenObjectStart, TokenObjectEnd, TokenComma,
    TokenString, TokenColon, TokenNumber, TokenObjectEnd]"
  by code_simp

text \<open>
  The atoms of two longer keys: they are the same exactly when the keys have one length and one
  beginning of eight bytes. So \<open>documentType\<close> and \<open>documentDate\<close> have one atom.
\<close>

lemma a_makeAtom128_parts:
  assumes "8 \<le> length bs" "length bs \<le> 16"
  shows "a_makeAtom128 bs = \<lparr>Lo = or_bytes (take 8 bs), Hi = or_bytes (take (length bs - 8) bs)\<rparr>"
proof -
  have len: "min (length bs) 8 = 8" "min (length bs) 16 = length bs"
    and shift: "[8..<length bs] = map (\<lambda>i. i + 8) [0..<length bs - 8]"
    using assms by (simp_all add: map_add_upt)
  have "fold (\<lambda>i lo. lo OR push_bit (i * 8) (ucast (bs ! i))) [0..<8] 0 = or_bytes (take 8 bs)"
    unfolding or_bytes_def using assms by (intro fold_cong) auto
  moreover have "fold (\<lambda>i hi. hi OR push_bit ((i - 8) * 8) (ucast (bs ! (i - 8)))) [8..<length bs] 0
      = or_bytes (take (length bs - 8) bs)"
    unfolding or_bytes_def shift fold_map using assms by (intro fold_cong) auto
  ultimately show ?thesis
    using assms by (simp add: a_makeAtom128_def len)
qed

theorem early_atoms_collide:
  assumes "8 < length bs" "length bs \<le> 16" "8 < length cs" "length cs \<le> 16" "0 \<notin> set bs" "0 \<notin> set cs"
  shows "a_makeAtom128 bs = a_makeAtom128 cs \<longleftrightarrow> length bs = length cs \<and> take 8 bs = take 8 cs"
proof -
  have zero: "0 \<notin> set (take n bs)" "0 \<notin> set (take n cs)" for n
    using assms(5,6) by (auto dest: in_set_takeD)
  have lo: "or_bytes (take 8 bs) = or_bytes (take 8 cs) \<longleftrightarrow> take 8 bs = take 8 cs"
    by (rule or_bytes_eq) (use zero in simp_all)
  have hi: "or_bytes (take (length bs - 8) bs) = or_bytes (take (length cs - 8) cs) \<longleftrightarrow>
      take (length bs - 8) bs = take (length cs - 8) cs"
    by (rule or_bytes_eq) (use zero assms in simp_all)
  have "length bs = length cs" if "take (length bs - 8) bs = take (length cs - 8) cs"
  proof -
    have "length (take (length bs - 8) bs) = length (take (length cs - 8) cs)" using that by simp
    with assms show ?thesis by simp
  qed
  moreover have "take (length bs - 8) bs = take (length cs - 8) cs"
    if same: "length bs = length cs" "take 8 bs = take 8 cs"
  proof -
    have "take (length bs - 8) (take 8 bs) = take (length cs - 8) (take 8 cs)" by (simp only: same)
    moreover have "min (length bs - 8) 8 = length bs - 8" "min (length cs - 8) 8 = length cs - 8"
      using assms by simp_all
    ultimately show ?thesis by (simp only: take_take)
  qed
  ultimately show ?thesis
    using assms lo hi by (auto simp: a_makeAtom128_parts)
qed

theorem early_atoms_collide_witness:
  "a_makeAtom128 (octets ''documentType'') = a_makeAtom128 (octets ''documentDate'')"
  using early_atoms_collide [of "octets ''documentType''" "octets ''documentDate''"]
  by (simp add: octets_def)

end
