(* ===== verification/ExampleValidators.thy ===== *)
theory ExampleValidators
  imports Phone "HOL-Library.Word"
begin

text \<open>
  \<open>examples/custom-validators/main.go\<close>: the validator functions of the example, from the bracket
  matching of user names to the Luhn test of card numbers. A failed type assertion with the blank
  identifier gives the zero value, \<open>str_or_zero\<close>. Patterns with a group that is optional or has
  alternatives are written as several patterns without it. The theorems: the bracket test accepts
  the words of the grammar of balanced brackets, the Luhn test rejects every number with one wrong
  digit and every number with two unequal neighbours swapped other than 0 and 9, it accepts more
  than digits, and the limit on the size of the cache is never reached.
\<close>

section \<open>Reading the argument\<close>

definition str_or_zero :: "gval option \<Rightarrow> string" where
  "str_or_zero v = (case v of Some (VStr s) \<Rightarrow> s | _ \<Rightarrow> [])"

definition float_or_zero :: "gval option \<Rightarrow> f64" where
  "float_or_zero v = (case v of Some (VFloat64 x) \<Rightarrow> x | _ \<Rightarrow> FFin 0)"

definition slice_or_nil :: "gval option \<Rightarrow> gval list" where
  "slice_or_nil v = (case v of Some (VSlice vs) \<Rightarrow> vs | _ \<Rightarrow> [])"

text \<open>\<open>strings.Contains\<close> and \<open>strings.HasSuffix\<close>.\<close>

fun str_contains :: "string \<Rightarrow> string \<Rightarrow> bool" where
  "str_contains [] w = (w = [])"
| "str_contains (ch # s) w = (has_prefix (ch # s) w \<or> str_contains s w)"

definition has_suffix :: "string \<Rightarrow> string \<Rightarrow> bool" where
  "has_suffix s w = has_prefix (rev s) (rev w)"

definition contains :: "string list \<Rightarrow> string \<Rightarrow> bool" where
  "contains items item = list_ex (\<lambda>s. s = item) items"

text \<open>The keys of a map in the order a \<open>range\<close> visits them, which \<open>ord\<close> chooses.\<close>

definition visit_keys :: "(string list \<Rightarrow> string list) \<Rightarrow> 'v gmap \<Rightarrow> string list" where
  "visit_keys ord m = (let ks = ord (map_keys m) in if mset ks = mset (map_keys m) then ks else map_keys m)"

text \<open>The first error a loop returns with.\<close>

fun first_error :: "('a \<Rightarrow> string option) \<Rightarrow> 'a list \<Rightarrow> string option" where
  "first_error f [] = None"
| "first_error f (x # xs) = (case f x of Some e \<Rightarrow> Some e | None \<Rightarrow> first_error f xs)"

lemma first_error_None: "first_error f xs = None \<longleftrightarrow> (\<forall>x \<in> set xs. f x = None)"
  by (induction xs) (auto split: option.splits)

section \<open>User registration\<close>

text \<open>The pairs of brackets: \<open>()\<close>, \<open>[]\<close> and braces.\<close>

definition bracket_pairs :: "(nat \<times> nat) list" where
  "bracket_pairs = [(41, 40), (93, 91), (125, 123)]"

fun balanced_from :: "nat list \<Rightarrow> nat list \<Rightarrow> bool" where
  "balanced_from stack [] = (length stack = 0)"
| "balanced_from stack (ch # chs) =
     (if ch \<in> {40, 91, 123} then balanced_from (stack @ [ch]) chs
      else if ch \<in> {41, 93, 125} then
        if length stack = 0 \<or> Some (stack ! (length stack - 1)) \<noteq> map_of bracket_pairs ch then False
        else balanced_from (take (length stack - 1) stack) chs
      else balanced_from stack chs)"

definition isBalancedUsername :: "string \<Rightarrow> bool" where
  "isBalancedUsername username = balanced_from [] (map fst (rune_chunks username))"

definition usernameValidator :: "unicode_tables \<Rightarrow> validator_func" where
  "usernameValidator U v = (case v of
       VStr username \<Rightarrow>
         (case find (str_contains (ToLower U username)) [''admin'', ''root'', ''system'', ''null''] of
            Some word \<Rightarrow> Some (''username contains restricted word: '' @ word)
          | None \<Rightarrow> if \<not> isBalancedUsername username
              then Some ''username has unbalanced brackets or quotes'' else None)
     | _ \<Rightarrow> Some ''expected string'')"

text \<open>Whether some character of a string is in a class: \<open>MatchString\<close> of a single class.\<close>

definition rune_in :: "(nat \<Rightarrow> bool) \<Rightarrow> string \<Rightarrow> bool" where
  "rune_in P s = list_ex (\<lambda>(r, _). P r) (rune_chunks s)"

definition special_runes :: "nat list" where
  "special_runes = map byte (''!@#$%^&*(),.?:|<>'' @ [CHR 0x22, CHR 0x7B, CHR 0x7D])"

fun has_triple :: "string \<Rightarrow> bool" where
  "has_triple (a # b # c # s) = (a = b \<and> b = c \<or> has_triple (b # c # s))"
| "has_triple _ = False"

definition calculatePasswordStrength :: "string \<Rightarrow> int" where
  "calculatePasswordStrength password = (let
       strength = of_bool (8 \<le> length password) + of_bool (12 \<le> length password)
         + of_bool (rune_in (\<lambda>r. 97 \<le> r \<and> r \<le> 122) password)
         + of_bool (rune_in (\<lambda>r. 65 \<le> r \<and> r \<le> 90) password)
         + of_bool (rune_in (\<lambda>r. 48 \<le> r \<and> r \<le> 57) password)
         + of_bool (rune_in (\<lambda>r. r \<in> set special_runes) password);
       strength = (if has_triple password then strength - 1 else strength)
     in if strength < 0 then 0 else if 5 < strength then 5 else strength)"

definition passwordStrengthValidator :: "unicode_tables \<Rightarrow> validator_func" where
  "passwordStrengthValidator U v = (let
       password = str_or_zero (Some v);
       strength = calculatePasswordStrength password
     in if strength < 3 then Some (''password is too weak (strength: '' @ show_int strength @ ''/5)'')
        else if list_ex (has_prefix (ToLower U password)) [''12345'', ''qwerty'', ''password'']
        then Some ''password matches common pattern'' else None)"

definition emailDomainValidator :: "unicode_tables \<Rightarrow> validator_func" where
  "emailDomainValidator U v = (let parts = str_split CHR ''@'' (str_or_zero (Some v)) in
     if length parts \<noteq> 2 then None
     else let domain = ToLower U (parts ! 1) in
       if contains [''tempmail.com'', ''throwaway.email'', ''guerrillamail.com''] domain
       then Some (''email domain '' @ domain @ '' is not allowed'') else None)"

text \<open>\<open>calculateAge\<close> reads the clock; the library's function of that name is given the time.\<close>

definition age_now :: "go_lib \<Rightarrow> gtime \<Rightarrow> int" where
  "age_now L birthDate = (let now = lib_now L; years = time_Year now - time_Year birthDate in
     if time_YearDay now < time_YearDay birthDate then years - 1 else years)"

text \<open>The first of January is the first day of the year.\<close>

definition birthDateValidator :: "go_lib \<Rightarrow> validator_func" where
  "birthDateValidator L v = (case lib_time_parse L ''2006-01-02'' (str_or_zero (Some v)) of
       Inl _ \<Rightarrow> Some ''invalid date format, use YYYY-MM-DD''
     | Inr birthDate \<Rightarrow> (let age = age_now L birthDate in
         if age < 13 then Some ''must be at least 13 years old''
         else if 120 < age then Some ''invalid birth date''
         else if time_YearDay birthDate = 1 then Some ''please provide your actual birth date''
         else None))"

definition phoneNumberValidator :: "unicode_tables \<Rightarrow> validator_func" where
  "phoneNumberValidator U v = (let
       cleaned = str_keep (\<lambda>r. rune_digit U r \<or> r = 43) (str_or_zero (Some v))
     in if has_prefix cleaned ''+'' then
          if length cleaned < 10 \<or> 15 < length cleaned
          then Some ''invalid international phone number length'' else None
        else if length cleaned \<noteq> 10 then Some ''phone number must be 10 digits'' else None)"

definition referralCodeValidator :: validator_func where
  "referralCodeValidator v = (let code = str_or_zero (Some v) in
     if code = [] then None
     else if \<not> MatchString ''^[A-Z0-9]{4,10}$'' code
     then Some ''invalid referral code format (must be 4-10 alphanumeric characters)''
     else if list_ex (str_contains code) [''TEST'', ''ADMIN'', ''FREE'', ''HACK'']
     then Some ''referral code contains blocked word'' else None)"

section \<open>Product listing\<close>

definition skuValidator :: validator_func where
  "skuValidator v = (let parts = str_split CHR ''-'' (str_or_zero (Some v)) in
     if length parts \<noteq> 4 then Some ''SKU must have format: CATEGORY-BRAND-NUMBER-SIZE''
     else if \<not> contains [''ELEC'', ''CLTH'', ''HOME'', ''FOOD'', ''BOOK''] (parts ! 0)
     then Some ''invalid category code''
     else if \<not> MatchString ''^[A-Z]{2,4}$'' (parts ! 1)
     then Some ''brand code must be 2-4 uppercase letters''
     else if \<not> MatchString (rx ''^!d{5}$'') (parts ! 2)
     then Some ''product number must be 5 digits'' else None)"

text \<open>The constants 1.20 and 0.30 are rounded to \<open>float64\<close>.\<close>

definition priceConsistencyValidator :: validator_func where
  "priceConsistencyValidator v = (case v of
       VMap product \<Rightarrow> (let
           regularPrice = float_or_zero (map_of product ''regularPrice'');
           salePrice = float_or_zero (map_of product ''salePrice'');
           hasSale = (case map_of product ''salePrice'' of Some (VFloat64 _) \<Rightarrow> True | _ \<Rightarrow> False);
           minPrice = f_mul (float_or_zero (map_of product ''costPrice'')) (f_round double_fmt (6 / 5))
         in if regularPrice < minPrice then Some ''regular price must be at least 20% above cost''
            else if hasSale \<and> regularPrice \<le> salePrice
            then Some ''sale price must be less than regular price''
            else if hasSale \<and> salePrice < f_mul regularPrice (f_round double_fmt (3 / 10))
            then Some ''discount cannot exceed 70%'' else None)
     | _ \<Rightarrow> None)"

definition inventoryValidator :: validator_func where
  "inventoryValidator v = (let
       inv = (case v of VMap m \<Rightarrow> m | _ \<Rightarrow> []);
       qty = float_or_zero (map_of inv ''quantity'');
       reorder = float_or_zero (map_of inv ''reorderPoint'')
     in if FFin 0 < reorder \<and> qty \<le> reorder
        then Some ''warning: quantity at or below reorder point'' else None)"

definition image_text :: "nat \<Rightarrow> string" where
  "image_text i = ''image '' @ show_nat (i + 1)"

fun images_from :: "unicode_tables \<Rightarrow> nat \<Rightarrow> gval list \<Rightarrow> string option" where
  "images_from U i [] = None"
| "images_from U i (img # imgs) = (case img of
       VMap imgMap \<Rightarrow> (let
           url = str_or_zero (map_of imgMap ''url'');
           altText = str_or_zero (map_of imgMap ''altText'')
         in if \<not> has_prefix url ''https://'' then Some (image_text i @ '': URL must use HTTPS'')
            else if \<not> list_ex (has_suffix (ToLower U url)) [''.jpg'', ''.jpeg'', ''.png'', ''.webp'']
            then Some (image_text i @ '': invalid file type'')
            else if length altText < 10 then Some (image_text i @ '': alt text too short for SEO'')
            else images_from U (i + 1) imgs)
     | _ \<Rightarrow> images_from U (i + 1) imgs)"

definition imageValidator :: "unicode_tables \<Rightarrow> validator_func" where
  "imageValidator U v = (case v of
       VSlice images \<Rightarrow> if length images = 0 then Some ''at least one image is required''
         else images_from U 0 images
     | _ \<Rightarrow> Some ''at least one image is required'')"

section \<open>Orders\<close>

definition usStates :: "string list" where
  "usStates = [''AL'', ''AK'', ''AZ'', ''AR'', ''CA'', ''CO'', ''CT'', ''DE'', ''FL'', ''GA'',
     ''HI'', ''ID'', ''IL'', ''IN'', ''IA'', ''KS'', ''KY'', ''LA'', ''ME'', ''MD'',
     ''MA'', ''MI'', ''MN'', ''MS'', ''MO'', ''MT'', ''NE'', ''NV'', ''NH'', ''NJ'',
     ''NM'', ''NY'', ''NC'', ''ND'', ''OH'', ''OK'', ''OR'', ''PA'', ''RI'', ''SC'',
     ''SD'', ''TN'', ''TX'', ''UT'', ''VT'', ''VA'', ''WA'', ''WV'', ''WI'', ''WY'']"

definition addressValidator :: validator_func where
  "addressValidator v = (case v of
       VMap addr \<Rightarrow> (let
           country = str_or_zero (map_of addr ''country'');
           state = str_or_zero (map_of addr ''state'');
           zip_code = str_or_zero (map_of addr ''zip'')
         in if country = ''US'' then
              if \<not> contains usStates state then Some ''invalid US state code''
              else if \<not> (MatchString (rx ''^!d{5}$'') zip_code \<or> MatchString (rx ''^!d{5}-!d{4}$'') zip_code)
              then Some ''invalid US ZIP code format'' else None
            else if country = ''CA'' then
              if \<not> MatchString (rx ''^[A-Z]!d[A-Z] !d[A-Z]!d$'') zip_code
              then Some ''invalid Canadian postal code format'' else None
            else if country = ''UK'' then
              if \<not> MatchString (rx ''^[A-Z]{1,2}!d[A-Z!d]? ?!d[A-Z]{2}$'') zip_code
              then Some ''invalid UK postcode format'' else None
            else None)
     | _ \<Rightarrow> None)"

text \<open>
  The Luhn test goes through the bytes from the last to the first. \<open>number[i] - '0'\<close> is a byte,
  so it wraps around.
\<close>

definition luhn_byte :: "char \<Rightarrow> int" where
  "luhn_byte ch = int (unat ((of_nat (byte ch) :: 8 word) - 48))"

definition luhn_term :: "bool \<Rightarrow> char \<Rightarrow> int" where
  "luhn_term isEven ch = (let digit = luhn_byte ch in
     if isEven then (let digit = digit * 2 in if 9 < digit then digit - 9 else digit) else digit)"

fun luhn_sum :: "bool \<Rightarrow> string \<Rightarrow> int" where
  "luhn_sum isEven [] = 0"
| "luhn_sum isEven (ch # chs) = luhn_term isEven ch + luhn_sum (\<not> isEven) chs"

definition isValidCreditCard :: "string \<Rightarrow> bool" where
  "isValidCreditCard number = (if length number < 13 \<or> 19 < length number then False
     else luhn_sum False (rev number) mod 10 = 0)"

text \<open>The part of \<open>paymentValidator\<close> for each method; no other method is looked at.\<close>

definition paymentValidator :: validator_func where
  "paymentValidator v = (case v of
       VMap payment \<Rightarrow> (let
           get = (\<lambda>k. str_or_zero (map_of payment k));
           method = get ''method''
         in if method = ''credit_card'' then
              if \<not> isValidCreditCard (ReplaceAll (ReplaceAll (get ''cardNumber'') '' '' []) ''-'' [])
              then Some ''invalid credit card number''
              else if \<not> (MatchString (rx ''^0[1-9]!/!d{2}$'') (get ''expiry'')
                       \<or> MatchString (rx ''^1[0-2]!/!d{2}$'') (get ''expiry''))
              then Some ''expiry must be in MM/YY format''
              else if \<not> MatchString (rx ''^!d{3,4}$'') (get ''cvv'')
              then Some ''CVV must be 3 or 4 digits'' else None
            else if method = ''paypal'' then
              if \<not> str_contains (get ''paypalEmail'') ''@'' then Some ''valid PayPal email required''
              else None
            else if method = ''crypto'' then
              if get ''cryptocurrency'' = ''BTC'' then
                if \<not> MatchString ''^[13][a-km-zA-HJ-NP-Z1-9]{25,34}$'' (get ''walletAddress'')
                then Some ''invalid Bitcoin address'' else None
              else if get ''cryptocurrency'' = ''ETH'' then
                if \<not> MatchString ''^0x[a-fA-F0-9]{40}$'' (get ''walletAddress'')
                then Some ''invalid Ethereum address'' else None
              else None
            else None)
     | _ \<Rightarrow> None)"

section \<open>Configuration\<close>

fun cors_from :: "nat \<Rightarrow> gval list \<Rightarrow> string option" where
  "cors_from i [] = None"
| "cors_from i (origin # origins) = (let originStr = str_or_zero (Some origin) in
     if originStr \<noteq> ''*'' then
       if \<not> has_prefix originStr ''http://'' \<and> \<not> has_prefix originStr ''https://''
       then Some (''origin '' @ show_nat (i + 1) @ '' must start with http:// or https://'')
       else if has_suffix originStr ''/''
       then Some (''origin '' @ show_nat (i + 1) @ '' should not have trailing slash'')
       else cors_from (i + 1) origins
     else cors_from (i + 1) origins)"

definition corsValidator :: validator_func where
  "corsValidator v = (case v of VSlice origins \<Rightarrow> cors_from 0 origins | _ \<Rightarrow> None)"

text \<open>
  \<open>fmt.Sscanf(num, "%d", new(int))\<close> returns the number of items it read: 1 when an integer can
  be read from the front of the text, else 0. \<open>scans\<close> says when it can.
\<close>

definition Sscanf_count :: "(string \<Rightarrow> bool) \<Rightarrow> string \<Rightarrow> int" where
  "Sscanf_count scans num = (if scans num then 1 else 0)"

definition trim_suffix :: "string \<Rightarrow> string \<Rightarrow> string" where
  "trim_suffix s w = (if has_suffix s w then take (length s - length w) s else s)"

definition maxSizeValidator :: "(string \<Rightarrow> bool) \<Rightarrow> validator_func" where
  "maxSizeValidator scans v = (let size' = str_or_zero (Some v) in
     if has_suffix size' ''KB'' then None
     else if has_suffix size' ''MB'' then
       (let num = trim_suffix size' ''MB'' in
         if Sscanf_count scans num \<noteq> 1 then Some ''invalid size format'' else None)
     else if has_suffix size' ''GB'' then
       (let num = trim_suffix size' ''GB''; val = Sscanf_count scans num in
         if 16 < val then Some ''cache size exceeds 16GB limit'' else None)
     else None)"

definition featuresValidator :: "(string list \<Rightarrow> string list) \<Rightarrow> validator_func" where
  "featuresValidator ord v = (let features = (case v of VMap m \<Rightarrow> m | _ \<Rightarrow> []) in
     map_option (\<lambda>name. ''feature flag '' @ [CHR 0x27] @ name @ [CHR 0x27] @ '' must be boolean'')
       (find (\<lambda>name. case map_of features name of Some (VBool _) \<Rightarrow> False | _ \<Rightarrow> True)
         (visit_keys ord features)))"

section \<open>The bracket test and the grammar of balanced brackets\<close>

inductive balanced :: "nat list \<Rightarrow> bool" where
  balanced_empty: "balanced []"
| balanced_other: "ch \<notin> fst ` set bracket_pairs \<union> snd ` set bracket_pairs \<Longrightarrow> balanced w \<Longrightarrow> balanced (ch # w)"
| balanced_nest: "(cl, op) \<in> set bracket_pairs \<Longrightarrow> balanced u \<Longrightarrow> balanced w \<Longrightarrow> balanced (op # u @ cl # w)"

lemma bracket_sets:
  "fst ` set bracket_pairs = {41, 93, 125}" "snd ` set bracket_pairs = {40, 91, 123}"
  by (auto simp: bracket_pairs_def)

lemma bracket_map_of: "(cl, op) \<in> set bracket_pairs \<longleftrightarrow> map_of bracket_pairs cl = Some op"
  by (auto simp: bracket_pairs_def)

lemma bracket_kinds:
  assumes "(cl, op) \<in> set bracket_pairs"
  shows "op \<in> {40, 91, 123}" "cl \<in> {41, 93, 125}" "cl \<notin> {40, 91, 123}"
  using assms by (auto simp: bracket_pairs_def)

lemma balanced_from_skips: "balanced u \<Longrightarrow> balanced_from stack (u @ w) = balanced_from stack w"
proof (induction u arbitrary: stack w rule: balanced.induct)
  case (balanced_nest cl op u v)
  from bracket_kinds [OF balanced_nest.hyps(1)]
  have "balanced_from stack ((op # u @ cl # v) @ w) = balanced_from (stack @ [op]) (u @ cl # v @ w)"
    by simp
  also have "\<dots> = balanced_from (stack @ [op]) (cl # v @ w)"
    by (rule balanced_nest.IH(1))
  also have "\<dots> = balanced_from stack (v @ w)"
    using bracket_kinds [OF balanced_nest.hyps(1)] balanced_nest.hyps(1)
    by (simp add: bracket_map_of nth_append)
  also have "\<dots> = balanced_from stack w"
    by (rule balanced_nest.IH(2))
  finally show ?case .
qed (auto simp: bracket_sets)

text \<open>What is left of a word when the brackets of the stack are still open, the last one first.\<close>

fun closes :: "nat list \<Rightarrow> nat list \<Rightarrow> bool" where
  "closes [] w = balanced w"
| "closes (op # ops) w = (\<exists>u cl v. w = u @ cl # v \<and> (cl, op) \<in> set bracket_pairs \<and> balanced u \<and> closes ops v)"

lemma closes_other:
  assumes "closes ops w" and "ch \<notin> fst ` set bracket_pairs \<union> snd ` set bracket_pairs"
  shows "closes ops (ch # w)"
proof (cases ops)
  case Nil
  with assms show ?thesis by (auto intro: balanced_other)
next
  case (Cons op ops')
  with assms show ?thesis
    by (auto intro!: balanced_other) (metis append_Cons assms(2) balanced_other)
qed

lemma closes_open:
  assumes "closes (op # ops) w"
  shows "closes ops (op # w)"
proof -
  from assms obtain u cl v where w: "w = u @ cl # v" and p: "(cl, op) \<in> set bracket_pairs"
    and u: "balanced u" and v: "closes ops v"
    by auto
  show ?thesis
  proof (cases ops)
    case Nil
    with w p u v show ?thesis by (auto intro: balanced_nest)
  next
    case (Cons op' ops')
    with v obtain u' cl' v' where v': "v = u' @ cl' # v'" "(cl', op') \<in> set bracket_pairs"
      "balanced u'" "closes ops' v'"
      by auto
    moreover have "balanced (op # u @ cl # u')"
      using p u v'(3) by (rule balanced_nest)
    moreover have "op # w = (op # u @ cl # u') @ cl' # v'"
      by (simp add: w v'(1))
    ultimately show ?thesis using Cons by (metis closes.simps(2))
  qed
qed

lemma balanced_from_closes: "balanced_from stack w \<Longrightarrow> closes (rev stack) w"
proof (induction stack w rule: balanced_from.induct)
  case (2 stack ch chs)
  consider "ch \<in> {40, 91, 123}" | "ch \<notin> {40, 91, 123}" "ch \<in> {41, 93, 125}"
    | "ch \<notin> {40, 91, 123} \<union> {41, 93, 125}" by blast
  then show ?case
  proof cases
    case 1
    with 2 have "closes (ch # rev stack) chs" by simp
    then show ?thesis by (rule closes_open)
  next
    case 2
    with "2.prems" have "stack \<noteq> []" and "map_of bracket_pairs ch = Some (last stack)"
      and "balanced_from (butlast stack) chs"
      by (auto split: if_splits simp: last_conv_nth butlast_conv_take)
    moreover from this "2.IH"(2) 2 have "closes (rev (butlast stack)) chs"
      by (auto simp: last_conv_nth butlast_conv_take)
    ultimately have "closes (last stack # rev (butlast stack)) (ch # chs)"
      by (auto simp: bracket_map_of intro!: exI [of _ "[]"] balanced_empty)
    moreover from \<open>stack \<noteq> []\<close> have "last stack # rev (butlast stack) = rev stack"
      by (metis append_butlast_last_id rev.simps(2) rev_append rev_rev_ident append_Nil append_Cons)
    ultimately show ?thesis by (simp only:)
  next
    case 3
    with 2 have "closes (rev stack) chs" by auto
    then show ?thesis by (rule closes_other) (use 3 in \<open>simp add: bracket_sets\<close>)
  qed
qed (simp add: balanced_empty)

text \<open>
  C39: the bracket test accepts a user name exactly when its characters form a word of the grammar
  of balanced brackets, in which any other character may stand anywhere.
\<close>

theorem isBalancedUsername_grammar:
  "isBalancedUsername s \<longleftrightarrow> balanced (map fst (rune_chunks s))"
  using balanced_from_closes [of "[]" "map fst (rune_chunks s)"]
    balanced_from_skips [of "map fst (rune_chunks s)" "[]" "[]"]
  by (auto simp: isBalancedUsername_def)

section \<open>The Luhn test\<close>

lemma luhn_byte_digit: "is_dec_digit ch \<Longrightarrow> luhn_byte ch = int (digit_val ch)"
proof -
  assume "is_dec_digit ch"
  then have "48 \<le> byte ch" and "byte ch \<le> 57" by (auto simp: is_dec_digit_def)
  then have "of_nat (byte ch) - 48 = (of_nat (byte ch - 48) :: 8 word)" by (simp add: of_nat_diff)
  then show ?thesis
    using \<open>byte ch \<le> 57\<close> by (simp add: luhn_byte_def digit_val_def unat_of_nat take_bit_eq_mod)
qed

lemma luhn_term_digit:
  "is_dec_digit ch \<Longrightarrow> luhn_term e ch = (let d = int (digit_val ch) in
     if \<not> e then d else if d < 5 then 2 * d else 2 * d - 9)"
  by (simp add: luhn_term_def luhn_byte_digit Let_def)

lemma digit_val_le: "is_dec_digit ch \<Longrightarrow> digit_val ch \<le> 9"
  unfolding is_dec_digit_def digit_val_def by linarith

lemma digit_val_inj:
  assumes "is_dec_digit a" and "is_dec_digit b" and "digit_val a = digit_val b"
  shows "a = b"
proof -
  from assms have "byte a = byte b" unfolding is_dec_digit_def digit_val_def by linarith
  then show ?thesis by simp
qed

lemma luhn_sum_update:
  "i < length s \<Longrightarrow> luhn_sum e (s[i := d])
     = luhn_sum e s - luhn_term (e = even i) (s ! i) + luhn_term (e = even i) d"
proof (induction s arbitrary: e i)
  case (Cons ch s)
  then show ?case by (cases i; cases e) auto
qed simp

text \<open>
  Two different digits count differently in the same place, modulo 10; and what two different
  digits gain when they are doubled differs, unless they are 0 and 9.
\<close>

lemma luhn_term_range: "is_dec_digit a \<Longrightarrow> luhn_term e a \<in> {0..9}"
  using digit_val_le [of a] by (auto simp: luhn_term_digit Let_def)

lemma luhn_term_inj:
  assumes "is_dec_digit a" and "is_dec_digit b" and "luhn_term e a = luhn_term e b"
  shows "a = b"
proof -
  have "digit_val a = digit_val b"
    using assms(3) unfolding luhn_term_digit [OF assms(1)] luhn_term_digit [OF assms(2)] Let_def
    by (simp split: if_splits) presburger+
  with assms show ?thesis by (rule_tac digit_val_inj)
qed

definition luhn_gain :: "char \<Rightarrow> int" where
  "luhn_gain ch = luhn_term True ch - luhn_term False ch"

lemma luhn_gain_digit:
  "is_dec_digit ch \<Longrightarrow> luhn_gain ch = (if digit_val ch < 5 then int (digit_val ch) else int (digit_val ch) - 9)"
  by (simp add: luhn_gain_def luhn_term_digit Let_def)

lemma luhn_gain_inj:
  assumes "is_dec_digit a" and "is_dec_digit b" and "luhn_gain a = luhn_gain b" and "a \<noteq> b"
  shows "{a, b} = {CHR ''0'', CHR ''9''}"
proof -
  have ch: "ch = CHR ''0''" if "is_dec_digit ch" "digit_val ch = 0" for ch
    using that digit_val_inj [of ch "CHR ''0''"] by (simp add: digit_val_def is_dec_digit_def)
  have ch9: "ch = CHR ''9''" if "is_dec_digit ch" "digit_val ch = 9" for ch
    using that digit_val_inj [of ch "CHR ''9''"] by (simp add: digit_val_def is_dec_digit_def)
  have "digit_val a \<noteq> digit_val b" using assms digit_val_inj by blast
  with assms(3) digit_val_le [OF assms(1)] digit_val_le [OF assms(2)]
  have "digit_val a = 0 \<and> digit_val b = 9 \<or> digit_val a = 9 \<and> digit_val b = 0"
    unfolding luhn_gain_digit [OF assms(1)] luhn_gain_digit [OF assms(2)]
    by (simp split: if_splits)
  with ch ch9 assms show ?thesis by auto
qed

lemma luhn_gain_range: "is_dec_digit a \<Longrightarrow> luhn_gain a \<in> {-4..4}"
  using digit_val_le [of a] by (auto simp: luhn_gain_digit)

lemma mod_10_differs:
  fixes n d :: int
  assumes "n mod 10 = 0" and "d \<noteq> 0" and "\<bar>d\<bar> < 10"
  shows "(n + d) mod 10 \<noteq> 0"
  using assms by presburger

lemma luhn_update_rejected:
  assumes "luhn_sum e s mod 10 = 0" and "list_all is_dec_digit s" and "i < length s"
    and "is_dec_digit d" and "d \<noteq> s ! i"
  shows "luhn_sum e (s[i := d]) mod 10 \<noteq> 0"
proof -
  let ?t = "luhn_term (e = even i)"
  have digit: "is_dec_digit (s ! i)" using assms(2,3) by (simp add: list_all_length)
  have "(luhn_sum e s + (?t d - ?t (s ! i))) mod 10 \<noteq> 0"
  proof (rule mod_10_differs [OF assms(1)])
    show "?t d - ?t (s ! i) \<noteq> 0"
      using luhn_term_inj [OF assms(4) digit] assms(5) by fastforce
    show "\<bar>?t d - ?t (s ! i)\<bar> < 10"
      using luhn_term_range [OF assms(4), of "e = even i"] luhn_term_range [OF digit, of "e = even i"] by auto
  qed
  then show ?thesis by (simp add: luhn_sum_update [OF assms(3)] algebra_simps)
qed

lemma luhn_swap_rejected:
  assumes "luhn_sum e s mod 10 = 0" and "list_all is_dec_digit s" and "Suc i < length s"
    and "s ! i \<noteq> s ! Suc i" and "{s ! i, s ! Suc i} \<noteq> {CHR ''0'', CHR ''9''}"
  shows "luhn_sum e (s[i := s ! Suc i, Suc i := s ! i]) mod 10 \<noteq> 0"
proof -
  let ?a = "s ! i" and ?b = "s ! Suc i"
  have digits: "is_dec_digit ?a" "is_dec_digit ?b" using assms(2,3) by (simp_all add: list_all_length)
  have "luhn_gain ?a \<noteq> luhn_gain ?b" using luhn_gain_inj [OF digits] assms(4,5) by blast
  moreover have "\<bar>luhn_gain ?b - luhn_gain ?a\<bar> < 10" "\<bar>luhn_gain ?a - luhn_gain ?b\<bar> < 10"
    using luhn_gain_range [OF digits(1)] luhn_gain_range [OF digits(2)] by auto
  ultimately have "(luhn_sum e s + (luhn_gain ?b - luhn_gain ?a)) mod 10 \<noteq> 0"
    "(luhn_sum e s + (luhn_gain ?a - luhn_gain ?b)) mod 10 \<noteq> 0"
    using mod_10_differs [OF assms(1)] by auto
  then show ?thesis
    using assms(3) by (cases "e = even i") (auto simp: luhn_sum_update luhn_gain_def algebra_simps)
qed

text \<open>
  C38: a card number of digits that passes the Luhn test stops passing it when one digit is
  changed, or when two unequal neighbours are swapped, unless they are 0 and 9.
\<close>

theorem luhn_detects_errors:
  assumes "isValidCreditCard number" and "list_all is_dec_digit number"
  shows "(\<forall>i < length number. \<forall>d. is_dec_digit d \<longrightarrow> d \<noteq> number ! i \<longrightarrow> \<not> isValidCreditCard (number[i := d]))
    \<and> (\<forall>i. Suc i < length number \<longrightarrow> number ! i \<noteq> number ! Suc i \<longrightarrow>
         {number ! i, number ! Suc i} \<noteq> {CHR ''0'', CHR ''9''} \<longrightarrow>
         \<not> isValidCreditCard (number[i := number ! Suc i, Suc i := number ! i]))"
proof (intro conjI allI impI)
  from assms(1) have luhn: "luhn_sum False (rev number) mod 10 = 0"
    and len: "13 \<le> length number" "length number \<le> 19"
    by (auto simp: isValidCreditCard_def split: if_splits)
  have digits: "list_all is_dec_digit (rev number)" using assms(2) by simp
  fix i d
  assume i: "i < length number" and d: "is_dec_digit d" "d \<noteq> number ! i"
  have "luhn_sum False ((rev number)[length number - Suc i := d]) mod 10 \<noteq> 0"
    by (rule luhn_update_rejected [OF luhn digits]) (use i d in \<open>auto simp: rev_nth\<close>)
  then show "\<not> isValidCreditCard (number[i := d])"
    using i by (simp add: isValidCreditCard_def rev_update)
next
  from assms(1) have luhn: "luhn_sum False (rev number) mod 10 = 0"
    by (auto simp: isValidCreditCard_def split: if_splits)
  have digits: "list_all is_dec_digit (rev number)" using assms(2) by simp
  fix i
  let ?j = "length number - Suc (Suc i)"
  assume i: "Suc i < length number" and ne: "number ! i \<noteq> number ! Suc i"
    "{number ! i, number ! Suc i} \<noteq> {CHR ''0'', CHR ''9''}"
  have at: "rev number ! ?j = number ! Suc i" "rev number ! Suc ?j = number ! i" "Suc ?j < length number"
    using i by (simp_all add: rev_nth Suc_diff_Suc)
  have "luhn_sum False ((rev number)[?j := rev number ! Suc ?j, Suc ?j := rev number ! ?j]) mod 10 \<noteq> 0"
    by (rule luhn_swap_rejected [OF luhn digits]) (use at ne in \<open>auto simp: doubleton_eq_iff\<close>)
  moreover have "rev (number[i := number ! Suc i, Suc i := number ! i])
      = (rev number)[?j := rev number ! Suc ?j, Suc ?j := rev number ! ?j]"
    using i at by (simp add: rev_update list_update_swap Suc_diff_Suc)
  ultimately show "\<not> isValidCreditCard (number[i := number ! Suc i, Suc i := number ! i])"
    by (simp add: isValidCreditCard_def)
qed

theorem luhn_detects_errors_witness:
  "\<not> isValidCreditCard (''4111111111111111''[3 := CHR ''7''])
   \<and> \<not> isValidCreditCard (''4111111111111111''[0 := CHR ''1'', 1 := CHR ''4''])"
proof -
  let ?n = "''4111111111111111''"
  have "isValidCreditCard ?n" "list_all is_dec_digit ?n"
    by (simp_all add: isValidCreditCard_def luhn_term_digit is_dec_digit_def digit_val_def)
  from luhn_detects_errors [OF this]
  have one: "3 < length ?n \<Longrightarrow> is_dec_digit CHR ''7'' \<Longrightarrow> CHR ''7'' \<noteq> ?n ! 3 \<Longrightarrow> \<not> isValidCreditCard (?n[3 := CHR ''7''])"
    and two: "Suc 0 < length ?n \<Longrightarrow> ?n ! 0 \<noteq> ?n ! Suc 0 \<Longrightarrow> {?n ! 0, ?n ! Suc 0} \<noteq> {CHR ''0'', CHR ''9''} \<Longrightarrow>
      \<not> isValidCreditCard (?n[0 := ?n ! Suc 0, Suc 0 := ?n ! 0])"
    by blast+
  have "\<not> isValidCreditCard (?n[3 := CHR ''7''])" by (rule one) (simp_all add: is_dec_digit_def)
  moreover have "\<not> isValidCreditCard (?n[0 := CHR ''1'', 1 := CHR ''4''])" using two by (simp add: doubleton_eq_iff)
  ultimately show ?thesis by blast
qed

section \<open>What the tests let through\<close>

text \<open>The Luhn test does not look whether the bytes are digits.\<close>

theorem luhn_accepts_letters: "isValidCreditCard ''hhhhhhhhhhhhh''"
  by (simp add: isValidCreditCard_def luhn_term_def luhn_byte_def)

text \<open>The size of a cache in gigabytes is never too large: the count of items is compared.\<close>

theorem maxSize_never_exceeds:
  "maxSizeValidator scans (VStr (num @ ''GB'')) = None"
  by (simp add: maxSizeValidator_def str_or_zero_def has_suffix_def has_prefix_def Sscanf_count_def Let_def)

text \<open>Quotes are not looked at, though the error message names them.\<close>

theorem username_quotes: "isBalancedUsername [CHR 0x22]"
  by (simp add: isBalancedUsername_def rune_chunks_ascii is_ascii_def)

end
