(* ===== verification/MicroserviceUs.thy ===== *)
theory MicroserviceUs
  imports ExampleValidators SchemaTree
begin

text \<open>
  \<open>examples/microservice/us/main.go\<close>: the in-memory user service and its HTTP handlers, and what
  it shares with \<open>MicroserviceAr\<close>: the search for a duplicate, the extraction of the transformed
  data and the pages of a query. The store is a map from identifiers to users; \<open>ord\<close> is the order
  in which one \<open>range\<close> visits it. Each operation holds the lock of the service, so it is one step.
  The hash of the password, the fresh identifier and the readings of the clock are the record
  \<open>svc_ext\<close>. A result None is a panic. A handler gets the decoded body and gives the status
  and the body of the response; its schemas may be any schemas of the library.
\<close>

section \<open>What the services share\<close>

record svc_ext =
  x_hash :: "string \<Rightarrow> string + string"     \<comment> \<open>\<open>bcrypt.GenerateFromPassword\<close>\<close>
  x_id :: string                             \<comment> \<open>\<open>uuid.New().String()\<close>\<close>
  x_created :: gtime
  x_updated :: gtime

text \<open>The type assertion \<open>data[k].(string)\<close>, None when it fails.\<close>

definition str_field :: "gval gmap \<Rightarrow> string \<Rightarrow> string option" where
  "str_field data k = (case map_of data k of Some (VStr s) \<Rightarrow> Some s | _ \<Rightarrow> None)"

definition float_field :: "gval gmap \<Rightarrow> string \<Rightarrow> f64 option" where
  "float_field data k = (case map_of data k of Some (VFloat64 x) \<Rightarrow> Some x | _ \<Rightarrow> None)"

definition visit :: "(string list \<Rightarrow> string list) \<Rightarrow> 'u gmap \<Rightarrow> (string \<times> 'u) list" where
  "visit ord m = map (\<lambda>k. (k, the (map_of m k))) (visit_keys ord m)"

definition extractTransformedData :: "gval gmap \<Rightarrow> validation_context \<Rightarrow> gval gmap" where
  "extractTransformedData data ctx = fold (\<lambda>transform result. let path = tr_path transform in
       if path \<noteq> [] then
         (let parts = str_split CHR ''.'' path in
           if length parts = 1 then map_put path (tr_result transform) result
           else map_put (parts ! (length parts - 1)) (tr_result transform) result)
       else result) (c_trans ctx) (fold (\<lambda>(k, v). map_put k v) data [])"

definition field_matches :: "gval gmap \<Rightarrow> string \<Rightarrow> string \<Rightarrow> bool" where
  "field_matches criteria k x = (case str_field criteria k of Some s \<Rightarrow> x = s | None \<Rightarrow> True)"

text \<open>The loop of a query: \<open>n\<close> counts the users that match.\<close>

fun page_from :: "int \<Rightarrow> int \<Rightarrow> ('u \<Rightarrow> bool) \<Rightarrow> int \<Rightarrow> 'u list \<Rightarrow> 'u list \<Rightarrow> 'u list" where
  "page_from limit offset matches n results [] = results"
| "page_from limit offset matches n results (u # us) =
     (if \<not> matches u then page_from limit offset matches n results us
      else page_from limit offset matches (n + 1)
        (if offset \<le> n \<and> int (length results) < limit then results @ [u] else results) us)"

definition int_or :: "int \<Rightarrow> f64 option \<Rightarrow> int" where
  "int_or d x = (case x of Some f \<Rightarrow> f_to_int64 f | None \<Rightarrow> d)"

text \<open>The criteria of a query from the parameters of the URL.\<close>

definition query_data :: "string \<Rightarrow> string list gmap \<Rightarrow> gval gmap" where
  "query_data limit_key params = fold (\<lambda>(key, values) queryData.
       if length values > 0 then
         if key = limit_key \<or> key = ''offset'' then
           (case go_atoi (values ! 0) of
              Some num \<Rightarrow> map_put key (VFloat64 (f_of_int num)) queryData
            | None \<Rightarrow> queryData)
         else map_put key (VStr (values ! 0)) queryData
       else queryData) params []"

definition validate_with :: "env \<Rightarrow> schema \<Rightarrow> gval gmap \<Rightarrow> validation_context" where
  "validate_with E s data = i_validate (iface_of E s) (VMap data) (NewValidationContext Strict)"

datatype 'u reply =
    ReplyUser 'u
  | ReplyUsers "'u list" nat
  | ReplyError string
  | ReplyErrors "(string \<times> string) list"
  | ReplyEmpty

type_synonym 'u response = "nat \<times> 'u reply"

definition respondValidationErrors :: "validation_context \<Rightarrow> 'u response" where
  "respondValidationErrors ctx = (400, ReplyErrors (map (\<lambda>e. (fe_path e, fe_message e)) (c_errors ctx)))"

text \<open>A transformer that asserts that its argument is a string panics (None) on any other value.\<close>

definition on_string :: "(string \<Rightarrow> string) \<Rightarrow> panicking_transformer" where
  "on_string f v = (case v of VStr s \<Rightarrow> Some (Inr (VStr (f s))) | _ \<Rightarrow> None)"

section \<open>The transformers of the service\<close>

definition normalizeUsername :: "unicode_tables \<Rightarrow> panicking_transformer" where
  "normalizeUsername U = on_string (\<lambda>username. ReplaceAll (ToLower U (trim_space username)) '' '' ''_'')"

definition capitalizeNames :: "unicode_tables \<Rightarrow> panicking_transformer" where
  "capitalizeNames U = on_string (\<lambda>name. if name = [] then name else Title U (ToLower U name))"

definition normalizeEmail :: "unicode_tables \<Rightarrow> panicking_transformer" where
  "normalizeEmail U = on_string (\<lambda>email. trim_space (ToLower U email))"

section \<open>The service\<close>

record user =
  u_ID :: string
  u_Email :: string
  u_Username :: string
  u_Password :: string
  u_FirstName :: string
  u_LastName :: string
  u_Phone :: string
  u_BirthDate :: string
  u_Role :: string
  u_Status :: string
  u_CreatedAt :: gtime
  u_UpdatedAt :: gtime

definition Create :: "svc_ext \<Rightarrow> gval gmap \<Rightarrow> user gmap \<Rightarrow> user gmap \<times> (string + user) option" where
  "Create x data m = (let password = (case str_field data ''password'' of Some s \<Rightarrow> s | None \<Rightarrow> []) in
     case x_hash x password of
       Inl err \<Rightarrow> (m, Some (Inl (''failed to hash password: '' @ err)))
     | Inr hashedPassword \<Rightarrow>
         (case (str_field data ''email'', str_field data ''username'', str_field data ''firstName'',
                str_field data ''lastName'', str_field data ''birthDate'') of
            (Some email, Some username, Some firstName, Some lastName, Some birthDate) \<Rightarrow>
              (let user = \<lparr>u_ID = x_id x, u_Email = email, u_Username = username,
                     u_Password = hashedPassword, u_FirstName = firstName, u_LastName = lastName,
                     u_Phone = [], u_BirthDate = birthDate, u_Role = ''user'', u_Status = ''active'',
                     u_CreatedAt = x_created x, u_UpdatedAt = x_updated x\<rparr>;
                   user = (case str_field data ''phone'' of Some s \<Rightarrow> user\<lparr>u_Phone := s\<rparr> | None \<Rightarrow> user);
                   user = (case str_field data ''role'' of Some s \<Rightarrow> user\<lparr>u_Role := s\<rparr> | None \<Rightarrow> user)
               in (map_put (u_ID user) user m, Some (Inr user)))
          | _ \<Rightarrow> (m, None)))"

definition Get :: "string \<Rightarrow> user gmap \<Rightarrow> string + user" where
  "Get uid m = (case map_of m uid of None \<Rightarrow> Inl ''user not found'' | Some user \<Rightarrow> Inr user)"

text \<open>The two checks of \<open>Update\<close> for a value that another user has; \<open>o1\<close> and \<open>o2\<close> are their orders.\<close>

definition taken_by_other :: "(string list \<Rightarrow> string list) \<Rightarrow> ('u \<Rightarrow> string) \<Rightarrow> string \<Rightarrow> string \<Rightarrow> string \<Rightarrow>
    'u gmap \<Rightarrow> string option" where
  "taken_by_other ord key err uid x m =
     first_error (\<lambda>(k, u). if k \<noteq> uid \<and> key u = x then Some err else None) (visit ord m)"

text \<open>A write of a field the request may give.\<close>

definition set_opt :: "gval gmap \<Rightarrow> string \<Rightarrow> (string \<Rightarrow> 'u \<Rightarrow> 'u) \<Rightarrow> 'u \<Rightarrow> 'u" where
  "set_opt data k set_to u = (case str_field data k of Some s \<Rightarrow> set_to s u | None \<Rightarrow> u)"

definition Update :: "(string list \<Rightarrow> string list) \<Rightarrow> (string list \<Rightarrow> string list) \<Rightarrow> gtime \<Rightarrow> string \<Rightarrow>
    gval gmap \<Rightarrow> user gmap \<Rightarrow> user gmap \<times> (string + user)" where
  "Update o1 o2 now uid data m = (case map_of m uid of
       None \<Rightarrow> (m, Inl ''user not found'')
     | Some user \<Rightarrow>
         (case (case str_field data ''email'' of None \<Rightarrow> None
              | Some email \<Rightarrow> taken_by_other o1 u_Email ''email already exists'' uid email m) of
            Some e \<Rightarrow> (m, Inl e)
          | None \<Rightarrow> (let user = set_opt data ''email'' (\<lambda>s. u_Email_update (\<lambda>_. s)) user in
              case (case str_field data ''username'' of None \<Rightarrow> None
                  | Some username \<Rightarrow> taken_by_other o2 u_Username ''username already exists'' uid username m) of
                Some e \<Rightarrow> (m, Inl e)
              | None \<Rightarrow> (let
                   user = set_opt data ''username'' (\<lambda>s. u_Username_update (\<lambda>_. s)) user;
                   user = set_opt data ''firstName'' (\<lambda>s. u_FirstName_update (\<lambda>_. s)) user;
                   user = set_opt data ''lastName'' (\<lambda>s. u_LastName_update (\<lambda>_. s)) user;
                   user = set_opt data ''phone'' (\<lambda>s. u_Phone_update (\<lambda>_. s)) user;
                   user = set_opt data ''birthDate'' (\<lambda>s. u_BirthDate_update (\<lambda>_. s)) user;
                   user = set_opt data ''role'' (\<lambda>s. u_Role_update (\<lambda>_. s)) user;
                   user = set_opt data ''status'' (\<lambda>s. u_Status_update (\<lambda>_. s)) user;
                   user = user\<lparr>u_UpdatedAt := now\<rparr>
                 in (map_put uid user m, Inr user)))))"

definition Delete :: "gtime \<Rightarrow> string \<Rightarrow> user gmap \<Rightarrow> user gmap \<times> string option" where
  "Delete now uid m = (case map_of m uid of
       None \<Rightarrow> (m, Some ''user not found'')
     | Some user \<Rightarrow> (map_put uid (user\<lparr>u_Status := ''deleted'', u_UpdatedAt := now\<rparr>) m, None))"

definition Query_users :: "(string list \<Rightarrow> string list) \<Rightarrow> gval gmap \<Rightarrow> user gmap \<Rightarrow> user list" where
  "Query_users ord criteria m = page_from (int_or 10 (float_field criteria ''limit''))
     (int_or 0 (float_field criteria ''offset''))
     (\<lambda>u. field_matches criteria ''email'' (u_Email u) \<and> field_matches criteria ''username'' (u_Username u)
        \<and> field_matches criteria ''role'' (u_Role u) \<and> field_matches criteria ''status'' (u_Status u))
     0 [] (map snd (visit ord m))"

section \<open>The handlers\<close>

record schemas =
  sc_CreateUser :: schema
  sc_UpdateUser :: schema
  sc_QueryUser :: schema

definition CreateUser :: "env \<Rightarrow> schemas \<Rightarrow> svc_ext \<Rightarrow> gval gmap option \<Rightarrow> user gmap \<Rightarrow>
    user gmap \<times> user response option" where
  "CreateUser E sc x body m = (case body of
       None \<Rightarrow> (m, Some (400, ReplyError ''Invalid JSON''))
     | Some data \<Rightarrow> (let ctx = validate_with E (sc_CreateUser sc) data in
         if HasErrors ctx then (m, Some (respondValidationErrors ctx))
         else (case Create x (extractTransformedData data ctx) m of
             (m, None) \<Rightarrow> (m, None)
           | (m, Some (Inl err)) \<Rightarrow> (m, Some (409, ReplyError err))
           | (m, Some (Inr user)) \<Rightarrow> (m, Some (201, ReplyUser user)))))"

definition GetUser :: "string \<Rightarrow> user gmap \<Rightarrow> user response" where
  "GetUser uid m = (case Get uid m of
       Inl _ \<Rightarrow> (404, ReplyError ''User not found'') | Inr user \<Rightarrow> (200, ReplyUser user))"

definition UpdateUser :: "env \<Rightarrow> schemas \<Rightarrow> (string list \<Rightarrow> string list) \<Rightarrow> (string list \<Rightarrow> string list) \<Rightarrow>
    gtime \<Rightarrow> string \<Rightarrow> gval gmap option \<Rightarrow> user gmap \<Rightarrow> user gmap \<times> user response" where
  "UpdateUser E sc o1 o2 now uid body m = (case body of
       None \<Rightarrow> (m, (400, ReplyError ''Invalid JSON''))
     | Some data \<Rightarrow> (let ctx = validate_with E (sc_UpdateUser sc) data in
         if HasErrors ctx then (m, respondValidationErrors ctx)
         else (case Update o1 o2 now uid (extractTransformedData data ctx) m of
             (m, Inl err) \<Rightarrow> (m, (if err = ''user not found'' then 404 else 409, ReplyError err))
           | (m, Inr user) \<Rightarrow> (m, (200, ReplyUser user)))))"

definition DeleteUser :: "gtime \<Rightarrow> string \<Rightarrow> user gmap \<Rightarrow> user gmap \<times> user response" where
  "DeleteUser now uid m = (case Delete now uid m of
       (m, Some _) \<Rightarrow> (m, (404, ReplyError ''User not found''))
     | (m, None) \<Rightarrow> (m, (204, ReplyEmpty)))"

definition QueryUsers :: "env \<Rightarrow> schemas \<Rightarrow> (string list \<Rightarrow> string list) \<Rightarrow> string list gmap \<Rightarrow> user gmap \<Rightarrow>
    user response" where
  "QueryUsers E sc ord params m = (let
       queryData = query_data ''limit'' params;
       ctx = validate_with E (sc_QueryUser sc) queryData
     in if HasErrors ctx then respondValidationErrors ctx
        else (let users = Query_users ord (extractTransformedData queryData ctx) m
              in (200, ReplyUsers users (length users))))"

end
