(* ===== verification/MicroserviceAr.thy ===== *)
theory MicroserviceAr
  imports MicroserviceUs
begin

text \<open>
  \<open>examples/microservice/ar/main.go\<close>: the normalisers and validators of Argentine documents, the
  in-memory user service and its HTTP handlers. Texts are UTF-8; the accented letters are written
  with their bytes. A normaliser that asserts that its argument is a string panics (None) on any
  other value.
\<close>

section \<open>Normalisers\<close>

text \<open>\<open>ReplaceAllString\<close> of \<open>[^0-9]\<close> with the empty text: all but the digits goes.\<close>

definition only_digits :: "string \<Rightarrow> string" where
  "only_digits s = str_keep (\<lambda>r. 48 \<le> r \<and> r \<le> 57) s"

definition normalizarDNI :: panicking_transformer where
  "normalizarDNI = on_string (\<lambda>dni.
     ReplaceAll (ReplaceAll (ReplaceAll dni ''.'' []) '' '' []) ''-'' [])"

definition formatearCUIT :: "string \<Rightarrow> string" where
  "formatearCUIT s = (let cuit = only_digits s in
     if length cuit = 11
     then take 2 cuit @ ''-'' @ take 8 (drop 2 cuit) @ ''-'' @ drop 10 cuit else cuit)"

definition normalizarCUIT :: panicking_transformer where
  "normalizarCUIT = on_string formatearCUIT"

definition formatearTelefono :: "string \<Rightarrow> string" where
  "formatearTelefono s = (let
       tel = only_digits s;
       tel = (if has_prefix tel ''0'' then drop 1 tel else tel);
       tel = (if has_prefix tel ''15'' \<and> 10 < length tel then drop 2 tel else tel);
       tel = (if \<not> has_prefix tel ''54'' then ''54'' @ tel else tel)
     in ''+'' @ tel)"

definition normalizarTelefonoAR :: panicking_transformer where
  "normalizarTelefonoAR = on_string formatearTelefono"

definition normalizarCBU :: panicking_transformer where
  "normalizarCBU = on_string (\<lambda>cbu. ReplaceAll (ReplaceAll cbu '' '' []) ''-'' [])"

definition normalizarCodigoPostal :: "unicode_tables \<Rightarrow> panicking_transformer" where
  "normalizarCodigoPostal U = on_string (\<lambda>cp. ToUpper U (trim_space cp))"

definition a_acute :: string where "a_acute = [CHR 0xC3, CHR 0xA1]"
definition e_acute :: string where "e_acute = [CHR 0xC3, CHR 0xA9]"
definition i_acute :: string where "i_acute = [CHR 0xC3, CHR 0xAD]"
definition o_acute :: string where "o_acute = [CHR 0xC3, CHR 0xB3]"
definition u_acute :: string where "u_acute = [CHR 0xC3, CHR 0xBA]"

definition provinciasArgentinas :: "string list" where
  "provinciasArgentinas = [
     ''Buenos Aires'', ''CABA'', ''Catamarca'', ''Chaco'', ''Chubut'', ''C'' @ o_acute @ ''rdoba'',
     ''Corrientes'', ''Entre R'' @ i_acute @ ''os'', ''Formosa'', ''Jujuy'', ''La Pampa'', ''La Rioja'',
     ''Mendoza'', ''Misiones'', ''Neuqu'' @ e_acute @ ''n'', ''R'' @ i_acute @ ''o Negro'', ''Salta'', ''San Juan'',
     ''San Luis'', ''Santa Cruz'', ''Santa Fe'', ''Santiago del Estero'',
     ''Tierra del Fuego'', ''Tucum'' @ a_acute @ ''n'']"

definition normalizaciones :: "(string \<times> string) list" where
  "normalizaciones = [
     (''caba'', ''CABA''),
     (''capital federal'', ''CABA''),
     (''buenos aires'', ''Buenos Aires''),
     (''bsas'', ''Buenos Aires''),
     (''cordoba'', ''C'' @ o_acute @ ''rdoba''),
     (''entre rios'', ''Entre R'' @ i_acute @ ''os''),
     (''rio negro'', ''R'' @ i_acute @ ''o Negro''),
     (''santa fe'', ''Santa Fe''),
     (''sgo del estero'', ''Santiago del Estero''),
     (''tierra del fuego'', ''Tierra del Fuego''),
     (''tucuman'', ''Tucum'' @ a_acute @ ''n''),
     (''neuquen'', ''Neuqu'' @ e_acute @ ''n'')]"

text \<open>\<open>eq_fold\<close> is \<open>strings.EqualFold\<close>, whose orbits are tables of package \<open>unicode\<close>.\<close>

definition nombreProvincia :: "unicode_tables \<Rightarrow> (string \<Rightarrow> string \<Rightarrow> bool) \<Rightarrow> string \<Rightarrow> string" where
  "nombreProvincia U eq_fold s = (let provincia = trim_space s in
     case map_of normalizaciones (ToLower U provincia) of
       Some prov \<Rightarrow> prov
     | None \<Rightarrow> (case find (eq_fold provincia) provinciasArgentinas of Some prov \<Rightarrow> prov | None \<Rightarrow> provincia))"

definition normalizarProvincia :: "unicode_tables \<Rightarrow> (string \<Rightarrow> string \<Rightarrow> bool) \<Rightarrow> panicking_transformer" where
  "normalizarProvincia U eq_fold = on_string (nombreProvincia U eq_fold)"

section \<open>Validators\<close>

text \<open>\<open>strconv.Atoi\<close> with the error dropped gives 0 on text that is not a number.\<close>

definition atoi_or_zero :: "string \<Rightarrow> int" where
  "atoi_or_zero s = (case go_atoi s of Some i \<Rightarrow> i | None \<Rightarrow> 0)"

text \<open>The validators on the string their argument must hold; another value makes them panic.\<close>

definition check_string :: "(string \<Rightarrow> string option) \<Rightarrow> gval \<Rightarrow> string option option" where
  "check_string f v = (case v of VStr s \<Rightarrow> Some (f s) | _ \<Rightarrow> None)"

definition validarDNI :: "gval \<Rightarrow> string option option" where
  "validarDNI = check_string (\<lambda>dni.
     if \<not> MatchString (rx ''^!d{7,8}$'') dni
     then Some (''DNI debe tener entre 7 y 8 d'' @ i_acute @ ''gitos'')
     else let dniNum = atoi_or_zero dni in
       if dniNum < 1000000 \<or> 99999999 < dniNum
       then Some (''DNI fuera de rango v'' @ a_acute @ ''lido'') else None)"

definition multiplicadores :: "int list" where
  "multiplicadores = [5, 4, 3, 2, 7, 6, 5, 4, 3, 2]"

definition validarDigitoVerificadorCUIT :: "string \<Rightarrow> bool" where
  "validarDigitoVerificadorCUIT cuit = (if length cuit \<noteq> 11 then False else let
       suma = fold (\<lambda>i suma. suma + atoi_or_zero [cuit ! i] * multiplicadores ! i) [0..<10] 0;
       resto = suma mod 11;
       digitoCalculado = 11 - resto;
       digitoCalculado = (if digitoCalculado = 11 then 0
         else if digitoCalculado = 10 then 9 else digitoCalculado)
     in digitoCalculado = atoi_or_zero [cuit ! 10])"

definition prefijosValidos :: "string list" where
  "prefijosValidos = [''20'', ''23'', ''24'', ''27'', ''30'', ''33'', ''34'']"

definition error_CUIT :: "string \<Rightarrow> string option" where
  "error_CUIT s = (let cuit = only_digits s in
     if length cuit \<noteq> 11 then Some (''CUIT debe tener 11 d'' @ i_acute @ ''gitos'')
     else if \<not> list_ex (\<lambda>p. take 2 cuit = p) prefijosValidos
     then Some (''prefijo de CUIT inv'' @ a_acute @ ''lido'')
     else if \<not> validarDigitoVerificadorCUIT cuit
     then Some (''d'' @ i_acute @ ''gito verificador de CUIT inv'' @ a_acute @ ''lido'') else None)"

definition validarCUIT :: "gval \<Rightarrow> string option option" where
  "validarCUIT = check_string error_CUIT"

definition validarCBU :: "gval \<Rightarrow> string option option" where
  "validarCBU = check_string (\<lambda>cbu.
     if length cbu \<noteq> 22 then Some (''CBU debe tener 22 d'' @ i_acute @ ''gitos'')
     else if \<not> MatchString (rx ''^!d{22}$'') cbu
     then Some (''CBU debe contener solo n'' @ u_acute @ ''meros'') else None)"

definition validarCodigoPostal :: "gval \<Rightarrow> string option option" where
  "validarCodigoPostal = check_string (\<lambda>cp.
     if length cp < 4 \<or> 8 < length cp
     then Some (''c'' @ o_acute @ ''digo postal debe tener entre 4 y 8 caracteres'')
     else if \<not> MatchString (rx ''^[A-Z]?!d{4}[A-Z]{0,3}$'') cp
     then Some (''formato de c'' @ o_acute @ ''digo postal inv'' @ a_acute @ ''lido'') else None)"

section \<open>The service\<close>

record usuario =
  us_ID :: string
  us_Email :: string
  us_DNI :: string
  us_CUIT :: string
  us_Nombre :: string
  us_Apellido :: string
  us_Telefono :: string
  us_Celular :: string
  us_FechaNac :: string
  us_Provincia :: string
  us_Localidad :: string
  us_CodigoPost :: string
  us_Direccion :: string
  us_CBU :: string
  us_Password :: string
  us_Rol :: string
  us_Estado :: string
  us_CreadoEn :: gtime
  us_Actualizado :: gtime

text \<open>The fields a new user must have: None when an assertion fails.\<close>

definition nuevo_usuario :: "svc_ext \<Rightarrow> string \<Rightarrow> gval gmap \<Rightarrow> usuario option" where
  "nuevo_usuario x hashed data =
     (case (str_field data ''email'', str_field data ''dni'', str_field data ''nombre'',
            str_field data ''apellido'', str_field data ''celular'') of
        (Some email, Some dni, Some nombre, Some apellido, Some celular) \<Rightarrow>
          (case (str_field data ''fechaNacimiento'', str_field data ''provincia'',
                 str_field data ''localidad'', str_field data ''codigoPostal'', str_field data ''direccion'') of
             (Some fecha, Some provincia, Some localidad, Some codigo, Some direccion) \<Rightarrow>
               Some \<lparr>us_ID = x_id x, us_Email = email, us_DNI = dni, us_CUIT = [], us_Nombre = nombre,
                 us_Apellido = apellido, us_Telefono = [], us_Celular = celular, us_FechaNac = fecha,
                 us_Provincia = provincia, us_Localidad = localidad, us_CodigoPost = codigo,
                 us_Direccion = direccion, us_CBU = [], us_Password = hashed, us_Rol = ''usuario'',
                 us_Estado = ''activo'', us_CreadoEn = x_created x, us_Actualizado = x_updated x\<rparr>
           | _ \<Rightarrow> None)
      | _ \<Rightarrow> None)"

text \<open>A write of an optional field that is not empty.\<close>

definition set_nonempty :: "gval gmap \<Rightarrow> string \<Rightarrow> (string \<Rightarrow> 'u \<Rightarrow> 'u) \<Rightarrow> 'u \<Rightarrow> 'u" where
  "set_nonempty data k set_to u = (case str_field data k of
     Some s \<Rightarrow> if s \<noteq> [] then set_to s u else u | None \<Rightarrow> u)"

definition duplicado :: "usuario \<Rightarrow> usuario \<Rightarrow> string option" where
  "duplicado usuario existente =
     (if us_Email existente = us_Email usuario then Some (''el email ya est'' @ a_acute @ '' registrado'')
      else if us_DNI existente = us_DNI usuario then Some (''el DNI ya est'' @ a_acute @ '' registrado'')
      else if us_CUIT usuario \<noteq> [] \<and> us_CUIT existente = us_CUIT usuario
      then Some (''el CUIT ya est'' @ a_acute @ '' registrado'') else None)"

definition Crear :: "(string list \<Rightarrow> string list) \<Rightarrow> svc_ext \<Rightarrow> gval gmap \<Rightarrow> usuario gmap \<Rightarrow>
    usuario gmap \<times> (string + usuario) option" where
  "Crear ord x data m = (let password = (case str_field data ''password'' of Some s \<Rightarrow> s | None \<Rightarrow> []) in
     case x_hash x password of
       Inl err \<Rightarrow> (m, Some (Inl (''error al procesar la contrase'' @ [CHR 0xC3, CHR 0xB1] @ ''a: '' @ err)))
     | Inr hashed \<Rightarrow> (case nuevo_usuario x hashed data of
           None \<Rightarrow> (m, None)
         | Some usuario \<Rightarrow> (let
               usuario = set_nonempty data ''cuit'' (\<lambda>s. us_CUIT_update (\<lambda>_. s)) usuario;
               usuario = set_nonempty data ''telefono'' (\<lambda>s. us_Telefono_update (\<lambda>_. s)) usuario;
               usuario = set_nonempty data ''cbu'' (\<lambda>s. us_CBU_update (\<lambda>_. s)) usuario;
               usuario = set_opt data ''rol'' (\<lambda>s. us_Rol_update (\<lambda>_. s)) usuario
             in case first_error (\<lambda>(_, existente). duplicado usuario existente) (visit ord m) of
                  Some e \<Rightarrow> (m, Some (Inl e))
                | None \<Rightarrow> (map_put (us_ID usuario) usuario m, Some (Inr usuario)))))"

definition Obtener :: "string \<Rightarrow> usuario gmap \<Rightarrow> string + usuario" where
  "Obtener uid m = (case map_of m uid of None \<Rightarrow> Inl ''usuario no encontrado'' | Some usuario \<Rightarrow> Inr usuario)"

text \<open>The writes of \<open>Actualizar\<close>, once the email is known to be free.\<close>

definition con_cambios :: "gtime \<Rightarrow> gval gmap \<Rightarrow> usuario \<Rightarrow> usuario" where
  "con_cambios now data usuario = (let
       usuario = set_opt data ''email'' (\<lambda>s. us_Email_update (\<lambda>_. s)) usuario;
       usuario = set_opt data ''telefono'' (\<lambda>s. us_Telefono_update (\<lambda>_. s)) usuario;
       usuario = set_opt data ''celular'' (\<lambda>s. us_Celular_update (\<lambda>_. s)) usuario;
       usuario = set_opt data ''provincia'' (\<lambda>s. us_Provincia_update (\<lambda>_. s)) usuario;
       usuario = set_opt data ''localidad'' (\<lambda>s. us_Localidad_update (\<lambda>_. s)) usuario;
       usuario = set_opt data ''codigoPostal'' (\<lambda>s. us_CodigoPost_update (\<lambda>_. s)) usuario;
       usuario = set_opt data ''direccion'' (\<lambda>s. us_Direccion_update (\<lambda>_. s)) usuario;
       usuario = set_opt data ''cbu'' (\<lambda>s. us_CBU_update (\<lambda>_. s)) usuario;
       usuario = set_opt data ''rol'' (\<lambda>s. us_Rol_update (\<lambda>_. s)) usuario;
       usuario = set_opt data ''estado'' (\<lambda>s. us_Estado_update (\<lambda>_. s)) usuario
     in usuario\<lparr>us_Actualizado := now\<rparr>)"

definition Actualizar :: "(string list \<Rightarrow> string list) \<Rightarrow> gtime \<Rightarrow> string \<Rightarrow> gval gmap \<Rightarrow> usuario gmap \<Rightarrow>
    usuario gmap \<times> (string + usuario)" where
  "Actualizar ord now uid data m = (case map_of m uid of
       None \<Rightarrow> (m, Inl ''usuario no encontrado'')
     | Some usuario \<Rightarrow>
         (case (case str_field data ''email'' of None \<Rightarrow> None
              | Some email \<Rightarrow> taken_by_other ord us_Email (''el email ya est'' @ a_acute @ '' registrado'') uid email m) of
            Some e \<Rightarrow> (m, Inl e)
          | None \<Rightarrow> (let usuario = con_cambios now data usuario
              in (map_put uid usuario m, Inr usuario))))"

definition Eliminar :: "gtime \<Rightarrow> string \<Rightarrow> usuario gmap \<Rightarrow> usuario gmap \<times> string option" where
  "Eliminar now uid m = (case map_of m uid of
       None \<Rightarrow> (m, Some ''usuario no encontrado'')
     | Some usuario \<Rightarrow> (map_put uid (usuario\<lparr>us_Estado := ''eliminado'', us_Actualizado := now\<rparr>) m, None))"

definition Consultar :: "(string list \<Rightarrow> string list) \<Rightarrow> gval gmap \<Rightarrow> usuario gmap \<Rightarrow> usuario list" where
  "Consultar ord criterios m = page_from (int_or 10 (float_field criterios ''limite''))
     (int_or 0 (float_field criterios ''offset''))
     (\<lambda>u. field_matches criterios ''email'' (us_Email u) \<and> field_matches criterios ''dni'' (us_DNI u)
        \<and> field_matches criterios ''cuit'' (us_CUIT u) \<and> field_matches criterios ''provincia'' (us_Provincia u)
        \<and> field_matches criterios ''rol'' (us_Rol u) \<and> field_matches criterios ''estado'' (us_Estado u))
     0 [] (map snd (visit ord m))"

section \<open>The handlers\<close>

record esquemas =
  es_CrearUsuario :: schema
  es_ActualizarUsuario :: schema
  es_ConsultarUsuarios :: schema

definition extraerDatosTransformados :: "gval gmap \<Rightarrow> validation_context \<Rightarrow> gval gmap" where
  "extraerDatosTransformados data ctx = fold (\<lambda>transform result. if tr_path transform \<noteq> [] then
       (let parts = str_split CHR ''.'' (tr_path transform) in
         if length parts = 1 then map_put (tr_path transform) (tr_result transform) result
         else map_put (parts ! (length parts - 1)) (tr_result transform) result)
       else result) (c_trans ctx) (fold (\<lambda>(k, v). map_put k v) data [])"

definition json_invalido :: string where
  "json_invalido = ''JSON inv'' @ a_acute @ ''lido''"

definition CrearUsuario :: "env \<Rightarrow> esquemas \<Rightarrow> (string list \<Rightarrow> string list) \<Rightarrow> svc_ext \<Rightarrow> gval gmap option \<Rightarrow>
    usuario gmap \<Rightarrow> usuario gmap \<times> usuario response option" where
  "CrearUsuario E es ord x body m = (case body of
       None \<Rightarrow> (m, Some (400, ReplyError json_invalido))
     | Some data \<Rightarrow> (let ctx = validate_with E (es_CrearUsuario es) data in
         if HasErrors ctx then (m, Some (respondValidationErrors ctx))
         else (case Crear ord x (extraerDatosTransformados data ctx) m of
             (m, None) \<Rightarrow> (m, None)
           | (m, Some (Inl err)) \<Rightarrow> (m, Some (409, ReplyError err))
           | (m, Some (Inr usuario)) \<Rightarrow> (m, Some (201, ReplyUser usuario)))))"

definition ObtenerUsuario :: "string \<Rightarrow> usuario gmap \<Rightarrow> usuario response" where
  "ObtenerUsuario uid m = (case Obtener uid m of
       Inl _ \<Rightarrow> (404, ReplyError ''Usuario no encontrado'') | Inr usuario \<Rightarrow> (200, ReplyUser usuario))"

definition ActualizarUsuario :: "env \<Rightarrow> esquemas \<Rightarrow> (string list \<Rightarrow> string list) \<Rightarrow> gtime \<Rightarrow> string \<Rightarrow>
    gval gmap option \<Rightarrow> usuario gmap \<Rightarrow> usuario gmap \<times> usuario response" where
  "ActualizarUsuario E es ord now uid body m = (case body of
       None \<Rightarrow> (m, (400, ReplyError json_invalido))
     | Some data \<Rightarrow> (let ctx = validate_with E (es_ActualizarUsuario es) data in
         if HasErrors ctx then (m, respondValidationErrors ctx)
         else (case Actualizar ord now uid (extraerDatosTransformados data ctx) m of
             (m, Inl err) \<Rightarrow> (m, (if err = ''usuario no encontrado'' then 404 else 409, ReplyError err))
           | (m, Inr usuario) \<Rightarrow> (m, (200, ReplyUser usuario)))))"

definition EliminarUsuario :: "gtime \<Rightarrow> string \<Rightarrow> usuario gmap \<Rightarrow> usuario gmap \<times> usuario response" where
  "EliminarUsuario now uid m = (case Eliminar now uid m of
       (m, Some _) \<Rightarrow> (m, (404, ReplyError ''Usuario no encontrado''))
     | (m, None) \<Rightarrow> (m, (204, ReplyEmpty)))"

definition ConsultarUsuarios :: "env \<Rightarrow> esquemas \<Rightarrow> (string list \<Rightarrow> string list) \<Rightarrow> string list gmap \<Rightarrow>
    usuario gmap \<Rightarrow> usuario response" where
  "ConsultarUsuarios E es ord params m = (let
       queryData = query_data ''limite'' params;
       ctx = validate_with E (es_ConsultarUsuarios es) queryData
     in if HasErrors ctx then respondValidationErrors ctx
        else (let usuarios = Consultar ord (extraerDatosTransformados queryData ctx) m
              in (200, ReplyUsers usuarios (length usuarios))))"

end
