(* ===== verification/MicroserviceProps.thy ===== *)
theory MicroserviceProps
  imports MicroserviceAr Acceptance
begin

text \<open>
  What the two user services keep. Whatever requests the Argentine service gets, no two of its
  users share an email, a DNI or a CUIT: its \<open>Crear\<close> looks for duplicates again under the lock.
  The other service does not, and stores duplicates. A query gives one page of the matching
  users in the order of the visit, so pages of one query can overlap. Of the eleven digits of a
  CUIT the first ten determine the last, and normalising does not change what the validator says.
\<close>

section \<open>Stores in which a key is unique\<close>

definition unique_by :: "('u \<Rightarrow> bool) \<Rightarrow> ('u \<Rightarrow> string) \<Rightarrow> 'u gmap \<Rightarrow> bool" where
  "unique_by P key m = distinct (map key (filter P (map snd m)))"

lemma unique_by_iff:
  assumes "wf_map m"
  shows "unique_by P key m \<longleftrightarrow> (\<forall>k u k' u'. map_of m k = Some u \<longrightarrow> map_of m k' = Some u' \<longrightarrow>
           P u \<longrightarrow> P u' \<longrightarrow> key u = key u' \<longrightarrow> k = k')"
proof -
  have keys: "distinct (map fst m)" using assms by (rule wf_map_distinct)
  then have "distinct (filter (P \<circ> snd) m)" by (simp add: distinct_map)
  moreover have "unique_by P key m = distinct (map (key \<circ> snd) (filter (P \<circ> snd) m))"
    by (simp add: unique_by_def filter_map)
  ultimately have "unique_by P key m \<longleftrightarrow> inj_on (key \<circ> snd) (set (filter (P \<circ> snd) m))"
    by (simp add: distinct_map)
  also have "\<dots> \<longleftrightarrow> (\<forall>k u k' u'. (k, u) \<in> set m \<longrightarrow> (k', u') \<in> set m \<longrightarrow> P u \<longrightarrow> P u' \<longrightarrow>
      key u = key u' \<longrightarrow> (k, u) = (k', u'))"
    by (auto simp: inj_on_def)
  also have "\<dots> \<longleftrightarrow> (\<forall>k u k' u'. map_of m k = Some u \<longrightarrow> map_of m k' = Some u' \<longrightarrow>
           P u \<longrightarrow> P u' \<longrightarrow> key u = key u' \<longrightarrow> k = k')"
    using keys by (auto simp: map_of_eq_Some_iff) (metis eq_key_imp_eq_value map_of_eq_Some_iff option.inject)+
  finally show ?thesis .
qed

lemma unique_by_put:
  assumes "wf_map m" and "unique_by P key m"
    and "\<And>k' u'. map_of m k' = Some u' \<Longrightarrow> k' \<noteq> k \<Longrightarrow> P u \<Longrightarrow> P u' \<Longrightarrow> key u' \<noteq> key u"
  shows "unique_by P key (map_put k u m)"
  using assms(2,3) unfolding unique_by_iff [OF assms(1)] unique_by_iff [OF wf_map_put [OF assms(1)]]
  by (auto split: if_splits) (metis+)

section \<open>Loops\<close>

lemma set_visit: "wf_map m \<Longrightarrow> (k, u) \<in> set (visit ord m) \<longleftrightarrow> map_of m k = Some u"
proof -
  assume "wf_map m"
  have "mset (visit_keys ord m) = mset (map_keys m)"
    by (simp add: visit_keys_def Let_def)
  then have "set (visit_keys ord m) = fst ` set m" by (metis list.set_map mset_eq_setD)
  moreover have "k \<in> fst ` set m \<longleftrightarrow> (\<exists>u. map_of m k = Some u)"
    using map_of_eq_None_iff [of m k] by auto
  ultimately show ?thesis
    by (auto simp: visit_def image_iff)
qed

lemma first_error_visit:
  "wf_map m \<Longrightarrow> first_error f (visit ord m) = None \<longleftrightarrow> (\<forall>k u. map_of m k = Some u \<longrightarrow> f (k, u) = None)"
  unfolding first_error_None by (auto simp: set_visit)

lemma taken_by_other_None:
  "wf_map m \<Longrightarrow> taken_by_other ord key err uid x m = None \<longleftrightarrow>
     (\<forall>k u. map_of m k = Some u \<longrightarrow> k \<noteq> uid \<longrightarrow> key u \<noteq> x)"
  by (auto simp: taken_by_other_def first_error_visit)

section \<open>The Argentine service\<close>

definition usuarios_unicos :: "usuario gmap \<Rightarrow> bool" where
  "usuarios_unicos m = (wf_map m \<and> list_all (\<lambda>(k, u). us_ID u = k) m
     \<and> unique_by (\<lambda>_. True) us_Email m \<and> unique_by (\<lambda>_. True) us_DNI m
     \<and> unique_by (\<lambda>u. us_CUIT u \<noteq> []) us_CUIT m)"

lemma all_put: "list_all P m \<Longrightarrow> P (k, u) \<Longrightarrow> list_all P (map_put k u m)"
  by (induction k u m rule: map_put.induct) auto

lemma usuarios_unicos_put:
  assumes "usuarios_unicos m" and "us_ID u = k"
    and "\<And>k' u'. map_of m k' = Some u' \<Longrightarrow> k' \<noteq> k \<Longrightarrow> us_Email u' \<noteq> us_Email u \<and> us_DNI u' \<noteq> us_DNI u
      \<and> (us_CUIT u \<noteq> [] \<longrightarrow> us_CUIT u' \<noteq> us_CUIT u)"
  shows "usuarios_unicos (map_put k u m)"
  using assms(1,2) assms(3) unfolding usuarios_unicos_def
  by (auto intro!: wf_map_put all_put unique_by_put)

lemma usuarios_unicos_get:
  assumes "usuarios_unicos m" and "map_of m k = Some u"
  shows "us_ID u = k"
    and "map_of m k' = Some u' \<Longrightarrow> k' \<noteq> k \<Longrightarrow> us_Email u' \<noteq> us_Email u \<and> us_DNI u' \<noteq> us_DNI u
      \<and> (us_CUIT u \<noteq> [] \<longrightarrow> us_CUIT u' \<noteq> us_CUIT u)"
proof -
  from assms(1) have wf: "wf_map m" and ids: "list_all (\<lambda>(k, u). us_ID u = k) m"
    and un: "unique_by (\<lambda>_. True) us_Email m" "unique_by (\<lambda>_. True) us_DNI m"
      "unique_by (\<lambda>u. us_CUIT u \<noteq> []) us_CUIT m"
    by (auto simp: usuarios_unicos_def)
  from ids assms(2) show "us_ID u = k" by (auto simp: list_all_iff dest: map_of_SomeD)
  assume "map_of m k' = Some u'" "k' \<noteq> k"
  with un assms(2) show "us_Email u' \<noteq> us_Email u \<and> us_DNI u' \<noteq> us_DNI u
      \<and> (us_CUIT u \<noteq> [] \<longrightarrow> us_CUIT u' \<noteq> us_CUIT u)"
    unfolding unique_by_iff [OF wf] by metis
qed

text \<open>The writes of the other fields leave the identifier, DNI and CUIT alone.\<close>

lemma set_opt_keeps:
  "(\<And>s u. f (set_to s u) = f u) \<Longrightarrow> f (set_opt data k set_to u) = f u"
  "(\<And>s u. f (set_to s u) = f u) \<Longrightarrow> f (set_nonempty data k set_to u) = f u"
  by (auto simp: set_opt_def set_nonempty_def split: option.splits)

lemma con_cambios_keeps:
  "us_ID (con_cambios now data u) = us_ID u" "us_DNI (con_cambios now data u) = us_DNI u"
  "us_CUIT (con_cambios now data u) = us_CUIT u"
  by (simp_all add: con_cambios_def Let_def set_opt_keeps(1) [where f = us_ID]
      set_opt_keeps(1) [where f = us_DNI] set_opt_keeps(1) [where f = us_CUIT])

lemma con_cambios_Email:
  "us_Email (con_cambios now data u) = (case str_field data ''email'' of Some s \<Rightarrow> s | None \<Rightarrow> us_Email u)"
proof -
  have "us_Email (con_cambios now data u)
      = us_Email (set_opt data ''email'' (\<lambda>s. us_Email_update (\<lambda>_. s)) u)"
    by (simp add: con_cambios_def Let_def set_opt_keeps(1) [where f = us_Email])
  then show ?thesis by (simp add: set_opt_def split: option.splits)
qed

lemma Crear_unicos:
  assumes "usuarios_unicos m"
  shows "usuarios_unicos (fst (Crear ord x data m))"
proof -
  have "usuarios_unicos (map_put (us_ID u) u m)"
    if "first_error (\<lambda>(_, existente). duplicado u existente) (visit ord m) = None" for u
  proof (rule usuarios_unicos_put [OF assms refl])
    fix k' u'
    assume "map_of m k' = Some u'"
    moreover have "wf_map m" using assms by (simp add: usuarios_unicos_def)
    ultimately have "duplicado u u' = None" using that by (auto simp: first_error_visit)
    then show "us_Email u' \<noteq> us_Email u \<and> us_DNI u' \<noteq> us_DNI u
      \<and> (us_CUIT u \<noteq> [] \<longrightarrow> us_CUIT u' \<noteq> us_CUIT u)"
      by (auto simp: duplicado_def split: if_splits)
  qed
  with assms show ?thesis
    by (auto simp: Crear_def Let_def split: sum.splits option.splits)
qed

lemma Actualizar_unicos:
  assumes "usuarios_unicos m"
  shows "usuarios_unicos (fst (Actualizar ord now uid data m))"
proof (cases "map_of m uid")
  case None
  with assms show ?thesis by (simp add: Actualizar_def)
next
  case (Some u)
  have wf: "wf_map m" using assms by (simp add: usuarios_unicos_def)
  let ?m = "fst (Actualizar ord now uid data m)"
  show ?thesis
  proof (cases "?m = m")
    case False
    let ?taken = "case str_field data ''email'' of None \<Rightarrow> None
      | Some email \<Rightarrow> taken_by_other ord us_Email (''el email ya est'' @ a_acute @ '' registrado'') uid email m"
    from False Some have "?taken = None"
      by (cases ?taken) (auto simp: Actualizar_def)
    let ?v = "con_cambios now data u"
    from \<open>?taken = None\<close> Some have "?m = map_put uid ?v m"
      by (simp add: Actualizar_def Let_def)
    show ?thesis unfolding \<open>?m = map_put uid ?v m\<close>
    proof (rule usuarios_unicos_put [OF assms])
      show "us_ID ?v = uid" using usuarios_unicos_get(1) [OF assms Some] con_cambios_keeps by simp
      fix k' u'
      assume other: "map_of m k' = Some u'" "k' \<noteq> uid"
      have "us_Email u' \<noteq> us_Email ?v"
        using \<open>?taken = None\<close> usuarios_unicos_get(2) [OF assms Some other] other
        by (auto simp: con_cambios_Email taken_by_other_None [OF wf] split: option.splits)
      then show "us_Email u' \<noteq> us_Email ?v \<and> us_DNI u' \<noteq> us_DNI ?v
          \<and> (us_CUIT ?v \<noteq> [] \<longrightarrow> us_CUIT u' \<noteq> us_CUIT ?v)"
        using usuarios_unicos_get(2) [OF assms Some other] by (simp add: con_cambios_keeps)
    qed
  qed (use assms in simp)
qed

lemma Eliminar_unicos:
  assumes "usuarios_unicos m"
  shows "usuarios_unicos (fst (Eliminar now uid m))"
proof (cases "map_of m uid")
  case (Some u)
  with assms usuarios_unicos_get [OF assms Some] show ?thesis
    by (auto simp: Eliminar_def intro!: usuarios_unicos_put)
qed (use assms in \<open>simp add: Eliminar_def\<close>)

text \<open>One request that can change the store, with any schemas, body, order and clock.\<close>

inductive peticion :: "usuario gmap \<Rightarrow> usuario gmap \<Rightarrow> bool" where
  crear: "peticion m (fst (CrearUsuario E es ord x body m))"
| actualizar: "peticion m (fst (ActualizarUsuario E es ord now uid body m))"
| eliminar: "peticion m (fst (EliminarUsuario now uid m))"

inductive_cases peticionE: "peticion m m'"

lemma peticion_unicos: "peticion m m' \<Longrightarrow> usuarios_unicos m \<Longrightarrow> usuarios_unicos m'"
proof (erule peticionE)
  fix E es ord x body
  assume "m' = fst (CrearUsuario E es ord x body m)" "usuarios_unicos m"
  then show ?thesis
    using Crear_unicos [of m ord x] by (auto simp: CrearUsuario_def Let_def
        split: option.splits prod.splits sum.splits) (metis fst_conv)+
next
  fix E es ord now uid body
  assume "m' = fst (ActualizarUsuario E es ord now uid body m)" "usuarios_unicos m"
  then show ?thesis
    using Actualizar_unicos [of m ord now uid] by (auto simp: ActualizarUsuario_def Let_def
        split: option.splits prod.splits sum.splits) (metis fst_conv)+
next
  fix now uid
  assume "m' = fst (EliminarUsuario now uid m)" "usuarios_unicos m"
  then show ?thesis
    using Eliminar_unicos [of m now uid] by (auto simp: EliminarUsuario_def
        split: option.splits prod.splits)
qed

text \<open>Stores that requests change, and an invariant every request keeps.\<close>

locale request_store =
  fixes request :: "'m \<Rightarrow> 'm \<Rightarrow> bool" and empty :: 'm and inv :: "'m \<Rightarrow> bool"
  assumes inv_empty: "inv empty"
    and inv_request: "request m m' \<Longrightarrow> inv m \<Longrightarrow> inv m'"
begin

lemma inv_reached: "request\<^sup>*\<^sup>* empty m \<Longrightarrow> inv m"
  by (induction rule: rtranclp_induct) (auto intro: inv_empty inv_request)

end

interpretation ar: request_store peticion "[]" usuarios_unicos
proof unfold_locales
  show "usuarios_unicos []" by (simp add: usuarios_unicos_def unique_by_def)
qed (rule peticion_unicos)

text \<open>
  C36: whatever requests the Argentine user service has had, in whatever order its maps were
  visited and whatever schemas it validates with, no two of its users have the same email, the
  same DNI or the same non-empty CUIT, and each is stored under its identifier.
\<close>

theorem usuarios_sin_duplicados:
  assumes "peticion\<^sup>*\<^sup>* [] m"
  shows "usuarios_unicos m"
  using assms by (rule ar.inv_reached)

definition ejemplo_es :: esquemas where
  "ejemplo_es = \<lparr>es_CrearUsuario = CustomS (Custom_new None), es_ActualizarUsuario = CustomS (Custom_new None),
     es_ConsultarUsuarios = CustomS (Custom_new None)\<rparr>"

definition ejemplo_ext :: "string \<Rightarrow> svc_ext" where
  "ejemplo_ext uid = \<lparr>x_hash = Inr, x_id = uid, x_created = \<lparr>t_instant = 0, t_offset = 0\<rparr>,
     x_updated = \<lparr>t_instant = 0, t_offset = 0\<rparr>\<rparr>"

definition ejemplo_datos :: "string \<Rightarrow> string \<Rightarrow> gval gmap" where
  "ejemplo_datos email dni = map (\<lambda>k. (k, VStr ''x'')) [''nombre'', ''apellido'', ''celular'',
     ''fechaNacimiento'', ''provincia'', ''localidad'', ''codigoPostal'', ''direccion'', ''password'']
     @ [(''email'', VStr email), (''dni'', VStr dni)]"

text \<open>The store after two requests with different emails and DNIs, the second user with identifier 2.\<close>

definition ejemplo_crear :: "string \<Rightarrow> string \<Rightarrow> string \<Rightarrow> usuario gmap \<Rightarrow> usuario gmap" where
  "ejemplo_crear uid email dni m = fst (CrearUsuario sample_env ejemplo_es (\<lambda>ks. ks)
     (ejemplo_ext uid) (Some (ejemplo_datos email dni)) m)"

lemma ejemplo_crear_step: "peticion m (ejemplo_crear uid email dni m)"
  unfolding ejemplo_crear_def by (rule crear)

lemma ejemplo_crear_Crear:
  "ejemplo_crear uid email dni m = fst (Crear (\<lambda>ks. ks) (ejemplo_ext uid)
     (fold (\<lambda>(k, v). map_put k v) (ejemplo_datos email dni) []) m)"
  by (simp add: ejemplo_crear_def CrearUsuario_def ejemplo_es_def validate_with_def custom_Validate_def
      Custom_new_def base_iface_def Let_def HasErrors_def NewValidationContext_def
      extraerDatosTransformados_def split: option.splits sum.splits prod.splits)

lemma ejemplo_crear_two:
  "map (\<lambda>(k, u). (k, us_Email u, us_DNI u)) (ejemplo_crear ''2'' ''b'' ''8'' (ejemplo_crear ''1'' ''a'' ''7'' []))
     = [(''1'', ''a'', ''7''), (''2'', ''b'', ''8'')]"
  by (simp add: ejemplo_crear_Crear Crear_def ejemplo_datos_def ejemplo_ext_def nuevo_usuario_def
      str_field_def map_of_map_from fold_put_get visit_def visit_keys_def duplicado_def set_nonempty_def
      set_opt_def Let_def)

theorem usuarios_sin_duplicados_witness:
  "usuarios_unicos (ejemplo_crear ''2'' ''b'' ''8'' (ejemplo_crear ''1'' ''a'' ''7'' []))
   \<and> length (ejemplo_crear ''2'' ''b'' ''8'' (ejemplo_crear ''1'' ''a'' ''7'' [])) = 2"
proof
  show "usuarios_unicos (ejemplo_crear ''2'' ''b'' ''8'' (ejemplo_crear ''1'' ''a'' ''7'' []))"
    by (rule usuarios_sin_duplicados)
      (blast intro: ejemplo_crear_step rtranclp.rtrancl_into_rtrancl rtranclp.rtrancl_refl)
  show "length (ejemplo_crear ''2'' ''b'' ''8'' (ejemplo_crear ''1'' ''a'' ''7'' [])) = 2"
    using arg_cong [OF ejemplo_crear_two, of length] by simp
qed

section \<open>The other service stores duplicates\<close>

text \<open>
  \<open>Create\<close> does not look at the other users: data it accepts once it accepts again under another
  identifier. The check of the schema is made before, without the lock, and on the data as they
  are before they are normalised.
\<close>

theorem Create_stores_duplicates:
  assumes "Create x data m = (m', Some (Inr u))" and "x_hash y = x_hash x"
  shows "\<exists>v. Create y data m' = (map_put (x_id y) v m', Some (Inr v)) \<and> u_Email v = u_Email u
    \<and> u_Username v = u_Username u"
  using assms by (auto simp: Create_def Let_def split: sum.splits option.splits)

section \<open>Pages\<close>

lemma page_from_eq:
  "page_from limit offset P (int (length ps)) (take (nat limit) (drop (nat offset) ps)) us
     = take (nat limit) (drop (nat offset) (ps @ filter P us))"
proof (induction us arbitrary: ps)
  case (Cons u us)
  let ?page = "\<lambda>ps. take (nat limit) (drop (nat offset) ps)"
  have "(if offset \<le> int (length ps) \<and> int (length (?page ps)) < limit then ?page ps @ [u] else ?page ps)
      = ?page (ps @ [u])"
    by auto
  with Cons.IH [of "ps @ [u]"] Cons.IH [of ps] show ?case
    by (simp add: add.commute)
qed simp

lemma page_from_page:
  "page_from limit offset P 0 [] us = take (nat limit) (drop (nat offset) (filter P us))"
  using page_from_eq [of limit offset P "[]" us] by simp

theorem Consultar_page:
  "\<exists>matches. Consultar ord criterios m = take (nat (int_or 10 (float_field criterios ''limite'')))
     (drop (nat (int_or 0 (float_field criterios ''offset''))) (filter matches (map snd (visit ord m))))"
  by (auto simp: Consultar_def page_from_page)

text \<open>
  The order is chosen anew for each query, so a user can be on two pages: here the first page of
  size one and the second one are the same.
\<close>

theorem pages_overlap:
  "Query_users (\<lambda>ks. ks) [(''limit'', VFloat64 (FFin 1))] [(''1'', u), (''2'', v)] = [u]
   \<and> Query_users rev [(''limit'', VFloat64 (FFin 1)), (''offset'', VFloat64 (FFin 1))] [(''1'', u), (''2'', v)] = [u]"
  by (simp add: Query_users_def visit_def visit_keys_def float_field_def int_or_def field_matches_def
      str_field_def rat_trunc_def)

section \<open>Documents\<close>

text \<open>A normaliser panics exactly on what is not a string.\<close>

theorem normalizar_panics:
  "normalizarProvincia U eq_fold v = None \<longleftrightarrow> (\<nexists>s. v = VStr s)"
  by (auto simp: normalizarProvincia_def on_string_def split: gval.splits)

lemma encode_ascii: "r < 0x80 \<Longrightarrow> encode_rune r = [char_of r]"
  by (simp add: encode_rune_def)

lemma only_digits_are: "list_all is_dec_digit (only_digits s)"
  by (auto simp: only_digits_def str_keep_def str_map_def list_all_iff encode_ascii is_dec_digit_def
      split: if_splits)

lemma only_digits_ascii: "list_all is_ascii s \<Longrightarrow> only_digits s = filter is_dec_digit s"
  by (simp add: only_digits_def str_keep_ascii is_dec_digit_def [abs_def])

lemma digits_ascii: "list_all is_dec_digit s \<Longrightarrow> list_all is_ascii s"
  by (auto simp: list_all_iff is_dec_digit_def is_ascii_def)

lemma only_digits_digits: "list_all is_dec_digit s \<Longrightarrow> only_digits s = s"
  using only_digits_ascii [OF digits_ascii] by (auto simp: list_all_iff)

lemma formatearCUIT_digits: "only_digits (formatearCUIT s) = only_digits s"
proof (cases "length (only_digits s) = 11")
  case True
  let ?c = "only_digits s"
  have split: "filter is_dec_digit (take 2 ?c @ ''-'' @ take 8 (drop 2 ?c) @ ''-'' @ drop 10 ?c) = ?c"
  proof -
    have "filter is_dec_digit (take 2 ?c) = take 2 ?c" "filter is_dec_digit (take 8 (drop 2 ?c)) = take 8 (drop 2 ?c)"
      "filter is_dec_digit (drop 10 ?c) = drop 10 ?c"
      using only_digits_are [of s] by (auto simp: list_all_iff intro!: filter_True dest: in_set_takeD in_set_dropD)
    moreover have "take 8 (drop 2 ?c) @ drop 10 ?c = drop 2 ?c"
      using append_take_drop_id [of 8 "drop 2 ?c"] by simp
    ultimately show ?thesis by (simp add: is_dec_digit_def)
  qed
  have "list_all is_ascii (take 2 ?c @ ''-'' @ take 8 (drop 2 ?c) @ ''-'' @ drop 10 ?c)"
    using digits_ascii [OF only_digits_are [of s]]
    by (auto simp: list_all_iff is_ascii_def dest: in_set_takeD in_set_dropD)
  with split True show ?thesis
    by (simp add: formatearCUIT_def Let_def only_digits_ascii)
next
  case False
  then show ?thesis by (simp add: formatearCUIT_def Let_def only_digits_digits only_digits_are)
qed

theorem CUIT_normalised:
  "only_digits (formatearCUIT s) = only_digits s \<and> formatearCUIT (formatearCUIT s) = formatearCUIT s
   \<and> error_CUIT (formatearCUIT s) = error_CUIT s"
  by (simp add: formatearCUIT_digits formatearCUIT_def [of "formatearCUIT s"] error_CUIT_def Let_def)
    (simp add: formatearCUIT_def Let_def)

theorem telefono_normalised: "formatearTelefono (formatearTelefono s) = formatearTelefono s"
proof -
  have "\<exists>tel. formatearTelefono s = ''+'' @ tel \<and> list_all is_dec_digit tel \<and> has_prefix tel ''54''"
    using only_digits_are [of s]
    by (auto simp: formatearTelefono_def Let_def list_all_iff is_dec_digit_def has_prefix_def dest: in_set_dropD)
  then obtain tel where tel: "formatearTelefono s = ''+'' @ tel" "list_all is_dec_digit tel" "has_prefix tel ''54''"
    by blast
  have "list_all is_ascii (''+'' @ tel)" using digits_ascii [OF tel(2)] by (simp add: is_ascii_def)
  then have "only_digits (''+'' @ tel) = tel"
    using tel(2) by (subst only_digits_ascii) (auto simp: is_dec_digit_def list_all_iff)
  then show ?thesis
    unfolding tel(1) formatearTelefono_def [of "''+'' @ tel"] Let_def
    using tel(3) by (auto simp: has_prefix_iff)
qed

lemma atoi_digit: "is_dec_digit d \<Longrightarrow> atoi_or_zero [d] = int (digit_val d)"
  by (auto simp: atoi_or_zero_def go_atoi_def read_nat_def is_dec_digit_def Let_def digit_val_def)

lemma digit_char_exists: "0 \<le> k \<Longrightarrow> k \<le> 9 \<Longrightarrow> \<exists>!d. is_dec_digit d \<and> atoi_or_zero [d] = k"
proof (rule ex1I [of _ "digit_char (nat k)"])
  assume k: "0 \<le> k" "k \<le> 9"
  then show "is_dec_digit (digit_char (nat k)) \<and> atoi_or_zero [digit_char (nat k)] = k"
    by (simp add: atoi_digit decimal)
  fix d assume "is_dec_digit d \<and> atoi_or_zero [d] = k"
  then show "d = digit_char (nat k)"
    using k digit_val_inj [of d "digit_char (nat k)"] by (auto simp: atoi_digit decimal)
qed

text \<open>For every ten leading digits there is exactly one that completes a CUIT.\<close>

theorem CUIT_check_digit:
  assumes "length s = 10"
  shows "\<exists>!d. is_dec_digit d \<and> validarDigitoVerificadorCUIT (s @ [d])"
proof -
  define r where "r = fold (\<lambda>i suma. suma + atoi_or_zero [s ! i] * multiplicadores ! i) [0..<10] 0 mod 11"
  define k where "k = (if 11 - r = 11 then 0 else if 11 - r = 10 then 9 else 11 - r)"
  have r: "0 \<le> r" "r < 11" by (simp_all add: r_def)
  have "fold (\<lambda>i suma. suma + atoi_or_zero [(s @ [d]) ! i] * multiplicadores ! i) [0..<10] 0
      = fold (\<lambda>i suma. suma + atoi_or_zero [s ! i] * multiplicadores ! i) [0..<10] (0 :: int)" for d
    by (rule fold_cong) (simp_all add: nth_append assms)
  then have "validarDigitoVerificadorCUIT (s @ [d]) \<longleftrightarrow> atoi_or_zero [d] = k" for d
    unfolding validarDigitoVerificadorCUIT_def Let_def k_def r_def
    using assms by (auto simp: nth_append)
  moreover have "0 \<le> k" "k \<le> 9" using r by (auto simp: k_def)
  ultimately show ?thesis using digit_char_exists by simp
qed

end
