(* ===== verification/RegistrationDb.thy ===== *)
theory RegistrationDb
  imports ExampleValidators
begin

text \<open>
  \<open>examples/database-validation/main.go\<close>: the mock database, the cache of email checks, the rate
  limiter, the validators of the registration service that use them, the collection of the results
  of concurrent workers, and the validation transaction. Times are instants in nanoseconds; the
  operations hold the lock of what they use, so each is one step. \<open>eq_fold\<close> is
  \<open>strings.EqualFold\<close>. A result None is a panic.
\<close>

section \<open>The database\<close>

record db_user =
  du_ID :: string
  du_Email :: string
  du_Username :: string
  du_CreatedAt :: int

record mock_db =
  db_users :: "db_user gmap"
  db_usernames :: "bool gmap"

definition NewMockDB :: mock_db where
  "NewMockDB = \<lparr>db_users = [], db_usernames = []\<rparr>"

definition EmailExists :: "(string \<Rightarrow> string \<Rightarrow> bool) \<Rightarrow> string \<Rightarrow> mock_db \<Rightarrow> bool" where
  "EmailExists eq_fold email db = list_ex (\<lambda>(_, user). eq_fold (du_Email user) email) (db_users db)"

definition UsernameExists :: "unicode_tables \<Rightarrow> string \<Rightarrow> mock_db \<Rightarrow> bool" where
  "UsernameExists U username db = (map_of (db_usernames db) (ToLower U username) = Some True)"

definition AddUser :: "unicode_tables \<Rightarrow> db_user \<Rightarrow> mock_db \<Rightarrow> mock_db" where
  "AddUser U user db = db\<lparr>db_users := map_put (du_ID user) user (db_users db),
     db_usernames := map_put (ToLower U (du_Username user)) True (db_usernames db)\<rparr>"

section \<open>The cache of email checks\<close>

record validation_cache =
  vc_emails :: "(bool \<times> int) gmap"
  vc_ttl :: int

definition NewValidationCache :: "int \<Rightarrow> validation_cache" where
  "NewValidationCache ttl = \<lparr>vc_emails = [], vc_ttl = ttl\<rparr>"

text \<open>The answers are \<open>exists\<close> and \<open>found\<close>.\<close>

definition GetEmail :: "int \<Rightarrow> string \<Rightarrow> validation_cache \<Rightarrow> bool \<times> bool" where
  "GetEmail now email c = (case map_of (vc_emails c) email of
       None \<Rightarrow> (False, False)
     | Some (ex, timestamp) \<Rightarrow> if vc_ttl c < now - timestamp then (False, False) else (ex, True))"

definition SetEmail :: "int \<Rightarrow> string \<Rightarrow> bool \<Rightarrow> validation_cache \<Rightarrow> validation_cache" where
  "SetEmail now email ex c = c\<lparr>vc_emails := map_put email (ex, now) (vc_emails c)\<rparr>"

section \<open>The rate limiter\<close>

type_synonym requests = "int list gmap"

definition recent :: "int \<Rightarrow> int \<Rightarrow> int list \<Rightarrow> int list" where
  "recent window now ts = (let windowStart = now - window in filter (\<lambda>t. windowStart < t) ts)"

definition requests_of :: "string \<Rightarrow> requests \<Rightarrow> int list" where
  "requests_of key m = (case map_of m key of Some ts \<Rightarrow> ts | None \<Rightarrow> [])"

definition Allow :: "int \<Rightarrow> int \<Rightarrow> int \<Rightarrow> string \<Rightarrow> requests \<Rightarrow> bool \<times> requests" where
  "Allow limit window now key m = (let validRequests = recent window now (requests_of key m) in
     if limit \<le> int (length validRequests) then (False, map_put key validRequests m)
     else (True, map_put key (validRequests @ [now]) m))"

text \<open>Each round of \<open>cleanup\<close> looks at its own key, so the order of the rounds is immaterial.\<close>

definition cleanup :: "int \<Rightarrow> int \<Rightarrow> requests \<Rightarrow> requests" where
  "cleanup window now m = concat (map (\<lambda>(key, ts). let validRequests = recent window now ts in
     if length validRequests = 0 then [] else [(key, validRequests)]) m)"

section \<open>The validators of the service\<close>

record reg_service =
  rs_db :: mock_db
  rs_bannedDomains :: "string list"
  rs_reservedUsernames :: "string list"
  rs_cache :: validation_cache

text \<open>\<open>t1\<close> and \<open>t2\<close> are the readings of the clock in \<open>GetEmail\<close> and \<open>SetEmail\<close>.\<close>

definition validateEmailUniqueness :: "(string \<Rightarrow> string \<Rightarrow> bool) \<Rightarrow> int \<Rightarrow> int \<Rightarrow> gval \<Rightarrow> reg_service \<Rightarrow>
    reg_service \<times> (string + gval) option" where
  "validateEmailUniqueness eq_fold t1 t2 v s = (case v of
       VStr email \<Rightarrow> (let (ex, found) = GetEmail t1 email (rs_cache s) in
         if found then (s, Some (if ex then Inl ''email already registered'' else Inr v))
         else let ex = EmailExists eq_fold email (rs_db s);
                  s = s\<lparr>rs_cache := SetEmail t2 email ex (rs_cache s)\<rparr>
              in (s, Some (if ex then Inl ''email already registered'' else Inr v)))
     | _ \<Rightarrow> (s, None))"

definition validateEmailDomain :: "unicode_tables \<Rightarrow> reg_service \<Rightarrow> panicking_transformer" where
  "validateEmailDomain U s v = (case v of
       VStr email \<Rightarrow> Some (let parts = str_split CHR ''@'' email in
         if length parts \<noteq> 2 then Inr v
         else if contains (rs_bannedDomains s) (ToLower U (parts ! 1))
         then Inl ''disposable email addresses are not allowed'' else Inr v)
     | _ \<Rightarrow> None)"

definition quoted :: "string \<Rightarrow> string" where
  "quoted s = [CHR 0x27] @ s @ [CHR 0x27]"

definition validateUsernameAvailable :: "unicode_tables \<Rightarrow> reg_service \<Rightarrow> panicking_transformer" where
  "validateUsernameAvailable U s v = (case v of
       VStr username \<Rightarrow> Some (
         if contains (rs_reservedUsernames s) (ToLower U username)
         then Inl (''username '' @ quoted username @ '' is reserved'')
         else if UsernameExists U username (rs_db s) then Inl ''username already taken'' else Inr v)
     | _ \<Rightarrow> None)"

definition special_password_runes :: "nat list" where
  "special_password_runes = map byte (''!@#$%^&*()_+-=[]|;:,.<>?'' @ [CHR 0x7B, CHR 0x7D])"

text \<open>The cases of the \<open>switch\<close> exclude each other, so each flag is whether such a character occurs.\<close>

definition validatePasswordStrength :: "unicode_tables \<Rightarrow> gval \<Rightarrow> string option option" where
  "validatePasswordStrength U v = (case v of
       VStr password \<Rightarrow> Some (
         if contains [''password'', ''12345678'', ''qwerty123'', ''admin123''] (ToLower U password)
         then Some ''password is too common''
         else if \<not> rune_in (\<lambda>r. 65 \<le> r \<and> r \<le> 90) password
         then Some ''password must contain at least one uppercase letter''
         else if \<not> rune_in (\<lambda>r. 97 \<le> r \<and> r \<le> 122) password
         then Some ''password must contain at least one lowercase letter''
         else if \<not> rune_in (\<lambda>r. 48 \<le> r \<and> r \<le> 57) password
         then Some ''password must contain at least one digit''
         else if \<not> rune_in (\<lambda>r. r \<in> set special_password_runes) password
         then Some ''password must contain at least one special character'' else None)
     | _ \<Rightarrow> None)"

section \<open>Concurrent checks\<close>

text \<open>
  The three checks of \<open>ValidateUserAsync\<close>; \<open>cancelled\<close> is the error of the Go context when it is
  done before the check is. The third one takes the part of the email after its first at sign.
\<close>

definition email_check :: "(string \<Rightarrow> string \<Rightarrow> bool) \<Rightarrow> mock_db \<Rightarrow> string option \<Rightarrow> string \<Rightarrow> string option" where
  "email_check eq_fold db cancelled email = (if email = [] then None
     else case cancelled of Some e \<Rightarrow> Some e
       | None \<Rightarrow> if EmailExists eq_fold email db then Some ''email already exists'' else None)"

definition username_check :: "unicode_tables \<Rightarrow> mock_db \<Rightarrow> string option \<Rightarrow> string \<Rightarrow> string option" where
  "username_check U db cancelled username = (if username = [] then None
     else case cancelled of Some e \<Rightarrow> Some e
       | None \<Rightarrow> if UsernameExists U username db then Some ''username not available'' else None)"

definition blacklist_check :: "string option \<Rightarrow> string \<Rightarrow> string option option" where
  "blacklist_check cancelled email = (if email = [] then Some None
     else let parts = str_split CHR ''@'' email in
       if length parts \<le> 1 then None
       else Some (case cancelled of Some e \<Rightarrow> Some e
         | None \<Rightarrow> if contains [''spam.com'', ''malicious.org''] (parts ! 1)
           then Some ''email domain is blacklisted'' else None))"

text \<open>
  What the collecting loop receives, in the order it does: the result of a check (Inr) or the
  cancellation (Inl).
\<close>

definition collect_checks :: "(string + string option) list \<Rightarrow> string option" where
  "collect_checks arrivals = first_error (\<lambda>a. case a of Inl e \<Rightarrow> Some e | Inr err \<Rightarrow> err) arrivals"

text \<open>\<open>validated\<close> is the error of the synchronous validation.\<close>

definition ValidateUserAsync :: "(string + string option) list \<Rightarrow> string option \<Rightarrow> string option" where
  "ValidateUserAsync arrivals validated = (case collect_checks arrivals of
     Some e \<Rightarrow> Some e | None \<Rightarrow> validated)"

text \<open>\<open>ValidateBatch\<close>: the results arrive in any order and are stored by their index.\<close>

definition collect_results :: "nat \<Rightarrow> 'r \<Rightarrow> (nat \<times> 'r) list \<Rightarrow> 'r list" where
  "collect_results n zero arrivals = fold (\<lambda>(i, r) results. results[i := r]) arrivals (replicate n zero)"

section \<open>The validation transaction\<close>

record transaction =
  tx_service :: reg_service
  tx_pending :: "db_user list"

definition BeginValidation :: "reg_service \<Rightarrow> transaction" where
  "BeginValidation s = \<lparr>tx_service = s, tx_pending = []\<rparr>"

text \<open>
  \<open>ValidateUser\<close> after the validation: \<open>outcome\<close> is the error of the schema or the cleaned data,
  \<open>uid\<close> the new identifier. Data without a string for one of the two fields panic.
\<close>

definition ValidateUser :: "unicode_tables \<Rightarrow> string + gval gmap \<Rightarrow> string \<Rightarrow> int \<Rightarrow> transaction \<Rightarrow>
    transaction \<times> string option option" where
  "ValidateUser U outcome uid now tx = (case outcome of
       Inl err \<Rightarrow> (tx, Some (Some err))
     | Inr userData \<Rightarrow> (case (map_of userData ''email'', map_of userData ''username'') of
           (Some (VStr email), Some (VStr username)) \<Rightarrow>
             (let user = \<lparr>du_ID = uid, du_Email = email, du_Username = username, du_CreatedAt = now\<rparr>;
                  s = tx_service tx
              in (\<lparr>tx_service = s\<lparr>rs_db := AddUser U user (rs_db s)\<rparr>,
                   tx_pending = tx_pending tx @ [user]\<rparr>, Some None))
         | _ \<Rightarrow> (tx, None)))"

definition map_delete :: "string \<Rightarrow> 'v gmap \<Rightarrow> 'v gmap" where
  "map_delete k m = filter (\<lambda>(j, _). j \<noteq> k) m"

definition Rollback :: "unicode_tables \<Rightarrow> transaction \<Rightarrow> transaction" where
  "Rollback U tx = (let s = tx_service tx;
       db = fold (\<lambda>user db. db\<lparr>db_users := map_delete (du_ID user) (db_users db),
              db_usernames := map_delete (ToLower U (du_Username user)) (db_usernames db)\<rparr>)
            (tx_pending tx) (rs_db s)
     in \<lparr>tx_service = s\<lparr>rs_db := db\<rparr>, tx_pending = []\<rparr>)"

end
