(* ===== verification/RegistrationProps.thy ===== *)
theory RegistrationProps
  imports RegistrationDb
begin

text \<open>
  The rate limiter against the log of what it has granted: it grants a request exactly when fewer
  than the limit were granted in the window that ends now, so no window ever holds more than the
  limit, cleaning up or not. The cache of email checks lets an address through that has been
  registered since, rolling a transaction back restores the database, and results that arrive in
  any order are stored in the order of the input.
\<close>

section \<open>The rate limiter\<close>

text \<open>The requests so far, the time of the last one, and the log of the granted ones.\<close>

record rl_state =
  rl_requests :: requests
  rl_clock :: int
  rl_log :: "(string \<times> int) list"

definition rl_init :: rl_state where
  "rl_init = \<lparr>rl_requests = [], rl_clock = 0, rl_log = []\<rparr>"

inductive rl_step :: "int \<Rightarrow> int \<Rightarrow> rl_state \<Rightarrow> rl_state \<Rightarrow> bool" for limit window where
  granted: "rl_clock s \<le> now \<Longrightarrow> Allow limit window now key (rl_requests s) = (True, m) \<Longrightarrow>
    rl_step limit window s \<lparr>rl_requests = m, rl_clock = now, rl_log = rl_log s @ [(key, now)]\<rparr>"
| refused: "rl_clock s \<le> now \<Longrightarrow> Allow limit window now key (rl_requests s) = (False, m) \<Longrightarrow>
    rl_step limit window s \<lparr>rl_requests = m, rl_clock = now, rl_log = rl_log s\<rparr>"
| cleaned: "rl_clock s \<le> now \<Longrightarrow>
    rl_step limit window s \<lparr>rl_requests = cleanup window now (rl_requests s), rl_clock = now, rl_log = rl_log s\<rparr>"

text \<open>What was granted to a key in the window that ends at \<open>t\<close>.\<close>

definition log_of :: "string \<Rightarrow> (string \<times> int) list \<Rightarrow> int list" where
  "log_of key evs = map snd (filter (\<lambda>(k, _). k = key) evs)"

definition granted_in :: "int \<Rightarrow> int \<Rightarrow> string \<Rightarrow> rl_state \<Rightarrow> nat" where
  "granted_in window t key s = length (filter (\<lambda>\<tau>. t - window < \<tau> \<and> \<tau> \<le> t) (log_of key (rl_log s)))"

lemma log_of_snoc: "log_of key (evs @ [(k, t)]) = (if k = key then log_of key evs @ [t] else log_of key evs)"
  by (simp add: log_of_def)

lemma requests_of_put: "requests_of key (map_put k ts m) = (if k = key then ts else requests_of key m)"
  by (simp add: requests_of_def)

lemma cleanup_eq:
  "cleanup window now m = filter (\<lambda>(key, ts). ts \<noteq> []) (map (\<lambda>(key, ts). (key, recent window now ts)) m)"
  by (induction m) (auto simp: cleanup_def Let_def)

lemma requests_of_cleanup:
  assumes "wf_map m"
  shows "requests_of key (cleanup window now m) = recent window now (requests_of key m)"
proof -
  have "map_of (filter (\<lambda>(key, ts). ts \<noteq> []) (map (\<lambda>(key, ts). (key, f ts)) m)) key
      = (case map_of m key of None \<Rightarrow> None | Some ts \<Rightarrow> if f ts = [] then None else Some (f ts))"
    if "distinct (map fst m)" for f :: "int list \<Rightarrow> int list"
    using that
  proof (induction m)
    case (Cons kt m)
    then show ?case
      by (cases kt) (auto simp: map_of_eq_None_iff image_iff split: option.splits)
  qed simp
  from this [OF wf_map_distinct [OF assms], of "recent window now"] show ?thesis
    by (auto simp: requests_of_def cleanup_eq recent_def split: option.splits)
qed

lemma wf_cleanup: "wf_map m \<Longrightarrow> wf_map (cleanup window now m)"
proof -
  assume "wf_map m"
  then have "wf_map (map (\<lambda>(key, ts). (key, recent window now ts)) m)"
    by (simp add: wf_map_def split_def comp_def)
  then show ?thesis
    unfolding cleanup_eq wf_map_def by (simp add: sorted_wrt_filter sorted_wrt_map)
qed

text \<open>
  The invariant: what the limiter remembers of a key is, within the window of the clock, the log.
\<close>

definition rl_inv :: "int \<Rightarrow> int \<Rightarrow> rl_state \<Rightarrow> bool" where
  "rl_inv limit window s = (wf_map (rl_requests s) \<and> (\<forall>e \<in> set (rl_log s). snd e \<le> rl_clock s)
     \<and> (\<forall>key. recent window (rl_clock s) (requests_of key (rl_requests s))
            = recent window (rl_clock s) (log_of key (rl_log s)))
     \<and> (\<forall>key t. granted_in window t key s \<le> nat limit))"

lemma recent_recent: "now \<le> now' \<Longrightarrow> recent window now' (recent window now ts) = recent window now' ts"
  by (auto simp: recent_def Let_def intro!: filter_cong)

lemma recent_later:
  assumes "recent window now ts = recent window now ts'" and "now \<le> now'"
  shows "recent window now' ts = recent window now' ts'"
  by (metis assms recent_recent)

lemma rl_inv_recent:
  assumes "rl_inv limit window s" and "rl_clock s \<le> now"
  shows "recent window now (requests_of key (rl_requests s)) = recent window now (log_of key (rl_log s))"
  using assms recent_later unfolding rl_inv_def by blast

lemma log_of_times: "\<forall>e \<in> set evs. snd e \<le> c \<Longrightarrow> \<tau> \<in> set (log_of key evs) \<Longrightarrow> \<tau> \<le> c"
  by (auto simp: log_of_def)

lemma granted_in_now:
  assumes "rl_inv limit window s" and "rl_clock s \<le> now"
  shows "granted_in window now key s = length (recent window now (requests_of key (rl_requests s)))"
proof -
  have "\<tau> \<le> now" if "\<tau> \<in> set (log_of key (rl_log s))" for \<tau>
    using log_of_times [OF _ that, of "rl_clock s"] assms by (force simp: rl_inv_def)
  then have "filter (\<lambda>\<tau>. now - window < \<tau> \<and> \<tau> \<le> now) (log_of key (rl_log s)) = recent window now (log_of key (rl_log s))"
    by (auto simp: recent_def Let_def intro!: filter_cong)
  then show ?thesis by (simp add: granted_in_def rl_inv_recent [OF assms])
qed

text \<open>\<open>Allow\<close> is the sliding window over the log.\<close>

lemma Allow_log:
  assumes "rl_inv limit window s" and "rl_clock s \<le> now"
  shows "fst (Allow limit window now key (rl_requests s)) \<longleftrightarrow> int (granted_in window now key s) < limit"
  using granted_in_now [OF assms] by (simp add: Allow_def Let_def)

lemma recent_idem: "recent window now (recent window now ts) = recent window now ts"
  by (rule recent_recent) simp

lemma recent_append: "recent window now (xs @ ys) = recent window now xs @ recent window now ys"
  by (simp add: recent_def Let_def)

lemma length_filter_mono:
  "(\<And>x. P x \<Longrightarrow> Q x) \<Longrightarrow> length (filter P xs) \<le> length (filter Q xs)"
  by (induction xs) auto

lemma rl_inv_granted:
  assumes inv: "rl_inv limit window s" and now: "rl_clock s \<le> now"
    and ok: "Allow limit window now key (rl_requests s) = (True, m)"
  shows "rl_inv limit window \<lparr>rl_requests = m, rl_clock = now, rl_log = rl_log s @ [(key, now)]\<rparr>"
    (is "rl_inv limit window ?s")
proof -
  let ?V = "recent window now (requests_of key (rl_requests s))"
  from ok have m: "m = map_put key (?V @ [now]) (rl_requests s)" and room: "int (length ?V) < limit"
    by (auto simp: Allow_def Let_def split: if_splits)
  have "granted_in window t k ?s \<le> nat limit" for t k
  proof (cases "k = key \<and> now \<le> t")
    case True
    have "length (filter (\<lambda>\<tau>. t - window < \<tau> \<and> \<tau> \<le> t) (log_of key (rl_log s)))
        \<le> length (recent window now (log_of key (rl_log s)))"
      using True by (auto simp: recent_def Let_def intro!: length_filter_mono)
    also have "\<dots> = length ?V" using rl_inv_recent [OF inv now] by simp
    finally show ?thesis
      using room True by (auto simp: granted_in_def log_of_snoc)
  next
    case False
    then have "granted_in window t k ?s = granted_in window t k s"
      by (auto simp: granted_in_def log_of_snoc)
    then show ?thesis using inv by (simp add: rl_inv_def)
  qed
  moreover have "recent window now (requests_of k m) = recent window now (log_of k (rl_log s @ [(key, now)]))" for k
    using rl_inv_recent [OF inv now, of k]
    by (simp add: m requests_of_put log_of_snoc recent_append recent_idem)
  moreover have "wf_map m" using inv by (auto simp: m rl_inv_def)
  ultimately show ?thesis
    using inv now by (force simp: rl_inv_def)
qed

lemma rl_inv_refused:
  assumes inv: "rl_inv limit window s" and now: "rl_clock s \<le> now" and "wf_map m"
    and m: "\<And>k. recent window now (requests_of k m) = recent window now (requests_of k (rl_requests s))"
  shows "rl_inv limit window \<lparr>rl_requests = m, rl_clock = now, rl_log = rl_log s\<rparr>"
  using inv now assms(3) m rl_inv_recent [OF inv now]
  by (force simp: rl_inv_def granted_in_def)

lemma rl_step_inv: "rl_step limit window s s' \<Longrightarrow> rl_inv limit window s \<Longrightarrow> rl_inv limit window s'"
proof (induction rule: rl_step.induct)
  case (granted s now key m)
  then show ?case by (rule_tac rl_inv_granted)
next
  case (refused s now key m)
  then have m: "m = map_put key (recent window now (requests_of key (rl_requests s))) (rl_requests s)"
    by (auto simp: Allow_def Let_def split: if_splits)
  show ?case
    using refused by (intro rl_inv_refused) (auto simp: m requests_of_put recent_idem rl_inv_def)
next
  case (cleaned s now)
  then show ?case
    by (intro rl_inv_refused) (auto simp: requests_of_cleanup recent_idem wf_cleanup rl_inv_def)
qed

lemma rl_inv_init: "rl_inv limit window rl_init"
  by (simp add: rl_inv_def rl_init_def granted_in_def log_of_def requests_of_def recent_def)

lemma rl_reached: "(rl_step limit window)\<^sup>*\<^sup>* rl_init s \<Longrightarrow> rl_inv limit window s"
  by (induction rule: rtranclp_induct) (auto intro: rl_inv_init rl_step_inv)

text \<open>
  C37: after any calls of the rate limiter, cleaning up included, at times that do not decrease,
  no window of its length holds more granted requests of a key than the limit, and the next
  request is granted exactly when the window that ends now holds fewer.
\<close>

theorem Allow_within_limit:
  assumes "(rl_step limit window)\<^sup>*\<^sup>* rl_init s"
  shows "granted_in window t key s \<le> nat limit
    \<and> (rl_clock s \<le> now \<longrightarrow>
         (fst (Allow limit window now key (rl_requests s)) \<longleftrightarrow> int (granted_in window now key s) < limit))"
  using rl_reached [OF assms] Allow_log by (auto simp: rl_inv_def)

theorem Allow_within_limit_witness:
  "\<not> fst (Allow 1 10 5 ''k'' (snd (Allow 1 10 0 ''k'' [])))"
proof -
  let ?s = "\<lparr>rl_requests = snd (Allow 1 10 0 ''k'' []), rl_clock = 0, rl_log = [(''k'', 0)]\<rparr>"
  have "rl_step 1 10 rl_init ?s"
    using granted [of rl_init 0 1 10 "''k''"]
    by (simp add: rl_init_def Allow_def recent_def requests_of_def)
  then have "(rl_step 1 10)\<^sup>*\<^sup>* rl_init ?s" by (rule r_into_rtranclp)
  from Allow_within_limit [OF this, of 5 "''k''" 5] show ?thesis
    by (simp add: granted_in_def log_of_def)
qed

section \<open>The cache of email checks\<close>

text \<open>
  An address that was free when it was looked up passes the check again within the time to live,
  though it has been registered in between.
\<close>

theorem stale_cache_accepts:
  assumes "\<not> EmailExists eq_fold email (rs_db s)" and "\<not> snd (GetEmail t0 email (rs_cache s))"
    and "du_Email user = email" and "eq_fold email email"
    and "t2 - t1 \<le> vc_ttl (rs_cache s)"
    and "validateEmailUniqueness eq_fold t0 t1 (VStr email) s = (s', r)"
    and "s'' = s'\<lparr>rs_db := AddUser U user (rs_db s')\<rparr>"
  shows "EmailExists eq_fold email (rs_db s'')
    \<and> validateEmailUniqueness eq_fold t2 t3 (VStr email) s'' = (s'', Some (Inr (VStr email)))"
proof
  have s': "s' = s\<lparr>rs_cache := SetEmail t1 email False (rs_cache s)\<rparr>"
    using assms(1,2,6) by (auto simp: validateEmailUniqueness_def split: prod.splits)
  have "(du_ID user, user) \<in> set (map_put (du_ID user) user m)" for m :: "db_user gmap"
    using map_of_SomeD [of "map_put (du_ID user) user m" "du_ID user" user] by simp
  then show "EmailExists eq_fold email (rs_db s'')"
    using assms(3,4) by (force simp: assms(7) EmailExists_def AddUser_def list_ex_iff)
  show "validateEmailUniqueness eq_fold t2 t3 (VStr email) s'' = (s'', Some (Inr (VStr email)))"
    using assms(5) by (simp add: assms(7) s' validateEmailUniqueness_def GetEmail_def SetEmail_def)
qed

text \<open>The password of the demonstration fails another test than the one it names.\<close>

theorem password_too_common:
  "validatePasswordStrength U (VStr ''password'') = Some (Some ''password is too common'')"
proof -
  have "ToLower U ''password'' = ''password''"
    by (simp add: ToLower_def str_map_def rune_chunks_ascii is_ascii_def rune_lower_def encode_rune_def
        char_of_def bit_iff_odd)
  then show ?thesis by (simp add: validatePasswordStrength_def contains_def)
qed

section \<open>Concurrent checks\<close>

text \<open>The check against the blacklist panics on an address without an at sign.\<close>

lemma str_split_length: "length (str_split sep s) = Suc (length (filter (\<lambda>ch. ch = sep) s))"
  by (induction sep s rule: str_split.induct) (auto split: list.splits)

theorem blacklist_panics: "blacklist_check cancelled email = None \<longleftrightarrow> email \<noteq> [] \<and> CHR ''@'' \<notin> set email"
  by (auto simp: blacklist_check_def Let_def str_split_length filter_empty_conv)

theorem checks_in_any_order:
  "mset arrivals = mset (map Inr checks) \<Longrightarrow>
     ValidateUserAsync arrivals validated = None \<longleftrightarrow> validated = None \<and> (\<forall>c \<in> set checks. c = None)"
proof -
  assume "mset arrivals = mset (map Inr checks)"
  then have "set arrivals = Inr ` set checks" by (metis list.set_map mset_eq_setD)
  then have "collect_checks arrivals = None \<longleftrightarrow> (\<forall>c \<in> set checks. c = None)"
    by (simp add: collect_checks_def first_error_None)
  then show ?thesis by (auto simp: ValidateUserAsync_def split: option.splits)
qed

lemma fold_update_length: "length (fold (\<lambda>(i, r) rs. rs[i := r]) as rs) = length rs"
  by (induction as arbitrary: rs) auto

lemma fold_update_other:
  "j \<notin> fst ` set as \<Longrightarrow> fold (\<lambda>(i, r) rs. rs[i := r]) as rs ! j = rs ! j"
  by (induction as arbitrary: rs) auto

lemma fold_update_at:
  "distinct (map fst as) \<Longrightarrow> (j, r) \<in> set as \<Longrightarrow> j < length rs \<Longrightarrow>
   fold (\<lambda>(i, r) rs. rs[i := r]) as rs ! j = r"
proof (induction as arbitrary: rs)
  case (Cons a as)
  show ?case
  proof (cases "a = (j, r)")
    case True
    with Cons.prems show ?thesis by (simp add: fold_update_other)
  next
    case False
    with Cons show ?thesis by (cases a) auto
  qed
qed simp

theorem results_in_any_order:
  assumes "mset arrivals = mset (enumerate 0 results)"
  shows "collect_results (length results) zero arrivals = results"
proof (rule nth_equalityI)
  show "length (collect_results (length results) zero arrivals) = length results"
    by (simp add: collect_results_def fold_update_length)
  have "mset (map fst arrivals) = mset (map fst (enumerate 0 results))"
    by (simp only: mset_map assms)
  then have "distinct (map fst arrivals)"
    by (metis distinct_upt map_fst_enumerate mset_eq_imp_distinct_iff)
  moreover have "(j, results ! j) \<in> set arrivals" if "j < length results" for j
    using that mset_eq_setD [OF assms] by (simp add: in_set_enumerate_eq)
  ultimately show "collect_results (length results) zero arrivals ! j = results ! j"
    if "j < length (collect_results (length results) zero arrivals)" for j
    using that by (simp add: collect_results_def fold_update_length fold_update_at)
qed

section \<open>The transaction\<close>

lemma map_of_delete: "map_of (map_delete k m) j = (if j = k then None else map_of m j)"
  by (induction m) (auto simp: map_delete_def)

lemma wf_delete: "wf_map m \<Longrightarrow> wf_map (map_delete k m)"
  unfolding map_delete_def wf_map_def by (simp add: sorted_wrt_filter sorted_wrt_map)

lemma fold_delete:
  "map_of (fold (\<lambda>u. map_delete (f u)) us m) k = (if k \<in> f ` set us then None else map_of m k)"
  by (induction us arbitrary: m) (auto simp: map_of_delete)

lemma fold_put_other:
  "k \<notin> f ` set us \<Longrightarrow> map_of (fold (\<lambda>u. map_put (f u) (g u)) us m) k = map_of m k"
  by (induction us arbitrary: m) auto

lemma wf_fold: "wf_map m \<Longrightarrow> (\<And>u m. wf_map m \<Longrightarrow> wf_map (h u m)) \<Longrightarrow> wf_map (fold h us m)"
  by (induction us arbitrary: m) auto

lemma delete_put_all:
  assumes "wf_map m" and "\<forall>u \<in> set us. map_of m (f u) = None"
  shows "fold (\<lambda>u. map_delete (f u)) us (fold (\<lambda>u. map_put (f u) (g u)) us m) = m"
proof (rule wf_map_eqI)
  show "wf_map (fold (\<lambda>u. map_delete (f u)) us (fold (\<lambda>u. map_put (f u) (g u)) us m))"
    by (intro wf_fold assms(1) wf_delete wf_map_put)
  show "map_of (fold (\<lambda>u. map_delete (f u)) us (fold (\<lambda>u. map_put (f u) (g u)) us m)) = map_of m"
    using assms(2) by (auto simp: fold_delete fold_put_other fun_eq_iff)
qed (rule assms(1))

lemma fold_AddUser:
  "fold (AddUser U) us db = db\<lparr>db_users := fold (\<lambda>u. map_put (du_ID u) u) us (db_users db),
     db_usernames := fold (\<lambda>u. map_put (ToLower U (du_Username u)) True) us (db_usernames db)\<rparr>"
  by (induction us arbitrary: db) (auto simp: AddUser_def)

lemma fold_rollback:
  "fold (\<lambda>user db. db\<lparr>db_users := map_delete (du_ID user) (db_users db),
      db_usernames := map_delete (ToLower U (du_Username user)) (db_usernames db)\<rparr>) us db
   = db\<lparr>db_users := fold (\<lambda>u. map_delete (du_ID u)) us (db_users db),
      db_usernames := fold (\<lambda>u. map_delete (ToLower U (du_Username u))) us (db_usernames db)\<rparr>"
  by (induction us arbitrary: db) auto

theorem Rollback_restores:
  assumes "wf_map (db_users (rs_db s))" and "wf_map (db_usernames (rs_db s))"
    and "\<forall>u \<in> set users. map_of (db_users (rs_db s)) (du_ID u) = None
      \<and> map_of (db_usernames (rs_db s)) (ToLower U (du_Username u)) = None"
    and "tx = \<lparr>tx_service = s\<lparr>rs_db := fold (AddUser U) users (rs_db s)\<rparr>, tx_pending = users\<rparr>"
  shows "Rollback U tx = BeginValidation s"
proof -
  have "fold (\<lambda>u. map_delete (du_ID u)) users (fold (\<lambda>u. map_put (du_ID u) u) users (db_users (rs_db s))) = db_users (rs_db s)"
    using assms(1,3) by (intro delete_put_all) auto
  moreover have "fold (\<lambda>u. map_delete (ToLower U (du_Username u))) users
      (fold (\<lambda>u. map_put (ToLower U (du_Username u)) True) users (db_usernames (rs_db s))) = db_usernames (rs_db s)"
    using assms(2,3) by (intro delete_put_all) auto
  ultimately show ?thesis
    by (simp add: assms(4) Rollback_def BeginValidation_def fold_AddUser fold_rollback)
qed

end
