(* ===== verification/SchemaFactory.thy ===== *)
theory SchemaFactory
  imports ExampleValidators Builders
begin

text \<open>
  \<open>examples/schema-composition/main.go\<close>: the schema factory, the mixins, the extended entities and
  the user schema that depends on the configuration. A builder of objects gives None when
  \<open>Field\<close> panics. The theorems: the object built does not depend on the order in which the map of
  fields is visited, a clone builds the same object, the flag that makes a field required has no
  effect, and a field added again keeps the transformers of the one it replaces.
\<close>

section \<open>The factory\<close>

record schema_factory =
  sf_fields :: "schema gmap"
  sf_required :: "bool gmap"
  sf_transforms :: "transformer list gmap"

definition NewSchemaFactory :: schema_factory where
  "NewSchemaFactory = \<lparr>sf_fields = [], sf_required = [], sf_transforms = []\<rparr>"

definition sf_AddField :: "string \<Rightarrow> schema \<Rightarrow> bool \<Rightarrow> schema_factory \<Rightarrow> schema_factory" where
  "sf_AddField name s required sf = sf\<lparr>sf_fields := map_put name s (sf_fields sf),
     sf_required := map_put name required (sf_required sf)\<rparr>"

definition sf_AddFieldWithTransform :: "string \<Rightarrow> schema \<Rightarrow> bool \<Rightarrow> transformer list \<Rightarrow> schema_factory \<Rightarrow>
    schema_factory" where
  "sf_AddFieldWithTransform name s required transforms sf =
     sf\<lparr>sf_fields := map_put name s (sf_fields sf),
       sf_required := map_put name required (sf_required sf),
       sf_transforms := map_put name transforms (sf_transforms sf)\<rparr>"

definition without_key :: "string \<Rightarrow> 'v gmap \<Rightarrow> 'v gmap" where
  "without_key k m = filter (\<lambda>(j, _). j \<noteq> k) m"

definition sf_RemoveField :: "string \<Rightarrow> schema_factory \<Rightarrow> schema_factory" where
  "sf_RemoveField name sf = sf\<lparr>sf_fields := without_key name (sf_fields sf),
     sf_required := without_key name (sf_required sf),
     sf_transforms := without_key name (sf_transforms sf)\<rparr>"

text \<open>A missing entry of \<open>required\<close> reads as false.\<close>

definition sf_is_required :: "schema_factory \<Rightarrow> string \<Rightarrow> bool" where
  "sf_is_required sf name = (map_of (sf_required sf) name = Some True)"

definition sf_Clone :: "(string list \<Rightarrow> string list) \<Rightarrow> schema_factory \<Rightarrow> schema_factory" where
  "sf_Clone ord sf = fold (\<lambda>k new. case map_of (sf_fields sf) k of None \<Rightarrow> new
       | Some v \<Rightarrow> (let
           new = new\<lparr>sf_fields := map_put k v (sf_fields new),
             sf_required := map_put k (sf_is_required sf k) (sf_required new)\<rparr>
         in case map_of (sf_transforms sf) k of
              Some transforms \<Rightarrow> new\<lparr>sf_transforms := map_put k transforms (sf_transforms new)\<rparr>
            | None \<Rightarrow> new))
     (visit_keys ord (sf_fields sf)) NewSchemaFactory"

text \<open>
  The assertion \<open>schema.(interface{ Required() })\<close> asks for a method \<open>Required\<close> without results.
  The method of that name of every schema of the library returns the schema, so no schema has it;
  the same holds for \<open>Optional\<close>. The result is the schema after the call, None when the assertion
  fails.
\<close>

definition call_void_Required :: "schema \<Rightarrow> schema option" where
  "call_void_Required s = None"

definition call_void_Optional :: "schema \<Rightarrow> schema option" where
  "call_void_Optional s = None"

definition sf_field_schema :: "schema_factory \<Rightarrow> string \<Rightarrow> schema \<Rightarrow> schema" where
  "sf_field_schema sf name s = (let
       s = (case map_of (sf_transforms sf) name of
              Some transforms \<Rightarrow> if length transforms > 0
                then TransformS (fold Transform_Add transforms (Transform_new s)) else s
            | None \<Rightarrow> s)
     in if sf_is_required sf name
        then (case call_void_Required s of Some s' \<Rightarrow> s' | None \<Rightarrow> s)
        else (case call_void_Optional s of Some s' \<Rightarrow> s' | None \<Rightarrow> s))"

definition sf_Build :: "(string list \<Rightarrow> string list) \<Rightarrow> schema_factory \<Rightarrow> schema object_schema option" where
  "sf_Build ord sf = Object_Fields
     (map (\<lambda>name. (name, sf_field_schema sf name (the (map_of (sf_fields sf) name)))) (visit_keys ord (sf_fields sf)))
     Object_new"

section \<open>Mixins and entities\<close>

type_synonym schema_mixin = "schema object_schema \<Rightarrow> schema object_schema option"

abbreviation "required_time \<equiv> DateTimeS (DateTime_Required DateTime_new)"
abbreviation "optional_time \<equiv> DateTimeS (DateTime_Optional DateTime_new)"
abbreviation "required_string \<equiv> StringS (String_Required String_new)"
abbreviation "optional_string \<equiv> StringS (String_Optional String_new)"
abbreviation "required_bool \<equiv> BoolS (Bool_Required Bool_new)"

definition TimestampsMixin :: schema_mixin where
  "TimestampsMixin = Object_Fields [(''createdAt'', required_time), (''updatedAt'', required_time),
     (''deletedAt'', optional_time)]"

definition AuditMixin :: schema_mixin where
  "AuditMixin = Object_Fields [(''createdBy'', required_string), (''updatedBy'', required_string),
     (''version'', NumberS (Number_Required (Number_Min (FFin 0) Number_new)))]"

definition SoftDeleteMixin :: schema_mixin where
  "SoftDeleteMixin = Object_Fields [(''isDeleted'', required_bool), (''deletedAt'', optional_time),
     (''deletedBy'', optional_string)]"

definition SEOMixin :: "go_lib \<Rightarrow> unicode_tables \<Rightarrow> schema_mixin" where
  "SEOMixin L U = Object_Fields [
     (''slug'', TransformS (Transform_Add (Lowercase U) (Transform_new
        (StringS (String_Required (String_Pattern L ''^[a-z0-9-]+$'' String_new)))))),
     (''metaTitle'', StringS (String_Optional (String_MaxLength 60 String_new))),
     (''metaDescription'', StringS (String_Optional (String_MaxLength 160 String_new))),
     (''keywords'', ArrayS (Array_Optional (Array_Items (StringS String_new) Array_new)))]"

fun applyMixins :: "schema object_schema \<Rightarrow> schema_mixin list \<Rightarrow> schema object_schema option" where
  "applyMixins s [] = Some s"
| "applyMixins s (mixin # mixins) = (case mixin s of None \<Rightarrow> None | Some s \<Rightarrow> applyMixins s mixins)"

definition entity_fields :: "go_lib \<Rightarrow> (string \<times> schema) list" where
  "entity_fields L = [(''id'', StringS (String_Required (String_Pattern L ''^[a-zA-Z0-9-]+$'' String_new))),
     (''createdAt'', required_time), (''updatedAt'', required_time)]"

definition NewBaseEntity :: "go_lib \<Rightarrow> schema object_schema option" where
  "NewBaseEntity L = Object_Fields (entity_fields L) Object_new"

text \<open>\<open>Extend\<close> does not read the base: it adds the same fields to a new object.\<close>

definition entity_Extend :: "go_lib \<Rightarrow> schema object_schema \<Rightarrow> schema object_schema option" where
  "entity_Extend L base = Object_Fields (entity_fields L) Object_new"

definition entity_AddField :: "string \<Rightarrow> schema \<Rightarrow> schema object_schema \<Rightarrow> schema object_schema option" where
  "entity_AddField name s e = Object_Field name s e"

section \<open>The schema of a configuration\<close>

record app_config =
  ac_Region :: string
  ac_RequirePhone :: bool
  ac_RequireAddress :: bool
  ac_MinPasswordLength :: int
  ac_MaxUploadSize :: int
  ac_AllowedCountries :: "string list"
  ac_Features :: "bool gmap"

definition ac_feature :: "app_config \<Rightarrow> string \<Rightarrow> bool" where
  "ac_feature config k = (map_of (ac_Features config) k = Some True)"

definition object_of :: "(string \<times> schema) list \<Rightarrow> schema" where
  "object_of fs = ObjectS (the (Object_Fields fs Object_new))"

text \<open>The fields in the order they are added.\<close>

definition region_fields :: "go_lib \<Rightarrow> string \<Rightarrow> (string \<times> schema) list" where
  "region_fields L region =
     (if region = ''US'' then
        [(''ssn'', StringS (String_Required (String_Pattern L (rx ''^!d{3}-!d{2}-!d{4}$'') String_new)))]
      else if region = ''EU'' then
        [(''gdprConsent'', required_bool), (''dataRetentionConsent'', required_bool)]
      else if region = ''UK'' then
        [(''niNumber'', StringS (String_Required (String_Pattern L (rx ''^[A-Z]{2}!d{6}[A-Z]$'') String_new)))]
      else [])"

definition buildDynamicUserSchema :: "go_lib \<Rightarrow> unicode_tables \<Rightarrow> (string \<times> string) list \<Rightarrow> app_config \<Rightarrow> schema object_schema option" where
  "buildDynamicUserSchema L U order config = Object_Fields (
     [(''email'', TransformS (Transform_Add (Lowercase U) (Transform_Add Trim (Transform_new
         (StringS (String_Required (String_Email L String_new))))))),
      (''password'', StringS (String_Required (String_MinLength (ac_MinPasswordLength config) String_new)))]
     @ region_fields L (ac_Region config)
     @ (if ac_RequirePhone config then
          [(''phone'', TransformS (Transform_Add (NormalizePhone U order (ac_Region config)) (Transform_new required_string)))]
        else [])
     @ (if ac_RequireAddress config then
          [(''country'', StringS (String_Required (String_Enum (ac_AllowedCountries config) String_new))),
           (''address'', object_of [(''line1'', required_string), (''line2'', optional_string),
              (''city'', required_string), (''postalCode'', required_string)])]
        else [])
     @ (if ac_feature config ''2FA'' then
          [(''twoFactorEnabled'', required_bool),
           (''twoFactorMethod'', StringS (String_Optional (String_Enum [''sms'', ''email'', ''app''] String_new)))]
        else [])
     @ (if ac_feature config ''ProfilePicture'' then
          [(''profilePicture'', object_of [(''url'', optional_string),
              (''size'', NumberS (Number_Optional (Number_Max (f_of_int (ac_MaxUploadSize config)) Number_new)))])]
        else [])) Object_new"

section \<open>What the factory builds\<close>

lemma put_field_parts:
  "ob_fields (ob_put_field name f r s) = map_put name f (ob_fields s)"
  "ob_requiredFields (ob_put_field name f r s)
     = (if r then map_put name True (ob_requiredFields s) else ob_requiredFields s)"
  by (cases s; simp)+

lemma put_field_swap:
  assumes "wf_map (ob_fields s)" and "wf_map (ob_requiredFields s)" and "m \<noteq> n"
  shows "ob_put_field m f r (ob_put_field n g q s) = ob_put_field n g q (ob_put_field m f r s)"
proof (cases s)
  case (ObjectSchema b fs rs al vs as)
  with assms show ?thesis by (simp add: gomap.put_swap)
qed

lemma put_field_wf:
  assumes "wf_map (ob_fields s)" and "wf_map (ob_requiredFields s)"
  shows "wf_map (ob_fields (ob_put_field n f r s)) \<and> wf_map (ob_requiredFields (ob_put_field n f r s))"
  using assms by (auto simp: put_field_parts)

definition plain_field :: "string \<times> schema \<Rightarrow> bool" where
  "plain_field p = (case snd p of DependentS _ \<Rightarrow> False | _ \<Rightarrow> True)"

lemma Object_Fields_fold:
  "Object_Fields ps s = (if list_all plain_field ps
     then Some (fold (\<lambda>(n, f). ob_put_field n f (IsRequired f)) ps s) else None)"
proof (induction ps arbitrary: s)
  case (Cons p ps)
  then show ?case by (cases p; cases "snd p") (auto simp: Object_Field_def plain_field_def)
qed simp

lemma fold_put_field_swap:
  assumes "wf_map (ob_fields s)" and "wf_map (ob_requiredFields s)" and "n \<notin> fst ` set ps"
  shows "fold (\<lambda>(n, f). ob_put_field n f (IsRequired f)) ps (ob_put_field n f r s)
    = ob_put_field n f r (fold (\<lambda>(n, f). ob_put_field n f (IsRequired f)) ps s)"
  using assms
proof (induction ps arbitrary: s)
  case (Cons p ps)
  obtain m g where p: "p = (m, g)" by (cases p)
  with Cons.prems have "m \<noteq> n" by auto
  with Cons.prems have "ob_put_field m g (IsRequired g) (ob_put_field n f r s)
      = ob_put_field n f r (ob_put_field m g (IsRequired g) s)"
    by (intro put_field_swap)
  with Cons.IH [of "ob_put_field m g (IsRequired g) s"] put_field_wf [OF Cons.prems(1,2)] Cons.prems(3)
  show ?case by (simp add: p)
qed simp

text \<open>Fields with different names can be added in any order.\<close>

lemma fold_put_field_perm:
  assumes "mset ps = mset qs" and "distinct (map fst ps)" and "wf_map (ob_fields s)" and "wf_map (ob_requiredFields s)"
  shows "fold (\<lambda>(n, f). ob_put_field n f (IsRequired f)) ps s
    = fold (\<lambda>(n, f). ob_put_field n f (IsRequired f)) qs s"
  using assms
proof (induction ps arbitrary: qs s)
  case (Cons p ps)
  then obtain q1 q2 where qs: "qs = q1 @ p # q2"
    by (metis list.set_intros(1) mset_eq_setD split_list)
  obtain n f where p: "p = (n, f)" by (cases p)
  have rest: "mset ps = mset (q1 @ q2)" using Cons.prems(1) by (simp add: qs)
  then have "set ps = set (q1 @ q2)" by (rule mset_eq_setD)
  then have "n \<notin> fst ` set q1" using Cons.prems(2) by (auto simp: p)
  then have "fold (\<lambda>(n, f). ob_put_field n f (IsRequired f)) qs s
      = fold (\<lambda>(n, f). ob_put_field n f (IsRequired f)) (q1 @ q2) (ob_put_field n f (IsRequired f) s)"
    using fold_put_field_swap [OF Cons.prems(3,4), of n q1 f "IsRequired f"] by (simp add: qs p)
  also have "\<dots> = fold (\<lambda>(n, f). ob_put_field n f (IsRequired f)) ps (ob_put_field n f (IsRequired f) s)"
    using Cons.IH [OF rest] Cons.prems(2) put_field_wf [OF Cons.prems(3,4), of n f "IsRequired f"] by simp
  finally show ?case by (simp add: p)
qed simp

lemma Object_Fields_perm:
  assumes "mset ps = mset qs" and "distinct (map fst ps)"
  shows "Object_Fields ps Object_new = Object_Fields qs Object_new"
proof -
  have "list_all plain_field ps = list_all plain_field qs"
    using mset_eq_setD [OF assms(1)] by (simp add: list_all_iff)
  moreover have "fold (\<lambda>(n, f). ob_put_field n f (IsRequired f)) ps Object_new
    = fold (\<lambda>(n, f). ob_put_field n f (IsRequired f)) qs Object_new"
    using assms by (rule fold_put_field_perm) (simp_all add: Object_new_def)
  ultimately show ?thesis by (simp add: Object_Fields_fold)
qed

lemma mset_visit_keys: "mset (visit_keys ord m) = mset (map_keys m)"
  by (simp add: visit_keys_def Let_def)

theorem Build_any_order:
  assumes "wf_map (sf_fields sf)"
  shows "sf_Build ord sf = sf_Build ord' sf"
  unfolding sf_Build_def
proof (rule Object_Fields_perm)
  let ?f = "\<lambda>name. (name, sf_field_schema sf name (the (map_of (sf_fields sf) name)))"
  show "mset (map ?f (visit_keys ord (sf_fields sf))) = mset (map ?f (visit_keys ord' (sf_fields sf)))"
    by (simp only: mset_map mset_visit_keys)
  have "distinct (visit_keys ord (sf_fields sf))"
    using wf_map_distinct [OF assms] mset_visit_keys by (metis mset_eq_imp_distinct_iff)
  then show "distinct (map fst (map ?f (visit_keys ord (sf_fields sf))))" by (simp add: comp_def)
qed

lemma sf_field_schema_eq:
  "sf_field_schema sf name s = (case map_of (sf_transforms sf) name of
     Some transforms \<Rightarrow> if length transforms > 0
       then TransformS (fold Transform_Add transforms (Transform_new s)) else s
   | None \<Rightarrow> s)"
  by (cases "sf_is_required sf name")
    (simp_all add: sf_field_schema_def call_void_Required_def call_void_Optional_def Let_def)

text \<open>The flags do not matter: a field is required only when its schema says so.\<close>

theorem Build_ignores_required: "sf_Build ord (sf\<lparr>sf_required := r\<rparr>) = sf_Build ord sf"
  by (simp add: sf_Build_def sf_field_schema_eq)

text \<open>A field that replaces one with transformers gets them too.\<close>

theorem AddField_keeps_transforms:
  "sf_field_schema (sf_AddField n s r (sf_AddFieldWithTransform n s' r' (t # ts) sf)) n s
     = TransformS (fold Transform_Add (t # ts) (Transform_new s))"
  by (simp add: sf_field_schema_eq sf_AddField_def sf_AddFieldWithTransform_def)

text \<open>A clone builds the same object.\<close>

definition clone_step :: "schema_factory \<Rightarrow> string \<Rightarrow> schema_factory \<Rightarrow> schema_factory" where
  "clone_step sf k new = (case map_of (sf_fields sf) k of None \<Rightarrow> new
       | Some v \<Rightarrow> (let
           new = new\<lparr>sf_fields := map_put k v (sf_fields new),
             sf_required := map_put k (sf_is_required sf k) (sf_required new)\<rparr>
         in case map_of (sf_transforms sf) k of
              Some transforms \<Rightarrow> new\<lparr>sf_transforms := map_put k transforms (sf_transforms new)\<rparr>
            | None \<Rightarrow> new))"

lemma clone_step_fields:
  "map_of (sf_fields (fold (clone_step sf) ks new)) k
     = (if k \<in> set ks \<and> map_of (sf_fields sf) k \<noteq> None then map_of (sf_fields sf) k else map_of (sf_fields new) k)"
  by (induction ks arbitrary: new) (auto simp: clone_step_def Let_def split: option.splits)

lemma clone_step_transforms:
  "map_of (sf_transforms (fold (clone_step sf) ks new)) k
     = (if k \<in> set ks \<and> map_of (sf_fields sf) k \<noteq> None \<and> map_of (sf_transforms sf) k \<noteq> None
        then map_of (sf_transforms sf) k else map_of (sf_transforms new) k)"
  by (induction ks arbitrary: new) (auto simp: clone_step_def Let_def split: option.splits)

lemma clone_step_wf: "wf_map (sf_fields new) \<Longrightarrow> wf_map (sf_fields (fold (clone_step sf) ks new))"
  by (rule fold_invariant_all) (auto simp: clone_step_def Let_def intro: wf_map_put split: option.splits)

lemma Clone_fold: "sf_Clone ord sf = fold (clone_step sf) (visit_keys ord (sf_fields sf)) NewSchemaFactory"
  by (simp add: sf_Clone_def clone_step_def [abs_def])

theorem Build_Clone:
  assumes "wf_map (sf_fields sf)"
  shows "sf_Build ord (sf_Clone ord' sf) = sf_Build ord sf"
proof -
  have keys: "k \<in> set (visit_keys o' (sf_fields sf)) \<longleftrightarrow> map_of (sf_fields sf) k \<noteq> None" for k o'
    using mset_eq_setD [OF mset_visit_keys [of o' "sf_fields sf"]] by (auto simp: map_of_eq_None_iff)
  have "map_of (sf_fields (sf_Clone ord' sf)) = map_of (sf_fields sf)"
    by (auto simp: fun_eq_iff Clone_fold clone_step_fields keys NewSchemaFactory_def)
  moreover have "wf_map (sf_fields (sf_Clone ord' sf))"
    by (simp add: Clone_fold clone_step_wf NewSchemaFactory_def)
  ultimately have fields: "sf_fields (sf_Clone ord' sf) = sf_fields sf"
    using assms by (rule_tac wf_map_eqI)
  have "sf_field_schema (sf_Clone ord' sf) k s = sf_field_schema sf k s"
    if "k \<in> set (visit_keys ord (sf_fields sf))" for k s
    using that unfolding keys [of k ord]
    by (auto simp: sf_field_schema_eq Clone_fold clone_step_transforms keys NewSchemaFactory_def)
  then show ?thesis
    unfolding sf_Build_def fields by (metis (mono_tags, lifting) map_eq_conv)
qed

end
