(* ===== verification/Spec2Isabelle.thy ===== *)
theory Spec2Isabelle
  imports CompileObject QueryCache Iterate QuerySchema SchemaDiff JsonExport TransformProps Phone Async
    TokenizerProps PacketBuffer AtomEnabledProps MicroserviceProps RegistrationProps SchemaFactory
begin

text \<open>
  queryfy: validation, transformation and querying of dynamic data in Go.

  \<^bold>\<open>The program.\<close> A client builds a schema with the constructors and chained methods of
  \<open>builders/\<close>, and validates a value decoded from JSON or any Go value (\<open>queryfy.go\<close>,
  \<open>validator.go\<close>). A schema's \<open>Validate\<close> walks the value and adds field errors to a
  \<open>ValidationContext\<close> (\<open>context.go\<close>, \<open>errors.go\<close>), which carries the current path, the mode
  (strict or loose), the errors and the transformations. \<open>ValidateAndTransform\<close> also returns a new
  value. \<open>Compile\<close> (\<open>compile.go\<close>) turns a schema into a list of checks. Package \<open>query/\<close> evaluates
  path queries such as \<open>items[0].price\<close> or \<open>items[*].price\<close> over such values, with a lexer, a
  parser, an executor and a cache of parsed queries; \<open>iterate.go\<close> runs callbacks and schemas over
  the matches. \<open>builders/walk.go\<close>, \<open>equality.go\<close> and \<open>diff.go\<close> inspect schemas, \<open>builders/jsonschema\<close>
  converts them from and to JSON Schema documents, and \<open>builders/transformers\<close> is a library of
  transformers.

  \<^bold>\<open>The theories\<close>, in the order they build on each other:
  \<^item> \<open>Prelude\<close>: strings as lists of bytes, the parts of \<open>strconv\<close>, \<open>strings\<close> and \<open>unicode\<close> used; Go
    maps as sorted association lists. \<open>GoFloat\<close>, \<open>GoFloatText\<close>: \<open>float64\<close> as exact rationals with
    NaN, infinities and negative zero, with correct rounding, and its text forms
    (\<open>strconv.ParseFloat\<close>, \<open>fmt.Sscanf\<close>, \<open>%v\<close>). \<open>GoValue\<close>: what an \<open>interface{}\<close> holds.
  \<^item> \<open>Errors\<close>, \<open>ValidationCtx\<close>: \<open>errors.go\<close>, \<open>context.go\<close> and \<open>types.go\<close>. \<open>SchemaBase\<close>: \<open>schema.go\<close> and
    the contract of a schema. \<open>Validator\<close>: \<open>validator.go\<close>.
  \<^item> \<open>StringSchema\<close> (with \<open>formats.go\<close>), \<open>NumberSchema\<close> (with \<open>bool.go\<close>, \<open>custom.go\<close>),
    \<open>DateTimeSchema\<close>, \<open>ObjectSchema\<close>, \<open>ArraySchema\<close>, \<open>Composite\<close> (with \<open>transform.go\<close>),
    \<open>Dependent\<close>: the files of \<open>builders/\<close> of these names. A schema that holds others is a
    datatype over the type of what it holds. \<open>Compile\<close>: \<open>compile.go\<close>.
  \<^item> \<open>SchemaTree\<close>: the recursive type of all schemas and, for each, its interface value (the methods
    the code calls through Go interfaces) and its specification. \<open>Builders\<close>: the operations that
    inspect schemas held by others, and \<open>Compile\<close> itself. \<open>Queryfy\<close>: the entry points.
  \<^item> \<open>Acceptance\<close>, \<open>CompileProps\<close>: what schemas accept, and what compiling preserves. \<open>CompileObject\<close>:
    \<open>compileObject\<close> and \<open>compileArray\<close>, which \<open>Compile\<close> does not reach for object and array schemas,
    since these are transformable and are delegated to. \<open>Async\<close>: the
    asynchronous passes of \<open>queryfy.go\<close>, \<open>object.go\<close>, \<open>array.go\<close> and \<open>transform.go\<close>.
  \<^item> \<open>QueryLexer\<close>, \<open>QueryParser\<close>, \<open>QueryExec\<close>, \<open>QueryCache\<close>: the files of \<open>query/\<close>. \<open>Iterate\<close>:
    \<open>iterate.go\<close>. \<open>QuerySchema\<close>: queries on values that a schema accepts.
  \<^item> \<open>Walk\<close>, \<open>Equality\<close>, \<open>SchemaDiff\<close>: \<open>walk.go\<close>, \<open>equality.go\<close>, \<open>diff.go\<close>. \<open>JsonImport\<close>, \<open>JsonExport\<close>:
    \<open>jsonschema.go\<close> and \<open>export.go\<close>.
  \<^item> \<open>GoText\<close>: UTF-8 and the functions of \<open>strings\<close> on characters. \<open>Transformers\<close>: \<open>common.go\<close>,
    \<open>string.go\<close>, \<open>number.go\<close> and \<open>date.go\<close> of \<open>builders/transformers\<close>; \<open>Phone\<close>: \<open>phone.go\<close>, with the
    fragment of regular expressions it uses. \<open>TransformProps\<close>: transformers and schemas together.
  \<^item> \<open>Swar\<close>, \<open>SuperJson\<close>: the JSON parser \<open>superjsonic/prototype/superjsonic_multi\<close>, a prototype that
    stands apart from the library: the operations on eight bytes in a word, and the parser with its
    interchangeable scans. \<open>SuperJsonScan\<close>: the scans agree. \<open>SuperJsonGrammar\<close>, \<open>SuperJsonComplete\<close>:
    the parser and the grammar of JSON. \<open>SuperJsonProps\<close>, \<open>SuperJsonPool\<close>: its properties, and the pool. \<open>Tokenizer\<close>,
    \<open>TokenizerProps\<close>: the flat tokenizers of \<open>superjsonic_stress\<close> and \<open>superjsonic_stress_optimized\<close>, and
    what they do on JSON and on other texts; \<open>PacketBuffer\<close>: the buffer of \<open>superjsonic_stress\<close>.
    \<open>AtomEnhanced\<close>, \<open>AtomEnabled\<close> and the theories \<open>Props\<close> of both: the two earlier versions of the parser
    with atoms in \<open>superjsonic_atomenabled\<close>, whose definitions begin with \<open>e_\<close> and \<open>a_\<close>.
  \<^item> Of the programs under \<open>examples/\<close>, which use the library: \<open>ExampleValidators\<close>, the validators of
    \<open>custom-validators\<close>; \<open>MicroserviceUs\<close> and \<open>MicroserviceAr\<close>, the two user services under
    \<open>microservice\<close> with their HTTP handlers, and \<open>MicroserviceProps\<close>, what they keep; \<open>RegistrationDb\<close>
    and \<open>RegistrationProps\<close>, the cache, the rate limiter and the transaction of \<open>database-validation\<close>;
    \<open>SchemaFactory\<close>, the factory of \<open>schema-composition\<close>.

  \<^bold>\<open>How state and effects are modelled.\<close> The context is a record that every \<open>Validate\<close> takes and
  returns; the \<open>error\<close> result of \<open>Validate\<close> is nil in every schema of the library and is left
  out, and so are the branches that would pass it on. Builder methods return the updated schema;
  two variables that point to one schema, one of them later modified, are outside the model.
  Panics of builders and of the query executor are values. The iteration order of Go maps is
  arbitrary: an argument \<open>e_order\<close> gives, at each point, an order of the keys, and every statement
  holds for each such argument. The engines of the standard library the code only calls
  (\<open>regexp\<close>, parsing and formatting of \<open>time.Time\<close>, the clock) are the record \<open>go_lib\<close>, of which
  nothing is assumed; so are SHA-256, the marshalling of JSON, \<open>math.Pow\<close>, time zones and the tables
  of \<open>unicode\<close> above U+007F, arguments of the definitions that need them. Validators and
  transformers supplied by the client are arbitrary functions. An asynchronous run numbers the
  questions it asks of its validators and of the Go context, which may answer differently each
  time; a panic there, in \<open>Diff\<close>, \<open>Truncate\<close>, \<open>StartOfDay\<close> and \<open>EndOfDay\<close> is None. The marker that
  the JSON import writes into a document for a nullable type is a flag that is passed on.

  \<^bold>\<open>What the properties show.\<close> Each schema has a report, the multiset of errors and transformations
  it adds at a path in a mode, and a transformable one a result. The locale \<open>schema_contract\<close>
  derives from this one law what every client relies on; it is interpreted for all schemas in
  \<open>Queryfy\<close>. On it rest: what a context keeps, that map orders do not matter, the outcome of
  transformation, that the asynchronous run comes after the synchronous one, and that it validates
  the elements of an array once more, after they have been transformed. The properties of
  \<open>Acceptance\<close> characterise what each kind of schema accepts, and with them \<open>QuerySchema\<close> shows that
  query results have been checked. Those of \<open>CompileProps\<close> and
  \<open>CompileObject\<close> relate compiled schemas to their source and show where they differ. For the query language: the lexer ends and loses nothing, parsing
  inverts printing, execution is selection; for the cache, a step relation over interleaved calls,
  its invariant and its transparency; then iteration. The inspection of schemas: walking visits
  the tree, what \<open>Equal\<close> sees and does not see, when \<open>Diff\<close> is empty and how it turns around, and that
  importing inverts exporting but for the required flag of the schema itself. Transformers: chains, bounds, and the shape of phone numbers. For the JSON parser, the
  locale \<open>simd\<close> states what a scan needs of the word operations and is interpreted on both
  implementations; from it follow that the configurations agree and that all recognise the grammar
  (that of RFC 8259 with the laxer strings of the scans), with the tokens it assigns, the
  faithfulness of tokens and atoms, and that a parse panics only on input that ends in a comma. The flat tokenizers give
  the same tokens on JSON; on texts where their loop makes no progress they do not return, which a
  step relation on positions describes exactly. Of the two earlier parsers, the second is shown to be
  the one of \<open>superjsonic_multi\<close> with its default configuration; the first takes all that the later
  ones take, its cache of atoms shows in nothing, and what it does wrong is proved of it. Of the examples: the requests of the Argentine
  user service keep emails and documents unique (the locale \<open>request_store\<close> carries the invariant
  over all requests), the rate limiter is the sliding window over its log, the Luhn test finds the
  common errors, and brackets are matched as the grammar of brackets says. The
  properties of kind error state behaviour that the findings of the manifest describe.

  \<^bold>\<open>Bounds.\<close> The lexer terminates by the rest of its input, the parser by its remaining tokens, the
  executor by the path, the matcher of \<open>Phone\<close> by text and items, schemas and values by their
  structure. Fuel is used in three places: the items of a pattern are bounded by its length, since
  each consumes a character, the search for the decimal point of a float by 400 steps, more
  than its exponents span, and the JSON parsers take two units for each byte and two more, which
  \<open>Parse_terminates\<close> and \<open>a_Parse_terminates\<close> show to be enough. Machine
  integers wrap or saturate where the code depends on it (\<open>f_to_int64\<close>, \<open>go_atoi\<close>).

  \<^bold>\<open>Not modelled.\<close> \<open>ObjectSchema.String\<close>, which only prints; the locks of the
  cache and of the format registry; struct fields promoted from embedded structs, and the sharing
  that lets \<open>reflect.DeepEqual\<close> stop early; nil pointers of types with a \<open>String\<close> method. Under
  \<open>examples/\<close>, the demonstrations, which build schemas, call the library and print; the schemas the
  two user services validate with, which are arguments of their handlers; the validators that
  print amounts, and \<open>net.ParseIP\<close>. Under \<open>superjsonic/\<close>, which the library does not import, the
  benchmarks, the generators of test data and the versions of the parser that are test files.
\<close>

end
